(* ===== verification/Prelude.thy ===== *)
theory Prelude
  imports Main "HOL-Library.Word"
begin

unbundle bit_operations_syntax

text \<open>
  What the components of the model share: the names of the machine types, the exceptions
  the code throws as values, the two ways an operation is sequenced (with and without a
  state that survives the exception), and the conversion between the bytes of a buffer and
  the characters of a \<open>std::string\<close>.
\<close>

section \<open>Machine types\<close>

type_synonym u8 = "8 word"
type_synonym u16 = "16 word"
type_synonym u32 = "32 word"
type_synonym u64 = "64 word"
type_synonym i32 = "32 word"
type_synonym bytes = "u8 list"

named_theorems res_simps \<open>sequencing of results, unfolded in every component proof\<close>
named_theorems byte_simps \<open>bytes, strings and fixed-width integers\<close>

section \<open>Exceptions\<close>

text \<open>
  The exceptions thrown under \<open>src/\<close>, with the message of the \<open>throw\<close> where it
  has no run-time argument. \<open>Undefined\<close> is no exception of the code: it stands for
  undefined behaviour (a null pointer read, a read of memory that was never written), which
  no handler can catch.
\<close>

datatype exn =
    Runtime_error string
  | Invalid_argument string
  | Out_of_range string
  | Bad_any_cast
  | Std_exception
  | Undefined string

fun is_undefined :: "exn \<Rightarrow> bool" where
  "is_undefined (Undefined _) = True"
| "is_undefined _ = False"

type_synonym 'a res = "exn + 'a"

section \<open>Sequencing\<close>

text \<open>
  \<open>res_bind m f\<close> runs \<open>f\<close> on the value of \<open>m\<close>, or passes the exception on.
\<close>

definition res_bind :: "'a res \<Rightarrow> ('a \<Rightarrow> 'b res) \<Rightarrow> 'b res" where
  "res_bind m f = (case m of Inl e \<Rightarrow> Inl e | Inr a \<Rightarrow> f a)"

lemma res_bind_Inl [simp, res_simps]: "res_bind (Inl e) f = Inl e"
  by (simp add: res_bind_def)

lemma res_bind_Inr [simp, res_simps]: "res_bind (Inr a) f = f a"
  by (simp add: res_bind_def)

lemma res_bind_eq_Inr: "res_bind m f = Inr b \<longleftrightarrow> (\<exists>a. m = Inr a \<and> f a = Inr b)"
  by (cases m) auto

lemma res_bind_eq_Inl: "res_bind m f = Inl e \<longleftrightarrow> m = Inl e \<or> (\<exists>a. m = Inr a \<and> f a = Inl e)"
  by (cases m) auto

lemma res_bind_cong [fundef_cong]:
  "m = m' \<Longrightarrow> (\<And>a. m' = Inr a \<Longrightarrow> f a = f' a) \<Longrightarrow> res_bind m f = res_bind m' f'"
  by (cases m') (auto simp: res_bind_def)

lemma res_bind_assoc: "res_bind (res_bind m f) g = res_bind m (\<lambda>x. res_bind (f x) g)"
  by (cases m) auto

text \<open>A guard of the code that throws.\<close>

definition throw_if :: "bool \<Rightarrow> exn \<Rightarrow> unit res" where
  "throw_if b e = (if b then Inl e else Inr ())"

lemma throw_if_simps [simp, res_simps]:
  "throw_if True e = Inl e" "throw_if False e = Inr ()"
  by (simp_all add: throw_if_def)

lemma throw_if_eq_Inr [simp]: "throw_if b e = Inr u \<longleftrightarrow> \<not> b"
  by (simp add: throw_if_def)

lemma throw_if_eq_Inl [simp]: "throw_if b e = Inl e' \<longleftrightarrow> b \<and> e' = e"
  by (auto simp add: throw_if_def)

text \<open>A computation that may throw but has no undefined behaviour.\<close>

definition no_ub :: "'a res \<Rightarrow> bool" where
  "no_ub m \<longleftrightarrow> (\<forall>e. m = Inl e \<longrightarrow> \<not> is_undefined e)"

lemma no_ub_simps [simp]: "no_ub (Inr a)" "no_ub (Inl e) \<longleftrightarrow> \<not> is_undefined e"
  by (simp_all add: no_ub_def)

lemma no_ub_bind: "no_ub m \<Longrightarrow> (\<And>a. m = Inr a \<Longrightarrow> no_ub (f a)) \<Longrightarrow> no_ub (res_bind m f)"
  by (cases m) auto

text \<open>
  Where the object that throws lives on (a session that has sent bytes, a state machine
  that has moved on), the exception comes with the state it leaves.
\<close>

type_synonym ('s, 'a) eff = "'s \<Rightarrow> 'a res \<times> 's"

definition eret :: "'a \<Rightarrow> ('s, 'a) eff" where
  "eret a s = (Inr a, s)"

definition ethrow :: "exn \<Rightarrow> ('s, 'a) eff" where
  "ethrow e s = (Inl e, s)"

definition ebind :: "('s, 'a) eff \<Rightarrow> ('a \<Rightarrow> ('s, 'b) eff) \<Rightarrow> ('s, 'b) eff" where
  "ebind m f s = (case m s of (Inl e, s') \<Rightarrow> (Inl e, s') | (Inr a, s') \<Rightarrow> f a s')"

definition emodify :: "('s \<Rightarrow> 's) \<Rightarrow> ('s, unit) eff" where
  "emodify f s = (Inr (), f s)"

definition elift :: "'a res \<Rightarrow> ('s, 'a) eff" where
  "elift r s = (r, s)"

lemma eff_simps [simp, res_simps]:
  "eret a s = (Inr a, s)"
  "ethrow e s = (Inl e, s)"
  "emodify f s = (Inr (), f s)"
  "elift r s = (r, s)"
  by (simp_all add: eret_def ethrow_def emodify_def elift_def)

lemma ebind_simps [res_simps]:
  "m s = (Inl e, s') \<Longrightarrow> ebind m f s = (Inl e, s')"
  "m s = (Inr a, s') \<Longrightarrow> ebind m f s = f a s'"
  by (simp_all add: ebind_def)

lemma ebind_lits [simp, res_simps]:
  "ebind (eret a) f s = f a s"
  "ebind (ethrow e) f s = (Inl e, s)"
  "ebind (emodify g) h s = h () (g s)"
  "ebind (elift (Inr a)) f s = f a s"
  "ebind (elift (Inl e)) f s = (Inl e, s)"
  by (simp_all add: ebind_def)

text \<open>A loop over a list; an exception ends it.\<close>

fun each :: "('a \<Rightarrow> ('w, unit) eff) \<Rightarrow> 'a list \<Rightarrow> ('w, unit) eff" where
  "each f [] = eret ()"
| "each f (x # xs) = ebind (f x) (\<lambda>_. each f xs)"

text \<open>\<open>try\<close> and \<open>catch (const std::exception &)\<close>; undefined behaviour is not caught.\<close>

definition etry :: "('s, 'a) eff \<Rightarrow> (exn \<Rightarrow> ('s, 'a) eff) \<Rightarrow> ('s, 'a) eff" where
  "etry m h s = (case m s of
     (Inl e, s) \<Rightarrow> if is_undefined e then (Inl e, s) else h e s
   | (Inr a, s) \<Rightarrow> (Inr a, s))"

fun what :: "exn \<Rightarrow> string" where
  "what (Runtime_error s) = s"
| "what (Invalid_argument s) = s"
| "what (Out_of_range s) = s"
| "what Bad_any_cast = ''bad any_cast''"
| "what Std_exception = ''std::exception''"
| "what (Undefined s) = s"

text \<open>An operation keeps a property of the state, whether it returns or throws.\<close>

named_theorems keeps \<open>operations that keep a property of the state\<close>

definition keeps_inv :: "('s \<Rightarrow> bool) \<Rightarrow> ('s, 'a) eff \<Rightarrow> bool" where
  "keeps_inv P m \<longleftrightarrow> (\<forall>s. P s \<longrightarrow> P (snd (m s)))"

lemma keeps_invI: "(\<And>s. P s \<Longrightarrow> P (snd (m s))) \<Longrightarrow> keeps_inv P m"
  by (simp add: keeps_inv_def)

lemma keeps_inv_snd: "keeps_inv P m \<Longrightarrow> P s \<Longrightarrow> P (snd (m s))"
  by (simp add: keeps_inv_def)

lemma keeps_invD: "keeps_inv P m \<Longrightarrow> P s \<Longrightarrow> m s = (r, s') \<Longrightarrow> P s'"
  unfolding keeps_inv_def by (metis snd_conv)

lemma keeps_inv_basic [keeps]:
  "keeps_inv P (eret a)" "keeps_inv P (ethrow e)" "keeps_inv P (elift v)"
  "(\<And>s. P s \<Longrightarrow> P (f s)) \<Longrightarrow> keeps_inv P (emodify f)"
  "keeps_inv P (\<lambda>s. (g s, s))"
  by (simp_all add: keeps_inv_def)

lemma keeps_inv_ebind [keeps]:
  "keeps_inv P m \<Longrightarrow> (\<And>a. keeps_inv P (f a)) \<Longrightarrow> keeps_inv P (ebind m f)"
  by (simp add: keeps_inv_def ebind_def split: prod.splits sum.splits) (metis snd_conv)

lemma keeps_inv_etry [keeps]:
  assumes "keeps_inv P m" "\<And>e. keeps_inv P (h e)"
  shows "keeps_inv P (etry m h)"
proof (rule keeps_invI)
  fix s assume "P s"
  then have "P (snd (m s))" "P t \<Longrightarrow> P (snd (h e t))" for e t
    using assms by (simp_all add: keeps_inv_def)
  then show "P (snd (etry m h s))"
    by (cases "m s"; cases "fst (m s)") (auto simp: etry_def)
qed

lemma keeps_inv_if [keeps]:
  "(b \<Longrightarrow> keeps_inv P m) \<Longrightarrow> (\<not> b \<Longrightarrow> keeps_inv P n) \<Longrightarrow> keeps_inv P (if b then m else n)"
  by simp

section \<open>Bounds of the machine types\<close>

lemma unat_u8_less: "unat (b :: u8) < 256"
  by (rule order_less_le_trans [OF unsigned_less]) simp

lemma unat_u16_less: "unat (x :: u16) < 65536"
  by (rule order_less_le_trans [OF unsigned_less]) simp

lemma unat_u32_less: "unat (x :: u32) < 4294967296"
  by (rule order_less_le_trans [OF unsigned_less]) simp

lemma unat_u64_less: "unat (x :: u64) < 18446744073709551616"
  by (rule order_less_le_trans [OF unsigned_less]) simp

lemmas unat_bounds = unat_u8_less unat_u16_less unat_u32_less unat_u64_less

lemma unat_ucast_u8 [simp, byte_simps]:
  "unat (ucast (b :: u8) :: u16) = unat b"
  "unat (ucast (b :: u8) :: u32) = unat b"
  "unat (ucast (b :: u8) :: u64) = unat b"
  using unat_u8_less [of b] by (simp_all add: unsigned_ucast_eq take_bit_nat_eq_self)

text \<open>Bits of a byte that was shifted into place.\<close>

lemma bit_u8_beyond [simp]:
  "\<not> bit (b :: u8) (8 + n)" "\<not> bit (b :: u8) (16 + n)" "\<not> bit (b :: u8) (24 + n)"
  by (auto dest: bit_imp_le_length)

lemma bit_shift_lost: "bit v n \<Longrightarrow> \<not> bit v (k + (n - k)) \<Longrightarrow> n < k"
  by (cases "k \<le> n") auto

text \<open>The nibbles of a byte as numbers.\<close>

lemma unat_take_bit_u8: "unat (take_bit n (h :: u8)) = unat h mod 2 ^ n"
proof -
  have "unat (take_bit n h) = take_bit n (unat h)"
    by (rule unsigned_take_bit_eq)
  then show ?thesis by (simp add: take_bit_eq_mod)
qed

lemma unat_drop_bit_u8: "unat (drop_bit n (h :: u8)) = unat h div 2 ^ n"
proof -
  have "take_bit 8 (unat h) = unat h"
    using unat_u8_less [of h] by (simp add: take_bit_nat_eq_self)
  moreover have "unat (drop_bit n h) = drop_bit n (take_bit 8 (unat h))"
    using unsigned_drop_bit_eq [of n h] by simp
  ultimately show ?thesis by (simp add: drop_bit_eq_div)
qed

lemma u8_masks:
  "(h :: u8) AND 0x0F = take_bit 4 h" "(h :: u8) AND 0x07 = take_bit 3 h"
  "(h :: u8) AND 0x1F = take_bit 5 h" "(h :: u8) AND 0x7F = take_bit 7 h"
proof -
  have "(0x0F :: u8) = mask 4" "(0x07 :: u8) = mask 3" "(0x1F :: u8) = mask 5" "(0x7F :: u8) = mask 7"
    by (simp_all add: mask_eq_exp_minus_1)
  then show "h AND 0x0F = take_bit 4 h" "h AND 0x07 = take_bit 3 h" "h AND 0x1F = take_bit 5 h"
    "h AND 0x7F = take_bit 7 h"
    by (simp_all only: take_bit_eq_mask)
qed

lemma u8_high_bit: "drop_bit 4 (h :: u8) AND 8 = 0 \<longleftrightarrow> \<not> bit h 7"
proof -
  have "(8 :: u8) = 2 ^ 3" by simp
  then show ?thesis
    by (simp only: and_exp_eq_0_iff_not_bit) (simp add: bit_drop_bit_eq)
qed

lemma bit_7_u8: "bit (h :: u8) 7 \<longleftrightarrow> 128 \<le> unat h"
proof -
  have "bit h 7 \<longleftrightarrow> bit (unat h) 7"
    by (simp add: bit_unsigned_iff)
  also have "\<dots> \<longleftrightarrow> 128 \<le> unat h"
    using unat_u8_less [of h] by (simp add: bit_iff_odd) (auto simp: div_nat_eqI odd_iff_mod_2_eq_one)
  finally show ?thesis .
qed

section \<open>Strings and bytes\<close>

text \<open>
  A \<open>std::string\<close> is a list of \<open>char\<close>; a buffer holds bytes. A \<open>char\<close> and
  the byte it is read from have the same bits.
\<close>

definition char_of_byte :: "u8 \<Rightarrow> char" where
  "char_of_byte b = char_of (unat b)"

definition byte_of_char :: "char \<Rightarrow> u8" where
  "byte_of_char c = of_char c"

definition str_of_bytes :: "bytes \<Rightarrow> string" where
  "str_of_bytes bs = map char_of_byte bs"

definition bytes_of_str :: "string \<Rightarrow> bytes" where
  "bytes_of_str s = map byte_of_char s"

lemma byte_of_char_of_byte [simp]: "byte_of_char (char_of_byte b) = b"
proof -
  have "unat b mod 256 = unat b"
    using unat_u8_less [of b] by simp
  moreover have "(of_char (char_of (unat b)) :: u8) = of_nat (of_char (char_of (unat b)))"
    by (simp only: of_nat_of_char)
  ultimately show ?thesis
    by (simp add: byte_of_char_def char_of_byte_def)
qed

lemma unat_byte_of_char [simp]: "unat (byte_of_char c) = of_char c"
proof -
  have "(of_char c :: u8) = of_nat (of_char c)"
    by (simp only: of_nat_of_char)
  then show ?thesis
    using nat_of_char_less_256 [of c] by (simp add: byte_of_char_def unat_of_nat)
qed

lemma char_of_byte_of_char [simp]: "char_of_byte (byte_of_char c) = c"
  by (simp add: char_of_byte_def)

lemma str_of_bytes_of_str [simp, byte_simps]: "str_of_bytes (bytes_of_str s) = s"
  by (simp add: str_of_bytes_def bytes_of_str_def comp_def)

lemma bytes_of_str_of_bytes [simp, byte_simps]: "bytes_of_str (str_of_bytes bs) = bs"
  by (simp add: str_of_bytes_def bytes_of_str_def comp_def)

lemma length_bytes_of_str [simp, byte_simps]: "length (bytes_of_str s) = length s"
  by (simp add: bytes_of_str_def)

lemma length_str_of_bytes [simp, byte_simps]: "length (str_of_bytes bs) = length bs"
  by (simp add: str_of_bytes_def)

lemma bytes_of_str_append [simp, byte_simps]:
  "bytes_of_str (s @ t) = bytes_of_str s @ bytes_of_str t"
  by (simp add: bytes_of_str_def)

lemma str_of_bytes_append [simp, byte_simps]:
  "str_of_bytes (s @ t) = str_of_bytes s @ str_of_bytes t"
  by (simp add: str_of_bytes_def)

lemma bytes_of_str_Nil [simp, byte_simps]: "bytes_of_str s = [] \<longleftrightarrow> s = []"
  by (simp add: bytes_of_str_def)

lemma bytes_of_str_eval [simp]:
  "bytes_of_str [] = []"
  "bytes_of_str (c # s) = byte_of_char c # bytes_of_str s"
  by (simp_all add: bytes_of_str_def)

lemma str_of_bytes_eval [simp]:
  "str_of_bytes [] = []"
  "str_of_bytes (b # bs) = char_of_byte b # str_of_bytes bs"
  by (simp_all add: str_of_bytes_def)

text \<open>\<open>c_str()\<close> and \<open>strlen\<close> see a string up to its first NUL.\<close>

definition nul :: char where
  "nul = CHR 0x00"

definition c_str :: "string \<Rightarrow> string" where
  "c_str s = takeWhile (\<lambda>c. c \<noteq> nul) s"

lemma c_str_id: "nul \<notin> set s \<Longrightarrow> c_str s = s"
  by (auto simp: c_str_def takeWhile_eq_all_conv)

lemma nul_notin_c_str [simp]: "nul \<notin> set (c_str s)"
  by (auto simp: c_str_def dest: set_takeWhileD)

section \<open>Lists\<close>

lemma nth_append_drop: "i + n \<le> length xs \<Longrightarrow> take n (drop i xs) @ drop (i + n) xs = drop i xs"
  by (metis append_take_drop_id drop_drop add.commute)

lemma list4_exhaust:
  assumes "4 \<le> length xs"
  obtains a b c d ys where "xs = a # b # c # d # ys"
  using assms by (auto simp: numeral_eq_Suc Suc_le_length_iff)

section \<open>Binary logarithm\<close>

text \<open>The exponent of the largest power of 2 that is at most the number.\<close>

fun log2_of :: "nat \<Rightarrow> nat" where
  "log2_of n = (if n \<le> 1 then 0 else Suc (log2_of (n div 2)))"

declare log2_of.simps [simp del]

lemma log2_of_bounds: "0 < n \<Longrightarrow> 2 ^ log2_of n \<le> n \<and> n < 2 ^ Suc (log2_of n)"
proof (induction n rule: log2_of.induct)
  case (1 n)
  show ?case
  proof (cases "n \<le> 1")
    case True
    with 1 show ?thesis by (simp add: log2_of.simps [of n])
  next
    case False
    with 1 have "2 ^ log2_of (n div 2) \<le> n div 2 \<and> n div 2 < 2 ^ Suc (log2_of (n div 2))"
      by simp
    with False show ?thesis by (simp add: log2_of.simps [of n]) linarith
  qed
qed

lemma log2_of_less: "0 < n \<Longrightarrow> n < 2 ^ k \<Longrightarrow> log2_of n < k"
  using log2_of_bounds [of n] by (metis order_le_less_trans power_strict_increasing_iff one_less_numeral_iff semiring_norm(76))

end
