(* ===== verification/Byte_Order.thy ===== *)
theory Byte_Order
  imports Prelude
begin

text \<open>
  \<open>src/util/util.cpp\<close>: the loads and stores of big- and little-endian integers of 24 and
  32 bits, byte by byte as the code has them, and the network order of
  \<open>htons\<close>/\<open>htonl\<close>/\<open>ntohs\<close>/\<open>ntohl\<close> as the rest of the code uses it (always
  around a \<open>memcpy\<close>, so as the bytes that result). The interface that the packet
  formats rely on is the locale \<open>int_codec\<close>.
\<close>

section \<open>Loads\<close>

text \<open>
  The argument of a load is the memory from the pointer on; every caller has checked that
  it holds the 3 or 4 bytes that are read.
\<close>

definition load_le32 :: "bytes \<Rightarrow> u32" where
  "load_le32 p = push_bit 24 (ucast (p ! 3)) OR push_bit 16 (ucast (p ! 2))
     OR push_bit 8 (ucast (p ! 1)) OR ucast (p ! 0)"

definition load_be24 :: "bytes \<Rightarrow> u32" where
  "load_be24 p = push_bit 16 (ucast (p ! 0)) OR push_bit 8 (ucast (p ! 1)) OR ucast (p ! 2)"

definition load_be32 :: "bytes \<Rightarrow> u32" where
  "load_be32 p = push_bit 24 (ucast (p ! 0)) OR push_bit 16 (ucast (p ! 1))
     OR push_bit 8 (ucast (p ! 2)) OR ucast (p ! 3)"

section \<open>Stores\<close>

text \<open>A store gives the bytes that the code writes from the pointer on.\<close>

definition set_be24 :: "u32 \<Rightarrow> bytes" where
  "set_be24 v = [ucast (drop_bit 16 v), ucast (drop_bit 8 v), ucast v]"

definition set_be32 :: "u32 \<Rightarrow> bytes" where
  "set_be32 v = [ucast (drop_bit 24 v), ucast (drop_bit 16 v), ucast (drop_bit 8 v), ucast v]"

definition set_le32 :: "u32 \<Rightarrow> bytes" where
  "set_le32 v = [ucast v, ucast (drop_bit 8 v), ucast (drop_bit 16 v), ucast (drop_bit 24 v)]"

text \<open>\<open>ntohs\<close> of two bytes copied to a \<open>uint16_t\<close>, and back.\<close>

definition ntohs :: "bytes \<Rightarrow> u16" where
  "ntohs p = push_bit 8 (ucast (p ! 0)) OR ucast (p ! 1)"

definition htons :: "u16 \<Rightarrow> bytes" where
  "htons v = [ucast (drop_bit 8 v), ucast v]"

definition ntohl :: "bytes \<Rightarrow> u32" where
  "ntohl p = load_be32 p"

definition htonl :: "u32 \<Rightarrow> bytes" where
  "htonl v = set_be32 v"

section \<open>The interface of a fixed-width integer format\<close>

text \<open>
  What the packet formats use of an integer format: it has a fixed width, and reading at the
  place where a value was written gives the value back, whatever follows it. \<open>fits\<close>
  says which values the width holds (a 24-bit field holds no more than 24 bits of a
  \<open>uint32_t\<close>).
\<close>

locale int_codec =
  fixes enc :: "'v \<Rightarrow> bytes"
    and dec :: "bytes \<Rightarrow> 'v"
    and fits :: "'v \<Rightarrow> bool"
    and width :: nat
  assumes length_enc: "length (enc v) = width"
    and dec_enc: "fits v \<Longrightarrow> dec (enc v @ rest) = v"
begin

lemma dec_enc_exact: "fits v \<Longrightarrow> dec (enc v) = v"
  using dec_enc [of v "[]"] by simp

lemma dec_enc_at: "fits v \<Longrightarrow> length pre = n \<Longrightarrow> dec (drop n (pre @ enc v @ rest)) = v"
  using dec_enc [of v rest] by simp

lemma enc_inject: "fits v \<Longrightarrow> fits w \<Longrightarrow> enc v = enc w \<longleftrightarrow> v = w"
  by (metis dec_enc_exact)

lemma drop_enc: "drop width (enc v @ rest) = rest"
  by (simp add: length_enc)

lemma take_enc: "take width (enc v @ rest) = enc v"
  by (simp add: length_enc)

end

lemma load_be32_set: "load_be32 (set_be32 v @ rest) = v"
  by (simp add: load_be32_def set_be32_def, rule bit_word_eqI, auto simp: bit_simps dest: bit_shift_lost)

lemma load_le32_set: "load_le32 (set_le32 v @ rest) = v"
  by (simp add: load_le32_def set_le32_def, rule bit_word_eqI, auto simp: bit_simps dest: bit_shift_lost)

lemma load_be24_set_mod: "load_be24 (set_be24 v @ rest) = take_bit 24 v"
  by (simp add: load_be24_def set_be24_def, rule bit_word_eqI, auto simp: bit_simps dest: bit_shift_lost)

lemma ntohs_htons: "ntohs (htons v @ rest) = v"
  by (simp add: ntohs_def htons_def, rule bit_word_eqI, auto simp: bit_simps dest: bit_shift_lost)

lemma take_bit_24_eq: "unat v < 2 ^ 24 \<Longrightarrow> take_bit 24 (v :: u32) = v"
  by (simp add: word_unat_eq_iff unsigned_take_bit_eq take_bit_nat_eq_self)

interpretation be32: int_codec set_be32 load_be32 "\<lambda>_. True" 4
  by unfold_locales (simp_all add: load_be32_set, simp add: set_be32_def)

interpretation le32: int_codec set_le32 load_le32 "\<lambda>_. True" 4
  by unfold_locales (simp_all add: load_le32_set, simp add: set_le32_def)

interpretation be24: int_codec set_be24 load_be24 "\<lambda>v. unat v < 2 ^ 24" 3
  by unfold_locales (simp_all add: load_be24_set_mod take_bit_24_eq, simp add: set_be24_def)

interpretation net16: int_codec htons ntohs "\<lambda>_. True" 2
  by unfold_locales (simp_all add: ntohs_htons, simp add: htons_def)

lemmas codec_lengths [simp, byte_simps] =
  be32.length_enc le32.length_enc be24.length_enc net16.length_enc

section \<open>A load reads all of its bytes\<close>

lemma set_be32_load: "set_be32 (load_be32 [a, b, c, d]) = [a, b, c, d]"
  by (auto simp: load_be32_def set_be32_def bit_simps intro!: bit_word_eqI dest: bit_imp_le_length)

lemma set_le32_load: "set_le32 (load_le32 [a, b, c, d]) = [a, b, c, d]"
  by (auto simp: load_le32_def set_le32_def bit_simps intro!: bit_word_eqI dest: bit_imp_le_length)

lemma set_be24_load: "set_be24 (load_be24 [a, b, c]) = [a, b, c]"
  by (auto simp: load_be24_def set_be24_def bit_simps intro!: bit_word_eqI dest: bit_imp_le_length)

lemma htons_ntohs: "htons (ntohs [a, b]) = [a, b]"
  by (auto simp: ntohs_def htons_def bit_simps intro!: bit_word_eqI dest: bit_imp_le_length)

lemma load_be24_less: "unat (load_be24 p) < 2 ^ 24"
proof -
  have "take_bit 24 (load_be24 p) = load_be24 p"
    by (rule bit_word_eqI) (auto simp: load_be24_def bit_simps dest: bit_imp_le_length)
  then have "unat (load_be24 p) = take_bit 24 (unat (load_be24 p))"
    by (metis unsigned_take_bit_eq)
  then show ?thesis
    by (metis take_bit_nat_less_exp)
qed

text \<open>Only the bytes of the field are read.\<close>

lemma load_prefix:
  "4 \<le> length p \<Longrightarrow> load_be32 (p @ q) = load_be32 p"
  "4 \<le> length p \<Longrightarrow> load_le32 (p @ q) = load_le32 p"
  "3 \<le> length p \<Longrightarrow> load_be24 (p @ q) = load_be24 p"
  "2 \<le> length p \<Longrightarrow> ntohs (p @ q) = ntohs p"
  by (auto simp: load_be32_def load_le32_def load_be24_def ntohs_def nth_append)

end
