(* ===== verification/Flat_Buffer.thy ===== *)
theory Flat_Buffer
  imports Byte_Order
begin

text \<open>
  \<open>include/network/flat_buffer.h\<close>: the byte queue under every parser. The heap block
  behind \<open>data_\<close> is a function from offsets to bytes, \<open>None\<close> where nothing has been
  written since \<open>new char[n]\<close>, so that a read of memory the code never wrote shows up as
  \<open>Undefined\<close> and a write past the block as an offset outside \<open>capacity_\<close>. Sizes
  are natural numbers: a \<open>size_t\<close> sum of two sizes of heap blocks does not overflow.
  The assertions of the code are kept true by the invariant \<open>fb_ok\<close>.

  The abstract view of a buffer is \<open>unread\<close>, the bytes between the two indices; the
  interface the parsers rely on is the locale \<open>byte_queue\<close>.
\<close>

section \<open>Memory\<close>

type_synonym memory = "nat \<Rightarrow> u8 option"

definition new_memory :: memory where
  "new_memory = (\<lambda>_. None)"

definition mem_write :: "nat \<Rightarrow> bytes \<Rightarrow> memory \<Rightarrow> memory" where
  "mem_write d bs m = (\<lambda>i. if d \<le> i \<and> i < d + length bs then Some (bs ! (i - d)) else m i)"

definition mem_move :: "nat \<Rightarrow> nat \<Rightarrow> nat \<Rightarrow> memory \<Rightarrow> memory" where
  "mem_move d s n m = (\<lambda>i. if d \<le> i \<and> i < d + n then m (s + (i - d)) else m i)"

definition mem_copy :: "nat \<Rightarrow> memory \<Rightarrow> nat \<Rightarrow> nat \<Rightarrow> memory \<Rightarrow> memory" where
  "mem_copy d src s n m = (\<lambda>i. if d \<le> i \<and> i < d + n then src (s + (i - d)) else m i)"

definition mem_read :: "memory \<Rightarrow> nat \<Rightarrow> nat \<Rightarrow> bytes res" where
  "mem_read m i n = (case those (map m [i..<i + n]) of
     None \<Rightarrow> Inl (Undefined ''read of memory that was not written'')
   | Some bs \<Rightarrow> Inr bs)"

section \<open>The buffer\<close>

record flat_buffer =
  fb_data :: memory
  capacity :: nat
  read_index :: nat
  write_index :: nat
  capacity_temp :: nat
  read_index_temp :: nat
  write_index_temp :: nat

definition kInitialSize :: nat where
  "kInitialSize = 1024"

definition create :: "nat \<Rightarrow> flat_buffer" where
  "create initial_size = \<lparr>fb_data = new_memory, capacity = initial_size, read_index = 0,
     write_index = 0, capacity_temp = 0, read_index_temp = 0, write_index_temp = 0\<rparr>"

definition copy_buffer :: "flat_buffer \<Rightarrow> flat_buffer" where
  "copy_buffer other = (create (capacity other))\<lparr>
     fb_data := mem_copy 0 (fb_data other) 0 (capacity other) new_memory,
     read_index := read_index other, write_index := write_index other\<rparr>"

text \<open>
  The assignments keep the snapshot of the buffer that is assigned to. A buffer that was moved from is left
  with its pointer (\<open>None\<close> is null), capacity and indices; the constructor leaves it the members of
  the new object, which had no value yet and are an argument here.
\<close>

definition assign_buffer :: "flat_buffer \<Rightarrow> flat_buffer \<Rightarrow> flat_buffer" where
  "assign_buffer b other = b\<lparr>capacity := capacity other, read_index := read_index other,
     write_index := write_index other, fb_data := mem_copy 0 (fb_data other) 0 (capacity other) new_memory\<rparr>"

type_synonym moved_from = "memory option \<times> nat \<times> nat \<times> nat"

definition move_buffer :: "nat \<times> nat \<times> nat \<Rightarrow> flat_buffer \<Rightarrow> flat_buffer \<times> moved_from" where
  "move_buffer fresh other =
     ((create (capacity other))\<lparr>fb_data := fb_data other, read_index := read_index other,
        write_index := write_index other\<rparr>, (None, fresh))"

definition move_assign :: "flat_buffer \<Rightarrow> flat_buffer \<Rightarrow> flat_buffer \<times> moved_from" where
  "move_assign b other =
     (b\<lparr>fb_data := fb_data other, capacity := capacity other, read_index := read_index other,
        write_index := write_index other\<rparr>, (None, capacity b, read_index b, write_index b))"

definition unread_length :: "flat_buffer \<Rightarrow> nat" where
  "unread_length b = write_index b - read_index b"

definition writable_bytes :: "flat_buffer \<Rightarrow> nat" where
  "writable_bytes b = capacity b - write_index b"

definition require_length_or_fail :: "nat \<Rightarrow> flat_buffer \<Rightarrow> unit res" where
  "require_length_or_fail len b = throw_if (len > unread_length b)
     (Runtime_error ''flat_buffer does not contain the required length'')"

text \<open>The bytes \<open>data()[i], ..., data()[i + n - 1]\<close> that a caller reads.\<close>

definition data_bytes :: "nat \<Rightarrow> nat \<Rightarrow> flat_buffer \<Rightarrow> bytes res" where
  "data_bytes i n b = mem_read (fb_data b) (read_index b + i) n"

subsection \<open>Making room\<close>

definition move_unread_to_begin :: "flat_buffer \<Rightarrow> flat_buffer" where
  "move_unread_to_begin b =
     (let unconsumed_length = unread_length b in
      b\<lparr>fb_data := mem_move 0 (read_index b) unconsumed_length (fb_data b),
        read_index := 0, write_index := unconsumed_length\<rparr>)"

definition grow :: "nat \<Rightarrow> flat_buffer \<Rightarrow> flat_buffer" where
  "grow len b =
     (let available_bytes = writable_bytes b in
      if available_bytes < len then
        let unconsumed_length = unread_length b in
        b\<lparr>fb_data := mem_copy 0 (fb_data b) (read_index b) unconsumed_length new_memory,
          read_index := 0, write_index := unconsumed_length,
          capacity := capacity b * 2 + len\<rparr>
      else move_unread_to_begin b)"

definition ensure_writable_bytes :: "nat \<Rightarrow> flat_buffer \<Rightarrow> flat_buffer" where
  "ensure_writable_bytes n b = (if writable_bytes b < n then grow n b else b)"

definition buf_write :: "bytes \<Rightarrow> flat_buffer \<Rightarrow> flat_buffer" where
  "buf_write data b =
     (let b = ensure_writable_bytes (length data) b in
      b\<lparr>fb_data := mem_write (write_index b) data (fb_data b),
        write_index := write_index b + length data\<rparr>)"

subsection \<open>Consuming\<close>

definition consume_or_fail :: "nat \<Rightarrow> flat_buffer \<Rightarrow> flat_buffer res" where
  "consume_or_fail len b =
     (if len \<le> unread_length b then Inr (b\<lparr>read_index := read_index b + len\<rparr>)
      else Inl (Runtime_error ''flat_buffer cannot consume''))"

definition reset :: "flat_buffer \<Rightarrow> flat_buffer" where
  "reset b = b\<lparr>read_index := 0, write_index := 0\<rparr>"

definition safe_consume :: "nat \<Rightarrow> flat_buffer \<Rightarrow> flat_buffer" where
  "safe_consume len b =
     (if len \<le> unread_length b then b\<lparr>read_index := read_index b + len\<rparr> else reset b)"

definition unread_bytes :: "nat \<Rightarrow> flat_buffer \<Rightarrow> flat_buffer" where
  "unread_bytes len b =
     (if len > read_index b then b\<lparr>read_index := 0\<rparr>
      else b\<lparr>read_index := read_index b - len\<rparr>)"

subsection \<open>Reading integers and strings\<close>

definition peek_uint8 :: "flat_buffer \<Rightarrow> u8 res" where
  "peek_uint8 b =
     (if unread_length b < 1 then Inl (Runtime_error ''not enough data'')
      else res_bind (data_bytes 0 1 b) (\<lambda>p. Inr (p ! 0)))"

definition read_uint8 :: "flat_buffer \<Rightarrow> (u8 \<times> flat_buffer) res" where
  "read_uint8 b = res_bind (peek_uint8 b) (\<lambda>x.
     res_bind (consume_or_fail 1 b) (\<lambda>b'. Inr (x, b')))"

definition peek_uint16 :: "flat_buffer \<Rightarrow> u16 res" where
  "peek_uint16 b =
     (if unread_length b < 2 then Inl (Runtime_error ''not enough data'')
      else res_bind (data_bytes 0 2 b) (\<lambda>p. Inr (ntohs p)))"

definition read_uint16 :: "flat_buffer \<Rightarrow> (u16 \<times> flat_buffer) res" where
  "read_uint16 b = res_bind (peek_uint16 b) (\<lambda>x.
     res_bind (consume_or_fail 2 b) (\<lambda>b'. Inr (x, b')))"

definition peek_uint32 :: "flat_buffer \<Rightarrow> u32 res" where
  "peek_uint32 b =
     (if unread_length b < 4 then Inl (Runtime_error ''not enough data'')
      else res_bind (data_bytes 0 4 b) (\<lambda>p. Inr (ntohl p)))"

definition read_uint32 :: "flat_buffer \<Rightarrow> (u32 \<times> flat_buffer) res" where
  "read_uint32 b = res_bind (peek_uint32 b) (\<lambda>x.
     res_bind (consume_or_fail 4 b) (\<lambda>b'. Inr (x, b')))"

definition peek_uint64 :: "flat_buffer \<Rightarrow> (u64 \<times> flat_buffer) res" where
  "peek_uint64 b =
     (if unread_length b < 8 then Inl (Runtime_error ''not enough data'')
      else res_bind (peek_uint32 b) (\<lambda>first.
           res_bind (consume_or_fail 4 b) (\<lambda>b1.
           res_bind (peek_uint32 b1) (\<lambda>second.
           Inr (push_bit 32 (ucast first) OR ucast second, unread_bytes 4 b1)))))"

definition read_uint64 :: "flat_buffer \<Rightarrow> (u64 \<times> flat_buffer) res" where
  "read_uint64 b = res_bind (peek_uint64 b) (\<lambda>(x, b1).
     res_bind (consume_or_fail 8 b1) (\<lambda>b'. Inr (x, b')))"

definition to_string :: "nat \<Rightarrow> flat_buffer \<Rightarrow> (string \<times> flat_buffer) res" where
  "to_string len b =
     (if len > unread_length b then Inl (Runtime_error ''not enough data'')
      else res_bind (data_bytes 0 len b) (\<lambda>p.
           res_bind (consume_or_fail len b) (\<lambda>b'. Inr (str_of_bytes p, b'))))"

subsection \<open>Snapshots\<close>

definition capture_snapshot :: "flat_buffer \<Rightarrow> flat_buffer" where
  "capture_snapshot b = b\<lparr>capacity_temp := capacity b, read_index_temp := read_index b,
     write_index_temp := write_index b\<rparr>"

definition restore_snapshot :: "flat_buffer \<Rightarrow> flat_buffer" where
  "restore_snapshot b = b\<lparr>capacity := capacity_temp b, read_index := read_index_temp b,
     write_index := write_index_temp b\<rparr>"

subsection \<open>The session's reads\<close>

definition kMaxCacheSize :: nat where
  "kMaxCacheSize = 4 * 1024 * 1024"

definition socket_read_length :: "nat \<Rightarrow> flat_buffer \<Rightarrow> (nat \<times> flat_buffer) res" where
  "socket_read_length n b =
     (if writable_bytes b \<ge> n then Inr (n, b)
      else let b1 = move_unread_to_begin b in
        if writable_bytes b1 \<ge> n then Inr (n, b1)
        else if capacity b1 > kMaxCacheSize
          then Inl (Runtime_error ''session read buffer has reached limit, client is sending too much data'')
        else Inr (n, grow n b1))"

definition socket_consume :: "nat \<Rightarrow> flat_buffer \<Rightarrow> flat_buffer res" where
  "socket_consume n b =
     (if n > writable_bytes b then Inl (Runtime_error ''session write_index is out of range'')
      else Inr (b\<lparr>write_index := write_index b + n\<rparr>))"

subsection \<open>Prepending\<close>

text \<open>
  In the last case the code computes \<open>capacity_ << 1 + size\<close>, which is a shift by
  \<open>1 + size\<close>; a shift of a 64-bit value by 64 or more is undefined. The unread length
  is read after \<open>read_index_\<close> was set to 0.
\<close>

definition prepend :: "bytes \<Rightarrow> flat_buffer \<Rightarrow> flat_buffer res" where
  "prepend data b =
     (let size = length data in
      if size = 0 then Inr b
      else if read_index b \<ge> size then
        (let r = read_index b - size in
         Inr (b\<lparr>read_index := r, fb_data := mem_write r data (fb_data b)\<rparr>))
      else if writable_bytes b \<ge> size then
        (let m = mem_move (read_index b + size) (read_index b) (unread_length b) (fb_data b) in
         Inr (b\<lparr>fb_data := mem_write (read_index b) data m,
           write_index := write_index b + size\<rparr>))
      else if writable_bytes b \<ge> size - read_index b then
        (let offset = size - read_index b;
             m = mem_move (read_index b + offset) (read_index b) (unread_length b) (fb_data b) in
         Inr (b\<lparr>read_index := 0, write_index := write_index b + offset,
           fb_data := mem_write 0 data m\<rparr>))
      else if 1 + size \<ge> 64 then Inl (Undefined ''shift by the width of the type or more'')
      else
        (let new_capacity = (capacity b * 2 ^ (1 + size)) mod 2 ^ 64;
             temp = mem_copy size (fb_data b) (read_index b) (unread_length b)
                      (mem_write 0 data new_memory);
             b1 = b\<lparr>capacity := new_capacity, read_index := 0\<rparr> in
         Inr (b1\<lparr>write_index := size + unread_length b1, fb_data := temp\<rparr>)))"

section \<open>Invariant and abstraction\<close>

definition fb_ok :: "flat_buffer \<Rightarrow> bool" where
  "fb_ok b \<longleftrightarrow> read_index b \<le> write_index b \<and> write_index b \<le> capacity b
     \<and> (\<forall>i. read_index b \<le> i \<and> i < write_index b \<longrightarrow> fb_data b i \<noteq> None)
     \<and> (\<forall>i. fb_data b i \<noteq> None \<longrightarrow> i < capacity b)"

definition unread :: "flat_buffer \<Rightarrow> bytes" where
  "unread b = map (\<lambda>i. the (fb_data b i)) [read_index b..<write_index b]"

lemma length_unread [simp]: "length (unread b) = unread_length b"
  by (simp add: unread_def unread_length_def)

lemma nth_unread: "i < unread_length b \<Longrightarrow> unread b ! i = the (fb_data b (read_index b + i))"
  by (simp add: unread_def unread_length_def)

lemma unread_eqI:
  assumes "write_index c - read_index c = length xs"
    and "\<And>i. i < length xs \<Longrightarrow> the (fb_data c (read_index c + i)) = xs ! i"
  shows "unread c = xs"
  using assms by (intro nth_equalityI) (auto simp: nth_unread unread_length_def)

lemma those_Some: "(\<And>x. x \<in> set xs \<Longrightarrow> f x \<noteq> None) \<Longrightarrow> those (map f xs) = Some (map (\<lambda>x. the (f x)) xs)"
  by (induction xs) (auto split: option.splits)

lemma mem_read_unread:
  assumes "fb_ok b" "i + n \<le> unread_length b"
  shows "mem_read (fb_data b) (read_index b + i) n = Inr (take n (drop i (unread b)))"
proof -
  have "those (map (fb_data b) [read_index b + i..<read_index b + i + n])
      = Some (map (\<lambda>j. the (fb_data b j)) [read_index b + i..<read_index b + i + n])"
    using assms by (intro those_Some) (auto simp: fb_ok_def unread_length_def)
  moreover have "read_index b + i + n \<le> write_index b"
    using assms by (auto simp: fb_ok_def unread_length_def)
  then have "map (\<lambda>j. the (fb_data b j)) [read_index b + i..<read_index b + i + n]
      = take n (drop i (unread b))"
    by (simp add: unread_def drop_map take_map take_upt)
  ultimately show ?thesis
    by (simp add: mem_read_def)
qed

lemma data_bytes_ok:
  "fb_ok b \<Longrightarrow> i + n \<le> unread_length b \<Longrightarrow> data_bytes i n b = Inr (take n (drop i (unread b)))"
  by (simp add: data_bytes_def mem_read_unread)

subsection \<open>Every operation keeps the invariant and has its effect on the unread bytes\<close>

lemma fb_ok_create [simp]: "fb_ok (create n)"
  by (simp add: fb_ok_def create_def new_memory_def)

lemma unread_create [simp]: "unread (create n) = []"
  by (simp add: unread_def create_def)

lemma fb_ok_copy: "fb_ok b \<Longrightarrow> fb_ok (copy_buffer b)"
  by (auto simp: fb_ok_def copy_buffer_def create_def mem_copy_def new_memory_def split: if_splits)

lemma unread_copy: "fb_ok b \<Longrightarrow> unread (copy_buffer b) = unread b"
  by (auto simp: fb_ok_def copy_buffer_def create_def mem_copy_def unread_def)

lemma assign_buffer_ok:
  "fb_ok other \<Longrightarrow> fb_ok (assign_buffer b other) \<and> unread (assign_buffer b other) = unread other"
  by (auto simp: fb_ok_def assign_buffer_def mem_copy_def new_memory_def unread_def split: if_splits)

lemma moved_buffer_ok:
  assumes "fb_ok other"
  shows "fb_ok (fst (move_buffer fresh other)) \<and> unread (fst (move_buffer fresh other)) = unread other"
    and "fb_ok (fst (move_assign b other)) \<and> unread (fst (move_assign b other)) = unread other"
  using assms by (simp_all add: fb_ok_def move_buffer_def move_assign_def create_def unread_def)

lemma consume_or_fail_ok:
  "fb_ok b \<Longrightarrow> consume_or_fail n b = Inr b' \<Longrightarrow> fb_ok b' \<and> unread b' = drop n (unread b)"
  by (auto simp: consume_or_fail_def fb_ok_def unread_def unread_length_def drop_map
      split: if_splits)

lemma consume_or_fail_iff: "consume_or_fail n b = Inl e \<longleftrightarrow>
    unread_length b < n \<and> e = Runtime_error ''flat_buffer cannot consume''"
  by (auto simp: consume_or_fail_def)

lemma consume_or_fail_Inr: "n \<le> unread_length b \<Longrightarrow>
    consume_or_fail n b = Inr (b\<lparr>read_index := read_index b + n\<rparr>)"
  by (simp add: consume_or_fail_def)

lemma fb_ok_move [simp]: "fb_ok b \<Longrightarrow> fb_ok (move_unread_to_begin b)"
  by (auto simp: fb_ok_def move_unread_to_begin_def unread_length_def mem_move_def Let_def
      split: if_splits)

lemma unread_move [simp]: "fb_ok b \<Longrightarrow> unread (move_unread_to_begin b) = unread b"
  by (rule unread_eqI) (auto simp: fb_ok_def move_unread_to_begin_def unread_length_def mem_move_def
      nth_unread Let_def)

lemma writable_move: "fb_ok b \<Longrightarrow> writable_bytes (move_unread_to_begin b) = capacity b - unread_length b"
  by (simp add: writable_bytes_def move_unread_to_begin_def Let_def)

lemma fb_ok_grow [simp]: "fb_ok b \<Longrightarrow> fb_ok (grow n b)"
  by (auto simp: grow_def Let_def)
    (auto simp: fb_ok_def unread_length_def mem_copy_def new_memory_def split: if_splits)

lemma unread_grow [simp]: "fb_ok b \<Longrightarrow> unread (grow n b) = unread b"
  by (auto simp: grow_def Let_def)
    (rule unread_eqI, auto simp: fb_ok_def unread_length_def mem_copy_def nth_unread)

lemma writable_grow: "fb_ok b \<Longrightarrow> n \<le> writable_bytes (grow n b)"
  by (auto simp: grow_def Let_def writable_move)
    (auto simp: fb_ok_def writable_bytes_def unread_length_def)

lemma ensure_writable_ok:
  "fb_ok b \<Longrightarrow> fb_ok (ensure_writable_bytes n b) \<and> unread (ensure_writable_bytes n b) = unread b
     \<and> n \<le> writable_bytes (ensure_writable_bytes n b)"
  by (auto simp: ensure_writable_bytes_def writable_grow)

lemma write_in_place:
  assumes "fb_ok b" "length bs \<le> writable_bytes b"
    and "b' = b\<lparr>fb_data := mem_write (write_index b) bs (fb_data b),
          write_index := write_index b + length bs\<rparr>"
  shows "fb_ok b' \<and> unread b' = unread b @ bs"
proof
  show "fb_ok b'"
    using assms by (auto simp: fb_ok_def mem_write_def writable_bytes_def split: if_splits)
  show "unread b' = unread b @ bs"
  proof (rule unread_eqI)
    fix i assume "i < length (unread b @ bs)"
    then show "the (fb_data b' (read_index b' + i)) = (unread b @ bs) ! i"
      using assms by (auto simp: fb_ok_def nth_append nth_unread mem_write_def unread_length_def add.commute)
  qed (use assms in \<open>auto simp: fb_ok_def unread_length_def\<close>)
qed

lemma buf_write_ok:
  assumes "fb_ok b"
  shows "fb_ok (buf_write bs b) \<and> unread (buf_write bs b) = unread b @ bs"
  using ensure_writable_ok [OF assms, of "length bs"]
    write_in_place [OF _ _ refl, of "ensure_writable_bytes (length bs) b" bs]
  by (simp add: buf_write_def Let_def)

lemma fb_ok_write [simp]: "fb_ok b \<Longrightarrow> fb_ok (buf_write bs b)"
  by (simp add: buf_write_ok)

lemma unread_write [simp]: "fb_ok b \<Longrightarrow> unread (buf_write bs b) = unread b @ bs"
  by (simp add: buf_write_ok)

lemma safe_consume_ok:
  "fb_ok b \<Longrightarrow> fb_ok (safe_consume n b) \<and> unread (safe_consume n b) = drop n (unread b)"
  by (auto simp: safe_consume_def reset_def fb_ok_def unread_def unread_length_def drop_map)

lemma unread_bytes_back:
  "fb_ok b \<Longrightarrow> n \<le> unread_length b \<Longrightarrow>
     unread_bytes n (b\<lparr>read_index := read_index b + n\<rparr>) = b"
  by (simp add: unread_bytes_def)


subsection \<open>Reads, on the unread bytes\<close>

lemma data_bytes_front: "fb_ok b \<Longrightarrow> n \<le> unread_length b \<Longrightarrow> data_bytes 0 n b = Inr (take n (unread b))"
  by (simp add: data_bytes_ok)

lemma peek_uint8_eq: "fb_ok b \<Longrightarrow> peek_uint8 b =
    (if unread b = [] then Inl (Runtime_error ''not enough data'') else Inr (hd (unread b)))"
  by (cases "unread b") (auto simp: peek_uint8_def data_bytes_front simp flip: length_unread)

lemma peek_uint16_eq: "fb_ok b \<Longrightarrow> peek_uint16 b =
    (if length (unread b) < 2 then Inl (Runtime_error ''not enough data'')
     else Inr (ntohs (unread b)))"
  by (auto simp: peek_uint16_def data_bytes_front ntohs_def)

lemma peek_uint32_eq: "fb_ok b \<Longrightarrow> peek_uint32 b =
    (if length (unread b) < 4 then Inl (Runtime_error ''not enough data'')
     else Inr (load_be32 (unread b)))"
  by (auto simp: peek_uint32_def data_bytes_front ntohl_def load_be32_def)

text \<open>
  What a read that succeeds does to the buffer: it takes a prefix of the unread bytes. The
  rules are stated on the unread bytes as a list, which is how the parsers use them.
\<close>

definition takes :: "flat_buffer \<Rightarrow> bytes \<Rightarrow> flat_buffer \<Rightarrow> bool" where
  "takes b p b' \<longleftrightarrow> fb_ok b' \<and> unread b = p @ unread b'
     \<and> (\<exists>n. b' = b\<lparr>read_index := n\<rparr>)"

lemma takes_consume:
  assumes "fb_ok b" "n \<le> unread_length b"
  shows "takes b (take n (unread b)) (b\<lparr>read_index := read_index b + n\<rparr>)"
proof -
  have "consume_or_fail n b = Inr (b\<lparr>read_index := read_index b + n\<rparr>)"
    using assms by (simp add: consume_or_fail_def)
  from consume_or_fail_ok [OF assms(1) this] show ?thesis
    unfolding takes_def by (metis append_take_drop_id)
qed

lemma takes_refl: "fb_ok b \<Longrightarrow> takes b [] b"
  by (auto simp: takes_def intro: exI [of _ "read_index b"])

lemma takes_trans: "takes b p b1 \<Longrightarrow> takes b1 q b2 \<Longrightarrow> takes b (p @ q) b2"
  by (auto simp: takes_def)

lemma takes_ok: "takes b p b' \<Longrightarrow> fb_ok b'"
  by (simp add: takes_def)

lemma takes_unread: "takes b p b' \<Longrightarrow> unread b = p @ unread b'"
  by (simp add: takes_def)

lemma takes_drop: "takes b p b' \<Longrightarrow> unread b' = drop (length p) (unread b)"
  by (simp add: takes_def)

lemma takes_consume_Inr:
  "fb_ok b \<Longrightarrow> consume_or_fail n b = Inr b' \<Longrightarrow> takes b (take n (unread b)) b'"
  by (auto simp: consume_or_fail_def takes_consume split: if_splits)

lemma read_uint8_Inr:
  assumes "fb_ok b" "read_uint8 b = Inr (x, b')"
  shows "takes b [x] b'"
proof -
  from assms have ne: "unread b \<noteq> []" and x: "x = hd (unread b)"
    and c: "consume_or_fail 1 b = Inr b'"
    by (auto simp: read_uint8_def peek_uint8_eq res_bind_eq_Inr split: if_splits)
  from ne have "take 1 (unread b) = [hd (unread b)]"
    by (cases "unread b") auto
  with takes_consume_Inr [OF assms(1) c] x show ?thesis by simp
qed

lemma read_uint16_Inr:
  assumes "fb_ok b" "read_uint16 b = Inr (x, b')"
  shows "takes b (htons x) b'"
proof -
  from assms have len: "2 \<le> length (unread b)" and x: "x = ntohs (unread b)"
    and c: "consume_or_fail 2 b = Inr b'"
    by (auto simp: read_uint16_def peek_uint16_eq res_bind_eq_Inr split: if_splits)
  then obtain p q r where u: "unread b = p # q # r"
    by (auto simp: numeral_2_eq_2 Suc_le_length_iff simp del: length_unread)
  then have "htons x = take 2 (unread b)"
    using x htons_ntohs [of p q] by (simp add: ntohs_def)
  with takes_consume_Inr [OF assms(1) c] show ?thesis by simp
qed

lemma read_uint32_Inr:
  assumes "fb_ok b" "read_uint32 b = Inr (x, b')"
  shows "takes b (set_be32 x) b'"
proof -
  from assms have len: "4 \<le> length (unread b)" and x: "x = load_be32 (unread b)"
    and c: "consume_or_fail 4 b = Inr b'"
    by (auto simp: read_uint32_def peek_uint32_eq res_bind_eq_Inr split: if_splits)
  from len obtain p q r s t where u: "unread b = p # q # r # s # t"
    by (rule list4_exhaust)
  then have "set_be32 x = take 4 (unread b)"
    using x set_be32_load [of p q r s] by (simp add: load_be32_def)
  with takes_consume_Inr [OF assms(1) c] show ?thesis by simp
qed

lemma to_string_Inr:
  assumes "fb_ok b" "to_string n b = Inr (s, b')"
  shows "takes b (bytes_of_str s) b' \<and> length s = n"
proof -
  from assms have len: "n \<le> unread_length b" and s: "s = str_of_bytes (take n (unread b))"
    and c: "consume_or_fail n b = Inr b'"
    by (auto simp: to_string_def data_bytes_front res_bind_eq_Inr not_less split: if_splits)
  with takes_consume_Inr [OF assms(1) c] show ?thesis by simp
qed


lemma read_uint8_eq:
  "fb_ok b \<Longrightarrow> unread b = x # r \<Longrightarrow>
     read_uint8 b = Inr (x, b\<lparr>read_index := read_index b + 1\<rparr>)"
  by (simp add: read_uint8_def peek_uint8_eq consume_or_fail_def flip: length_unread)

lemma read_uint16_eq:
  "fb_ok b \<Longrightarrow> unread b = htons x @ r \<Longrightarrow>
     read_uint16 b = Inr (x, b\<lparr>read_index := read_index b + 2\<rparr>)"
  by (simp add: read_uint16_def peek_uint16_eq ntohs_htons consume_or_fail_def flip: length_unread)

lemma read_uint32_eq:
  "fb_ok b \<Longrightarrow> unread b = set_be32 x @ r \<Longrightarrow>
     read_uint32 b = Inr (x, b\<lparr>read_index := read_index b + 4\<rparr>)"
  by (simp add: read_uint32_def peek_uint32_eq load_be32_set consume_or_fail_def
      flip: length_unread)

lemma to_string_eq:
  "fb_ok b \<Longrightarrow> unread b = bytes_of_str s @ r \<Longrightarrow> length s = n \<Longrightarrow>
     to_string n b = Inr (s, b\<lparr>read_index := read_index b + n\<rparr>)"
  by (simp add: to_string_def data_bytes_front consume_or_fail_def flip: length_unread)

text \<open>
  \<open>peek_uint64\<close> consumes and puts back, so the buffer is as before; the two 32-bit halves
  are the 8 bytes in network order.
\<close>

definition set_be64 :: "u64 \<Rightarrow> bytes" where
  "set_be64 x = set_be32 (ucast (drop_bit 32 x)) @ set_be32 (ucast x)"

lemma length_set_be64 [simp]: "length (set_be64 x) = 8"
  by (simp add: set_be64_def)

lemma halves_be64: "push_bit 32 (ucast (ucast (drop_bit 32 x) :: u32)) OR ucast (ucast x :: u32) = (x :: u64)"
  by (rule bit_word_eqI) (auto simp: bit_simps dest: bit_shift_lost)

lemma halves_split:
  "ucast (drop_bit 32 (push_bit 32 (ucast a) OR ucast c :: u64)) = (a :: u32)"
  "ucast (push_bit 32 (ucast (a :: u32)) OR ucast c :: u64) = (c :: u32)"
  by (rule bit_word_eqI, auto simp: bit_simps dest: bit_imp_le_length)+

lemma set_be64_halves: "set_be64 (push_bit 32 (ucast a) OR ucast c) = set_be32 a @ set_be32 c"
  by (simp only: set_be64_def halves_split)

lemma peek_uint64_eq:
  assumes "fb_ok b" "unread b = set_be64 x @ r"
  shows "peek_uint64 b = Inr (x, b)"
proof -
  let ?hi = "ucast (drop_bit 32 x) :: u32" and ?b1 = "b\<lparr>read_index := read_index b + 4\<rparr>"
  have u: "unread b = set_be32 ?hi @ set_be32 (ucast x) @ r" and len: "8 \<le> unread_length b"
    using assms(2) by (simp_all add: set_be64_def flip: length_unread)
  have "takes b (take 4 (unread b)) ?b1"
    using takes_consume [of b 4] assms(1) len by simp
  then have b1: "fb_ok ?b1" "unread ?b1 = set_be32 (ucast x) @ r"
    using u by (auto simp: takes_def)
  then have "peek_uint32 ?b1 = Inr (ucast x)"
    using peek_uint32_eq [OF b1(1)] by (simp add: load_be32_set)
  moreover have "peek_uint32 b = Inr ?hi"
    using assms(1) u by (simp add: peek_uint32_eq load_be32_set)
  ultimately show ?thesis
    using len by (simp add: peek_uint64_def consume_or_fail_def unread_bytes_def halves_be64)
qed

lemma read_uint64_eq:
  assumes "fb_ok b" "unread b = set_be64 x @ r"
  shows "read_uint64 b = Inr (x, b\<lparr>read_index := read_index b + 8\<rparr>)"
proof -
  have "8 \<le> unread_length b"
    using assms(2) by (simp flip: length_unread)
  then show ?thesis
    by (simp add: read_uint64_def peek_uint64_eq [OF assms] consume_or_fail_def)
qed

lemma be64_front:
  assumes "8 \<le> length xs"
  shows "\<exists>y. xs = set_be64 y @ drop 8 xs"
proof -
  define p q where "p = take 4 xs" and "q = take 4 (drop 4 xs)"
  with assms obtain a1 a2 a3 a4 c1 c2 c3 c4 where
    pq: "p = [a1, a2, a3, a4]" "q = [c1, c2, c3, c4]"
    by (auto simp: numeral_eq_Suc Suc_le_length_iff)
  define y :: u64 where "y = push_bit 32 (ucast (load_be32 p)) OR ucast (load_be32 q)"
  have "set_be64 y = p @ q"
    using pq by (simp only: y_def set_be64_halves set_be32_load)
  then have "xs = set_be64 y @ drop 8 xs"
    using append_take_drop_id [of 4 "drop 4 xs"] by (simp add: p_def q_def)
  then show ?thesis by blast
qed

lemma read_uint64_Inr:
  assumes "fb_ok b" "read_uint64 b = Inr (x, b')"
  shows "takes b (set_be64 x) b'"
proof -
  from assms(2) have "8 \<le> length (unread b)"
    by (auto simp: read_uint64_def peek_uint64_def res_bind_eq_Inr split: if_splits)
  then obtain y where u: "unread b = set_be64 y @ drop 8 (unread b)"
    using be64_front by blast
  with assms have "x = y" "b' = b\<lparr>read_index := read_index b + 8\<rparr>"
    using read_uint64_eq [OF assms(1) u] by auto
  moreover have "take 8 (unread b) = set_be64 y"
    by (subst u) simp
  ultimately show ?thesis
    using takes_consume [OF assms(1), of 8] \<open>8 \<le> length (unread b)\<close> by simp
qed


subsection \<open>Snapshots, the session's reads, prepending\<close>

text \<open>
  A snapshot is restored exactly as long as nothing but consuming happened since it was
  taken.
\<close>

lemma snapshot_ok [simp]:
  "fb_ok (capture_snapshot b) = fb_ok b"
  "unread (capture_snapshot b) = unread b"
  by (simp_all add: fb_ok_def unread_def capture_snapshot_def)

lemma restore_after_consuming:
  "takes (capture_snapshot b) p b' \<Longrightarrow> restore_snapshot b' = capture_snapshot b"
  by (auto simp: takes_def capture_snapshot_def restore_snapshot_def)

lemma socket_read_length_Inr:
  assumes "fb_ok b" "socket_read_length n b = Inr (m, b')"
  shows "m = n \<and> fb_ok b' \<and> unread b' = unread b \<and> n \<le> writable_bytes b'"
  using assms writable_grow [of "move_unread_to_begin b" n]
  by (auto simp: socket_read_length_def Let_def split: if_splits)

lemma socket_read_length_capacity:
  assumes "socket_read_length n b = Inr (m, b')"
  shows "capacity b' \<le> max (capacity b) (2 * kMaxCacheSize + n)"
  using assms
  by (auto simp: socket_read_length_def Let_def grow_def move_unread_to_begin_def
      split: if_splits)

lemma socket_read_length_Inl:
  assumes "fb_ok b" "socket_read_length n b = Inl e"
  shows "kMaxCacheSize < capacity b \<and> capacity b < unread_length b + n"
  using assms
  by (auto simp: socket_read_length_def Let_def move_unread_to_begin_def writable_bytes_def
      split: if_splits)

text \<open>
  The bytes the socket layer stores at \<open>write_begin()\<close> before it calls
  \<open>socket_consume\<close> with their number.
\<close>

definition socket_receive :: "bytes \<Rightarrow> flat_buffer \<Rightarrow> flat_buffer res" where
  "socket_receive bs b =
     socket_consume (length bs) (b\<lparr>fb_data := mem_write (write_index b) bs (fb_data b)\<rparr>)"

lemma socket_receive_ok:
  assumes "fb_ok b" "length bs \<le> writable_bytes b"
  shows "\<exists>b'. socket_receive bs b = Inr b' \<and> fb_ok b' \<and> unread b' = unread b @ bs"
  using write_in_place [OF assms refl] assms(2)
  by (simp add: socket_receive_def socket_consume_def writable_bytes_def)

lemma prependedI:
  assumes "fb_ok b"
    and "\<And>i. i < length bs \<Longrightarrow> fb_data c (read_index c + i) = Some (bs ! i)"
    and "\<And>i. i < unread_length b \<Longrightarrow>
      fb_data c (read_index c + length bs + i) = fb_data b (read_index b + i)"
    and "write_index c = read_index c + length bs + unread_length b"
    and "write_index c \<le> capacity c" "\<And>i. fb_data c i \<noteq> None \<Longrightarrow> i < capacity c"
  shows "fb_ok c \<and> unread c = bs @ unread b"
proof
  have cell: "the (fb_data c (read_index c + i)) = (bs @ unread b) ! i
      \<and> fb_data c (read_index c + i) \<noteq> None" if "i < length bs + unread_length b" for i
  proof (cases "i < length bs")
    case False
    define k where "k = i - length bs"
    with False that have "i = length bs + k" "k < unread_length b"
      by auto
    then have "fb_data c (read_index c + i) = fb_data b (read_index b + k)"
      using assms(3) [of k] by (simp add: ac_simps)
    moreover have "fb_data b (read_index b + k) \<noteq> None"
      using assms(1) \<open>k < unread_length b\<close> by (simp add: fb_ok_def unread_length_def)
    ultimately show ?thesis
      using \<open>i = length bs + k\<close> \<open>k < unread_length b\<close> by (simp add: nth_unread)
  qed (use assms(2) in \<open>simp add: nth_append\<close>)
  have "fb_data c i \<noteq> None" if "read_index c \<le> i" "i < write_index c" for i
    using cell [of "i - read_index c"] that assms(4) by auto
  then show "fb_ok c"
    using assms by (auto simp: fb_ok_def)
  show "unread c = bs @ unread b"
    using cell assms(4) by (intro unread_eqI) auto
qed

text \<open>
  \<open>prepend\<close> puts the bytes in front of the unread ones wherever they fit in the block, with
  or without moving what is there.
\<close>

lemma prepend_fits:
  assumes "fb_ok b" "prepend bs b = Inr b'" "length bs \<le> read_index b + writable_bytes b"
  shows "fb_ok b' \<and> unread b' = bs @ unread b"
proof (cases "bs = []")
  case True
  then show ?thesis using assms by (simp add: prepend_def)
next
  case False
  consider (front) "length bs \<le> read_index b"
    | (shift) "read_index b < length bs" "length bs \<le> writable_bytes b"
    | (rewind) "read_index b < length bs" "writable_bytes b < length bs"
    by linarith
  then show ?thesis
  proof cases
    case front
    then show ?thesis using assms False
      by (intro prependedI) (auto simp: prepend_def Let_def fb_ok_def mem_write_def
          unread_length_def split: if_splits)
  next
    case shift
    then show ?thesis using assms False
      by (intro prependedI) (auto simp: prepend_def Let_def fb_ok_def mem_write_def
          mem_move_def unread_length_def writable_bytes_def split: if_splits)
  next
    case rewind
    then have "length bs - read_index b \<le> writable_bytes b"
      using assms(3) by linarith
    then show ?thesis using rewind assms(1,2) False
      by (intro prependedI) (auto simp: prepend_def Let_def fb_ok_def mem_write_def
          mem_move_def unread_length_def writable_bytes_def split: if_splits)
  qed
qed

section \<open>The interface of a byte queue\<close>

text \<open>
  What the parsers and the packet assembly use of a buffer: bytes go in at the end, a
  prefix is looked at and taken, and nothing else changes.
\<close>

locale byte_queue =
  fixes ok :: "'b \<Rightarrow> bool"
    and contents :: "'b \<Rightarrow> bytes"
    and push :: "bytes \<Rightarrow> 'b \<Rightarrow> 'b"
    and pop :: "nat \<Rightarrow> 'b \<Rightarrow> 'b res"
    and front :: "nat \<Rightarrow> 'b \<Rightarrow> bytes res"
  assumes push_ok: "ok b \<Longrightarrow> ok (push bs b)"
    and contents_push: "ok b \<Longrightarrow> contents (push bs b) = contents b @ bs"
    and pop_Inr: "ok b \<Longrightarrow> n \<le> length (contents b) \<Longrightarrow>
      \<exists>b'. pop n b = Inr b' \<and> ok b' \<and> contents b' = drop n (contents b)"
    and pop_Inl: "ok b \<Longrightarrow> length (contents b) < n \<Longrightarrow> \<exists>e. pop n b = Inl e"
    and front_Inr: "ok b \<Longrightarrow> n \<le> length (contents b) \<Longrightarrow> front n b = Inr (take n (contents b))"
begin

lemma pop_cases:
  assumes "ok b" "pop n b = Inr b'"
  shows "ok b' \<and> contents b' = drop n (contents b) \<and> n \<le> length (contents b)"
  by (metis assms linorder_not_less pop_Inl pop_Inr sum.simps(2) old.sum.distinct(2) sum.inject(2))

lemma push_all:
  "ok b \<Longrightarrow> ok (fold push ps b) \<and> contents (fold push ps b) = contents b @ concat ps"
  by (induction ps arbitrary: b) (auto simp: push_ok contents_push)

lemma pop_pop:
  assumes "ok b" "pop m b = Inr b1" "pop n b1 = Inr b2"
  shows "contents b2 = drop (m + n) (contents b)"
  using assms pop_cases [of b m b1] pop_cases [of b1 n b2] by (simp add: add.commute)

lemma fifo:
  assumes "ok b" "contents b = []"
  shows "front (length x) (push y (push x b)) = Inr x
    \<and> (\<exists>b'. pop (length x) (push y (push x b)) = Inr b' \<and> contents b' = y)"
proof -
  let ?b = "push y (push x b)"
  have ok: "ok ?b" and c: "contents ?b = x @ y"
    using assms by (simp_all add: push_ok contents_push)
  have "front (length x) ?b = Inr x"
    using front_Inr [OF ok, of "length x"] c by simp
  moreover have "\<exists>b'. pop (length x) ?b = Inr b' \<and> contents b' = y"
    using pop_Inr [OF ok, of "length x"] c by auto
  ultimately show ?thesis ..
qed

end

interpretation fb: byte_queue fb_ok unread buf_write consume_or_fail "data_bytes 0"
proof unfold_locales
  fix b :: flat_buffer and n :: nat
  assume ok: "fb_ok b"
  show "\<exists>b'. consume_or_fail n b = Inr b' \<and> fb_ok b' \<and> unread b' = drop n (unread b)"
    if "n \<le> length (unread b)"
    using takes_consume [OF ok, of n] that takes_drop [OF takes_consume [OF ok, of n]]
    by (simp add: consume_or_fail_def takes_def)
  show "length (unread b) < n \<Longrightarrow> \<exists>e. consume_or_fail n b = Inl e"
    by (simp add: consume_or_fail_def)
qed (simp_all add: data_bytes_front)

section \<open>Runs of operations\<close>

text \<open>
  The operations on a buffer, and what each means for the queue of bytes: the bytes that come out, and the queue
  behind it. \<open>OpReceive n bs\<close> is one read of the session: room for \<open>n\<close> bytes is made and the socket delivers
  \<open>bs\<close>, at most \<open>n\<close> bytes. After \<open>OpCopy\<close>, \<open>OpMove\<close> and \<open>OpMoveInto\<close> the run goes on with the object
  that was copied or moved to; \<open>OpAssign\<close> and \<open>OpTakeOver\<close> copy and move another buffer into this one. An integer that
  is read comes out as its bytes in network order.

  Not among them are \<open>prepend\<close>, which can leave a buffer that is not well formed (\<open>prepend_allocating_length\<close>),
  and \<open>unread_bytes\<close> and \<open>restore_snapshot\<close>, which go back to bytes that were consumed and are exact
  only right after consuming (\<open>unread_bytes_back\<close>, \<open>restore_after_consuming\<close>).
\<close>

datatype fb_op = OpWrite bytes | OpConsume nat | OpSafeConsume nat | OpReset | OpCopy
  | OpCapture | OpEnsure nat | OpReceive nat bytes
  | OpAssign flat_buffer | OpTakeOver flat_buffer | OpMove "nat \<times> nat \<times> nat" | OpMoveInto flat_buffer
  | OpRead8 | OpRead16 | OpRead32 | OpRead64 | OpToString nat

definition no_out :: "flat_buffer \<Rightarrow> (bytes \<times> flat_buffer) res" where
  "no_out b = Inr ([], b)"

fun fb_exec :: "fb_op \<Rightarrow> flat_buffer \<Rightarrow> (bytes \<times> flat_buffer) res" where
  "fb_exec (OpWrite bs) b = no_out (buf_write bs b)"
| "fb_exec (OpConsume n) b = res_bind (consume_or_fail n b) no_out"
| "fb_exec (OpSafeConsume n) b = no_out (safe_consume n b)"
| "fb_exec OpReset b = no_out (reset b)"
| "fb_exec OpCopy b = no_out (copy_buffer b)"
| "fb_exec OpCapture b = no_out (capture_snapshot b)"
| "fb_exec (OpEnsure n) b = no_out (ensure_writable_bytes n b)"
| "fb_exec (OpReceive n bs) b =
     res_bind (socket_read_length n b) (\<lambda>(m, b'). res_bind (socket_receive (take m bs) b') no_out)"
| "fb_exec (OpAssign other) b = no_out (assign_buffer b other)"
| "fb_exec (OpTakeOver other) b = no_out (fst (move_assign b other))"
| "fb_exec (OpMove fresh) b = no_out (fst (move_buffer fresh b))"
| "fb_exec (OpMoveInto other) b = no_out (fst (move_assign other b))"
| "fb_exec OpRead8 b = res_bind (read_uint8 b) (\<lambda>(x, b'). Inr ([x], b'))"
| "fb_exec OpRead16 b = res_bind (read_uint16 b) (\<lambda>(x, b'). Inr (htons x, b'))"
| "fb_exec OpRead32 b = res_bind (read_uint32 b) (\<lambda>(x, b'). Inr (set_be32 x, b'))"
| "fb_exec OpRead64 b = res_bind (read_uint64 b) (\<lambda>(x, b'). Inr (set_be64 x, b'))"
| "fb_exec (OpToString n) b = res_bind (to_string n b) (\<lambda>(s, b'). Inr (bytes_of_str s, b'))"

fun fb_exec_all :: "fb_op list \<Rightarrow> flat_buffer \<Rightarrow> (bytes \<times> flat_buffer) res" where
  "fb_exec_all [] b = no_out b"
| "fb_exec_all (x # xs) b =
     res_bind (fb_exec x b) (\<lambda>(p, b'). res_bind (fb_exec_all xs b') (\<lambda>(q, c). Inr (p @ q, c)))"

definition split_at :: "nat \<Rightarrow> bytes \<Rightarrow> bytes \<times> bytes" where
  "split_at n q = (take n q, drop n q)"

fun queue_op :: "fb_op \<Rightarrow> bytes \<Rightarrow> bytes \<times> bytes" where
  "queue_op (OpWrite bs) q = ([], q @ bs)"
| "queue_op (OpConsume n) q = ([], drop n q)"
| "queue_op (OpSafeConsume n) q = ([], drop n q)"
| "queue_op OpReset q = ([], [])"
| "queue_op (OpReceive n bs) q = ([], q @ take n bs)"
| "queue_op (OpAssign other) q = ([], unread other)"
| "queue_op (OpTakeOver other) q = ([], unread other)"
| "queue_op OpRead8 q = split_at 1 q"
| "queue_op OpRead16 q = split_at 2 q"
| "queue_op OpRead32 q = split_at 4 q"
| "queue_op OpRead64 q = split_at 8 q"
| "queue_op (OpToString n) q = split_at n q"
| "queue_op _ q = ([], q)"

fun queue_run :: "fb_op list \<Rightarrow> bytes \<Rightarrow> bytes \<times> bytes" where
  "queue_run [] q = ([], q)"
| "queue_run (x # xs) q = (let (p, q) = queue_op x q; (p', q) = queue_run xs q in (p @ p', q))"

text \<open>The other buffers a run takes part in are well formed.\<close>

fun fb_op_ok :: "fb_op \<Rightarrow> bool" where
  "fb_op_ok (OpAssign other) = fb_ok other"
| "fb_op_ok (OpTakeOver other) = fb_ok other"
| "fb_op_ok _ = True"

text \<open>The operations that may end with an exception, and when.\<close>

fun fb_may_fail :: "fb_op \<Rightarrow> flat_buffer \<Rightarrow> bool" where
  "fb_may_fail (OpConsume n) b = (unread_length b < n)"
| "fb_may_fail (OpReceive n bs) b =
     (kMaxCacheSize < capacity b \<and> capacity b < unread_length b + n)"
| "fb_may_fail OpRead8 b = (unread_length b < 1)"
| "fb_may_fail OpRead16 b = (unread_length b < 2)"
| "fb_may_fail OpRead32 b = (unread_length b < 4)"
| "fb_may_fail OpRead64 b = (unread_length b < 8)"
| "fb_may_fail (OpToString n) b = (unread_length b < n)"
| "fb_may_fail _ b = False"

lemma fb_ok_reset [simp]: "fb_ok b \<Longrightarrow> fb_ok (reset b)" "unread (reset b) = []"
  by (simp_all add: fb_ok_def reset_def unread_def)

text \<open>What one operation does: as the queue, or the exception where it may fail.\<close>

definition fb_step_ok :: "fb_op \<Rightarrow> flat_buffer \<Rightarrow> bool" where
  "fb_step_ok x b \<longleftrightarrow> (case fb_exec x b of
     Inr (p, b') \<Rightarrow> fb_ok b' \<and> queue_op x (unread b) = (p, unread b')
   | Inl e \<Rightarrow> fb_may_fail x b \<and> (\<exists>m. e = Runtime_error m))"

lemma fb_step_receive:
  assumes "fb_ok b"
  shows "fb_step_ok (OpReceive n bs) b"
proof (cases "socket_read_length n b")
  case (Inl e)
  moreover obtain m where "e = Runtime_error m"
    using Inl by (auto simp: socket_read_length_def Let_def split: if_splits)
  ultimately show ?thesis
    using socket_read_length_Inl [OF assms Inl] by (simp add: fb_step_ok_def)
next
  case (Inr p)
  obtain m b1 where p: "p = (m, b1)" by fastforce
  have "m = n" "fb_ok b1" "unread b1 = unread b" "n \<le> writable_bytes b1"
    using socket_read_length_Inr [OF assms Inr [unfolded p]] by auto
  moreover have "length (take n bs) \<le> writable_bytes b1"
    using calculation(4) by simp
  ultimately obtain b' where "socket_receive (take n bs) b1 = Inr b'" "fb_ok b'" "unread b' = unread b @ take n bs"
    using socket_receive_ok [of b1 "take n bs"] by auto
  then show ?thesis
    using Inr p \<open>m = n\<close> by (simp add: fb_step_ok_def no_out_def)
qed

lemma taken_front: "takes b p b' \<Longrightarrow> split_at (length p) (unread b) = (p, unread b')"
  using takes_unread [of b p b'] by (simp add: split_at_def)

text \<open>A read: the exception when the bytes are not there, the bytes of the value otherwise.\<close>

lemma fb_step_read:
  assumes "fb_exec x b = res_bind r (\<lambda>(v, b'). Inr (enc v, b'))"
    and "\<And>q. queue_op x q = split_at n q" "fb_may_fail x b \<longleftrightarrow> unread_length b < n"
    and "\<And>v b'. r = Inr (v, b') \<Longrightarrow> takes b (enc v) b' \<and> length (enc v) = n"
    and "\<And>e. r = Inl e \<Longrightarrow> unread_length b < n \<and> (\<exists>m. e = Runtime_error m)"
  shows "fb_step_ok x b"
proof (cases r)
  case (Inl e)
  then show ?thesis using assms(1,3,5) by (simp add: fb_step_ok_def)
next
  case (Inr p)
  obtain v b' where p: "p = (v, b')" by fastforce
  then have "takes b (enc v) b'" "length (enc v) = n"
    using assms(4) Inr by auto
  then show ?thesis
    using assms(1,2) Inr p taken_front [of b "enc v" b'] takes_ok by (auto simp: fb_step_ok_def)
qed

lemma fb_step_reads:
  assumes "fb_ok b"
  shows "fb_step_ok OpRead8 b" "fb_step_ok OpRead16 b" "fb_step_ok OpRead32 b" "fb_step_ok OpRead64 b"
    "fb_step_ok (OpToString n) b"
proof -
  show "fb_step_ok OpRead8 b"
    by (rule fb_step_read [where n = 1]) (use assms read_uint8_Inr [OF assms] in
      \<open>auto simp: read_uint8_def peek_uint8_eq consume_or_fail_def Suc_le_eq simp flip: length_unread split: if_splits\<close>)
  show "fb_step_ok OpRead16 b"
    by (rule fb_step_read [where n = 2]) (use assms read_uint16_Inr [OF assms] in
      \<open>auto simp: read_uint16_def peek_uint16_eq consume_or_fail_def simp flip: length_unread split: if_splits\<close>)
  show "fb_step_ok OpRead32 b"
    by (rule fb_step_read [where n = 4]) (use assms read_uint32_Inr [OF assms] in
      \<open>auto simp: read_uint32_def peek_uint32_eq consume_or_fail_def simp flip: length_unread split: if_splits\<close>)
  have "unread_length b < 8 \<and> (\<exists>m. e = Runtime_error m)" if "read_uint64 b = Inl e" for e
  proof (cases "unread_length b < 8")
    case True
    with that show ?thesis by (auto simp: read_uint64_def peek_uint64_def)
  next
    case False
    then show ?thesis
      using that be64_front [of "unread b"] read_uint64_eq [OF assms] by auto
  qed
  then show "fb_step_ok OpRead64 b"
    by (intro fb_step_read [where n = 8]) (use read_uint64_Inr [OF assms] in auto)
  show "fb_step_ok (OpToString n) b"
    by (rule fb_step_read [where n = n]) (use assms to_string_Inr [OF assms] in
      \<open>auto simp: to_string_def data_bytes_front consume_or_fail_def split: if_splits\<close>)
qed

lemma fb_step:
  assumes "fb_ok b" "fb_op_ok x"
  shows "fb_step_ok x b"
proof (cases x)
  case (OpConsume n)
  then show ?thesis
    using assms consume_or_fail_ok [OF assms(1), of n]
    by (auto simp: fb_step_ok_def consume_or_fail_def no_out_def)
qed (use assms fb_step_receive fb_step_reads in
  \<open>auto simp: fb_step_ok_def no_out_def safe_consume_ok fb_ok_copy unread_copy ensure_writable_ok
    assign_buffer_ok moved_buffer_ok\<close>)

section \<open>Properties\<close>

text \<open>C26: a buffer is a queue of bytes. From a well-formed buffer any sequence of writes, consumes, resets, copies,
  assignments, moves, snapshots taken, integers and strings read and session reads (the operations of \<open>fb_op\<close>)
  either ends in a well-formed buffer (indices in order and inside the block, every unread byte written) whose unread
  bytes, and the bytes read from it on the way, are what the queue would give, or stops with the \<open>runtime_error\<close> of
  a consume or read of more than there is or of a session read beyond the cache limit; no run reads memory that was
  never written. \<open>prepend\<close>, \<open>unread_bytes\<close> and \<open>restore_snapshot\<close> are not among the operations.\<close>

theorem buffer_refines_queue:
  "fb_ok b \<Longrightarrow> list_all fb_op_ok xs \<Longrightarrow> case fb_exec_all xs b of
     Inr (out, b') \<Rightarrow> fb_ok b' \<and> queue_run xs (unread b) = (out, unread b')
   | Inl e \<Rightarrow> (\<exists>m. e = Runtime_error m) \<and> (\<exists>ys x zs out b0. xs = ys @ x # zs
       \<and> fb_exec_all ys b = Inr (out, b0) \<and> fb_may_fail x b0)"
proof (induction xs arbitrary: b)
  case (Cons x xs)
  have x: "fb_step_ok x b"
    using Cons.prems by (simp add: fb_step)
  show ?case
  proof (cases "fb_exec x b")
    case (Inl e)
    with x have f: "fb_may_fail x b" "\<exists>m. e = Runtime_error m"
      by (auto simp: fb_step_ok_def)
    have "x # xs = [] @ x # xs \<and> fb_exec_all [] b = Inr ([], b)"
      by (simp add: no_out_def)
    with f Inl show ?thesis by fastforce
  next
    case (Inr r)
    obtain p b' where r: "r = (p, b')" by fastforce
    with x Inr have b': "fb_ok b'" "queue_op x (unread b) = (p, unread b')"
      by (auto simp: fb_step_ok_def)
    have IH: "case fb_exec_all xs b' of Inr (out, c) \<Rightarrow> fb_ok c \<and> queue_run xs (unread b') = (out, unread c)
      | Inl e \<Rightarrow> (\<exists>m. e = Runtime_error m) \<and> (\<exists>ys x zs out b0. xs = ys @ x # zs
         \<and> fb_exec_all ys b' = Inr (out, b0) \<and> fb_may_fail x b0)"
      using Cons.IH [OF b'(1)] Cons.prems by simp
    show ?thesis
    proof (cases "fb_exec_all xs b'")
      case e: (Inl e)
      with IH obtain m ys y zs out b0 where y: "e = Runtime_error m" "xs = ys @ y # zs"
          "fb_exec_all ys b' = Inr (out, b0)" "fb_may_fail y b0"
        by auto
      then have "x # xs = (x # ys) @ y # zs \<and> fb_exec_all (x # ys) b = Inr (p @ out, b0) \<and> fb_may_fail y b0"
        using Inr r by simp
      then have "\<exists>ys y zs out b0. x # xs = ys @ y # zs \<and> fb_exec_all ys b = Inr (out, b0) \<and> fb_may_fail y b0"
        by blast
      then show ?thesis
        using Inr r e y(1) by simp
    qed (use IH Inr r b' in auto)
  qed
qed (simp add: no_out_def)

theorem buffer_refines_queue_witness:
  "case fb_exec_all [OpWrite [1, 2, 3], OpRead16, OpMove (0, 0, 0)] (create 2) of
     Inr (out, b') \<Rightarrow> fb_ok b' \<and> out = [1, 2] \<and> unread b' = [3]
   | Inl e \<Rightarrow> False"
proof -
  let ?xs = "[OpWrite [1, 2, 3], OpRead16, OpMove (0, 0, 0)]"
  have "unread (buf_write [1, 2, 3] (create 2)) = htons 0x102 @ [3]"
    by (simp add: htons_def)
  then obtain c where "read_uint16 (buf_write [1, 2, 3] (create 2)) = Inr (0x102, c)"
    using read_uint16_eq by fastforce
  then have "fb_exec_all ?xs (create 2) = Inr ([1, 2], fst (move_buffer (0, 0, 0) c))"
    by (simp add: no_out_def htons_def)
  then show ?thesis
    using buffer_refines_queue [OF fb_ok_create [of 2], of ?xs] by (simp add: split_at_def)
qed

text \<open>C29: a session's read never makes the buffer fail while it is at most the cache limit,
  and when it fails the unread bytes and the bytes asked for do not fit the block; no read makes
  the block larger than twice the limit plus the bytes asked for, which is more than the limit itself.\<close>

theorem session_read_bounds:
  assumes "fb_ok b"
  shows "case socket_read_length n b of
      Inr (m, b') \<Rightarrow> m = n \<and> fb_ok b' \<and> unread b' = unread b \<and> n \<le> writable_bytes b'
        \<and> capacity b' \<le> max (capacity b) (2 * kMaxCacheSize + n)
    | Inl e \<Rightarrow> kMaxCacheSize < capacity b \<and> capacity b < unread_length b + n"
  using socket_read_length_Inr [OF assms] socket_read_length_capacity [of n b]
    socket_read_length_Inl [OF assms]
  by (auto split: sum.splits)

theorem session_read_bounds_witness:
  "case socket_read_length 5 (create 4) of
      Inr (m, b') \<Rightarrow> m = 5 \<and> unread b' = [] \<and> 5 \<le> writable_bytes b'
    | Inl e \<Rightarrow> False"
  using session_read_bounds [OF fb_ok_create [of 4], of 5] unread_create [of 4]
  by (auto simp: create_def kMaxCacheSize_def split: sum.splits)

text \<open>\<open>prepend\<close> puts the bytes in front of the unread ones, whichever of its cases
  applies, as long as the block has room for them in front and behind.\<close>

theorem prepend_in_place:
  assumes "fb_ok b" "length bs \<le> read_index b + writable_bytes b"
  shows "\<exists>b'. prepend bs b = Inr b' \<and> fb_ok b' \<and> unread b' = bs @ unread b"
proof -
  have "length bs - read_index b \<le> writable_bytes b"
    using assms(2) by linarith
  then have "\<exists>b'. prepend bs b = Inr b'"
    by (cases "prepend bs b") (auto simp: prepend_def Let_def split: if_splits)
  then show ?thesis
    using prepend_fits [OF assms(1) _ assms(2)] by blast
qed

theorem prepend_in_place_witness:
  "\<exists>b'. prepend [9, 8] (buf_write [1] (create 4)) = Inr b' \<and> unread b' = [9, 8, 1]"
proof -
  have "writable_bytes (buf_write [1] (create 4)) = 3"
    by (simp add: buf_write_def ensure_writable_bytes_def writable_bytes_def create_def)
  then show ?thesis
    using prepend_in_place [of "buf_write [1] (create 4)" "[9, 8]"] by auto
qed

text \<open>Where \<open>prepend\<close> has to allocate and bytes were consumed before, it leaves a
  buffer whose unread length is too large by the number of bytes consumed: it sets the read
  index to 0 before it computes the unread length. The bytes at the end were never
  written.\<close>

theorem prepend_allocating_length:
  assumes "fb_ok b" "prepend bs b = Inr b'" "read_index b + writable_bytes b < length bs"
  shows "unread_length b' = length bs + unread_length b + read_index b
    \<and> (0 < read_index b \<longrightarrow> \<not> fb_ok b')"
proof -
  have "bs \<noteq> []" "\<not> length bs \<le> read_index b" "\<not> length bs \<le> writable_bytes b"
    "\<not> length bs - read_index b \<le> writable_bytes b"
    using assms(3) by auto
  then have b': "read_index b' = 0" "write_index b' = length bs + write_index b"
    "fb_data b' = mem_copy (length bs) (fb_data b) (read_index b) (unread_length b)
       (mem_write 0 bs new_memory)"
    using assms(2) by (auto simp: prepend_def Let_def unread_length_def split: if_splits)
  have len: "read_index b \<le> write_index b"
    using assms(1) by (simp add: fb_ok_def)
  have "\<not> fb_ok b'" if "0 < read_index b"
  proof -
    let ?i = "length bs + unread_length b"
    have "fb_data b' ?i = None"
      by (simp add: b'(3) mem_copy_def mem_write_def new_memory_def)
    moreover have "?i < write_index b'"
      using that len by (simp add: b'(2) unread_length_def)
    ultimately show ?thesis
      by (auto simp: fb_ok_def b'(1))
  qed
  then show ?thesis
    using b' len by (simp add: unread_length_def)
qed

theorem prepend_allocating_length_witness:
  "\<exists>b'. prepend [1, 2, 3, 4, 5] ((buf_write [6, 7, 8, 9] (create 4))\<lparr>read_index := 1\<rparr>) = Inr b'
    \<and> unread_length b' = 9 \<and> \<not> fb_ok b'"
proof -
  let ?w = "buf_write [6, 7, 8, 9] (create 4)"
  let ?b = "?w\<lparr>read_index := 1\<rparr>"
  have w: "read_index ?w = 0" "write_index ?w = 4" "capacity ?w = 4"
    by (simp_all add: buf_write_def ensure_writable_bytes_def writable_bytes_def create_def)
  have ok: "fb_ok ?b"
    using takes_consume [of ?w 1] w by (simp add: takes_def unread_length_def)
  obtain b' where b': "prepend [1, 2, 3, 4, 5] ?b = Inr b'"
    by (simp add: prepend_def Let_def w writable_bytes_def)
  show ?thesis
    using prepend_allocating_length [OF ok b'] b' w
    by (simp add: writable_bytes_def unread_length_def)
qed

end
