(* ===== verification/Std_String.thy ===== *)
theory Std_String
  imports Prelude "HOL-Library.Sublist"
begin

text \<open>
  The searches of \<open>std::string\<close> that the parsers of stream names and request lines
  use, and numbers written as text. A position is an option; \<open>None\<close> is \<open>std::string::npos\<close>, from which
  nothing is found.
\<close>

fun find_first :: "string \<Rightarrow> string \<Rightarrow> nat option" where
  "find_first pat [] = (if pat = [] then Some 0 else None)"
| "find_first pat (c # s) = (if prefix pat (c # s) then Some 0 else map_option Suc (find_first pat s))"

definition str_find :: "string \<Rightarrow> string \<Rightarrow> nat option \<Rightarrow> nat option" where
  "str_find pat s pos = (case pos of None \<Rightarrow> None
     | Some p \<Rightarrow> if p \<le> length s then map_option ((+) p) (find_first pat (drop p s)) else None)"

text \<open>\<open>substr(pos)\<close> and \<open>substr(pos, end - pos)\<close> with \<open>pos\<close> in range.\<close>

definition str_between :: "string \<Rightarrow> nat \<Rightarrow> nat option \<Rightarrow> string" where
  "str_between s from till = (case till of None \<Rightarrow> drop from s | Some e \<Rightarrow> take (e - from) (drop from s))"

text \<open>\<open>std::find_if\<close> as an index.\<close>

fun find_if :: "(char \<Rightarrow> bool) \<Rightarrow> string \<Rightarrow> nat option" where
  "find_if P [] = None"
| "find_if P (c # s) = (if P c then Some 0 else map_option Suc (find_if P s))"

lemma find_if_append: "\<forall>c \<in> set s. \<not> P c \<Longrightarrow> P c' \<Longrightarrow> find_if P (s @ c' # t) = Some (length s)"
  by (induction s) auto

lemma find_if_None: "find_if P s = None \<longleftrightarrow> (\<forall>c \<in> set s. \<not> P c)"
  by (induction s) auto

lemma find_first_char: "c \<notin> set s \<Longrightarrow> find_first [c] (s @ c # t) = Some (length s)"
  by (induction s) auto

lemma find_first_char_None: "c \<notin> set s \<Longrightarrow> find_first [c] s = None"
  by (induction s) auto

lemma find_first_here: "find_first pat (pat @ t) = Some 0"
  by (cases "pat @ t") (simp, metis find_first.simps(2) prefixI)

lemma find_first_next: "hd pat \<noteq> c \<Longrightarrow> pat \<noteq> [] \<Longrightarrow> find_first pat (c # s) = map_option Suc (find_first pat s)"
  by (cases pat) auto

lemma find_first_skip:
  "hd pat \<notin> set s \<Longrightarrow> pat \<noteq> [] \<Longrightarrow> find_first pat (s @ pat @ t) = Some (length s)"
  by (cases pat; induction s) (simp_all add: find_first_here [of pat t, simplified])

lemma find_first_bound: "find_first pat s = Some i \<Longrightarrow> i + length pat \<le> length s \<and> prefix pat (drop i s)"
proof (induction s arbitrary: i)
  case (Cons c s)
  then show ?case
    by (auto split: if_splits dest!: prefix_length_le)
qed (simp split: if_splits)

lemma str_find_here: "p \<le> length s \<Longrightarrow> find_first pat (drop p s) = Some i \<Longrightarrow> str_find pat s (Some p) = Some (p + i)"
  by (simp add: str_find_def)

lemma str_find_npos [simp]: "str_find pat s None = None"
  by (simp add: str_find_def)

text \<open>A position that was found lies in the string, so \<open>substr\<close> does not throw there.\<close>

lemma str_find_bound: "str_find pat s p = Some i \<Longrightarrow> i + length pat \<le> length s \<and> prefix pat (drop i s)"
  by (auto simp: str_find_def split: option.splits if_splits dest!: find_first_bound simp: add.commute)

section \<open>Numbers in text\<close>

text \<open>\<open>std::to_string\<close> of an unsigned number.\<close>

definition digit :: "nat \<Rightarrow> char" where
  "digit n = char_of (48 + n)"

fun to_string_nat :: "nat \<Rightarrow> string" where
  "to_string_nat n = (if n < 10 then [digit n] else to_string_nat (n div 10) @ [digit (n mod 10)])"

declare to_string_nat.simps [simp del]

definition is_digit :: "char \<Rightarrow> bool" where
  "is_digit c \<longleftrightarrow> (let n = (of_char c :: nat) in 48 \<le> n \<and> n \<le> 57)"

definition digits_value :: "string \<Rightarrow> nat" where
  "digits_value s = foldl (\<lambda>a c. 10 * a + (of_char c - 48)) 0 s"

lemma of_char_digit: "n < 10 \<Longrightarrow> of_char (digit n) = 48 + n"
  by (simp add: digit_def)

lemma is_digit_digit [simp]: "n < 10 \<Longrightarrow> is_digit (digit n)"
  by (simp add: is_digit_def of_char_digit)

lemma to_string_digits: "\<forall>c \<in> set (to_string_nat n). is_digit c"
proof (induction n rule: to_string_nat.induct)
  case (1 n)
  then show ?case
    by (subst to_string_nat.simps) auto
qed

lemma to_string_not_Nil [simp]: "to_string_nat n \<noteq> []"
  by (subst to_string_nat.simps) simp

lemma digits_value_to_string: "digits_value (to_string_nat n) = n"
proof (induction n rule: to_string_nat.induct)
  case (1 n)
  then show ?case
    by (subst to_string_nat.simps) (simp add: digits_value_def of_char_digit)
qed

text \<open>A number in front of another character can be told apart.\<close>

lemma to_string_split: "\<not> is_digit c \<Longrightarrow> takeWhile is_digit (to_string_nat n @ c # s) = to_string_nat n"
  using to_string_digits [of n] by (simp add: takeWhile_append)

lemma to_string_inj:
  assumes "\<not> is_digit c" "to_string_nat n @ c # s = to_string_nat m @ c # t"
  shows "n = m"
  using to_string_split [OF assms(1), of n s] to_string_split [OF assms(1), of m t] assms(2)
  by (metis digits_value_to_string)

end
