(* ===== verification/Tcp_Session.thy ===== *)
theory Tcp_Session
  imports Flat_Buffer Std_String
begin

text \<open>
  \<open>include/network/session.h\<close>, \<open>src/network/session.cpp\<close>, \<open>include/network/tcp_server.h\<close> and
  \<open>src/network/tcp_server.cpp\<close>: the sessions of a server, the map that keeps them alive, and the handlers
  that the event loop runs. A session is named by an address that is not used twice. The sockets and the
  loop are outside the program: what the loop reports is a \<open>net_event\<close>, and a handler is one step, since
  the handlers of a session run one after another on its strand. Operations that were started and have not
  been reported yet are part of the state.

  What the derived classes do with received bytes is a parameter, \<open>session_cbs\<close>: they work on the rest
  of the program's state, which they return with the calls they make of \<open>do_write\<close> and
  \<open>shutdown\<close>.
\<close>

section \<open>State\<close>

definition kMaxBufferCacheSize :: nat where "kMaxBufferCacheSize = 8 * 1024"
definition kSocketReadSize :: nat where "kSocketReadSize = kMaxBufferCacheSize div 2"

datatype io_error = No_Error | Operation_Aborted | Other_Error

text \<open>
  The pending reads with the room they were given, the pending asynchronous writes with what their buffers held when they
  were started and whether they close the session, and what was handed to the socket synchronously. Of an
  asynchronous write nothing is said to reach the peer: it reads its buffer later, and several may be
  pending at once.
\<close>

record tcp_session =
  se_id :: string
  se_open :: bool
  se_is_closed :: bool
  se_buffer :: flat_buffer
  se_reads :: "nat list"
  se_writes :: "(bytes \<times> bool) list"
  se_sent :: bytes

text \<open>
  A server: its acceptor, the loop, the accepts that are pending; the sessions that exist and the map of its
  session manager. \<open>sync_errors\<close> is what the n-th synchronous write reports; \<open>room_first\<close> is the order
  in which the compiler evaluates the two arguments of \<open>do_read\<close>, which the language leaves open.
\<close>

record 'p network =
  acceptor_open :: bool
  io_running :: bool
  accepts :: nat
  server_name :: string
  session_index :: nat
  sessions :: "nat \<Rightarrow> tcp_session option"
  next_session :: nat
  session_map :: "string \<Rightarrow> nat option"
  program :: 'p
  sync_errors :: "nat \<Rightarrow> io_error"
  sync_writes :: nat
  room_first :: bool

datatype session_act = Do_Write nat bytes bool bool | Do_Shutdown nat

record 'p session_cbs =
  on_new :: "nat \<Rightarrow> string \<Rightarrow> 'p \<Rightarrow> 'p"
  on_recv :: "nat \<Rightarrow> flat_buffer \<Rightarrow> 'p \<Rightarrow> (flat_buffer res \<times> session_act list) \<times> 'p"
  on_drop :: "nat \<Rightarrow> ('p, unit) eff"

definition change_session :: "nat \<Rightarrow> (tcp_session \<Rightarrow> tcp_session) \<Rightarrow> 'p network \<Rightarrow> 'p network" where
  "change_session i f net = net\<lparr>sessions := (sessions net)(i := map_option f (sessions net i))\<rparr>"

section \<open>Sessions\<close>

text \<open>\<open>stop\<close>, which only the session manager and the session itself call.\<close>

definition stop_session :: "tcp_session \<Rightarrow> tcp_session" where
  "stop_session s = (if se_is_closed s then s else s\<lparr>se_open := False, se_is_closed := True\<rparr>)"

text \<open>The condition is the one of the code: an identifier that is not empty is not erased.\<close>

definition manager_erase :: "string \<Rightarrow> 'p network \<Rightarrow> 'p network" where
  "manager_erase k net = (if k \<noteq> [] then net else net\<lparr>session_map := (session_map net)(k := None)\<rparr>)"

definition shutdown :: "nat \<Rightarrow> 'p network \<Rightarrow> 'p network" where
  "shutdown i net = (case sessions net i of
     None \<Rightarrow> net
   | Some s \<Rightarrow> manager_erase (se_id s) (change_session i stop_session net))"

definition manager_stop :: "nat \<Rightarrow> 'p network \<Rightarrow> 'p network" where
  "manager_stop i net = (case sessions net i of
     None \<Rightarrow> net
   | Some s \<Rightarrow>
       if session_map net (se_id s) = None then net
       else (change_session i stop_session net)\<lparr>session_map := (session_map net)(se_id s := None)\<rparr>)"

definition manager_add :: "nat \<Rightarrow> string \<Rightarrow> 'p network \<Rightarrow> 'p network" where
  "manager_add i k net = (case session_map net k of
     None \<Rightarrow> net\<lparr>session_map := (session_map net)(k \<mapsto> i)\<rparr>
   | Some _ \<Rightarrow> net)"

definition stop_all :: "'p network \<Rightarrow> 'p network" where
  "stop_all net = net\<lparr>sessions := (\<lambda>i. case sessions net i of
       None \<Rightarrow> None
     | Some s \<Rightarrow> Some (if i \<in> ran (session_map net) then stop_session s else s)),
     session_map := (\<lambda>_. None)\<rparr>"

text \<open>
  The place of a read and its room are the two arguments of a call, in an order the compiler chooses. When the
  place is taken first and making room moves the bytes or the block, it is no longer the place of that
  room: the read would go over the end of the block or into one that was freed.
\<close>

definition do_read :: "nat \<Rightarrow> ('p network, unit) eff" where
  "do_read i = (\<lambda>net. case sessions net i of
     None \<Rightarrow> (Inr (), net)
   | Some s \<Rightarrow>
       if \<not> se_open s then (Inr (), net)
       else (case socket_read_length kSocketReadSize (se_buffer s) of
           Inl e \<Rightarrow> (Inl e, change_session i (\<lambda>s. s\<lparr>se_buffer := move_unread_to_begin (se_buffer s)\<rparr>) net)
         | Inr (n, b) \<Rightarrow>
             if \<not> room_first net \<and> writable_bytes (se_buffer s) < kSocketReadSize
             then (Inl (Undefined ''read into a place that is gone''), change_session i (\<lambda>s. s\<lparr>se_buffer := b\<rparr>) net)
             else (Inr (), change_session i (\<lambda>s. s\<lparr>se_buffer := b, se_reads := se_reads s @ [n]\<rparr>) net)))"

definition do_write :: "nat \<Rightarrow> bytes \<Rightarrow> bool \<Rightarrow> bool \<Rightarrow> 'p network \<Rightarrow> 'p network" where
  "do_write i data is_async is_close net = (case sessions net i of
     None \<Rightarrow> net
   | Some s \<Rightarrow>
       if \<not> se_open s then net
       else if is_async then change_session i (\<lambda>s. s\<lparr>se_writes := se_writes s @ [(data, is_close)]\<rparr>) net
       else let net = change_session i (\<lambda>s. s\<lparr>se_sent := se_sent s @ data\<rparr>) net;
                ec = sync_errors net (sync_writes net);
                net = net\<lparr>sync_writes := sync_writes net + 1\<rparr>
       in if ec \<noteq> No_Error
          then if ec \<noteq> Operation_Aborted then manager_stop i net else net
          else if is_close then manager_stop i net else net)"

fun perform :: "session_act \<Rightarrow> 'p network \<Rightarrow> 'p network" where
  "perform (Do_Write i data is_async is_close) = do_write i data is_async is_close"
| "perform (Do_Shutdown i) = shutdown i"

section \<open>The life of a session\<close>

text \<open>Nothing but the map holds a session between two handlers: the others are destroyed.\<close>

definition gone :: "'p network \<Rightarrow> nat list" where
  "gone net = filter (\<lambda>i. case sessions net i of None \<Rightarrow> False | Some s \<Rightarrow> session_map net (se_id s) \<noteq> Some i)
     [0..<next_session net]"

definition drop_session :: "'p session_cbs \<Rightarrow> nat \<Rightarrow> ('p network, unit) eff" where
  "drop_session cbs i = (\<lambda>net. case on_drop cbs i (program net) of
     (r, p) \<Rightarrow> (r, net\<lparr>program := p, sessions := (sessions net)(i := None)\<rparr>))"

definition collect :: "'p session_cbs \<Rightarrow> ('p network, unit) eff" where
  "collect cbs net = each (drop_session cbs) (gone net) net"

definition generate_session_prefix :: "'p network \<Rightarrow> string" where
  "generate_session_prefix net = server_name net @ ''-session_count('' @ to_string_nat (session_index net + 1) @ '')''"

definition session_id :: "string \<Rightarrow> nat \<Rightarrow> string" where
  "session_id pre fd = pre @ ''-client_socket('' @ to_string_nat fd @ '')''"

definition new_session :: "string \<Rightarrow> tcp_session" where
  "new_session k = \<lparr>se_id = k, se_open = True, se_is_closed = False, se_buffer = create kMaxBufferCacheSize,
     se_reads = [], se_writes = [], se_sent = []\<rparr>"

definition session_alloc :: "'p session_cbs \<Rightarrow> nat \<Rightarrow> ('p network, nat) eff" where
  "session_alloc cbs fd = (\<lambda>net. let
       k = session_id (generate_session_prefix net) fd;
       i = next_session net;
       net = net\<lparr>session_index := session_index net + 1, next_session := i + 1,
         sessions := (sessions net)(i \<mapsto> new_session k), program := on_new cbs i k (program net)\<rparr>
     in (Inr i, manager_add i k net))"

section \<open>The server\<close>

definition server_info :: "nat \<Rightarrow> bool \<Rightarrow> nat \<Rightarrow> string" where
  "server_info port is_ipv4 fd = ''TCP['' @ to_string_nat port @ ''|'' @ (if is_ipv4 then ''ipv4'' else ''ipv6'') @ ''|''
     @ to_string_nat fd @ '']''"

text \<open>The constructor, when the address could be bound: \<open>fd\<close> is the descriptor of the acceptor.\<close>

definition create_server :: "nat \<Rightarrow> bool \<Rightarrow> nat \<Rightarrow> (nat \<Rightarrow> io_error) \<Rightarrow> bool \<Rightarrow> 'p \<Rightarrow> 'p network" where
  "create_server port is_ipv4 fd errs order p = \<lparr>acceptor_open = True, io_running = True, accepts = 0,
     server_name = server_info port is_ipv4 fd, session_index = 0, sessions = (\<lambda>_. None), next_session = 0,
     session_map = (\<lambda>_. None), program = p, sync_errors = errs, sync_writes = 0, room_first = order\<rparr>"

section \<open>Handlers\<close>

definition do_accept :: "'p network \<Rightarrow> 'p network" where
  "do_accept net = (if acceptor_open net then net\<lparr>accepts := accepts net + 1\<rparr> else net)"

definition start_server :: "nat \<Rightarrow> bool \<Rightarrow> nat \<Rightarrow> (nat \<Rightarrow> io_error) \<Rightarrow> bool \<Rightarrow> 'p \<Rightarrow> 'p network" where
  "start_server port is_ipv4 fd errs order p = do_accept (create_server port is_ipv4 fd errs order p)"

definition on_accept :: "'p session_cbs \<Rightarrow> nat option \<Rightarrow> ('p network, unit) eff" where
  "on_accept cbs sock = (\<lambda>net. let net = net\<lparr>accepts := accepts net - 1\<rparr> in
     if \<not> acceptor_open net then (Inr (), net)
     else ebind (case sock of None \<Rightarrow> eret () | Some fd \<Rightarrow> ebind (session_alloc cbs fd) do_read)
       (\<lambda>_. emodify do_accept) net)"

definition on_read_done :: "'p session_cbs \<Rightarrow> nat \<Rightarrow> bytes \<Rightarrow> ('p network, unit) eff" where
  "on_read_done cbs i bs = (\<lambda>net. case sessions net i of
     None \<Rightarrow> (Inr (), net)
   | Some s \<Rightarrow> (case socket_receive bs (se_buffer s) of
       Inl e \<Rightarrow> (Inl e, net)
     | Inr b \<Rightarrow> (case on_recv cbs i b (program net) of ((r, acts), p) \<Rightarrow>
         let net = fold perform acts ((change_session i (\<lambda>s. s\<lparr>se_buffer := b, se_reads := tl (se_reads s)\<rparr>) net)\<lparr>program := p\<rparr>)
         in case r of
              Inl e \<Rightarrow> if is_undefined e then (Inl e, net) else do_read i (shutdown i net)
            | Inr b' \<Rightarrow> do_read i (change_session i (\<lambda>s. s\<lparr>se_buffer := b'\<rparr>) net))))"

definition on_read_failed :: "nat \<Rightarrow> 'p network \<Rightarrow> 'p network" where
  "on_read_failed i net = manager_stop i (change_session i (\<lambda>s. s\<lparr>se_reads := tl (se_reads s)\<rparr>) net)"

definition on_write_done :: "nat \<Rightarrow> nat \<Rightarrow> io_error \<Rightarrow> 'p network \<Rightarrow> 'p network" where
  "on_write_done i k ec net = (case sessions net i of
     None \<Rightarrow> net
   | Some s \<Rightarrow>
       let is_close = snd (se_writes s ! k);
           net = change_session i (\<lambda>s. s\<lparr>se_writes := take k (se_writes s) @ drop (Suc k) (se_writes s)\<rparr>) net
       in if ec \<noteq> No_Error \<or> is_close then manager_stop i net else net)"

text \<open>
  The handler of a signal. Both servers wait for it, and the first of the two handlers stops the loop they
  share: when the other server's runs first, this one's does not run any more.
\<close>

definition on_signal :: "'p network \<Rightarrow> 'p network" where
  "on_signal net = stop_all (net\<lparr>acceptor_open := False, io_running := False\<rparr>)"

datatype 'p net_event =
    Accepted nat
  | Accept_Failed
  | Read_Done nat bytes
  | Read_Failed nat
  | Write_Done nat nat io_error
  | Elsewhere nat "session_act list" 'p
  | Other_Exception
  | Signal
  | Other_Signal

text \<open>
  What the loop can report in a state. The two servers share the loop, the program and the count of sessions:
  \<open>Elsewhere\<close> is what a handler of the other one does to the count, to the program and to sessions of this one, \<open>Other_Exception\<close> an
  exception that left one, \<open>Other_Signal\<close> its handler of a signal.
\<close>

fun enabled :: "'p net_event \<Rightarrow> 'p network \<Rightarrow> bool" where
  "enabled (Accepted fd) net \<longleftrightarrow> io_running net \<and> 0 < accepts net"
| "enabled Accept_Failed net \<longleftrightarrow> io_running net \<and> 0 < accepts net"
| "enabled (Read_Done i bs) net \<longleftrightarrow> io_running net \<and> (\<exists>s n ns. sessions net i = Some s \<and> se_reads s = n # ns \<and> bs \<noteq> [] \<and> length bs \<le> n)"
| "enabled (Read_Failed i) net \<longleftrightarrow> io_running net \<and> (\<exists>s. sessions net i = Some s \<and> se_reads s \<noteq> [])"
| "enabled (Write_Done i k ec) net \<longleftrightarrow> io_running net \<and> (\<exists>s. sessions net i = Some s \<and> k < length (se_writes s))"
| "enabled (Elsewhere n acts p) net \<longleftrightarrow> io_running net"
| "enabled Other_Exception net \<longleftrightarrow> io_running net"
| "enabled Signal net \<longleftrightarrow> io_running net"
| "enabled Other_Signal net \<longleftrightarrow> io_running net"

fun handler :: "'p session_cbs \<Rightarrow> 'p net_event \<Rightarrow> ('p network, unit) eff" where
  "handler cbs (Accepted fd) = on_accept cbs (Some fd)"
| "handler cbs Accept_Failed = on_accept cbs None"
| "handler cbs (Read_Done i bs) = on_read_done cbs i bs"
| "handler cbs (Read_Failed i) = emodify (on_read_failed i)"
| "handler cbs (Write_Done i k ec) = emodify (on_write_done i k ec)"
| "handler cbs (Elsewhere n acts p) = emodify (\<lambda>net. fold perform acts
     (net\<lparr>session_index := session_index net + n, program := p\<rparr>))"
| "handler cbs Other_Exception = ethrow (Runtime_error ''of the other server'')"
| "handler cbs Signal = emodify on_signal"
| "handler cbs Other_Signal = emodify (\<lambda>net. net\<lparr>io_running := False\<rparr>)"

text \<open>
  An exception that leaves a handler leaves \<open>run\<close>, too; \<open>main\<close> calls \<open>restart\<close> and \<open>run\<close> again.
\<close>

definition handle_event :: "'p session_cbs \<Rightarrow> 'p net_event \<Rightarrow> ('p network, unit) eff" where
  "handle_event cbs ev net = (case handler cbs ev net of
     (Inl e, net) \<Rightarrow> if is_undefined e then (Inl e, net) else ebind (collect cbs) (\<lambda>_. emodify do_accept) net
   | (Inr _, net) \<Rightarrow> collect cbs net)"

inductive net_run :: "'p session_cbs \<Rightarrow> 'p net_event list \<Rightarrow> 'p network \<Rightarrow> 'p network \<Rightarrow> bool" for cbs where
  stay: "net_run cbs [] net net"
| event: "enabled ev net \<Longrightarrow> handle_event cbs ev net = (Inr (), net') \<Longrightarrow> net_run cbs evs net' net'' \<Longrightarrow> net_run cbs (ev # evs) net net''"

inductive_cases net_runE: "net_run cbs evs net net'"
inductive_simps net_run_Nil [simp]: "net_run cbs [] net net'"
inductive_simps net_run_Cons: "net_run cbs (ev # evs) net net'"

section \<open>Identifiers\<close>

lemma session_id_inj:
  assumes "session_id (pre @ ''-session_count('' @ to_string_nat n @ '')'') fd = session_id (pre @ ''-session_count('' @ to_string_nat m @ '')'') fd'"
  shows "n = m"
proof -
  have "to_string_nat n @ CHR '')'' # (''-client_socket('' @ to_string_nat fd @ '')'') = to_string_nat m @ CHR '')'' # (''-client_socket('' @ to_string_nat fd' @ '')'')"
    using assms by (simp add: session_id_def)
  then show ?thesis
    by (rule to_string_inj [rotated]) (simp add: is_digit_def)
qed

lemma session_id_not_Nil [simp]: "session_id pre fd \<noteq> []"
  by (simp add: session_id_def)

section \<open>The invariant of a server\<close>

text \<open>What holds of a session: the room of a pending read is still there, and at most one is pending.\<close>

definition session_ok :: "tcp_session \<Rightarrow> bool" where
  "session_ok s \<longleftrightarrow> fb_ok (se_buffer s) \<and> (se_open s \<longleftrightarrow> \<not> se_is_closed s) \<and> length (se_reads s) \<le> 1
     \<and> (\<forall>n \<in> set (se_reads s). n = kSocketReadSize \<and> n \<le> writable_bytes (se_buffer s))"

text \<open>An open session waits for bytes, unless its buffer has reached the limit.\<close>

definition is_read :: "tcp_session \<Rightarrow> bool" where
  "is_read s \<longleftrightarrow> (se_open s \<longrightarrow> se_reads s \<noteq> [] \<or> kMaxCacheSize < capacity (se_buffer s))"

definition known_id :: "'p network \<Rightarrow> string \<Rightarrow> bool" where
  "known_id net k \<longleftrightarrow> (\<exists>n fd. 0 < n \<and> n \<le> session_index net
     \<and> k = session_id (server_name net @ ''-session_count('' @ to_string_nat n @ '')'') fd)"

definition wait :: "nat set \<Rightarrow> nat \<Rightarrow> tcp_session \<Rightarrow> bool" where
  "wait X i s \<longleftrightarrow> (if i \<in> X then se_reads s = [] else is_read s)"

text \<open>
  Between and in handlers: the map names sessions that exist, under their identifiers; identifiers are not
  used twice. \<open>X\<close> are the sessions whose handler has not asked for the next read yet.
\<close>

definition net_inv :: "nat set \<Rightarrow> 'p network \<Rightarrow> bool" where
  "net_inv X net \<longleftrightarrow>
     (\<forall>k i. session_map net k = Some i \<longrightarrow> (\<exists>s. sessions net i = Some s \<and> se_id s = k))
   \<and> (\<forall>i s. sessions net i = Some s \<longrightarrow> i < next_session net \<and> known_id net (se_id s) \<and> session_ok s \<and> wait X i s)
   \<and> (\<forall>i j s t. sessions net i = Some s \<longrightarrow> sessions net j = Some t \<longrightarrow> se_id s = se_id t \<longrightarrow> i = j)"

text \<open>Between two handlers the sessions that exist are those of the map.\<close>

definition net_ok :: "'p network \<Rightarrow> bool" where
  "net_ok net \<longleftrightarrow> net_inv {} net \<and> (\<forall>i s. sessions net i = Some s \<longrightarrow> session_map net (se_id s) = Some i)"

lemma net_invI:
  assumes "\<And>k i. session_map net k = Some i \<Longrightarrow> \<exists>s. sessions net i = Some s \<and> se_id s = k"
    and "\<And>i s. sessions net i = Some s \<Longrightarrow> i < next_session net \<and> known_id net (se_id s) \<and> session_ok s \<and> wait X i s"
    and "\<And>i j s t. sessions net i = Some s \<Longrightarrow> sessions net j = Some t \<Longrightarrow> se_id s = se_id t \<Longrightarrow> i = j"
  shows "net_inv X net"
  unfolding net_inv_def using assms by blast

lemma net_invD:
  assumes "net_inv X net"
  shows "session_map net k = Some i \<Longrightarrow> \<exists>s. sessions net i = Some s \<and> se_id s = k"
    and "sessions net i = Some s \<Longrightarrow> i < next_session net \<and> known_id net (se_id s) \<and> session_ok s \<and> wait X i s"
    and "sessions net i = Some s \<Longrightarrow> sessions net j = Some t \<Longrightarrow> se_id s = se_id t \<Longrightarrow> i = j"
  using assms unfolding net_inv_def by blast+

lemma net_inv_wait: "net_inv X net \<Longrightarrow> (\<And>i s. sessions net i = Some s \<Longrightarrow> wait X i s \<Longrightarrow> wait Y i s) \<Longrightarrow> net_inv Y net"
  unfolding net_inv_def by blast

subsection \<open>Changes of one session\<close>

lemma change_session_simps [simp]:
  "session_map (change_session i f net) = session_map net" "next_session (change_session i f net) = next_session net"
  "session_index (change_session i f net) = session_index net" "server_name (change_session i f net) = server_name net"
  "program (change_session i f net) = program net" "sessions (change_session i f net) i = map_option f (sessions net i)"
  "j \<noteq> i \<Longrightarrow> sessions (change_session i f net) j = sessions net j" "accepts (change_session i f net) = accepts net"
  "acceptor_open (change_session i f net) = acceptor_open net" "io_running (change_session i f net) = io_running net"
  by (simp_all add: change_session_def)

lemma net_inv_program [simp]: "net_inv X (net\<lparr>program := p\<rparr>) = net_inv X net" "net_inv X (net\<lparr>accepts := n\<rparr>) = net_inv X net"
    "net_inv X (net\<lparr>sync_writes := n\<rparr>) = net_inv X net" "net_inv X (net\<lparr>acceptor_open := a\<rparr>) = net_inv X net"
    "net_inv X (net\<lparr>io_running := b\<rparr>) = net_inv X net"
  by (simp_all add: net_inv_def known_id_def)

lemma net_inv_index: "net_inv X net \<Longrightarrow> net_inv X (net\<lparr>session_index := session_index net + n\<rparr>)"
proof -
  have k: "known_id net k \<Longrightarrow> known_id (net\<lparr>session_index := session_index net + n\<rparr>) k" for k
    by (auto simp: known_id_def intro: trans_le_add1)
  assume "net_inv X net"
  from net_invD [OF this] show ?thesis
    by (intro net_invI) (auto intro: k)
qed

lemma change_session_inv:
  assumes "net_inv X net" "\<And>s. se_id (f s) = se_id s"
    and "\<And>s. sessions net i = Some s \<Longrightarrow> session_ok s \<Longrightarrow> wait X i s \<Longrightarrow> session_ok (f s)"
    and "\<And>s. sessions net i = Some s \<Longrightarrow> session_ok s \<Longrightarrow> wait X i s \<Longrightarrow> wait Y i (f s)" "X - {i} = Y - {i}"
  shows "net_inv Y (change_session i f net)"
proof (rule net_invI)
  fix k j assume "session_map (change_session i f net) k = Some j"
  then show "\<exists>s. sessions (change_session i f net) j = Some s \<and> se_id s = k"
    using net_invD(1) [OF assms(1), of k j] assms(2) by (cases "j = i") auto
next
  fix j s assume j: "sessions (change_session i f net) j = Some s"
  show "j < next_session (change_session i f net) \<and> known_id (change_session i f net) (se_id s) \<and> session_ok s \<and> wait Y j s"
  proof (cases "j = i")
    case True
    then obtain t where t: "sessions net i = Some t" "s = f t"
      using j by auto
    then show ?thesis
      using net_invD(2) [OF assms(1) t(1)] assms(2-4) True by (auto simp: known_id_def)
  next
    case False
    then have "j \<in> X \<longleftrightarrow> j \<in> Y"
      using assms(5) by blast
    then show ?thesis
      using False j net_invD(2) [OF assms(1), of j s] by (simp add: known_id_def wait_def)
  qed
next
  fix j l s t
  assume jl: "sessions (change_session i f net) j = Some s" "sessions (change_session i f net) l = Some t" "se_id s = se_id t"
  have old: "\<exists>s'. sessions net m = Some s' \<and> se_id s' = se_id u" if "sessions (change_session i f net) m = Some u" for m u
    using that assms(2) by (cases "m = i") auto
  obtain s' t' where "sessions net j = Some s'" "sessions net l = Some t'" "se_id s' = se_id t'"
    using old [OF jl(1)] old [OF jl(2)] jl(3) by metis
  then show "j = l"
    by (rule net_invD(3) [OF assms(1)])
qed

lemma stop_session_simps [simp]: "se_id (stop_session s) = se_id s" "session_ok s \<Longrightarrow> session_ok (stop_session s)"
    "session_ok s \<Longrightarrow> is_read (stop_session s)" "session_ok s \<Longrightarrow> \<not> se_open (stop_session s)"
    "se_reads (stop_session s) = se_reads s" "se_writes (stop_session s) = se_writes s"
  by (auto simp: stop_session_def session_ok_def is_read_def)

lemma forget_inv: "net_inv X net \<Longrightarrow> net_inv X (net\<lparr>session_map := (session_map net)(k := None)\<rparr>)"
  by (auto simp: net_inv_def known_id_def)

lemma stop_inv: "net_inv X net \<Longrightarrow> net_inv X (change_session i stop_session net)"
  by (rule change_session_inv [where X = X]) (auto simp: wait_def)

lemma shutdown_inv: "net_inv X net \<Longrightarrow> net_inv X (shutdown i net)"
  using stop_inv [of X net i] forget_inv [OF stop_inv, of X net i] by (auto simp: shutdown_def manager_erase_def split: option.split)

lemma manager_stop_inv: "net_inv X net \<Longrightarrow> net_inv X (manager_stop i net)"
  using forget_inv [OF stop_inv, of X net i] by (auto simp: manager_stop_def split: option.split)

lemma do_write_inv: "net_inv X net \<Longrightarrow> net_inv X (do_write i data a c net)"
proof -
  assume inv: "net_inv X net"
  have "net_inv X (change_session i (\<lambda>s. s\<lparr>se_sent := se_sent s @ data\<rparr>) net)"
    by (rule change_session_inv [OF inv]) (auto simp: session_ok_def is_read_def wait_def)
  moreover have "net_inv X (change_session i (\<lambda>s. s\<lparr>se_writes := se_writes s @ [(data, c)]\<rparr>) n)" if "net_inv X n" for n :: "'a network"
    by (rule change_session_inv [OF that]) (auto simp: session_ok_def is_read_def wait_def)
  ultimately show ?thesis
    using inv by (auto simp: do_write_def Let_def manager_stop_inv split: option.split)
qed

lemma perform_inv: "net_inv X net \<Longrightarrow> net_inv X (perform a net)"
  by (cases a) (simp_all add: do_write_inv shutdown_inv)

lemma fold_perform_inv: "net_inv X net \<Longrightarrow> net_inv X (fold perform acts net)"
  by (induction acts arbitrary: net) (simp_all add: perform_inv)

lemma capacity_move: "capacity (move_unread_to_begin b) = capacity b"
  by (simp add: move_unread_to_begin_def Let_def)

lemma do_read_inv:
  assumes "net_inv {i} net" "do_read i net = (r, net')" "no_ub r"
  shows "net_inv {} net'"
proof (cases "sessions net i")
  case None
  have "net_inv {} net"
    by (rule net_inv_wait [OF assms(1)]) (use None in \<open>auto simp: wait_def split: if_splits\<close>)
  then show ?thesis
    using assms(2) None by (simp add: do_read_def)
next
  case (Some s)
  have ok: "session_ok s" "se_reads s = []"
    using net_invD(2) [OF assms(1) Some] by (simp_all add: wait_def)
  show ?thesis
  proof (cases "se_open s")
    case False
    have "net_inv {} net"
      by (rule net_inv_wait [OF assms(1)]) (use False Some in \<open>auto simp: wait_def is_read_def split: if_splits\<close>)
    then show ?thesis
      using assms(2) Some False by (simp add: do_read_def)
  next
    case True
    show ?thesis
    proof (cases "socket_read_length kSocketReadSize (se_buffer s)")
      case (Inl e)
      have "kMaxCacheSize < capacity (se_buffer s)"
        using socket_read_length_Inl [OF _ Inl] ok(1) by (simp add: session_ok_def)
      then have "net_inv {} (change_session i (\<lambda>s. s\<lparr>se_buffer := move_unread_to_begin (se_buffer s)\<rparr>) net)"
        by (intro change_session_inv [OF assms(1)]) (use Some ok in \<open>auto simp: wait_def is_read_def session_ok_def capacity_move\<close>)
      then show ?thesis
        using assms(2) Some True Inl by (simp add: do_read_def)
    next
      case (Inr nb)
      obtain n b where nb: "nb = (n, b)"
        by (cases nb)
      have b: "n = kSocketReadSize" "fb_ok b" "n \<le> writable_bytes b"
        using socket_read_length_Inr [OF _ Inr [unfolded nb]] ok(1) by (simp_all add: session_ok_def)
      have "net_inv {} (change_session i (\<lambda>s. s\<lparr>se_buffer := b, se_reads := se_reads s @ [n]\<rparr>) net)"
        by (intro change_session_inv [OF assms(1)]) (use Some ok b in \<open>auto simp: wait_def is_read_def session_ok_def\<close>)
      then show ?thesis
        using assms(2,3) Some True Inr nb by (auto simp: do_read_def split: if_splits)
    qed
  qed
qed

subsection \<open>New sessions and old ones\<close>

lemma manager_add_new:
  assumes "session_map net k = None" "sessions net i = Some s" "se_id s = k" "net_inv X net"
  shows "net_inv X (manager_add i k net)"
  using assms by (auto simp: manager_add_def net_inv_def known_id_def)

lemma session_alloc_inv:
  assumes "net_ok net"
  shows "\<exists>net'. session_alloc cbs fd net = (Inr (next_session net), net') \<and> net_inv {next_session net} net'
    \<and> (\<forall>j s. sessions net' j = Some s \<longrightarrow> session_map net' (se_id s) = Some j)"
proof -
  let ?k = "session_id (generate_session_prefix net) fd"
  let ?i = "next_session net"
  let ?net = "net\<lparr>session_index := session_index net + 1, next_session := ?i + 1,
         sessions := (sessions net)(?i \<mapsto> new_session ?k), program := on_new cbs ?i ?k (program net)\<rparr>"
  have inv: "net_inv {} net" and held: "\<And>j s. sessions net j = Some s \<Longrightarrow> session_map net (se_id s) = Some j"
    using assms unfolding net_ok_def by blast+
  have fresh: "se_id s \<noteq> ?k" if s: "sessions net j = Some s" for j s
  proof
    assume k: "se_id s = ?k"
    obtain n fd' where n: "n \<le> session_index net" "se_id s = session_id (server_name net @ ''-session_count('' @ to_string_nat n @ '')'') fd'"
      using net_invD(2) [OF inv s] unfolding known_id_def by blast
    then have "n = Suc (session_index net)"
      using k session_id_inj [of "server_name net" n fd' "Suc (session_index net)" fd] by (simp add: generate_session_prefix_def)
    then show False
      using n by simp
  qed
  have free: "session_map net ?k = None"
    using net_invD(1) [OF inv, of ?k] fresh by (metis not_None_eq)
  have new: "sessions net ?i = None"
    using net_invD(2) [OF inv, of ?i] by (cases "sessions net ?i") auto
  have kn: "known_id ?net k" if "known_id net k" for k
    using that unfolding known_id_def by (auto intro: le_SucI)
  have kk: "known_id ?net ?k"
    unfolding known_id_def by (intro exI [of _ "Suc (session_index net)"] exI [of _ fd]) (simp add: generate_session_prefix_def)
  have "net_inv {?i} ?net"
  proof (rule net_invI)
    fix k j assume "session_map ?net k = Some j"
    then obtain s where "sessions net j = Some s" "se_id s = k"
      using net_invD(1) [OF inv] by auto
    then show "\<exists>s. sessions ?net j = Some s \<and> se_id s = k"
      using new by auto
  next
    fix j s assume j: "sessions ?net j = Some s"
    show "j < next_session ?net \<and> known_id ?net (se_id s) \<and> session_ok s \<and> wait {?i} j s"
    proof (cases "j = ?i")
      case True
      then have "s = new_session ?k"
        using j by simp
      then show ?thesis
        using kk True by (simp add: new_session_def session_ok_def wait_def)
    next
      case False
      then show ?thesis
        using j net_invD(2) [OF inv, of j s] kn [of "se_id s"] by (auto simp: wait_def)
    qed
  next
    fix j l s t assume "sessions ?net j = Some s" "sessions ?net l = Some t" "se_id s = se_id t"
    then show "j = l"
      using fresh net_invD(3) [OF inv, of j s l t] by (auto simp: new_session_def split: if_splits) (metis fresh)+
  qed
  then have "net_inv {?i} (manager_add ?i ?k ?net)"
    by (intro manager_add_new [where s = "new_session ?k"]) (simp_all add: free new_session_def)
  moreover have "\<forall>j s. sessions (manager_add ?i ?k ?net) j = Some s \<longrightarrow> session_map (manager_add ?i ?k ?net) (se_id s) = Some j"
    using held fresh free by (auto simp: manager_add_def new_session_def)
  ultimately show ?thesis
    by (simp add: session_alloc_def Let_def)
qed

lemma start_server_ok: "net_ok (start_server port b fd errs order p)" "program (start_server port b fd errs order p) = p"
  by (simp_all add: start_server_def create_server_def do_accept_def net_ok_def net_inv_def)

subsection \<open>Destruction\<close>

lemma each_drop:
  assumes "each (drop_session cbs) is net = (Inr (), net')"
  shows "\<exists>p. net' = net\<lparr>program := p, sessions := (\<lambda>j. if j \<in> set is then None else sessions net j)\<rparr>"
  using assms
proof (induction "is" arbitrary: net)
  case Nil
  then show ?case
    by (intro exI [of _ "program net"]) simp
next
  case (Cons i ks)
  obtain r p where d: "on_drop cbs i (program net) = (r, p)"
    by fastforce
  have "drop_session cbs i net = (r, net\<lparr>program := p, sessions := (sessions net)(i := None)\<rparr>)"
    using d by (simp add: drop_session_def)
  then have "each (drop_session cbs) ks (net\<lparr>program := p, sessions := (sessions net)(i := None)\<rparr>) = (Inr (), net')"
    using Cons.prems by (cases r) (simp_all add: ebind_def)
  from Cons.IH [OF this] obtain q where "net' = (net\<lparr>program := p, sessions := (sessions net)(i := None)\<rparr>)\<lparr>program := q,
      sessions := (\<lambda>j. if j \<in> set ks then None else sessions (net\<lparr>program := p, sessions := (sessions net)(i := None)\<rparr>) j)\<rparr>"
    by blast
  then have "net' = net\<lparr>program := q, sessions := (\<lambda>j. if j \<in> set ks then None else ((sessions net)(i := None)) j)\<rparr>"
    by (simp cong: if_cong)
  moreover have "(\<lambda>j. if j \<in> set ks then None else ((sessions net)(i := None)) j) = (\<lambda>j. if j \<in> set (i # ks) then None else sessions net j)"
    by auto
  ultimately show ?case
    by metis
qed

lemma collected:
  assumes "net_inv {} net" "collect cbs net = (Inr (), net')"
  shows "net_ok net' \<and> (\<exists>p. net' = net\<lparr>program := p,
    sessions := (\<lambda>j. case sessions net j of None \<Rightarrow> None | Some s \<Rightarrow> if session_map net (se_id s) = Some j then Some s else None)\<rparr>)"
proof -
  let ?f = "\<lambda>j. case sessions net j of None \<Rightarrow> None | Some s \<Rightarrow> if session_map net (se_id s) = Some j then Some s else None"
  have "(if j \<in> set (gone net) then None else sessions net j) = ?f j" for j
    using net_invD(2) [OF assms(1), of j] by (auto simp: gone_def split: option.splits)
  then have feq: "(\<lambda>j. if j \<in> set (gone net) then None else sessions net j) = ?f"
    by (rule ext)
  obtain p where p: "net' = net\<lparr>program := p, sessions := ?f\<rparr>"
    using each_drop [of cbs "gone net" net net'] assms(2) unfolding collect_def feq by blast
  have f: "sessions net' j = Some s \<longleftrightarrow> sessions net j = Some s \<and> session_map net (se_id s) = Some j" for j s
    by (auto simp: p split: option.splits)
  have same: "session_map net' = session_map net" "next_session net' = next_session net" "known_id net' k = known_id net k" for k
    by (simp_all add: p known_id_def)
  have "net_inv {} net'"
    by (rule net_invI; unfold f same) (use net_invD [OF assms(1)] in blast)+
  then have "net_ok net'"
    using f same(1) by (simp add: net_ok_def)
  then show ?thesis
    using p by blast
qed

subsection \<open>Handlers\<close>

lemma do_accept_ok [simp]: "net_inv X (do_accept net) = net_inv X net" "sessions (do_accept net) = sessions net"
    "session_map (do_accept net) = session_map net" "net_ok (do_accept net) = net_ok net"
  by (auto simp: do_accept_def net_ok_def)

lemma read_taken:
  assumes "net_inv {} net"
  shows "net_inv {i} (change_session i (\<lambda>s. s\<lparr>se_reads := tl (se_reads s)\<rparr>) net)"
proof (rule change_session_inv [OF assms])
  fix s assume "session_ok s"
  then have "se_reads s = [] \<or> (\<exists>n. se_reads s = [n])"
    by (cases "se_reads s") (auto simp: session_ok_def)
  then show "wait {i} i (s\<lparr>se_reads := tl (se_reads s)\<rparr>)"
    by (auto simp: wait_def)
next
  fix s assume "session_ok s"
  moreover have "set (tl (se_reads s)) \<subseteq> set (se_reads s)"
    by (cases "se_reads s") auto
  ultimately show "session_ok (s\<lparr>se_reads := tl (se_reads s)\<rparr>)"
    by (auto simp: session_ok_def)
qed simp_all

lemma read_failed_inv:
  assumes "net_ok net"
  shows "net_inv {} (on_read_failed i net)"
proof (cases "sessions net i")
  case None
  then have "on_read_failed i net = change_session i stop_session net"
    by (simp add: on_read_failed_def manager_stop_def change_session_def)
  then show ?thesis
    using assms by (simp add: net_ok_def stop_inv)
next
  case (Some s)
  let ?net = "change_session i (\<lambda>s. s\<lparr>se_reads := tl (se_reads s)\<rparr>) net"
  have "net_inv {i} ?net"
    using assms by (intro read_taken) (simp add: net_ok_def)
  then have "net_inv {} (change_session i stop_session ?net)"
    by (rule change_session_inv) (auto simp: wait_def)
  from forget_inv [OF this, of "se_id s"] show ?thesis
    using assms Some by (auto simp: on_read_failed_def manager_stop_def net_ok_def)
qed

lemma write_done_inv:
  assumes "net_inv {} net"
  shows "net_inv {} (on_write_done i k ec net)"
proof -
  have "net_inv {} (change_session i (\<lambda>s. s\<lparr>se_writes := take k (se_writes s) @ drop (Suc k) (se_writes s)\<rparr>) net)"
    by (rule change_session_inv [OF assms]) (auto simp: session_ok_def is_read_def wait_def)
  then show ?thesis
    using assms by (auto simp: on_write_done_def Let_def manager_stop_inv split: option.split)
qed

lemma stop_all_inv:
  assumes "net_inv {} net"
  shows "net_inv {} (stop_all net)"
proof (rule net_invI)
  fix i s assume "sessions (stop_all net) i = Some s"
  then obtain t where "sessions net i = Some t" "s = (if i \<in> ran (session_map net) then stop_session t else t)"
    by (auto simp: stop_all_def split: option.splits)
  then show "i < next_session (stop_all net) \<and> known_id (stop_all net) (se_id s) \<and> session_ok s \<and> wait {} i s"
    using net_invD(2) [OF assms, of i t] by (auto simp: stop_all_def known_id_def wait_def)
next
  fix i j s t assume "sessions (stop_all net) i = Some s" "sessions (stop_all net) j = Some t" "se_id s = se_id t"
  moreover have "\<exists>u'. sessions net l = Some u' \<and> se_id u' = se_id u" if "sessions (stop_all net) l = Some u" for l u
    using that by (auto simp: stop_all_def split: option.splits if_splits)
  ultimately show "i = j"
    using net_invD(3) [OF assms] by metis
qed (simp add: stop_all_def)

text \<open>Bytes that arrive are put behind those that are unread; the room for them is still there.\<close>

lemma received:
  assumes "net_inv {} net" "enabled (Read_Done i bs) net"
  obtains s b where "sessions net i = Some s" "socket_receive bs (se_buffer s) = Inr b" "fb_ok b"
    and "net_inv {i} (change_session i (\<lambda>s. s\<lparr>se_buffer := b, se_reads := tl (se_reads s)\<rparr>) net)"
    and "unread b = unread (se_buffer s) @ bs" "se_reads s \<noteq> []"
proof -
  obtain s n ns where s: "sessions net i = Some s" "se_reads s = n # ns" "length bs \<le> n"
    using assms(2) by auto
  have ok: "session_ok s"
    using net_invD(2) [OF assms(1) s(1)] by simp
  have room: "length bs \<le> writable_bytes (se_buffer s)" "ns = []"
    using ok s(2,3) by (auto simp: session_ok_def)
  obtain b where b: "socket_receive bs (se_buffer s) = Inr b" "fb_ok b" "unread b = unread (se_buffer s) @ bs"
    using socket_receive_ok [OF _ room(1)] ok by (auto simp: session_ok_def)
  have "net_inv {i} (change_session i (\<lambda>s. s\<lparr>se_buffer := b, se_reads := tl (se_reads s)\<rparr>) net)"
    by (rule change_session_inv [OF assms(1)]) (use s(1,2) room(2) b(2) in \<open>auto simp: session_ok_def wait_def\<close>)
  then show thesis
    using that s(1,2) b by simp
qed

section \<open>The contract of the derived classes\<close>

text \<open>
  What a session relies on: \<open>on_recv\<close> leaves the buffer well formed, and the program's state keeps what
  holds of it, \<open>good\<close>.
\<close>

locale session_protocol =
  fixes cbs :: "'p session_cbs" and good :: "'p \<Rightarrow> bool"
  assumes buffer_kept: "fb_ok b \<Longrightarrow> on_recv cbs i b p = ((Inr b', acts), p') \<Longrightarrow> fb_ok b'"
    and new_good: "good p \<Longrightarrow> good (on_new cbs i k p)"
    and recv_good: "good p \<Longrightarrow> fb_ok b \<Longrightarrow> good (snd (on_recv cbs i b p))"
    and drop_good: "good p \<Longrightarrow> good (snd (on_drop cbs i p))"
begin

lemma read_done_inv:
  assumes "net_inv {} net" "enabled (Read_Done i bs) net" "on_read_done cbs i bs net = (r, net')" "no_ub r"
  shows "net_inv {} net'"
proof -
  obtain s b where s: "sessions net i = Some s" "socket_receive bs (se_buffer s) = Inr b" "fb_ok b"
    and inv1: "net_inv {i} (change_session i (\<lambda>s. s\<lparr>se_buffer := b, se_reads := tl (se_reads s)\<rparr>) net)"
    using received [OF assms(1,2)] by blast
  obtain v acts p where v: "on_recv cbs i b (program net) = ((v, acts), p)"
    by (metis surj_pair)
  let ?net1 = "(change_session i (\<lambda>s. s\<lparr>se_buffer := b, se_reads := tl (se_reads s)\<rparr>) net)\<lparr>program := p\<rparr>"
  let ?net2 = "fold perform acts ?net1"
  have inv2: "net_inv {i} ?net2"
    using inv1 by (simp add: fold_perform_inv)
  show ?thesis
  proof (cases v)
    case (Inl e)
    then show ?thesis
      using assms(3,4) s(1,2) v do_read_inv [OF shutdown_inv [OF inv2]]
      by (auto simp: on_read_done_def Let_def split: if_splits)
  next
    case (Inr b')
    have "fb_ok b'"
      using buffer_kept [OF s(3)] v Inr by blast
    then have "net_inv {i} (change_session i (\<lambda>s. s\<lparr>se_buffer := b'\<rparr>) ?net2)"
      by (intro change_session_inv [OF inv2]) (auto simp: session_ok_def wait_def)
    then show ?thesis
      using assms(3,4) s(1,2) v Inr do_read_inv by (auto simp: on_read_done_def Let_def)
  qed
qed

lemma accept_inv:
  assumes "net_ok net" "on_accept cbs sock net = (r, net')" "no_ub r"
  shows "net_inv {} net'"
proof -
  let ?net = "net\<lparr>accepts := accepts net - 1\<rparr>"
  have ok: "net_ok ?net" "net_inv {} ?net"
    using assms(1) by (simp_all add: net_ok_def)
  show ?thesis
  proof (cases "acceptor_open net \<and> sock \<noteq> None")
    case False
    then show ?thesis
      using assms(2) ok(2) by (cases sock) (auto simp: on_accept_def Let_def split: if_splits)
  next
    case True
    then obtain fd where fd: "sock = Some fd"
      by auto
    obtain net1 where net1: "session_alloc cbs fd ?net = (Inr (next_session ?net), net1)" "net_inv {next_session ?net} net1"
      using session_alloc_inv [OF ok(1)] by blast
    obtain v net2 where v: "do_read (next_session ?net) net1 = (v, net2)"
      by fastforce
    then show ?thesis
      using assms(2,3) True fd net1(1) do_read_inv [OF net1(2) v]
      by (cases v) (auto simp: on_accept_def Let_def ebind_def)
  qed
qed

lemma handler_inv:
  assumes "net_ok net" "enabled ev net" "handler cbs ev net = (r, net')" "no_ub r"
  shows "net_inv {} net'"
proof -
  have inv: "net_inv {} net"
    using assms(1) by (simp add: net_ok_def)
  show ?thesis
  proof (cases ev)
    case (Read_Done i bs)
    then show ?thesis
      using read_done_inv [OF inv, of i bs r net'] assms(2-4) by simp
  next
    case Signal
    have "net_inv {} (net\<lparr>acceptor_open := False, io_running := False\<rparr>)"
      using inv by simp
    from stop_all_inv [OF this] show ?thesis
      using assms(3) Signal by (simp add: on_signal_def)
  next
    case (Elsewhere n acts p)
    have "net_inv {} (net\<lparr>session_index := session_index net + n, program := p\<rparr>)"
      using net_inv_index [OF inv, of n] by simp
    then show ?thesis
      using assms(3) Elsewhere by (auto simp: fold_perform_inv)
  qed (use assms inv accept_inv read_failed_inv write_done_inv in auto)
qed

lemma handle_event_ok:
  assumes "net_ok net" "enabled ev net" "handle_event cbs ev net = (Inr (), net')"
  shows "net_ok net'"
proof -
  obtain r net1 where h: "handler cbs ev net = (r, net1)"
    by fastforce
  show ?thesis
  proof (cases r)
    case (Inr u)
    then show ?thesis
      using handler_inv [OF assms(1,2) h] assms(3) h collected by (auto simp: handle_event_def)
  next
    case (Inl e)
    then have e: "\<not> is_undefined e"
      using assms(3) h by (auto simp: handle_event_def split: if_splits)
    then obtain net2 where "collect cbs net1 = (Inr (), net2)" "net' = do_accept net2"
      using assms(3) h Inl by (auto simp: handle_event_def ebind_def split: prod.splits sum.splits)
    then show ?thesis
      using handler_inv [OF assms(1,2) h] Inl e collected by auto
  qed
qed

lemma act_program: "program (perform a net) = program net"
  by (cases a) (simp_all add: do_write_def shutdown_def manager_erase_def manager_stop_def Let_def split: option.split)

lemma acts_program: "program (fold perform acts net) = program net"
  by (induction acts arbitrary: net) (simp_all add: act_program)

lemma read_program: "program (snd (do_read i net)) = program net"
  by (simp add: do_read_def split: option.split sum.split prod.split)

lemma shutdown_program: "program (shutdown i net) = program net"
  by (simp add: shutdown_def manager_erase_def split: option.split)

lemma stop_program: "program (manager_stop i net) = program net"
  by (simp add: manager_stop_def split: option.split)

lemma collect_good:
  assumes "good (program net)"
  shows "good (program (snd (collect cbs net)))"
proof -
  have "good (program (snd (each (drop_session cbs) is net)))" if "good (program net)" for "is" and net :: "'p network"
    using that
  proof (induction "is" arbitrary: net)
    case (Cons i ks)
    obtain r p where d: "on_drop cbs i (program net) = (r, p)"
      by fastforce
    have "good p"
      using drop_good [OF Cons.prems, of i] d by simp
    then show ?case
      using Cons.IH d by (cases r) (simp_all add: ebind_def drop_session_def)
  qed simp
  then show ?thesis
    using assms by (simp add: collect_def)
qed

lemma accept_good: "keeps_inv (\<lambda>net. good (program net)) (on_accept cbs sock)"
proof (rule keeps_invI)
  fix net :: "'p network" assume g: "good (program net)"
  let ?good = "\<lambda>net :: 'p network. good (program net)"
  have "keeps_inv ?good (session_alloc cbs fd)" for fd
    by (auto simp: keeps_inv_def session_alloc_def manager_add_def Let_def new_good split: option.split)
  moreover have "keeps_inv ?good (do_read i)" for i
    by (simp add: keeps_inv_def read_program)
  ultimately have k: "keeps_inv ?good (ebind (case sock of None \<Rightarrow> eret () | Some fd \<Rightarrow> ebind (session_alloc cbs fd) do_read) (\<lambda>_. emodify do_accept))"
    by (cases sock) (auto intro!: keeps simp: do_accept_def)
  show "good (program (snd (on_accept cbs sock net)))"
    using keeps_inv_snd [OF k, of "net\<lparr>accepts := accepts net - 1\<rparr>"] g by (simp add: on_accept_def Let_def)
qed

lemma handler_good:
  assumes "net_ok net" "enabled ev net" "good (program net)" "\<And>n acts p. ev = Elsewhere n acts p \<Longrightarrow> good p"
  shows "good (program (snd (handler cbs ev net)))"
proof (cases ev)
  case (Accepted fd)
  then show ?thesis
    using keeps_inv_snd [OF accept_good] assms(3) by simp
next
  case Accept_Failed
  then show ?thesis
    using keeps_inv_snd [OF accept_good] assms(3) by simp
next
  case (Read_Done i bs)
  have inv: "net_inv {} net"
    using assms(1) by (simp add: net_ok_def)
  obtain s b where s: "sessions net i = Some s" "socket_receive bs (se_buffer s) = Inr b" "fb_ok b"
    using received [OF inv, of i bs] assms(2) Read_Done by blast
  obtain v acts p where v: "on_recv cbs i b (program net) = ((v, acts), p)"
    by (metis surj_pair)
  have "good p"
    using recv_good [OF assms(3) s(3), of i] v by simp
  then show ?thesis
    using s v Read_Done
    by (auto simp: on_read_done_def Let_def read_program acts_program shutdown_program split: sum.splits)
qed (use assms(3,4) in \<open>auto simp: on_read_failed_def on_write_done_def on_signal_def stop_all_def
    stop_program acts_program Let_def split: option.split\<close>)

lemma handle_event_good:
  assumes "net_ok net" "enabled ev net" "good (program net)" "\<And>n acts p. ev = Elsewhere n acts p \<Longrightarrow> good p"
  shows "good (program (snd (handle_event cbs ev net)))"
proof -
  obtain r net1 where h: "handler cbs ev net = (r, net1)"
    by fastforce
  have g: "good (program net1)"
    using handler_good [OF assms] h by simp
  obtain v net2 where c: "collect cbs net1 = (v, net2)"
    by fastforce
  have "good (program net2)"
    using collect_good [OF g] c by simp
  then show ?thesis
    using h g c by (cases r; cases v) (auto simp: handle_event_def ebind_def do_accept_def)
qed

lemma net_run_good:
  "net_run cbs evs net net' \<Longrightarrow> net_ok net \<Longrightarrow> good (program net) \<Longrightarrow> (\<And>n acts p. Elsewhere n acts p \<in> set evs \<Longrightarrow> good p)
     \<Longrightarrow> good (program net')"
proof (induction rule: net_run.induct)
  case (event ev net net' evs net'')
  have "good (program net')"
    using handle_event_good [OF event.prems(1) event.hyps(1) event.prems(2)] event.prems(3) event.hyps(2) by force
  then show ?case
    using event.IH handle_event_ok [OF event.prems(1) event.hyps(1,2)] event.prems(3) by auto
qed

lemma net_run_ok: "net_run cbs evs net net' \<Longrightarrow> net_ok net \<Longrightarrow> net_ok net'"
  by (induction rule: net_run.induct) (auto intro: handle_event_ok)

end

section \<open>Sessions that are never released\<close>

text \<open>
  A session that was shut down with no read and no write pending: no handler of its own will run again, and
  the map still holds it.
\<close>

definition stranded :: "nat \<Rightarrow> tcp_session \<Rightarrow> 'p network \<Rightarrow> bool" where
  "stranded i s net \<longleftrightarrow> sessions net i = Some s \<and> session_map net (se_id s) = Some i
     \<and> se_id s \<noteq> [] \<and> \<not> se_open s \<and> se_is_closed s \<and> se_reads s = [] \<and> se_writes s = []"

lemma stranded_change:
  "stranded i s net \<Longrightarrow> j \<noteq> i \<or> (\<forall>s. f s = s) \<Longrightarrow> stranded i s (change_session j f net)"
  by (auto simp: stranded_def change_session_def option.map_ident)

lemma stranded_simps [simp]:
  "stranded i s (net\<lparr>program := p\<rparr>) = stranded i s net" "stranded i s (net\<lparr>sync_writes := n\<rparr>) = stranded i s net"
  "stranded i s (net\<lparr>io_running := b\<rparr>) = stranded i s net" "stranded i s (net\<lparr>accepts := n\<rparr>) = stranded i s net" "stranded i s (do_accept net) = stranded i s net"
  by (auto simp: stranded_def do_accept_def)

lemma stranded_stop: "stranded i s net \<Longrightarrow> stranded i s (change_session j stop_session net)"
  by (auto simp: stranded_def change_session_def stop_session_def)

lemma stranded_shutdown: "net_inv X net \<Longrightarrow> stranded i s net \<Longrightarrow> stranded i s (shutdown j net)"
  using stranded_stop [of i s net j] by (auto simp: shutdown_def manager_erase_def stranded_def split: option.split)

lemma stranded_manager_stop:
  assumes "net_inv X net" "stranded i s net" "j \<noteq> i"
  shows "stranded i s (manager_stop j net)"
proof (cases "sessions net j")
  case (Some t)
  then have "se_id t \<noteq> se_id s"
    using net_invD(3) [OF assms(1) Some, of i s] assms(2,3) by (auto simp: stranded_def)
  then show ?thesis
    using Some assms(2,3) by (simp add: manager_stop_def stranded_def)
qed (use assms(2) in \<open>simp add: manager_stop_def\<close>)

lemma stranded_write:
  assumes "net_inv X net" "stranded i s net"
  shows "stranded i s (do_write j data a c net)"
proof (cases "sessions net j")
  case (Some t)
  show ?thesis
  proof (cases "se_open t")
    case True
    then have "j \<noteq> i"
      using Some assms(2) by (auto simp: stranded_def)
    moreover have "net_inv X (change_session j (\<lambda>s. s\<lparr>se_sent := se_sent s @ data\<rparr>) net)"
      by (rule change_session_inv [OF assms(1)]) (auto simp: session_ok_def is_read_def wait_def)
    ultimately show ?thesis
      using Some True assms(2) by (auto simp: do_write_def Let_def intro!: stranded_change stranded_manager_stop)
  qed (use Some assms(2) in \<open>simp add: do_write_def\<close>)
qed (use assms(2) in \<open>simp add: do_write_def\<close>)

lemma stranded_perform: "net_inv X net \<Longrightarrow> stranded i s net \<Longrightarrow> stranded i s (perform a net)"
  by (cases a) (simp_all add: stranded_write stranded_shutdown)

lemma stranded_fold: "net_inv X net \<Longrightarrow> stranded i s net \<Longrightarrow> stranded i s (fold perform acts net)"
  by (induction acts arbitrary: net) (simp_all add: stranded_perform perform_inv)

lemma stranded_read: "stranded i s net \<Longrightarrow> stranded i s (snd (do_read j net))"
proof (cases "sessions net j")
  case (Some t)
  assume s: "stranded i s net"
  show ?thesis
  proof (cases "se_open t")
    case True
    then have "j \<noteq> i"
      using Some s by (auto simp: stranded_def)
    then show ?thesis
      using Some True s by (auto simp: do_read_def stranded_change split: sum.split prod.split)
  qed (use Some s in \<open>simp add: do_read_def\<close>)
qed (simp add: do_read_def)

lemma stranded_collect:
  assumes "net_inv {} net" "stranded i s net" "collect cbs net = (Inr (), net')"
  shows "stranded i s net'"
  using collected [OF assms(1,3)] assms(2) by (auto simp: stranded_def)

lemma stranded_accept:
  assumes "net_ok net" "stranded i s net" "on_accept cbs sock net = (r, net')"
  shows "stranded i s net'"
proof -
  let ?net = "net\<lparr>accepts := accepts net - 1\<rparr>"
  have ok: "net_ok ?net" "stranded i s ?net"
    using assms(1,2) by (simp_all add: net_ok_def)
  show ?thesis
  proof (cases "acceptor_open net \<and> sock \<noteq> None")
    case False
    then show ?thesis
      using assms(3) ok(2) by (cases sock) (auto simp: on_accept_def Let_def split: if_splits)
  next
    case True
    then obtain fd where fd: "sock = Some fd"
      by auto
    obtain net1 where net1: "session_alloc cbs fd ?net = (Inr (next_session ?net), net1)" "net_inv {next_session ?net} net1"
      using session_alloc_inv [OF ok(1)] by blast
    have "i < next_session ?net"
      using net_invD(2) [of "{}" ?net i s] ok by (auto simp: net_ok_def stranded_def)
    then have "stranded i s net1"
      using net1(1) ok(2) by (auto simp: session_alloc_def Let_def manager_add_def stranded_def split: option.splits)
    then have "stranded i s (snd (do_read (next_session ?net) net1))"
      by (rule stranded_read)
    then show ?thesis
      using assms(3) True fd net1(1)
      by (cases "do_read (next_session ?net) net1"; cases "fst (do_read (next_session ?net) net1)")
        (auto simp: on_accept_def Let_def ebind_def)
  qed
qed

text \<open>How a session gets there: its handler throws while nothing is being written.\<close>

lemma all_held:
  assumes "net_ok net" "\<And>j. map_option se_id (sessions net' j) = map_option se_id (sessions net j)"
    and "session_map net' = session_map net"
  shows "collect cbs net' = (Inr (), net')"
proof -
  have "session_map net' (se_id s) = Some j" if "sessions net' j = Some s" for j s
    using that assms(1) assms(2) [of j] assms(3) by (cases "sessions net j") (auto simp: net_ok_def)
  then have "gone net' = []"
    by (auto simp: gone_def filter_empty_conv split: option.split)
  then show ?thesis
    by (simp add: collect_def)
qed

lemma failing_handler:
  assumes "net_ok net" "enabled (Read_Done i bs) net" "sessions net i = Some s" "se_writes s = []"
    and "\<And>b. fb_ok b \<Longrightarrow> unread b = unread (se_buffer s) @ bs \<Longrightarrow> on_recv cbs i b (program net) = ((Inl e, []), p)" "\<not> is_undefined e"
  shows "\<exists>net' s'. handle_event cbs (Read_Done i bs) net = (Inr (), net') \<and> stranded i s' net' \<and> se_id s' = se_id s"
proof -
  have inv: "net_inv {} net" "session_map net (se_id s) = Some i"
    using assms(1,3) by (simp_all add: net_ok_def)
  have ids: "se_id s \<noteq> []"
    using net_invD(2) [OF inv(1) assms(3)] unfolding known_id_def by (metis session_id_not_Nil)
  obtain t b where t: "sessions net i = Some t" "socket_receive bs (se_buffer t) = Inr b" "fb_ok b" "unread b = unread (se_buffer t) @ bs"
    and inv1: "net_inv {i} (change_session i (\<lambda>s. s\<lparr>se_buffer := b, se_reads := tl (se_reads s)\<rparr>) net)"
    using received [OF inv(1) assms(2)] by blast
  then have b: "socket_receive bs (se_buffer s) = Inr b" "fb_ok b" "unread b = unread (se_buffer s) @ bs"
    using assms(3) by simp_all
  let ?s = "s\<lparr>se_buffer := b, se_reads := tl (se_reads s)\<rparr>"
  let ?net1 = "(change_session i (\<lambda>s. s\<lparr>se_buffer := b, se_reads := tl (se_reads s)\<rparr>) net)\<lparr>program := p\<rparr>"
  have s1: "session_ok ?s" "se_reads ?s = []"
    using net_invD(2) [OF inv1, of i ?s] assms(3) by (auto simp: wait_def)
  have sd: "shutdown i ?net1 = change_session i stop_session ?net1"
    using assms(3) ids by (simp add: shutdown_def manager_erase_def)
  let ?net2 = "change_session i stop_session ?net1"
  have dead: "\<not> se_open (stop_session ?s)" "se_is_closed (stop_session ?s)"
    using s1(1) by (auto simp: stop_session_def session_ok_def)
  have "handler cbs (Read_Done i bs) net = (Inr (), ?net2)"
    using assms(3,6) b(1) assms(5) [OF b(2,3)] sd dead(1) by (simp add: on_read_done_def do_read_def)
  moreover have "collect cbs ?net2 = (Inr (), ?net2)"
    by (rule all_held [OF assms(1)]) (use assms(3) in \<open>auto simp: change_session_def\<close>)
  moreover have "stranded i (stop_session ?s) ?net2"
    using assms(3,4) inv(2) ids dead s1(2) by (simp add: stranded_def)
  ultimately show ?thesis
    by (intro exI [of _ ?net2] exI [of _ "stop_session ?s"]) (simp add: handle_event_def)
qed

context session_protocol begin

lemma stranded_read_done:
  assumes "net_inv {} net" "stranded i s net" "enabled (Read_Done j bs) net" "on_read_done cbs j bs net = (r, net')"
  shows "stranded i s net'"
proof -
  obtain t b where t: "sessions net j = Some t" "socket_receive bs (se_buffer t) = Inr b" "se_reads t \<noteq> []"
    and inv: "net_inv {j} (change_session j (\<lambda>s. s\<lparr>se_buffer := b, se_reads := tl (se_reads s)\<rparr>) net)"
    using received [OF assms(1,3)] by blast
  have ne: "j \<noteq> i"
    using t assms(2) by (auto simp: stranded_def)
  obtain v acts p where v: "on_recv cbs j b (program net) = ((v, acts), p)"
    by (metis surj_pair)
  let ?net0 = "change_session j (\<lambda>s. s\<lparr>se_buffer := b, se_reads := tl (se_reads s)\<rparr>) net"
  have inv2: "net_inv {j} (fold perform acts (?net0\<lparr>program := p\<rparr>))"
    using inv by (simp add: fold_perform_inv)
  have s0: "stranded i s (?net0\<lparr>program := p\<rparr>)"
    using stranded_change [OF assms(2)] ne by simp
  have s2: "stranded i s (fold perform acts (?net0\<lparr>program := p\<rparr>))"
    by (rule stranded_fold [OF _ s0]) (use inv in simp)
  have s3: "stranded i s (snd (do_read j (change_session j f (fold perform acts (?net0\<lparr>program := p\<rparr>)))))" for f
    by (rule stranded_read, rule stranded_change [OF s2]) (use ne in simp)
  show ?thesis
  proof (cases v)
    case (Inl e)
    then show ?thesis
      using assms(4) t(1,2) v s2 stranded_read [OF stranded_shutdown [OF inv2 s2], of j j]
      by (auto simp: on_read_done_def Let_def split: if_splits)
  next
    case (Inr b')
    then have "do_read j (change_session j (\<lambda>s. s\<lparr>se_buffer := b'\<rparr>) (fold perform acts (?net0\<lparr>program := p\<rparr>))) = (r, net')"
      using assms(4) t(1,2) v by (simp add: on_read_done_def)
    then show ?thesis
      using s3 by (metis snd_conv)
  qed
qed

lemma stranded_handler:
  assumes "net_ok net" "stranded i s net" "enabled ev net" "handler cbs ev net = (r, net')" "ev \<noteq> Signal"
  shows "stranded i s net'"
proof -
  have inv: "net_inv {} net"
    using assms(1) by (simp add: net_ok_def)
  show ?thesis
  proof (cases ev)
    case (Read_Failed j)
    then have "j \<noteq> i" "stranded i s (change_session j (\<lambda>s. s\<lparr>se_reads := tl (se_reads s)\<rparr>) net)"
      using assms(2,3) by (auto simp: stranded_def change_session_def)
    then show ?thesis
      using stranded_manager_stop [OF read_taken [OF inv]] assms(4) Read_Failed by (auto simp: on_read_failed_def)
  next
    case (Write_Done j k ec)
    let ?net = "change_session j (\<lambda>s. s\<lparr>se_writes := take k (se_writes s) @ drop (Suc k) (se_writes s)\<rparr>) net"
    have "j \<noteq> i" "stranded i s ?net"
      using assms(2,3) Write_Done by (auto simp: stranded_def change_session_def)
    moreover have "net_inv {} ?net"
      by (rule change_session_inv [OF inv]) (auto simp: session_ok_def is_read_def wait_def)
    ultimately show ?thesis
      using assms(2,4) Write_Done stranded_manager_stop [of "{}" ?net i s j]
      by (auto simp: on_write_done_def Let_def split: option.splits)
  next
    case (Read_Done j bs)
    then show ?thesis
      using stranded_read_done [OF inv assms(2), of j bs r net'] assms(3,4) by simp
  next
    case (Elsewhere n acts p)
    then show ?thesis
      using assms(2,4) stranded_fold [of "{}" "net\<lparr>session_index := session_index net + n, program := p\<rparr>" i s acts]
        net_inv_index [OF inv, of n] by (auto simp: stranded_def)
  qed (use assms stranded_accept in auto)
qed

lemma stranded_event:
  assumes "net_ok net" "stranded i s net" "enabled ev net" "handle_event cbs ev net = (Inr (), net')" "ev \<noteq> Signal"
  shows "stranded i s net'"
proof -
  obtain r net1 where h: "handler cbs ev net = (r, net1)"
    by fastforce
  have s1: "stranded i s net1"
    by (rule stranded_handler [OF assms(1-3) h assms(5)])
  show ?thesis
  proof (cases "no_ub r")
    case True
    then have inv: "net_inv {} net1"
      by (rule handler_inv [OF assms(1,3) h])
    obtain net2 where "collect cbs net1 = (Inr (), net2)" "net' = net2 \<or> net' = do_accept net2"
      using assms(4) h by (cases r) (auto simp: handle_event_def ebind_def split: prod.splits sum.splits if_splits)
    then show ?thesis
      using stranded_collect [OF inv s1] by auto
  qed (use assms(4) h in \<open>cases r; auto simp: handle_event_def\<close>)
qed

lemma stranded_run: "net_run cbs evs net net' \<Longrightarrow> net_ok net \<Longrightarrow> stranded i s net \<Longrightarrow> Signal \<notin> set evs \<Longrightarrow> stranded i s net'"
  by (induction rule: net_run.induct) (auto intro: handle_event_ok stranded_event)

end

end
