(* ===== verification/Rtmp_Packet.thy ===== *)
theory Rtmp_Packet
  imports Flat_Buffer
begin

text \<open>
  \<open>include/protocol/rtmp/rtmp_packet.h\<close> and \<open>src/protocol/rtmp/rtmp_packet.cpp\<close>:
  the message types, the handshake block, the RTMP message under assembly and what its first
  bytes say about it. The members that the constructor leaves uninitialised are options,
  \<open>None\<close> until they are assigned; reading such a member is \<open>Undefined\<close>.
\<close>

section \<open>Constants\<close>

definition kRandomHandshakeSize :: nat where "kRandomHandshakeSize = 1528"
definition kDefaultChunkLength :: nat where "kDefaultChunkLength = 128"

definition MSG_SET_CHUNK :: u8 where "MSG_SET_CHUNK = 1"
definition MSG_ABORT :: u8 where "MSG_ABORT = 2"
definition MSG_ACK :: u8 where "MSG_ACK = 3"
definition MSG_USER_CONTROL :: u8 where "MSG_USER_CONTROL = 4"
definition MSG_WIN_SIZE :: u8 where "MSG_WIN_SIZE = 5"
definition MSG_SET_PEER_BW :: u8 where "MSG_SET_PEER_BW = 6"
definition MSG_AUDIO :: u8 where "MSG_AUDIO = 8"
definition MSG_VIDEO :: u8 where "MSG_VIDEO = 9"
definition MSG_DATA :: u8 where "MSG_DATA = 18"
definition MSG_DATA3 :: u8 where "MSG_DATA3 = 15"
definition MSG_CMD :: u8 where "MSG_CMD = 20"
definition MSG_CMD3 :: u8 where "MSG_CMD3 = 17"

lemmas msg_defs = MSG_SET_CHUNK_def MSG_ABORT_def MSG_ACK_def MSG_USER_CONTROL_def
  MSG_WIN_SIZE_def MSG_SET_PEER_BW_def MSG_AUDIO_def MSG_VIDEO_def MSG_DATA_def
  MSG_DATA3_def MSG_CMD_def MSG_CMD3_def

definition CHUNK_NETWORK :: nat where "CHUNK_NETWORK = 2"
definition CHUNK_CLIENT_REQUEST_BEFORE :: nat where "CHUNK_CLIENT_REQUEST_BEFORE = 3"

text \<open>\<open>rtmp_av_frame_type\<close>, \<open>rtmp_h264_packet_type\<close>, \<open>rtmp_aac_packet_type\<close>,
  \<open>rtmp_av_ext_packet_type\<close>: the values the code tests for.\<close>

definition key_frame :: u8 where "key_frame = 1"
definition h264_config_header :: u8 where "h264_config_header = 0"
definition aac_config_header :: u8 where "aac_config_header = 0"
definition PacketTypeSequenceStart :: u8 where "PacketTypeSequenceStart = 0"

text \<open>
  \<open>rtmp_flv_codec_id\<close> is an \<open>int8_t\<close> that also holds values without a name
  (\<open>non_av\<close> is its -1);
  \<open>rtmp_video_codec\<close> and \<open>rtmp_audio_codec\<close> are compared with it.
\<close>

definition non_av :: u8 where "non_av = 0xFF"
definition codec_h264 :: u8 where "codec_h264 = 7"
definition codec_h265 :: u8 where "codec_h265 = 12"
definition codec_aac :: u8 where "codec_aac = 10"

lemmas packet_consts = key_frame_def h264_config_header_def aac_config_header_def
  PacketTypeSequenceStart_def non_av_def codec_h264_def codec_h265_def codec_aac_def

section \<open>The handshake block\<close>

text \<open>
  \<open>rtmp_handshake\<close>: four zero bytes for the time, four zero bytes, and 1528 bytes picked
  from a constant by successive values of \<open>std::rand()\<close> (a parameter). The pick excludes
  the last character of the constant.
\<close>

definition cdata :: bytes where
  "cdata = [0x73, 0x69, 0x6d, 0x70, 0x6c, 0x65, 0x2d, 0x72, 0x74, 0x6d, 0x70, 0x2d, 0x73, 0x65,
    0x72, 0x76, 0x65, 0x72, 0x2d, 0x77, 0x69, 0x6e, 0x6c, 0x69, 0x6e, 0x2d, 0x77, 0x69, 0x6e,
    0x74, 0x65, 0x72, 0x73, 0x65, 0x72, 0x76, 0x65, 0x72, 0x40, 0x31, 0x32, 0x36, 0x2e, 0x63,
    0x6f, 0x6d]"

definition rtmp_handshake :: "(nat \<Rightarrow> nat) \<Rightarrow> bytes" where
  "rtmp_handshake rand = replicate 4 0 @ replicate 4 0
     @ map (\<lambda>i. cdata ! (rand i mod (length cdata - 1))) [0..<kRandomHandshakeSize]"

lemma length_rtmp_handshake: "length (rtmp_handshake rand) = 1536"
  by (simp add: rtmp_handshake_def kRandomHandshakeSize_def)

section \<open>The message under assembly\<close>

record rtmp_packet =
  is_abs_stamp :: bool
  pkt_chunk_stream_id :: "u32 option"
  pkt_msg_stream_id :: "u32 option"
  msg_length :: "u32 option"
  msg_type_id :: "u8 option"
  ts_delta :: "u32 option"
  time_stamp :: "u32 option"
  pkt_buf :: flat_buffer
  pkt_header_length :: nat

definition create_packet :: rtmp_packet where
  "create_packet = \<lparr>is_abs_stamp = False, pkt_chunk_stream_id = None, pkt_msg_stream_id = None,
     msg_length = None, msg_type_id = None, ts_delta = None, time_stamp = None,
     pkt_buf = create kInitialSize, pkt_header_length = 0\<rparr>"

definition initialised :: "'a option \<Rightarrow> 'a res" where
  "initialised x = (case x of None \<Rightarrow> Inl (Undefined ''read of an uninitialised member'')
     | Some v \<Rightarrow> Inr v)"

lemma initialised_simps [simp, res_simps]:
  "initialised None = Inl (Undefined ''read of an uninitialised member'')"
  "initialised (Some v) = Inr v"
  by (simp_all add: initialised_def)

lemma initialised_eq_Inr [simp]: "initialised x = Inr v \<longleftrightarrow> x = Some v"
  by (cases x) auto

definition restore_context :: "rtmp_packet \<Rightarrow> rtmp_packet \<Rightarrow> rtmp_packet" where
  "restore_context other p = p\<lparr>is_abs_stamp := is_abs_stamp other,
     pkt_chunk_stream_id := pkt_chunk_stream_id other,
     pkt_msg_stream_id := pkt_msg_stream_id other, msg_length := msg_length other,
     msg_type_id := msg_type_id other, ts_delta := ts_delta other,
     time_stamp := time_stamp other\<rparr>"

definition is_video_keyframe :: "rtmp_packet \<Rightarrow> bool res" where
  "is_video_keyframe p = res_bind (initialised (msg_type_id p)) (\<lambda>t.
     if t \<noteq> MSG_VIDEO then Inr False
     else res_bind (peek_uint8 (pkt_buf p)) (\<lambda>flv_tag_header.
       let frame_type =
         (if drop_bit 4 flv_tag_header AND 0b1000 \<noteq> 0
          then drop_bit 4 flv_tag_header AND 0b0111 else drop_bit 4 flv_tag_header)
       in Inr (frame_type = key_frame)))"

definition get_av_codec_id :: "rtmp_packet \<Rightarrow> u8 res" where
  "get_av_codec_id p = res_bind (peek_uint8 (pkt_buf p)) (\<lambda>flv_tag_header.
     res_bind (initialised (msg_type_id p)) (\<lambda>t.
       if t = MSG_VIDEO then Inr (flv_tag_header AND 0x0F)
       else if t = MSG_AUDIO then Inr (drop_bit 4 flv_tag_header)
       else Inr non_av))"

definition is_config_frame :: "rtmp_packet \<Rightarrow> bool res" where
  "is_config_frame p = res_bind (initialised (msg_type_id p)) (\<lambda>t.
     if t = MSG_VIDEO then
       res_bind (is_video_keyframe p) (\<lambda>key.
       if \<not> key then Inr False
       else res_bind (peek_uint8 (pkt_buf p)) (\<lambda>flv_tag_header.
         if drop_bit 4 flv_tag_header AND 0b1000 \<noteq> 0
         then Inr (flv_tag_header AND 0b00001111 = PacketTypeSequenceStart)
         else res_bind (get_av_codec_id p) (\<lambda>codec_id.
           if codec_id = non_av then Inr False
           else if codec_id = codec_h264 \<or> codec_id = codec_h265 then
             res_bind (require_length_or_fail 2 (pkt_buf p)) (\<lambda>_.
             res_bind (data_bytes 1 1 (pkt_buf p)) (\<lambda>d.
             Inr (d ! 0 = h264_config_header)))
           else Inr False)))
     else if t = MSG_AUDIO then
       res_bind (require_length_or_fail 2 (pkt_buf p)) (\<lambda>_.
       res_bind (get_av_codec_id p) (\<lambda>codec_id.
       if codec_id = codec_aac then
         res_bind (data_bytes 1 1 (pkt_buf p)) (\<lambda>d. Inr (d ! 0 = aac_config_header))
       else Inr False))
     else Inr False)"

definition set_pkt_header_length :: "nat \<Rightarrow> rtmp_packet \<Rightarrow> rtmp_packet" where
  "set_pkt_header_length header_len p =
     (if header_len \<noteq> 0 then p\<lparr>pkt_header_length := pkt_header_length p + header_len\<rparr> else p)"

text \<open>\<open>size()\<close> adds the unread length to the member and returns the sum.\<close>

definition packet_size :: "rtmp_packet \<Rightarrow> nat \<times> rtmp_packet" where
  "packet_size p = (let n = pkt_header_length p + unread_length (pkt_buf p)
     in (n, p\<lparr>pkt_header_length := n\<rparr>))"

definition is_video_pkt :: "rtmp_packet \<Rightarrow> bool res" where
  "is_video_pkt p = res_bind (initialised (msg_type_id p)) (\<lambda>t. Inr (t = MSG_VIDEO))"

definition is_audio_pkt :: "rtmp_packet \<Rightarrow> bool res" where
  "is_audio_pkt p = res_bind (initialised (msg_type_id p)) (\<lambda>t. Inr (t = MSG_AUDIO))"

section \<open>What the classification says\<close>

definition pkt_ok :: "rtmp_packet \<Rightarrow> bool" where
  "pkt_ok p \<longleftrightarrow> fb_ok (pkt_buf p)"

definition payload :: "rtmp_packet \<Rightarrow> bytes" where
  "payload p = unread (pkt_buf p)"

lemma pkt_ok_create [simp]: "pkt_ok create_packet"
  by (simp add: pkt_ok_def create_packet_def)

lemma payload_create [simp]: "payload create_packet = []"
  by (simp add: payload_def create_packet_def)

text \<open>
  The reference: an FLV tag header is a pair of nibbles; the top bit marks the extended form.
\<close>

definition tag_extended :: "u8 \<Rightarrow> bool" where
  "tag_extended h \<longleftrightarrow> bit h 7"

definition tag_frame_type :: "u8 \<Rightarrow> nat" where
  "tag_frame_type h = (if tag_extended h then unat h div 16 - 8 else unat h div 16)"

definition tag_low :: "u8 \<Rightarrow> nat" where
  "tag_low h = unat h mod 16"

definition spec_keyframe :: "u8 \<Rightarrow> bool" where
  "spec_keyframe h \<longleftrightarrow> tag_frame_type h = 1"

definition spec_video_config :: "u8 \<Rightarrow> u8 \<Rightarrow> bool" where
  "spec_video_config h x \<longleftrightarrow> spec_keyframe h
     \<and> (if tag_extended h then tag_low h = 0 else tag_low h \<in> {7, 12} \<and> x = 0)"

definition spec_audio_config :: "u8 \<Rightarrow> u8 \<Rightarrow> bool" where
  "spec_audio_config h x \<longleftrightarrow> unat h div 16 = 10 \<and> x = 0"


lemma nibble_eq: "(a :: u8) = b \<longleftrightarrow> unat a = unat b"
  by (simp add: word_unat_eq_iff)

lemma high_nibble_mod: "128 \<le> n \<Longrightarrow> n < 256 \<Longrightarrow> n div 16 mod 8 = n div 16 - (8 :: nat)"
  by (simp add: le_mod_geq less_mult_imp_div_less)

lemma tag_frame_type_eq:
  "unat (if drop_bit 4 h AND 0b1000 \<noteq> 0 then drop_bit 4 h AND 0b0111 else drop_bit 4 h)
     = tag_frame_type h"
  using unat_u8_less [of h]
  by (auto simp: u8_high_bit u8_masks unat_take_bit_u8 unat_drop_bit_u8 tag_frame_type_def
      tag_extended_def bit_7_u8 high_nibble_mod)

lemma is_video_keyframe_eq:
  assumes "pkt_ok p" "msg_type_id p = Some MSG_VIDEO" "payload p = h # r"
  shows "is_video_keyframe p = Inr (spec_keyframe h)"
proof -
  have "peek_uint8 (pkt_buf p) = Inr h"
    using assms by (simp add: peek_uint8_eq pkt_ok_def payload_def)
  then show ?thesis
    using assms(2) tag_frame_type_eq [of h]
    by (simp add: is_video_keyframe_def Let_def spec_keyframe_def key_frame_def nibble_eq)
qed

lemma get_av_codec_id_eq:
  assumes "pkt_ok p" "payload p = h # r" "msg_type_id p = Some t"
  shows "get_av_codec_id p = Inr (if t = MSG_VIDEO then take_bit 4 h
     else if t = MSG_AUDIO then drop_bit 4 h else non_av)"
  using assms by (simp add: get_av_codec_id_def peek_uint8_eq pkt_ok_def payload_def u8_masks)

lemma second_byte:
  assumes "pkt_ok p" "payload p = h # x # r"
  shows "data_bytes 1 1 (pkt_buf p) = Inr [x]" "require_length_or_fail 2 (pkt_buf p) = Inr ()"
  using assms data_bytes_ok [of "pkt_buf p" 1 1]
  by (simp_all add: pkt_ok_def payload_def require_length_or_fail_def flip: length_unread)

lemma is_config_frame_video:
  assumes "pkt_ok p" "msg_type_id p = Some MSG_VIDEO" "payload p = h # x # r"
  shows "is_config_frame p = Inr (spec_video_config h x)"
proof -
  have "peek_uint8 (pkt_buf p) = Inr h"
    using assms by (simp add: peek_uint8_eq pkt_ok_def payload_def)
  moreover have "take_bit 4 h = non_av \<longleftrightarrow> False" "take_bit 4 h = codec_h264 \<longleftrightarrow> tag_low h = 7"
    "take_bit 4 h = codec_h265 \<longleftrightarrow> tag_low h = 12" "take_bit 4 h = PacketTypeSequenceStart \<longleftrightarrow> tag_low h = 0"
    using mod_less_divisor [of 16 "unat h"]
    by (auto simp: packet_consts nibble_eq unat_take_bit_u8 tag_low_def)
  ultimately show ?thesis
    using assms is_video_keyframe_eq [OF assms] get_av_codec_id_eq [OF assms(1,3,2)]
      second_byte [OF assms(1,3)]
    by (simp add: is_config_frame_def spec_video_config_def tag_extended_def u8_high_bit u8_masks
        h264_config_header_def)
qed

lemma is_config_frame_audio:
  assumes "pkt_ok p" "msg_type_id p = Some MSG_AUDIO" "payload p = h # x # r"
  shows "is_config_frame p = Inr (spec_audio_config h x)"
  using assms get_av_codec_id_eq [OF assms(1,3,2)] second_byte [OF assms(1,3)]
  by (simp add: is_config_frame_def spec_audio_config_def packet_consts nibble_eq
      unat_drop_bit_u8 msg_defs)

lemma is_config_frame_other:
  "msg_type_id p = Some t \<Longrightarrow> t \<noteq> MSG_VIDEO \<Longrightarrow> t \<noteq> MSG_AUDIO \<Longrightarrow> is_config_frame p = Inr False"
  by (simp add: is_config_frame_def)

text \<open>No classification reads memory that was not written.\<close>

lemma no_ub_peek_uint8: "fb_ok b \<Longrightarrow> no_ub (peek_uint8 b)"
  by (simp add: peek_uint8_eq)

lemma no_ub_keyframe: "pkt_ok p \<Longrightarrow> msg_type_id p \<noteq> None \<Longrightarrow> no_ub (is_video_keyframe p)"
  by (auto simp: is_video_keyframe_def pkt_ok_def Let_def no_ub_peek_uint8 intro!: no_ub_bind)

lemma no_ub_codec_id: "pkt_ok p \<Longrightarrow> msg_type_id p \<noteq> None \<Longrightarrow> no_ub (get_av_codec_id p)"
  by (auto simp: get_av_codec_id_def pkt_ok_def no_ub_peek_uint8 intro!: no_ub_bind)

lemma no_ub_second_byte:
  "fb_ok b \<Longrightarrow> require_length_or_fail 2 b = Inr u \<Longrightarrow> no_ub (data_bytes 1 1 b)"
  by (simp add: require_length_or_fail_def data_bytes_ok)

lemma no_ub_config: 
  assumes "pkt_ok p" "msg_type_id p \<noteq> None"
  shows "no_ub (is_config_frame p)"
proof -
  have "no_ub (require_length_or_fail 2 (pkt_buf p))"
    by (simp add: require_length_or_fail_def throw_if_def)
  then show ?thesis
    using assms no_ub_keyframe [OF assms] no_ub_codec_id [OF assms]
      no_ub_second_byte [of "pkt_buf p"] no_ub_peek_uint8 [of "pkt_buf p"]
    by (auto simp: is_config_frame_def pkt_ok_def intro!: no_ub_bind)
qed

section \<open>Properties\<close>

text \<open>Whether a packet is a decoder configuration is decided as the FLV tag format says: for
  video a key frame that is either an extended tag of type sequence-start or an AVC or HEVC tag
  whose packet type is 0, for audio an AAC tag whose packet type is 0; no other message is
  one.\<close>

theorem config_frame_classification:
  assumes "pkt_ok p" "payload p = h # x # r" "msg_type_id p = Some t"
  shows "is_config_frame p = Inr (if t = MSG_VIDEO then spec_video_config h x
    else if t = MSG_AUDIO then spec_audio_config h x else False)"
  using is_config_frame_video [OF assms(1) _ assms(2)] is_config_frame_audio [OF assms(1) _ assms(2)]
    is_config_frame_other [OF assms(3)] assms(3)
  by auto

theorem config_frame_classification_witness:
  "is_config_frame (create_packet\<lparr>msg_type_id := Some 9, pkt_buf := buf_write [0x17, 0, 1] (create 8)\<rparr>)
     = Inr True"
  by (subst config_frame_classification [where h = "0x17" and x = 0 and r = "[1]" and t = 9])
    (simp_all add: pkt_ok_def payload_def msg_defs spec_video_config_def spec_keyframe_def
      tag_frame_type_def tag_extended_def bit_7_u8 tag_low_def)

text \<open>Classifying a message whose type is known never reads beyond its bytes, however
  short it is.\<close>

theorem classification_safe:
  assumes "pkt_ok p" "msg_type_id p \<noteq> None"
  shows "no_ub (is_video_keyframe p) \<and> no_ub (get_av_codec_id p) \<and> no_ub (is_config_frame p)"
  using no_ub_keyframe [OF assms] no_ub_codec_id [OF assms] no_ub_config [OF assms] by simp

theorem classification_safe_witness:
  "no_ub (is_config_frame (create_packet\<lparr>msg_type_id := Some 8\<rparr>))"
  using classification_safe [of "create_packet\<lparr>msg_type_id := Some 8\<rparr>"]
  by (simp add: pkt_ok_def create_packet_def)

end
