(* ===== verification/Rtmp_Chunk.thy ===== *)
theory Rtmp_Chunk
  imports Rtmp_Packet
begin

text \<open>
  The chunk layer of \<open>src/protocol/rtmp/rtmp_protocol.cpp\<close>: \<open>send_rtmp\<close> cuts a
  message into chunks, \<open>split_rtmp\<close> puts the messages of all chunk streams together again
  and hands each to \<open>handle_chunk\<close>, a parameter here. The state is the part of
  \<open>rtmp_protocol\<close> that the two use; what the handler works on besides comes with it as
  the second component. A loop or recursion of the code that would never end is
  \<open>Undefined\<close>.
\<close>

section \<open>State\<close>

text \<open>
  \<open>chunked_data_map_\<close> is only used through \<open>operator[]\<close>, which makes an entry of
  two null pointers, so it is a total function. The last message of a chunk stream shares its
  object with the handler; only its header fields are read again, which no handler changes.
\<close>

record chunk_state =
  chunk_stream_id :: nat
  msg_stream_id :: u32
  chunk_size_in :: nat
  chunk_size_out :: nat
  chunked_data_map :: "nat \<Rightarrow> rtmp_packet option \<times> rtmp_packet option"
  bytes_sent :: u64
  bytes_sent_last :: u64
  bytes_recv :: u64
  bytes_recv_last :: u64
  windows_size :: u32
  sent :: bytes

section \<open>Sending\<close>

text \<open>\<open>rtmp_header\<close> for a message of any length: format 0 and a 6-bit chunk stream id.\<close>

definition rtmp_header_bytes :: "u8 \<Rightarrow> u32 \<Rightarrow> nat \<Rightarrow> u32 \<Rightarrow> nat \<Rightarrow> bytes" where
  "rtmp_header_bytes msg_type sid len ts csid = word_of_nat csid
     # set_be24 (if ts \<ge> 0xFFFFFF then 0xFFFFFF else ts) @ set_be24 (word_of_nat len)
     @ msg_type # set_le32 sid"

text \<open>The loop of \<open>send_rtmp\<close>; \<open>None\<close> is the endless loop of a chunk size of 0.\<close>

function chunk_bytes :: "nat \<Rightarrow> bytes \<Rightarrow> bytes \<Rightarrow> bool \<Rightarrow> bytes \<Rightarrow> bytes option" where
  "chunk_bytes chunk_size header_pkt extended first data =
     (if data = [] then Some []
      else if chunk_size = 0 then None
      else map_option (\<lambda>r. (if first then [] else header_pkt) @ extended @ take chunk_size data @ r)
             (chunk_bytes chunk_size header_pkt extended False (drop chunk_size data)))"
  by pat_completeness auto
termination
  by (relation "measure (\<lambda>(n, h, e, f, data). length data)") auto

declare chunk_bytes.simps [simp del]

definition send_bytes :: "bytes \<Rightarrow> 'a chunk_state_scheme \<Rightarrow> 'a chunk_state_scheme" where
  "send_bytes data c = c\<lparr>sent := sent c @ data\<rparr>"

definition window_reached :: "u64 \<Rightarrow> u64 \<Rightarrow> 'a chunk_state_scheme \<Rightarrow> bool" where
  "window_reached now prev c \<longleftrightarrow> windows_size c > 0 \<and> now - prev \<ge> ucast (windows_size c)"

text \<open>
  \<open>send_rtmp\<close> acknowledges through itself before it notes what it has acknowledged.
  \<open>depth\<close> is the depth of calls the stack has room for.
\<close>

fun send_rtmp_depth :: "nat \<Rightarrow> u8 \<Rightarrow> u32 \<Rightarrow> bytes \<Rightarrow> u32 \<Rightarrow> nat \<Rightarrow> ('a chunk_state_scheme, unit) eff" where
  "send_rtmp_depth depth msg_type sid data ts csid c =
     (if csid < 2 \<or> csid > 63 then (Inl (Runtime_error ''only support type 1 chunk header''), c)
      else
        let c = send_bytes (rtmp_header_bytes msg_type sid (length data) ts csid) c in
        case chunk_bytes (chunk_size_out c) [word_of_nat csid OR push_bit 6 3]
            (if ts \<ge> 0xFFFFFF then set_be32 ts else []) True data of
          None \<Rightarrow> (Inl (Undefined ''endless loop''), c)
        | Some chunks \<Rightarrow>
            let c = (send_bytes chunks c)\<lparr>bytes_sent := bytes_sent c + ucast (word_of_nat (12 + length chunks) :: u32)\<rparr> in
            if window_reached (bytes_sent c) (bytes_sent_last c) c then
              (case depth of
                 0 \<Rightarrow> (Inl (Undefined ''endless recursion''), c)
               | Suc depth \<Rightarrow>
                   (case send_rtmp_depth depth MSG_ACK (msg_stream_id c)
                        (set_be32 (ucast (bytes_sent c - bytes_sent_last c))) 0 CHUNK_NETWORK c of
                      (Inl e, c) \<Rightarrow> (Inl e, c)
                    | (Inr _, c) \<Rightarrow> (Inr (), c\<lparr>bytes_sent_last := bytes_sent c\<rparr>)))
            else (Inr (), c))"

declare send_rtmp_depth.simps [simp del]

definition stack_depth :: nat where "stack_depth = 1000"

definition send_rtmp :: "u8 \<Rightarrow> u32 \<Rightarrow> bytes \<Rightarrow> u32 \<Rightarrow> nat \<Rightarrow> ('a chunk_state_scheme, unit) eff" where
  "send_rtmp = send_rtmp_depth stack_depth"

definition send_acknowledgement :: "u32 \<Rightarrow> ('a chunk_state_scheme, unit) eff" where
  "send_acknowledgement n c = send_rtmp MSG_ACK (msg_stream_id c) (set_be32 n) 0 CHUNK_NETWORK c"

definition set_chunk_size :: "u32 \<Rightarrow> ('a chunk_state_scheme, unit) eff" where
  "set_chunk_size n = (\<lambda>c. ebind (send_rtmp MSG_SET_CHUNK (msg_stream_id c) (set_be32 n) 0 CHUNK_NETWORK)
     (\<lambda>_. emodify (\<lambda>c. c\<lparr>chunk_size_out := unat n\<rparr>)) c)"

definition set_peer_bandwidth :: "u32 \<Rightarrow> ('a chunk_state_scheme, unit) eff" where
  "set_peer_bandwidth n c = send_rtmp MSG_SET_PEER_BW (msg_stream_id c) (set_be32 n @ [0x02]) 0 CHUNK_NETWORK c"

section \<open>Receiving\<close>

definition kHeaderLength :: "nat list" where "kHeaderLength = [12, 8, 4, 1]"

text \<open>
  The first bytes of a chunk: the value \<open>chunk_stream_id_\<close> is given, and the number of
  bytes before the message header, unless there are too few bytes.
\<close>

definition chunk_basic :: "bytes \<Rightarrow> nat \<times> nat option" where
  "chunk_basic data = (let cid = unat (hd data AND 0x3F) in
     if cid = 0 then (if length data < 2 then (0, None) else (64 + unat (data ! 1), Some 1))
     else if cid = 1 then (if length data < 3 then (1, None)
       else (64 + unat (data ! 1) + unat (data ! 2) * 2 ^ 8, Some 2))
     else (cid, Some 0))"

definition header_length :: "bytes \<Rightarrow> nat" where
  "header_length data = kHeaderLength ! unat (drop_bit 6 (hd data))"

definition open_packet :: "rtmp_packet option \<times> rtmp_packet option \<Rightarrow> rtmp_packet" where
  "open_packet = (\<lambda>(now, prev). case now of
     Some p \<Rightarrow> p
   | None \<Rightarrow> (case prev of None \<Rightarrow> create_packet | Some l \<Rightarrow> restore_context l create_packet)\<lparr>is_abs_stamp := False\<rparr>)"

definition read_header :: "nat \<Rightarrow> bytes \<Rightarrow> rtmp_packet \<Rightarrow> rtmp_packet" where
  "read_header header_len h p =
     (if header_len = 12 then p\<lparr>is_abs_stamp := True, ts_delta := Some (load_be24 (drop 1 h)),
        msg_length := Some (load_be24 (drop 4 h)), msg_type_id := Some (h ! 7),
        pkt_msg_stream_id := Some (load_le32 (drop 8 h))\<rparr>
      else if header_len = 8 then p\<lparr>ts_delta := Some (load_be24 (drop 1 h)),
        msg_length := Some (load_be24 (drop 4 h)), msg_type_id := Some (h ! 7)\<rparr>
      else if header_len = 4 then p\<lparr>ts_delta := Some (load_be24 (drop 1 h))\<rparr>
      else p)"

text \<open>The length of the payload (\<open>more\<close>): the subtraction is one of \<open>size_t\<close>.\<close>

definition chunk_payload :: "nat \<Rightarrow> u32 \<Rightarrow> nat \<Rightarrow> nat" where
  "chunk_payload chunk_size len have_len = min chunk_size (unat (ucast len - word_of_nat have_len :: u64))"

definition add_payload :: "nat \<Rightarrow> nat \<Rightarrow> bytes \<Rightarrow> rtmp_packet \<Rightarrow> rtmp_packet" where
  "add_payload k room data p = set_pkt_header_length k
     (if room \<noteq> 0 then p\<lparr>pkt_buf := buf_write (take room (drop k data)) (pkt_buf p)\<rparr> else p)"

type_synonym ('a, 'x) conn = "'a chunk_state_scheme \<times> 'x"

definition put_packet :: "nat \<Rightarrow> rtmp_packet option \<times> rtmp_packet option \<Rightarrow> ('a, 'x) conn \<Rightarrow> ('a, 'x) conn" where
  "put_packet cid e = (\<lambda>(c, x). (c\<lparr>chunked_data_map := (chunked_data_map c)(cid := e)\<rparr>, x))"

definition on_chunk_state :: "('a chunk_state_scheme, 'b) eff \<Rightarrow> (('a, 'x) conn, 'b) eff" where
  "on_chunk_state m = (\<lambda>(c, x). let (r, c) = m c in (r, (c, x)))"

text \<open>Counting the bytes, and the acknowledgement when the window is full.\<close>

definition count_received :: "nat \<Rightarrow> ('a chunk_state_scheme, unit) eff" where
  "count_received n = (\<lambda>c.
     let c = c\<lparr>bytes_recv := bytes_recv c + ucast (word_of_nat n :: u32)\<rparr> in
     if window_reached (bytes_recv c) (bytes_recv_last c) c then
       ebind (send_acknowledgement (ucast (bytes_recv c - bytes_recv_last c)))
         (\<lambda>_. emodify (\<lambda>c. c\<lparr>bytes_recv_last := bytes_recv c\<rparr>)) c
     else (Inr (), c))"

text \<open>The message is complete when as many bytes are there as its length says.\<close>

definition finish_message :: "(rtmp_packet \<Rightarrow> (('a, 'x) conn, unit) eff) \<Rightarrow> nat \<Rightarrow> u32 \<Rightarrow> (('a, 'x) conn, unit) eff" where
  "finish_message handle cid ts = (\<lambda>(c, x).
     case chunked_data_map c cid of
       (None, prev) \<Rightarrow> (Inr (), (c, x))
     | (Some p, prev) \<Rightarrow>
         (case res_bind (initialised (msg_length p)) (\<lambda>len.
               if unat len \<noteq> unread_length (pkt_buf p) then Inr None
               else res_bind (initialised (pkt_msg_stream_id p)) (\<lambda>sid.
                 res_bind (if is_abs_stamp p then Inr 0 else initialised (time_stamp p)) (\<lambda>base.
                 Inr (Some (len, sid, ts + base))))) of
            Inl e \<Rightarrow> (Inl e, (c, x))
          | Inr None \<Rightarrow> (Inr (), (c, x))
          | Inr (Some (len, sid, stamp)) \<Rightarrow>
              let p = p\<lparr>time_stamp := Some stamp\<rparr>;
                  s = put_packet cid (None, Some p) (c\<lparr>msg_stream_id := sid\<rparr>, x)
              in if len \<noteq> 0 then handle p s else (Inr (), s)))"

text \<open>A chunk that is there in full: \<open>k\<close> header bytes and \<open>room\<close> bytes of payload.\<close>

definition store_chunk :: "(rtmp_packet \<Rightarrow> (('a, 'x) conn, unit) eff) \<Rightarrow> nat \<Rightarrow> nat \<Rightarrow> nat \<Rightarrow> u32 \<Rightarrow>
    bytes \<Rightarrow> rtmp_packet \<Rightarrow> (('a, 'x) conn, nat option) eff" where
  "store_chunk handle cid k room ts data p = (\<lambda>(c, x).
     let (n, p) = packet_size (add_payload k room data p)
     in ebind (on_chunk_state (count_received n)) (\<lambda>_.
        ebind (finish_message handle cid ts) (\<lambda>_.
        eret (Some (k + room)))) (put_packet cid (Some p, snd (chunked_data_map c cid)) (c, x)))"

text \<open>After the message header: the extended timestamp and the payload.\<close>

definition chunk_body :: "(rtmp_packet \<Rightarrow> (('a, 'x) conn, unit) eff) \<Rightarrow> nat \<Rightarrow> nat \<Rightarrow>
    bytes \<Rightarrow> rtmp_packet \<Rightarrow> (('a, 'x) conn, nat option) eff" where
  "chunk_body handle cid k data p = (\<lambda>(c, x).
     let s = put_packet cid (Some p, snd (chunked_data_map c cid)) (c, x)
     in case initialised (ts_delta p) of Inl e \<Rightarrow> (Inl e, s)
     | Inr delta \<Rightarrow>
         if delta = 0xFFFFFF \<and> length data < k + 4 then (Inr None, s)
         else case initialised (msg_length p) of Inl e \<Rightarrow> (Inl e, s)
         | Inr len \<Rightarrow>
             let ts = (if delta = 0xFFFFFF then load_be32 (drop k data) else delta);
                 k = (if delta = 0xFFFFFF then k + 4 else k);
                 room = chunk_payload (chunk_size_in c) len (unread_length (pkt_buf p))
             in if length data < k + room then (Inr None, s)
                else store_chunk handle cid k room ts data p s)"

text \<open>
  One round of the loop of \<open>split_rtmp\<close> on a non-empty rest: the number of bytes it
  consumed, or nothing if it returns to wait for more.
\<close>

definition split_step :: "(rtmp_packet \<Rightarrow> (('a, 'x) conn, unit) eff) \<Rightarrow> bytes \<Rightarrow> (('a, 'x) conn, nat option) eff" where
  "split_step handle data = (\<lambda>(c, x).
     case chunk_basic data of (cid, off) \<Rightarrow>
     let s = (c\<lparr>chunk_stream_id := cid\<rparr>, x) in
     case off of None \<Rightarrow> (Inr None, s)
     | Some offset \<Rightarrow>
       if length data < offset + header_length data then (Inr None, s)
       else chunk_body handle cid (offset + header_length data) data
         (read_header (header_length data) (drop offset data)
            ((open_packet (chunked_data_map c cid))\<lparr>pkt_chunk_stream_id := Some (word_of_nat cid)\<rparr>)) s)"

lemma kHeaderLength_range: "0 < header_length data"
proof -
  have "unat (drop_bit 6 (hd data)) < 4"
    using unat_u8_less [of "hd data"] by (simp add: unat_drop_bit_u8)
  then have "unat (drop_bit 6 (hd data)) \<in> {0, 1, 2, 3}"
    by auto
  then show ?thesis
    by (auto simp: header_length_def kHeaderLength_def)
qed

lemma ebind_Inr_iff: "ebind m f s = (Inr b, t) \<longleftrightarrow> (\<exists>a u. m s = (Inr a, u) \<and> f a u = (Inr b, t))"
  by (auto simp: ebind_def split: prod.splits sum.splits)

lemma store_chunk_bound: "store_chunk h cid k room ts data p s = (Inr (Some n), s') \<Longrightarrow> n = k + room"
  by (cases s) (auto simp: store_chunk_def ebind_Inr_iff split: prod.splits)

lemma chunk_body_bound:
  assumes "chunk_body h cid k data p s = (Inr (Some n), s')"
  shows "k \<le> n \<and> n \<le> length data"
  using assms
  by (cases s) (auto simp: chunk_body_def Let_def split: option.splits sum.splits if_splits dest!: store_chunk_bound)

lemma split_step_bound:
  assumes "split_step h data s = (Inr (Some n), s')"
  shows "0 < n \<and> n \<le> length data"
proof -
  obtain c x cid off where s: "s = (c, x)" "chunk_basic data = (cid, off)"
    by (cases s; cases "chunk_basic data") auto
  then show ?thesis
    using assms kHeaderLength_range [of data]
    by (auto simp: split_step_def Let_def split: option.splits if_splits dest!: chunk_body_bound)
qed

text \<open>\<open>split_rtmp\<close> returns how far it got.\<close>

function split_rtmp :: "(rtmp_packet \<Rightarrow> (('a, 'x) conn, unit) eff) \<Rightarrow> bytes \<Rightarrow> (('a, 'x) conn, nat) eff" where
  "split_rtmp handle data s =
     (if data = [] then (Inr 0, s)
      else case split_step handle data s of
        (Inl e, s) \<Rightarrow> (Inl e, s)
      | (Inr None, s) \<Rightarrow> (Inr 0, s)
      | (Inr (Some n), s) \<Rightarrow>
          (case split_rtmp handle (drop n data) s of
             (Inl e, s) \<Rightarrow> (Inl e, s)
           | (Inr k, s) \<Rightarrow> (Inr (n + k), s)))"
  by pat_completeness auto
termination
  by (relation "measure (\<lambda>(h, data, s). length data)") (auto dest!: sym [of _ "split_step _ _ _"] split_step_bound)

declare split_rtmp.simps [simp del]

section \<open>Cutting the stream elsewhere\<close>

lemma header_length_append: "a \<noteq> [] \<Longrightarrow> header_length (a @ b) = header_length a"
  by (simp add: header_length_def)

lemma header_length_cases: "header_length a \<in> {12, 8, 4, 1}"
proof -
  have "unat (drop_bit 6 (hd a)) < 4"
    using unat_u8_less [of "hd a"] by (simp add: unat_drop_bit_u8)
  then have "unat (drop_bit 6 (hd a)) \<in> {0, 1, 2, 3}"
    by auto
  then show ?thesis
    by (auto simp: header_length_def kHeaderLength_def)
qed

lemma chunk_basic_append: "chunk_basic a = (cid, Some k) \<Longrightarrow> a \<noteq> [] \<Longrightarrow> chunk_basic (a @ b) = (cid, Some k)"
  by (auto simp: chunk_basic_def Let_def nth_append split: if_splits)

lemma read_header_append:
  assumes "hl \<in> {12, 8, 4, 1}" "k + hl \<le> length a"
  shows "read_header hl (drop k (a @ b)) p = read_header hl (drop k a) p"
proof -
  have d: "drop j (drop k (a @ b)) = drop j (drop k a) @ b" if "j \<le> hl" for j
    using assms(2) that by simp
  have n: "drop k (a @ b) ! 7 = drop k a ! 7" if "hl \<in> {12, 8}"
    using assms(2) that by (auto simp: nth_append)
  have l: "length (drop j (drop k a)) \<ge> hl - j" for j
    using assms(2) by simp
  show ?thesis
    using assms(1) d n l [of 1] l [of 4] l [of 8]
    by (auto simp: read_header_def load_prefix simp del: drop_drop drop_append length_drop)
qed

lemma load_at_append: "k + 4 \<le> length a \<Longrightarrow> load_be32 (drop k (a @ b)) = load_be32 (drop k a)"
  by (simp add: load_prefix)

lemma add_payload_append: "k + n \<le> length a \<Longrightarrow> add_payload k n (a @ b) p = add_payload k n a p"
  by (simp add: add_payload_def)

lemma store_chunk_append:
  "k + room \<le> length a \<Longrightarrow> store_chunk h cid k room ts (a @ b) p = store_chunk h cid k room ts a p"
  by (simp add: store_chunk_def add_payload_append)

lemma chunk_body_append:
  assumes "chunk_body h cid k a p s = (r, s')" "r \<noteq> Inr None" "k \<le> length a"
  shows "chunk_body h cid k (a @ b) p s = (r, s')"
proof -
  obtain c x where s: "s = (c, x)" by (cases s)
  show ?thesis
  proof (cases "ts_delta p")
    case None
    then show ?thesis using assms by (simp add: chunk_body_def s)
  next
    case (Some d)
    show ?thesis
    proof (cases "d = 0xFFFFFF")
      case True
      show ?thesis
      proof (cases "length a < k + 4")
        case False
        then have "load_be32 (drop k (a @ b)) = load_be32 (drop k a)"
          by (intro load_at_append) simp
        then show ?thesis
          using assms False True Some
          by (cases "msg_length p") (auto simp: chunk_body_def s Let_def store_chunk_append simp del: drop_append split: if_splits)
      qed (use assms True Some in \<open>simp add: chunk_body_def s\<close>)
    next
      case False
      then show ?thesis
        using assms Some
        by (cases "msg_length p") (auto simp: chunk_body_def s Let_def store_chunk_append split: if_splits)
    qed
  qed
qed

text \<open>A round that does not wait for more bytes does the same when more follow.\<close>

lemma split_step_append:
  assumes "a \<noteq> []" "split_step h a s = (r, s')" "r \<noteq> Inr None"
  shows "split_step h (a @ b) s = (r, s')"
proof -
  obtain c x where s: "s = (c, x)" by (cases s)
  obtain cid k where k: "chunk_basic a = (cid, Some k)"
    using assms(2,3) by (cases "chunk_basic a"; cases "snd (chunk_basic a)") (auto simp: split_step_def s Let_def)
  have len: "k + header_length a \<le> length a"
    using assms(2,3) k by (auto simp: split_step_def s Let_def split: if_splits)
  note h = chunk_basic_append [OF k assms(1), of b] header_length_append [OF assms(1), of b]
    read_header_append [OF header_length_cases len, of b]
  show ?thesis
    using assms(2,3) len chunk_body_append [where a = a, OF _ assms(3) len]
    by (simp add: split_step_def s k h Let_def del: drop_append)
qed

text \<open>A round that waits leaves a state from which it starts again as before.\<close>

lemma split_step_stream_id [simp]:
  "split_step h d (c\<lparr>chunk_stream_id := n\<rparr>, x) = split_step h d (c, x)"
  by (cases "chunk_basic d"; cases "snd (chunk_basic d)") (simp_all add: split_step_def Let_def cong: if_cong)

lemma read_header_again:
  "read_header hl h ((read_header hl h (q\<lparr>pkt_chunk_stream_id := i\<rparr>))\<lparr>pkt_chunk_stream_id := i\<rparr>)
     = read_header hl h (q\<lparr>pkt_chunk_stream_id := i\<rparr>)"
  by (simp add: read_header_def)

lemma open_packet_now [simp]: "open_packet (Some p, prev) = p"
  by (simp add: open_packet_def)

lemma put_packet_again [simp]: "put_packet cid e (put_packet cid e' s) = put_packet cid e s"
  by (cases s) (simp add: put_packet_def)

lemma chunk_body_again:
  "chunk_body h cid k d p (put_packet cid (Some p, snd (chunked_data_map c cid)) (c, x)) = chunk_body h cid k d p (c, x)"
proof -
  obtain c' where c': "put_packet cid (Some p, snd (chunked_data_map c cid)) (c, x) = (c', x)"
    "snd (chunked_data_map c' cid) = snd (chunked_data_map c cid)" "chunk_size_in c' = chunk_size_in c"
    by (simp add: put_packet_def)
  have "put_packet cid (Some p, snd (chunked_data_map c cid)) (c', x) = (c', x)"
    using put_packet_again c'(1) by metis
  then show ?thesis
    by (cases "ts_delta p"; cases "msg_length p") (simp_all add: chunk_body_def c' Let_def cong: if_cong)
qed

lemma chunk_body_wait:
  "chunk_body h cid k a p (c, x) = (Inr None, s') \<Longrightarrow> s' = put_packet cid (Some p, snd (chunked_data_map c cid)) (c, x)"
  by (auto simp: chunk_body_def Let_def store_chunk_def ebind_Inr_iff split: sum.splits if_splits prod.splits)

lemma split_step_wait:
  assumes "a \<noteq> []" "split_step h a s = (Inr None, s')"
  shows "split_step h (a @ b) s' = split_step h (a @ b) s"
proof -
  obtain c x cid off where s: "s = (c, x)" "chunk_basic a = (cid, off)"
    by (cases s; cases "chunk_basic a") auto
  show ?thesis
  proof (cases "off = None \<or> length a < the off + header_length a")
    case True
    then have "s' = (c\<lparr>chunk_stream_id := cid\<rparr>, x)"
      using assms(2) by (cases off) (auto simp: split_step_def s Let_def)
    then show ?thesis
      by (simp add: s)
  next
    case False
    then obtain k where k: "chunk_basic a = (cid, Some k)" and len: "k + header_length a \<le> length a"
      using s(2) by auto
    let ?hl = "header_length a"
    let ?p = "read_header ?hl (drop k a)
         ((open_packet (chunked_data_map c cid))\<lparr>pkt_chunk_stream_id := Some (word_of_nat cid)\<rparr>)"
    let ?c = "c\<lparr>chunk_stream_id := cid\<rparr>"
    have "chunk_body h cid (k + ?hl) a ?p (?c, x) = (Inr None, s')"
      using assms(2) len by (simp add: split_step_def s(1) k)
    note s' = chunk_body_wait [OF this]
    note h = chunk_basic_append [OF k assms(1), of b] header_length_append [OF assms(1), of b]
      read_header_append [OF header_length_cases len, of b]
    have q: "read_header ?hl (drop k a) (?p\<lparr>pkt_chunk_stream_id := Some (word_of_nat cid)\<rparr>) = ?p"
      by (rule read_header_again)
    obtain c' where c': "s' = (c', x)" "chunked_data_map c' cid = (Some ?p, snd (chunked_data_map c cid))"
      "c'\<lparr>chunk_stream_id := cid\<rparr> = c'"
      using s' by (simp add: put_packet_def)
    have "split_step h (a @ b) s' = chunk_body h cid (k + ?hl) (a @ b) ?p s'"
      using len q c' by (simp add: split_step_def h del: drop_append)
    also have "\<dots> = chunk_body h cid (k + ?hl) (a @ b) ?p (?c, x)"
      using s' chunk_body_again [of h cid "k + ?hl" "a @ b" ?p ?c x] by simp
    also have "\<dots> = split_step h (a @ b) s"
      using len by (simp add: split_step_def s(1) h del: drop_append)
    finally show ?thesis .
  qed
qed

text \<open>The state between two reads: the bytes that wait and the connection.\<close>

lemma split_rtmp_append:
  assumes "split_rtmp h a s = (r, s1)"
  shows "split_rtmp h (a @ b) s = (case r of
     Inl e \<Rightarrow> (Inl e, s1)
   | Inr k \<Rightarrow> (case split_rtmp h (drop k a @ b) s1 of
       (Inl e, s2) \<Rightarrow> (Inl e, s2)
     | (Inr m, s2) \<Rightarrow> (Inr (k + m), s2)))"
  using assms
proof (induction h a s arbitrary: r s1 rule: split_rtmp.induct)
  case (1 h a s)
  show ?case
  proof (cases "a = []")
    case True
    then show ?thesis
      using 1(2) by (auto simp: split_rtmp.simps [of h "[]"] split: prod.splits sum.splits)
  next
    case False
    obtain v t where st: "split_step h a s = (v, t)"
      by (cases "split_step h a s")
    show ?thesis
    proof (cases v)
      case (Inl e)
      then have "r = Inl e" "s1 = t"
        using 1(2) False st by (simp_all add: split_rtmp.simps [of h a])
      moreover have "split_step h (a @ b) s = (Inl e, t)"
        using split_step_append [OF False st] Inl by simp
      ultimately show ?thesis
        using False by (simp add: split_rtmp.simps [of h "a @ b"])
    next
      case (Inr w)
      show ?thesis
      proof (cases w)
        case None
        then have r: "r = Inr 0" "s1 = t"
          using 1(2) False st Inr by (simp_all add: split_rtmp.simps [of h a])
        have "split_step h (a @ b) t = split_step h (a @ b) s"
          using split_step_wait [OF False] st Inr None by simp
        then have "split_rtmp h (a @ b) t = split_rtmp h (a @ b) s"
          using False by (simp add: split_rtmp.simps [of h "a @ b"])
        then show ?thesis
          by (simp add: r split: prod.splits sum.splits)
      next
        case (Some n)
        have n: "n \<le> length a"
          using split_step_bound st Inr Some by blast
        have st': "split_step h (a @ b) s = (Inr (Some n), t)"
          using split_step_append [OF False st] Inr Some by simp
        obtain r' s' where rec: "split_rtmp h (drop n a) t = (r', s')"
          by (cases "split_rtmp h (drop n a) t")
        note IH = 1(1) [OF False st [symmetric] Inr Some rec]
        have r: "r = (case r' of Inl e \<Rightarrow> Inl e | Inr k \<Rightarrow> Inr (n + k))" "s1 = s'"
          using 1(2) False st Inr Some rec by (auto simp: split_rtmp.simps [of h a] split: sum.splits)
        have "split_rtmp h (a @ b) s = (case split_rtmp h (drop n a @ b) t of
            (Inl e, s) \<Rightarrow> (Inl e, s) | (Inr k, s) \<Rightarrow> (Inr (n + k), s))"
          using False st' n by (simp add: split_rtmp.simps [of h "a @ b"])
        then show ?thesis
          using IH r by (auto simp: add.commute add.assoc split: sum.splits prod.splits)
      qed
    qed
  qed
qed

text \<open>
  Reading a stream in pieces, as the session does: a piece is put behind the bytes that wait,
  and what \<open>split_rtmp\<close> did not consume waits for the next piece.
\<close>

fun feed :: "(rtmp_packet \<Rightarrow> (('a, 'x) conn, unit) eff) \<Rightarrow> bytes list \<Rightarrow> bytes \<Rightarrow> ('a, 'x) conn \<Rightarrow>
    unit res \<times> bytes \<times> ('a, 'x) conn" where
  "feed h [] waiting s = (Inr (), waiting, s)"
| "feed h (piece # pieces) waiting s = (case split_rtmp h (waiting @ piece) s of
     (Inl e, s) \<Rightarrow> (Inl e, waiting @ piece, s)
   | (Inr k, s) \<Rightarrow> feed h pieces (drop k (waiting @ piece)) s)"

lemma split_rtmp_length: "split_rtmp h a s = (Inr k, s') \<Longrightarrow> k \<le> length a"
proof (induction h a s arbitrary: k s' rule: split_rtmp.induct)
  case (1 h a s)
  show ?case
  proof (cases "a = []")
    case False
    obtain v t where st: "split_step h a s = (v, t)"
      by (cases "split_step h a s")
    show ?thesis
    proof (cases "\<exists>n. v = Inr (Some n)")
      case True
      then obtain n where v: "v = Inr (Some n)" by blast
      obtain j where j: "split_rtmp h (drop n a) t = (Inr j, s')" "k = n + j"
        using 1(2) False st v by (auto simp: split_rtmp.simps [of h a] split: prod.splits sum.splits)
      then show ?thesis
        using 1(1) [OF False st [symmetric] v refl j(1)] split_step_bound [of h a s n t] st v by (simp; arith)
    qed (use 1(2) False st in \<open>auto simp: split_rtmp.simps [of h a] split: sum.splits option.splits\<close>)
  qed (use 1(2) in \<open>simp add: split_rtmp.simps\<close>)
qed

lemma feed_concat:
  "case split_rtmp h (waiting @ concat (piece # pieces)) s of
     (Inl e, t) \<Rightarrow> \<exists>q. feed h (piece # pieces) waiting s = (Inl e, q, t)
   | (Inr k, t) \<Rightarrow> feed h (piece # pieces) waiting s
       = (Inr (), drop k (waiting @ concat (piece # pieces)), t)"
proof (induction pieces arbitrary: waiting piece s)
  case Nil
  show ?case
    by (auto split: prod.splits sum.splits)
next
  case (Cons nxt pieces)
  obtain r t where rt: "split_rtmp h (waiting @ piece) s = (r, t)"
    by (cases "split_rtmp h (waiting @ piece) s")
  note app = split_rtmp_append [OF rt, of "concat (nxt # pieces)"]
  show ?case
  proof (cases r)
    case (Inl e)
    then show ?thesis
      using rt app by simp
  next
    case (Inr k)
    note k = split_rtmp_length [OF rt [unfolded Inr]]
    let ?W = "drop k (waiting @ piece)" and ?C = "concat (nxt # pieces)"
    obtain v u where vu: "split_rtmp h (?W @ ?C) t = (v, u)"
      by (cases "split_rtmp h (?W @ ?C) t")
    have d: "drop m (?W @ ?C) = drop (k + m) (waiting @ piece @ ?C)" for m
    proof -
      have "?W @ ?C = drop k (waiting @ piece @ ?C)"
        using k by simp
      then show ?thesis
        by (simp only: drop_drop add.commute)
    qed
    have f: "feed h (piece # nxt # pieces) waiting s = feed h (nxt # pieces) ?W t"
      using rt Inr by (simp only: feed.simps prod.case sum.case)
    have c: "concat (piece # nxt # pieces) = piece @ ?C"
      by simp
    show ?thesis
      using app Cons [where waiting = ?W and piece = nxt and s = t] vu
      unfolding Inr f c sum.case vu prod.case append_assoc
      by (cases v) (simp_all only: sum.case prod.case d)
  qed
qed

end
