(* ===== verification/Rtmp_Message.thy ===== *)
theory Rtmp_Message
  imports Rtmp_Chunk
begin

text \<open>
  What the chunk layer does to whole messages: a stream may be cut anywhere, and a message that
  \<open>send_rtmp\<close> wrote is handed to \<open>handle_chunk\<close> as it was sent.
\<close>

section \<open>Header bytes\<close>

definition stamp_field :: "u32 \<Rightarrow> u32" where
  "stamp_field ts = (if ts \<ge> 0xFFFFFF then 0xFFFFFF else ts)"

definition stamp_bytes :: "u32 \<Rightarrow> bytes" where
  "stamp_bytes ts = (if ts \<ge> 0xFFFFFF then set_be32 ts else [])"

lemma stamp_field_max: "stamp_field ts = 0xFFFFFF \<longleftrightarrow> ts \<ge> 0xFFFFFF"
  by (auto simp: stamp_field_def)

lemma stamp_field_fits: "unat (stamp_field ts) < 2 ^ 24"
  by (auto simp: stamp_field_def word_le_nat_alt)

lemma u8_mask6: "(w :: u8) AND 0x3F = take_bit 6 w"
proof -
  have "(0x3F :: u8) = mask 6"
    by (simp add: mask_eq_exp_minus_1)
  then show ?thesis
    by (simp only: take_bit_eq_mask)
qed

lemma unat_stream_id: "2 \<le> csid \<Longrightarrow> csid \<le> 63 \<Longrightarrow> unat (word_of_nat csid :: u8) = csid"
  by (simp add: unat_of_nat)

lemma chunk_basic_one: "2 \<le> unat (take_bit 6 h) \<Longrightarrow> chunk_basic (h # r) = (unat (take_bit 6 h), Some 0)"
  by (simp add: chunk_basic_def u8_mask6 Let_def)

lemma take_bit_stream_id:
  assumes "2 \<le> csid" "csid \<le> 63"
  shows "take_bit 6 (word_of_nat csid :: u8) = word_of_nat csid"
  using assms unat_stream_id [OF assms] by (simp add: word_unat_eq_iff unat_take_bit_u8 del: unat_of_nat)

lemma header_first:
  assumes "2 \<le> csid" "csid \<le> 63"
  shows "chunk_basic (word_of_nat csid # r) = (csid, Some 0)" "header_length (word_of_nat csid # r) = 12"
  using assms unat_stream_id [OF assms] chunk_basic_one [of "word_of_nat csid" r]
  by (simp_all add: take_bit_stream_id header_length_def kHeaderLength_def unat_drop_bit_u8 del: unat_of_nat)

text \<open>The first byte of a chunk of format \<open>fmt\<close> on a chunk stream of one byte.\<close>

lemma header_format:
  assumes "2 \<le> csid" "csid \<le> 63"
  shows "chunk_basic ((word_of_nat csid OR push_bit 6 fmt) # r) = (csid, Some 0)"
    "take_bit 2 fmt = fmt \<Longrightarrow> header_length ((word_of_nat csid OR push_bit 6 fmt) # r) = kHeaderLength ! unat fmt"
proof -
  let ?w = "word_of_nat csid :: u8"
  note low = take_bit_stream_id [OF assms]
  have "take_bit 6 (?w OR push_bit 6 fmt) = take_bit 6 ?w"
    by (rule bit_word_eqI) (auto simp: bit_simps simp del: push_bit_numeral)
  then show "chunk_basic ((?w OR push_bit 6 fmt) # r) = (csid, Some 0)"
    using assms unat_stream_id [OF assms] chunk_basic_one [of "?w OR push_bit 6 fmt" r] low
    by (simp del: unat_of_nat push_bit_numeral)
  have "drop_bit 6 (take_bit 6 ?w OR push_bit 6 (take_bit 2 fmt)) = take_bit 2 fmt"
    by (rule bit_word_eqI) (auto simp: bit_simps)
  then show "header_length ((?w OR push_bit 6 fmt) # r) = kHeaderLength ! unat fmt" if "take_bit 2 fmt = fmt"
    by (simp only: low that header_length_def list.sel)
qed

lemma header_next:
  assumes "2 \<le> csid" "csid \<le> 63"
  shows "chunk_basic ((word_of_nat csid OR push_bit 6 3) # r) = (csid, Some 0)"
    "header_length ((word_of_nat csid OR push_bit 6 3) # r) = 1"
  using header_format [OF assms, of 3 r] by (simp_all add: kHeaderLength_def)

lemma chunk_payload_rest:
  "have_len \<le> len \<Longrightarrow> len < 2 ^ 24 \<Longrightarrow> chunk_payload n (word_of_nat len) have_len = min n (len - have_len)"
  by (simp add: chunk_payload_def unat_sub_if' unsigned_ucast_eq unat_of_nat take_bit_nat_eq_self word_le_nat_alt)

section \<open>A message under assembly\<close>

definition assembling :: "rtmp_packet \<Rightarrow> u8 \<Rightarrow> u32 \<Rightarrow> u32 \<Rightarrow> nat \<Rightarrow> bytes \<Rightarrow> bool" where
  "assembling p t sid ts len got \<longleftrightarrow> pkt_ok p \<and> is_abs_stamp p \<and> ts_delta p = Some (stamp_field ts)
     \<and> msg_length p = Some (word_of_nat len) \<and> msg_type_id p = Some t \<and> pkt_msg_stream_id p = Some sid
     \<and> payload p = got"


definition stored :: "nat \<Rightarrow> nat \<Rightarrow> bytes \<Rightarrow> rtmp_packet \<Rightarrow> rtmp_packet" where
  "stored k room d p = snd (packet_size (add_payload k room d p))"

lemma stored_fields [simp]:
  "is_abs_stamp (stored k room d p) = is_abs_stamp p" "ts_delta (stored k room d p) = ts_delta p"
  "msg_length (stored k room d p) = msg_length p" "msg_type_id (stored k room d p) = msg_type_id p"
  "pkt_msg_stream_id (stored k room d p) = pkt_msg_stream_id p" "time_stamp (stored k room d p) = time_stamp p"
  by (simp_all add: stored_def packet_size_def add_payload_def set_pkt_header_length_def Let_def)

lemma stored_payload:
  "pkt_ok p \<Longrightarrow> pkt_ok (stored k room d p) \<and> payload (stored k room d p) = payload p @ take room (drop k d)"
  by (simp add: stored_def packet_size_def add_payload_def set_pkt_header_length_def pkt_ok_def payload_def Let_def)

lemma assembling_stored:
  "assembling p t sid ts len got \<Longrightarrow> take room (drop k d) = piece \<Longrightarrow>
     assembling (stored k room d p) t sid ts len (got @ piece)"
  using stored_payload [of p k room d] by (simp add: assembling_def)

text \<open>A chunk with no window to acknowledge: the message grows, and is handed on when it is whole.\<close>

definition received :: "nat \<Rightarrow> nat \<Rightarrow> rtmp_packet option \<times> rtmp_packet option \<Rightarrow> 'a chunk_state_scheme \<Rightarrow> 'a chunk_state_scheme" where
  "received n cid e c = c\<lparr>chunk_stream_id := cid, bytes_recv := bytes_recv c + ucast (word_of_nat n :: u32),
     chunked_data_map := (chunked_data_map c)(cid := e)\<rparr>"

lemma received_message: "received n cid e (c\<lparr>msg_stream_id := sid\<rparr>) = c\<lparr>chunk_stream_id := cid,
     bytes_recv := bytes_recv c + ucast (word_of_nat n :: u32), msg_stream_id := sid,
     chunked_data_map := (chunked_data_map c)(cid := e)\<rparr>"
  by (cases c) (simp add: received_def)

lemma store_chunk_exec:
  assumes "assembling p t sid ts len got" "windows_size c = 0" "take room (drop k d) = piece" "len < 2 ^ 24" "len \<noteq> 0"
  defines "p' \<equiv> stored k room d p" and "n \<equiv> fst (packet_size (add_payload k room d p))"
  shows "store_chunk h cid k room ts d p (c\<lparr>chunk_stream_id := cid\<rparr>, x) =
    (if length (got @ piece) = len
     then ebind (h (p'\<lparr>time_stamp := Some ts\<rparr>)) (\<lambda>_. eret (Some (k + room)))
       (received n cid (None, Some (p'\<lparr>time_stamp := Some ts\<rparr>)) (c\<lparr>msg_stream_id := sid\<rparr>), x)
     else (Inr (Some (k + room)), (received n cid (Some p', snd (chunked_data_map c cid)) c, x)))"
proof -
  have p': "assembling p' t sid ts len (got @ piece)"
    unfolding p'_def by (rule assembling_stored [OF assms(1,3)])
  have n: "packet_size (add_payload k room d p) = (n, p')"
    by (simp add: n_def p'_def stored_def)
  have len: "unat (word_of_nat len :: u32) = len" "(word_of_nat len :: u32) \<noteq> 0"
    using assms(4,5) by (auto simp: unat_of_nat word_of_nat_eq_0_iff dest!: dvd_imp_le)
  have u: "unread_length (pkt_buf p') = length (got @ piece)"
    using p' by (simp add: assembling_def payload_def flip: length_unread)
  show ?thesis
    using p' len assms(2) u
    by (simp add: store_chunk_def n on_chunk_state_def count_received_def window_reached_def
        put_packet_def finish_message_def ebind_def received_message assembling_def Let_def
        del: unat_of_nat cong: if_cong) (simp add: received_def)
qed

lemma chunk_body_exec:
  assumes "assembling p t sid ts len got" "windows_size c = 0" "length got \<le> len" "len < 2 ^ 24" "len \<noteq> 0"
    "length piece = min (chunk_size_in c) (len - length got)"
    "d = pre @ stamp_bytes ts @ piece @ rest" "length pre = k"
  obtains p' n where "assembling p' t sid ts len (got @ piece)"
    "chunk_body h cid k d p (c\<lparr>chunk_stream_id := cid\<rparr>, x) =
    (if length (got @ piece) = len
     then ebind (h (p'\<lparr>time_stamp := Some ts\<rparr>)) (\<lambda>_. eret (Some (length (pre @ stamp_bytes ts) + length piece)))
       (received n cid (None, Some (p'\<lparr>time_stamp := Some ts\<rparr>)) (c\<lparr>msg_stream_id := sid\<rparr>), x)
     else (Inr (Some (length (pre @ stamp_bytes ts) + length piece)),
       (received n cid (Some p', snd (chunked_data_map c cid)) c, x)))"
proof -
  let ?k = "length (pre @ stamp_bytes ts)"
  have d: "take (length piece) (drop ?k d) = piece"
    using assms(7) by simp
  have room: "chunk_payload (chunk_size_in c) (word_of_nat len) (unread_length (pkt_buf p)) = length piece"
    using assms(1,3,4,6) chunk_payload_rest [of "length got" len "chunk_size_in c"]
    by (auto simp: assembling_def payload_def)
  have big: "ts \<ge> 0xFFFFFF \<Longrightarrow> load_be32 (drop k d) = ts"
    using assms(7,8) by (simp add: stamp_bytes_def load_be32_set)
  have put: "store_chunk h cid ?k (length piece) ts d p (put_packet cid (Some p, snd (chunked_data_map c cid)) (c\<lparr>chunk_stream_id := cid\<rparr>, x))
      = store_chunk h cid ?k (length piece) ts d p (c\<lparr>chunk_stream_id := cid\<rparr>, x)"
    by (simp add: store_chunk_def put_packet_def)
  have "chunk_body h cid k d p (c\<lparr>chunk_stream_id := cid\<rparr>, x)
      = store_chunk h cid ?k (length piece) ts d p (c\<lparr>chunk_stream_id := cid\<rparr>, x)"
  proof (cases "ts \<ge> 0xFFFFFF")
    case True
    then show ?thesis
      using assms(1,7,8) room big put
      by (simp add: chunk_body_def Let_def assembling_def stamp_field_max stamp_bytes_def)
  next
    case False
    then show ?thesis
      using assms(1,7,8) room put
      by (simp add: chunk_body_def Let_def assembling_def stamp_field_max stamp_bytes_def) (simp add: stamp_field_def)
  qed
  then show thesis
    using that [OF assembling_stored [OF assms(1) d]] store_chunk_exec [OF assms(1,2) d assms(4,5), of h cid x]
    by (simp only:)
qed

section \<open>A message goes through\<close>

definition message_state :: "u64 \<Rightarrow> u32 \<Rightarrow> nat \<Rightarrow> rtmp_packet \<Rightarrow> 'a chunk_state_scheme \<Rightarrow> 'a chunk_state_scheme" where
  "message_state b sid cid p c = c\<lparr>chunk_stream_id := cid, bytes_recv := b, msg_stream_id := sid,
     chunked_data_map := (chunked_data_map c)(cid := (None, Some p))\<rparr>"

definition handed_on :: "(rtmp_packet \<Rightarrow> (('a, 'x) conn, unit) eff) \<Rightarrow> rtmp_packet \<Rightarrow> ('a, 'x) conn \<Rightarrow> nat \<Rightarrow> bytes \<Rightarrow>
    nat res \<times> ('a, 'x) conn" where
  "handed_on h p s n rest = (case h p s of
     (Inl e, s) \<Rightarrow> (Inl e, s)
   | (Inr _, s) \<Rightarrow> (case split_rtmp h rest s of (Inl e, s) \<Rightarrow> (Inl e, s) | (Inr k, s) \<Rightarrow> (Inr (n + k), s)))"

lemma message_state_received:
  "received n cid (None, Some p) (c\<lparr>msg_stream_id := sid\<rparr>)
     = message_state (bytes_recv c + ucast (word_of_nat n :: u32)) sid cid p c"
  by (simp add: received_message message_state_def)

lemma message_state_after_received [simp]:
  "message_state b sid cid p (received n cid e c) = message_state b sid cid p c"
  by (cases c) (simp add: message_state_def received_def)

lemma received_fields [simp]:
  "windows_size (received n cid e c) = windows_size c" "chunk_size_in (received n cid e c) = chunk_size_in c"
  "chunked_data_map (received n cid e c) cid = e"
  by (simp_all add: received_def)

lemma split_rtmp_continue:
  "d \<noteq> [] \<Longrightarrow> split_step h d s = (Inr (Some n), s') \<Longrightarrow> split_rtmp h d s =
     (case split_rtmp h (drop n d) s' of (Inl e, s) \<Rightarrow> (Inl e, s) | (Inr k, s) \<Rightarrow> (Inr (n + k), s))"
  by (simp add: split_rtmp.simps [of h d])

lemma split_rtmp_handed:
  assumes "d \<noteq> []" "split_step h d s = ebind (h p) (\<lambda>_. eret (Some n)) s'"
  shows "split_rtmp h d s = handed_on h p s' n (drop n d)"
  using assms by (cases "h p s'"; cases "fst (h p s')")
    (simp_all add: split_rtmp.simps [of h d] ebind_def handed_on_def)

text \<open>One chunk of a message, whatever its header: either the message goes to the handler or it waits.\<close>

lemma one_chunk:
  assumes "split_step h d (c, x) = chunk_body h cid k d p (c\<lparr>chunk_stream_id := cid\<rparr>, x)"
    "assembling p t sid ts len got" "windows_size c = 0" "length got \<le> len" "len < 2 ^ 24" "len \<noteq> 0"
    "length piece = min (chunk_size_in c) (len - length got)"
    "d = pre @ stamp_bytes ts @ piece @ rest" "length pre = k" "k \<noteq> 0"
  obtains p' b where "assembling p' t sid ts len (got @ piece)" "time_stamp p' = Some ts" "length (got @ piece) = len"
      "split_rtmp h d (c, x) = handed_on h p' (message_state b sid cid p' c, x) (length (pre @ stamp_bytes ts @ piece)) rest"
  | p' n where "assembling p' t sid ts len (got @ piece)" "length (got @ piece) < len"
      "split_rtmp h d (c, x) = (case split_rtmp h rest (received n cid (Some p', snd (chunked_data_map c cid)) c, x) of
         (Inl e, s) \<Rightarrow> (Inl e, s) | (Inr k, s) \<Rightarrow> (Inr (length (pre @ stamp_bytes ts @ piece) + k), s))"
proof -
  have ne: "d \<noteq> []" and dr: "drop (length (pre @ stamp_bytes ts) + length piece) d = rest"
    using assms(8-10) by auto
  obtain p' n where p': "assembling p' t sid ts len (got @ piece)" and s: "split_step h d (c, x) =
    (if length (got @ piece) = len
     then ebind (h (p'\<lparr>time_stamp := Some ts\<rparr>)) (\<lambda>_. eret (Some (length (pre @ stamp_bytes ts) + length piece)))
       (received n cid (None, Some (p'\<lparr>time_stamp := Some ts\<rparr>)) (c\<lparr>msg_stream_id := sid\<rparr>), x)
     else (Inr (Some (length (pre @ stamp_bytes ts) + length piece)),
       (received n cid (Some p', snd (chunked_data_map c cid)) c, x)))"
    unfolding assms(1) by (rule chunk_body_exec [OF assms(2-9)])
  show thesis
  proof (cases "length (got @ piece) = len")
    case True
    have "assembling (p'\<lparr>time_stamp := Some ts\<rparr>) t sid ts len (got @ piece)"
      using p' by (simp add: assembling_def pkt_ok_def payload_def)
    moreover have step: "split_step h d (c, x) = ebind (h (p'\<lparr>time_stamp := Some ts\<rparr>))
        (\<lambda>_. eret (Some (length (pre @ stamp_bytes ts) + length piece)))
        (message_state (bytes_recv c + ucast (word_of_nat n :: u32)) sid cid (p'\<lparr>time_stamp := Some ts\<rparr>) c, x)"
      using s True by (simp only: message_state_received refl if_True)
    from split_rtmp_handed [OF ne step] have "split_rtmp h d (c, x) = handed_on h (p'\<lparr>time_stamp := Some ts\<rparr>)
        (message_state (bytes_recv c + ucast (word_of_nat n :: u32)) sid cid (p'\<lparr>time_stamp := Some ts\<rparr>) c, x)
        (length (pre @ stamp_bytes ts @ piece)) rest"
      using dr by (simp add: add.assoc)
    ultimately show thesis
      using that(1) [OF _ _ True] by simp
  next
    case False
    have "length (got @ piece) < len"
      using False assms(4,7) by simp
    moreover from False s have "split_step h d (c, x) = (Inr (Some (length (pre @ stamp_bytes ts) + length piece)),
       (received n cid (Some p', snd (chunked_data_map c cid)) c, x))"
      by (simp only: if_False)
    from split_rtmp_continue [OF ne this] have "split_rtmp h d (c, x)
        = (case split_rtmp h rest (received n cid (Some p', snd (chunked_data_map c cid)) c, x) of
         (Inl e, s) \<Rightarrow> (Inl e, s) | (Inr k, s) \<Rightarrow> (Inr (length (pre @ stamp_bytes ts @ piece) + k), s))"
      unfolding dr by (simp only: length_append add.assoc)
    ultimately show thesis
      by (rule that(2) [OF p'])
  qed
qed

lemma header_at:
  assumes "d = rtmp_header_bytes t sid n ts cid @ rest"
  shows "unat (stamp_field ts) < 2 ^ 24 \<Longrightarrow> load_be24 (drop 1 d) = stamp_field ts"
    "n < 2 ^ 24 \<Longrightarrow> load_be24 (drop 4 d) = word_of_nat n" "d ! 7 = t" "load_le32 (drop 8 d) = sid"
proof -
  let ?n = "word_of_nat n :: u32"
  have d: "d = [word_of_nat cid] @ set_be24 (stamp_field ts) @ (set_be24 ?n @ [t] @ set_le32 sid @ rest)"
    "d = ([word_of_nat cid] @ set_be24 (stamp_field ts)) @ set_be24 ?n @ ([t] @ set_le32 sid @ rest)"
    "d = ([word_of_nat cid] @ set_be24 (stamp_field ts) @ set_be24 ?n @ [t]) @ set_le32 sid @ rest"
    by (simp_all add: assms rtmp_header_bytes_def stamp_field_def)
  show "unat (stamp_field ts) < 2 ^ 24 \<Longrightarrow> load_be24 (drop 1 d) = stamp_field ts"
    by (subst d(1), rule be24.dec_enc_at) simp_all
  show "load_be24 (drop 4 d) = ?n" if "n < 2 ^ 24"
    by (subst d(2), rule be24.dec_enc_at) (use that in \<open>simp_all add: unat_of_nat\<close>)
  show "d ! 7 = t"
    by (simp add: d(2) nth_append)
  show "load_le32 (drop 8 d) = sid"
    by (subst d(3), rule le32.dec_enc_at) simp_all
qed

lemma chunk_bytes_pos: "chunk_bytes n h e f data = Some w \<Longrightarrow> data \<noteq> [] \<Longrightarrow> n \<noteq> 0"
  by (cases n) (simp_all add: chunk_bytes.simps [of 0])

lemma next_chunks:
  assumes "2 \<le> cid" "cid \<le> 63" "len < 2 ^ 24"
  shows "chunk_bytes n [word_of_nat cid OR push_bit 6 3] (stamp_bytes ts) False data = Some w \<Longrightarrow> data \<noteq> [] \<Longrightarrow>
     assembling p t sid ts len got \<Longrightarrow> fst (chunked_data_map c cid) = Some p \<Longrightarrow> windows_size c = 0 \<Longrightarrow>
     chunk_size_in c = n \<Longrightarrow> len = length (got @ data) \<Longrightarrow>
   \<exists>p' b. assembling p' t sid ts len (got @ data) \<and> time_stamp p' = Some ts \<and>
     split_rtmp h (w @ rest) (c, x) = handed_on h p' (message_state b sid cid p' c, x) (length w) rest"
proof (induction data arbitrary: w p got c rule: length_induct)
  case (1 data)
  let ?h = "word_of_nat cid OR push_bit 6 3 :: u8" and ?piece = "take n data"
  let ?p = "p\<lparr>pkt_chunk_stream_id := Some (word_of_nat cid)\<rparr>"
  have n: "n \<noteq> 0"
    using chunk_bytes_pos 1(2,3) by blast
  obtain w' where w': "chunk_bytes n [?h] (stamp_bytes ts) False (drop n data) = Some w'"
    and w: "w = [?h] @ stamp_bytes ts @ ?piece @ w'"
    using 1(2,3) n by (auto simp: chunk_bytes.simps [of n _ _ _ data])
  have p: "assembling ?p t sid ts len got"
    using 1(4) by (simp add: assembling_def pkt_ok_def payload_def)
  have open_p: "open_packet (chunked_data_map c cid) = p"
    using 1(5) by (cases "chunked_data_map c cid") simp
  have step: "split_step h (w @ rest) (c, x) = chunk_body h cid 1 (w @ rest) ?p (c\<lparr>chunk_stream_id := cid\<rparr>, x)"
    using header_next [OF assms(1,2)] open_p by (simp add: split_step_def w Let_def read_header_def)
  have piece: "length ?piece = min (chunk_size_in c) (len - length got)"
    using 1(7,8) by simp
  have len: "length got \<le> len" "len \<noteq> 0"
    using 1(3,8) by auto
  have d: "w @ rest = [?h] @ stamp_bytes ts @ ?piece @ (w' @ rest)"
    by (simp add: w)
  show ?case
  proof (rule one_chunk [OF step p 1(6) len(1) assms(3) len(2) piece d _ one_neq_zero])
    fix p' b assume a: "assembling p' t sid ts len (got @ ?piece)" "time_stamp p' = Some ts" "length (got @ ?piece) = len"
      "split_rtmp h (w @ rest) (c, x)
         = handed_on h p' (message_state b sid cid p' c, x) (length ([?h] @ stamp_bytes ts @ ?piece)) (w' @ rest)"
    then have all: "?piece = data" "drop n data = []"
      using 1(8) by auto
    then have "w' = []"
      using w' by (simp add: chunk_bytes.simps)
    then show ?case
      using a all w by auto
  next
    fix p' m assume a: "assembling p' t sid ts len (got @ ?piece)" "length (got @ ?piece) < len"
      "split_rtmp h (w @ rest) (c, x)
         = (case split_rtmp h (w' @ rest) (received m cid (Some p', snd (chunked_data_map c cid)) c, x) of
           (Inl e, s) \<Rightarrow> (Inl e, s) | (Inr k, s) \<Rightarrow> (Inr (length ([?h] @ stamp_bytes ts @ ?piece) + k), s))"
    then have more_data: "drop n data \<noteq> []" "length (drop n data) < length data"
      using 1(8) n by auto
    obtain q b where q: "assembling q t sid ts len ((got @ ?piece) @ drop n data)" "time_stamp q = Some ts"
      "split_rtmp h (w' @ rest) (received m cid (Some p', snd (chunked_data_map c cid)) c, x)
         = handed_on h q (message_state b sid cid q (received m cid (Some p', snd (chunked_data_map c cid)) c), x) (length w') rest"
      using 1(1) [rule_format, OF more_data(2) w' more_data(1) a(1), of "received m cid (Some p', snd (chunked_data_map c cid)) c"]
        1(6-8) by auto
    show ?case
    proof (intro exI conjI)
      show "assembling q t sid ts len (got @ data)"
        using q(1) by simp
      show "split_rtmp h (w @ rest) (c, x) = handed_on h q (message_state b sid cid q c, x) (length w) rest"
        unfolding a(3) q(3) by (auto simp: handed_on_def w split: prod.splits sum.splits)
    qed (rule q(2))
  qed simp
qed

lemma whole_message:
  assumes "2 \<le> cid" "cid \<le> 63" "length data < 2 ^ 24" "data \<noteq> []" "windows_size c = 0"
    and "chunk_bytes (chunk_size_in c) [word_of_nat cid OR push_bit 6 3] (stamp_bytes ts) True data = Some w"
    and "fst (chunked_data_map c cid) = None"
  shows "\<exists>p b. assembling p t sid ts (length data) data \<and> time_stamp p = Some ts \<and>
     split_rtmp h ((rtmp_header_bytes t sid (length data) ts cid @ w) @ rest) (c, x)
       = handed_on h p (message_state b sid cid p c, x) (12 + length w) rest"
proof -
  let ?h = "word_of_nat cid OR push_bit 6 3 :: u8" and ?n = "chunk_size_in c" and ?len = "length data"
  let ?hdr = "rtmp_header_bytes t sid ?len ts cid"
  let ?d = "(?hdr @ w) @ rest"
  let ?p = "read_header 12 ?d ((open_packet (chunked_data_map c cid))\<lparr>pkt_chunk_stream_id := Some (word_of_nat cid)\<rparr>)"
  have n: "?n \<noteq> 0"
    using chunk_bytes_pos assms(4,6) by blast
  obtain w' where w': "chunk_bytes ?n [?h] (stamp_bytes ts) False (drop ?n data) = Some w'"
    and w: "w = stamp_bytes ts @ take ?n data @ w'"
    using assms(4,6) n by (auto simp: chunk_bytes.simps [of _ _ _ True data])
  have len12: "length ?hdr = 12"
    by (simp add: rtmp_header_bytes_def)
  have step: "split_step h ?d (c, x) = chunk_body h cid 12 ?d ?p (c\<lparr>chunk_stream_id := cid\<rparr>, x)"
    using header_first [OF assms(1,2)] by (simp add: split_step_def rtmp_header_bytes_def Let_def)
  have fields: "ts_delta ?p = Some (stamp_field ts)" "msg_length ?p = Some (word_of_nat ?len)" "msg_type_id ?p = Some t"
      "pkt_msg_stream_id ?p = Some sid"
    using stamp_field_fits [of ts] assms(3) header_at [OF refl, where t = t and sid = sid and n = "length data" and ts = ts and cid = cid and rest = "w @ rest"]
    by (simp_all add: read_header_def)
  have p: "assembling ?p t sid ts ?len []"
    using assms(7) fields
    by (cases "chunked_data_map c cid"; cases "snd (chunked_data_map c cid)")
      (auto simp: assembling_def open_packet_def read_header_def restore_context_def pkt_ok_def payload_def create_packet_def)
  have piece: "length (take ?n data) = min ?n (?len - length [])"
    by simp
  have d: "?d = ?hdr @ stamp_bytes ts @ take ?n data @ (w' @ rest)"
    by (simp add: w)
  have pos: "length ([] :: bytes) \<le> ?len" "?len \<noteq> 0"
    using assms(4) by simp_all
  show ?thesis
  proof (rule one_chunk [OF step p assms(5) pos(1) assms(3) pos(2) piece d len12])
    fix p' b assume a: "assembling p' t sid ts ?len ([] @ take ?n data)" "time_stamp p' = Some ts" "length ([] @ take ?n data) = ?len"
      "split_rtmp h ?d (c, x)
         = handed_on h p' (message_state b sid cid p' c, x) (length (?hdr @ stamp_bytes ts @ take ?n data)) (w' @ rest)"
    then have all: "take ?n data = data" "drop ?n data = []"
      by auto
    then have "w' = []"
      using w' by (simp add: chunk_bytes.simps)
    then show ?thesis
      using a all w len12 by auto
  next
    fix p' m assume a: "assembling p' t sid ts ?len ([] @ take ?n data)" "length ([] @ take ?n data) < ?len"
      "split_rtmp h ?d (c, x)
         = (case split_rtmp h (w' @ rest) (received m cid (Some p', snd (chunked_data_map c cid)) c, x) of
           (Inl e, s) \<Rightarrow> (Inl e, s) | (Inr k, s) \<Rightarrow> (Inr (length (?hdr @ stamp_bytes ts @ take ?n data) + k), s))"
    then have more_data: "drop ?n data \<noteq> []"
      by auto
    obtain q b where q: "assembling q t sid ts ?len (take ?n data @ drop ?n data)" "time_stamp q = Some ts"
      "split_rtmp h (w' @ rest) (received m cid (Some p', snd (chunked_data_map c cid)) c, x)
         = handed_on h q (message_state b sid cid q (received m cid (Some p', snd (chunked_data_map c cid)) c), x) (length w') rest"
      using next_chunks [OF assms(1-3) w' more_data a(1), of "received m cid (Some p', snd (chunked_data_map c cid)) c" h rest x] assms(5)
      by auto
    show ?thesis
    proof (intro exI conjI)
      show "assembling q t sid ts ?len data"
        using q(1) by simp
      show "split_rtmp h ?d (c, x) = handed_on h q (message_state b sid cid q c, x) (12 + length w) rest"
        unfolding a(3) q(3) by (auto simp: handed_on_def w len12 split: prod.splits sum.splits)
    qed (rule q(2))
  qed simp
qed

lemma chunk_bytes_total: "n \<noteq> 0 \<Longrightarrow> \<exists>w. chunk_bytes n h e first data = Some w"
  by (induction n h e first data rule: chunk_bytes.induct) (auto simp: chunk_bytes.simps)

lemma send_rtmp_exec:
  assumes "2 \<le> cid" "cid \<le> 63" "windows_size a = 0"
    and "chunk_bytes (chunk_size_out a) [word_of_nat cid OR push_bit 6 3] (stamp_bytes ts) True data = Some w"
  shows "send_rtmp t sid data ts cid a = (Inr (), a\<lparr>
     bytes_sent := bytes_sent a + ucast (word_of_nat (12 + length w) :: u32),
     sent := sent a @ rtmp_header_bytes t sid (length data) ts cid @ w\<rparr>)"
  using assms
  by (simp add: send_rtmp_def send_rtmp_depth.simps [of stack_depth] send_bytes_def window_reached_def
      stamp_bytes_def Let_def del: push_bit_numeral)

text \<open>The bytes of a message as the sender cuts it.\<close>

definition wire :: "nat \<Rightarrow> u8 \<Rightarrow> u32 \<Rightarrow> bytes \<Rightarrow> u32 \<Rightarrow> nat \<Rightarrow> bytes" where
  "wire n t sid data ts cid = rtmp_header_bytes t sid (length data) ts cid
     @ the (chunk_bytes n [word_of_nat cid OR push_bit 6 3] (stamp_bytes ts) True data)"

lemma send_rtmp_wire:
  assumes "2 \<le> cid" "cid \<le> 63" "windows_size a = 0" "chunk_size_out a \<noteq> 0"
  obtains b where "send_rtmp t sid data ts cid a
    = (Inr (), a\<lparr>bytes_sent := b, sent := sent a @ wire (chunk_size_out a) t sid data ts cid\<rparr>)"
  using chunk_bytes_total [OF assms(4)] send_rtmp_exec [OF assms(1-3)] unfolding wire_def
  by (metis option.sel)

lemma receive_wire:
  assumes "2 \<le> cid" "cid \<le> 63" "length data < 2 ^ 24" "data \<noteq> []" "windows_size c = 0" "chunk_size_in c \<noteq> 0"
    and "fst (chunked_data_map c cid) = None"
  shows "\<exists>p b. assembling p t sid ts (length data) data \<and> time_stamp p = Some ts \<and>
     split_rtmp h (wire (chunk_size_in c) t sid data ts cid @ rest) (c, x)
       = handed_on h p (message_state b sid cid p c, x) (length (wire (chunk_size_in c) t sid data ts cid)) rest"
proof -
  let ?h = "[word_of_nat cid OR push_bit 6 3]"
  obtain w where w: "chunk_bytes (chunk_size_in c) ?h (stamp_bytes ts) True data = Some w"
    using chunk_bytes_total [OF assms(6)] by blast
  have "wire (chunk_size_in c) t sid data ts cid = rtmp_header_bytes t sid (length data) ts cid @ w"
    "length (rtmp_header_bytes t sid (length data) ts cid @ w) = 12 + length w"
    unfolding wire_def w by (simp_all add: rtmp_header_bytes_def)
  then show ?thesis
    using whole_message [OF assms(1-5) w assms(7), of t sid h rest x] by (simp only:)
qed

section \<open>Any number of messages, cut anywhere\<close>

type_synonym message = "u8 \<times> u32 \<times> bytes \<times> u32 \<times> nat"

fun send_all :: "message list \<Rightarrow> ('a chunk_state_scheme, unit) eff" where
  "send_all [] = eret ()"
| "send_all ((t, sid, data, ts, cid) # ms) = ebind (send_rtmp t sid data ts cid) (\<lambda>_. send_all ms)"

fun sendable :: "message \<Rightarrow> bool" where
  "sendable (t, sid, data, ts, cid) \<longleftrightarrow> 2 \<le> cid \<and> cid \<le> 63 \<and> data \<noteq> [] \<and> length data < 2 ^ 24"

text \<open>A handler that only notes what it is given.\<close>

definition note_message :: "rtmp_packet \<Rightarrow> (('a, message list) conn, unit) eff" where
  "note_message p = emodify (\<lambda>(c, ms). (c, ms @ [(the (msg_type_id p), the (pkt_msg_stream_id p),
     payload p, the (time_stamp p), chunk_stream_id c)]))"

fun message_wire :: "nat \<Rightarrow> message \<Rightarrow> bytes" where
  "message_wire n (t, sid, data, ts, cid) = wire n t sid data ts cid"

lemma send_all_wire:
  "list_all sendable ms \<Longrightarrow> windows_size a = 0 \<Longrightarrow> chunk_size_out a \<noteq> 0 \<Longrightarrow>
     \<exists>b. send_all ms a = (Inr (), a\<lparr>bytes_sent := b, sent := sent a @ concat (map (message_wire (chunk_size_out a)) ms)\<rparr>)"
proof (induction ms arbitrary: a)
  case Nil
  have "a = a\<lparr>bytes_sent := bytes_sent a, sent := sent a\<rparr>"
    by simp
  then show ?case
    by (auto intro!: exI [of _ "bytes_sent a"])
next
  case (Cons m ms)
  obtain t sid data ts cid where m: "m = (t, sid, data, ts, cid)"
    by (cases m)
  obtain b where b: "send_rtmp t sid data ts cid a
      = (Inr (), a\<lparr>bytes_sent := b, sent := sent a @ wire (chunk_size_out a) t sid data ts cid\<rparr>)"
    using send_rtmp_wire [of cid a t sid data ts] Cons.prems by (auto simp: m)
  show ?case
    using Cons.IH [of "a\<lparr>bytes_sent := b, sent := sent a @ wire (chunk_size_out a) t sid data ts cid\<rparr>"] Cons.prems
    by (auto simp: m ebind_def b)
qed

lemma receive_all:
  assumes "list_all sendable ms" "windows_size c = 0" "chunk_size_in c \<noteq> 0" "\<And>cid. fst (chunked_data_map c cid) = None"
  shows "\<exists>c'. split_rtmp note_message (concat (map (message_wire (chunk_size_in c)) ms)) (c, got)
     = (Inr (length (concat (map (message_wire (chunk_size_in c)) ms))), (c', got @ ms))"
  using assms
proof (induction ms arbitrary: c got)
  case Nil
  then show ?case
    by (simp add: split_rtmp.simps)
next
  case (Cons m ms)
  obtain t sid data ts cid where m: "m = (t, sid, data, ts, cid)"
    by (cases m)
  let ?n = "chunk_size_in c" and ?rest = "concat (map (message_wire (chunk_size_in c)) ms)"
  obtain p b where p: "assembling p t sid ts (length data) data" "time_stamp p = Some ts"
    and step: "split_rtmp note_message (wire ?n t sid data ts cid @ ?rest) (c, got)
       = handed_on note_message p (message_state b sid cid p c, got) (length (wire ?n t sid data ts cid)) ?rest"
    using receive_wire [of cid data c t sid ts note_message ?rest got] Cons.prems by (auto simp: m)
  obtain c' where "split_rtmp note_message ?rest (message_state b sid cid p c, got @ [m]) = (Inr (length ?rest), (c', got @ m # ms))"
  proof -
    have "fst (chunked_data_map (message_state b sid cid p c) i) = None" for i
      using Cons.prems(4) by (simp add: message_state_def)
    then show thesis
      using that Cons.IH [of "message_state b sid cid p c" "got @ [m]"] Cons.prems by (auto simp: message_state_def)
  qed
  moreover have "note_message p (message_state b sid cid p c, got) = (Inr (), (message_state b sid cid p c, got @ [m]))"
    using p by (simp add: note_message_def assembling_def m message_state_def)
  ultimately show ?case
    using step by (simp add: m handed_on_def)
qed

lemma feed_whole:
  assumes "split_rtmp h (concat pieces) s = (Inr (length (concat pieces)), t)"
  shows "feed h pieces [] s = (Inr (), [], t)"
proof (cases pieces)
  case Nil
  then show ?thesis
    using assms by (simp add: split_rtmp.simps)
next
  case (Cons piece more_pieces)
  then show ?thesis
    using feed_concat [where h = h and waiting = "[]" and piece = piece and pieces = more_pieces and s = s] assms by simp
qed

section \<open>Properties\<close>

text \<open>C2: cutting the byte stream into other pieces changes nothing: reading it piece by piece, with the
  bytes that were not consumed kept in front of the next piece, calls the handler as one call of
  \<open>split_rtmp\<close> on the whole stream does, leaves the same connection and the same bytes
  waiting, and fails with the same exception.\<close>

theorem segmentation_insensitive:
  "case split_rtmp h (waiting @ concat (piece # pieces)) s of
     (Inl e, t) \<Rightarrow> \<exists>q. feed h (piece # pieces) waiting s = (Inl e, q, t)
   | (Inr k, t) \<Rightarrow> feed h (piece # pieces) waiting s
       = (Inr (), drop k (waiting @ concat (piece # pieces)), t)"
  by (rule feed_concat)

text \<open>C1: what \<open>send_rtmp\<close> writes is read back: any sequence of non-empty messages on chunk
  streams 2 to 63, sent with the chunk size the receiver expects and received in pieces of any size,
  reaches \<open>handle_chunk\<close> as the same sequence of types, stream identifiers, payloads and (32-bit)
  timestamps, and no byte is left over.\<close>

theorem messages_round_trip:
  assumes "list_all sendable ms" "windows_size a = 0" "windows_size c = 0" "sent a = []"
    and "chunk_size_out a = chunk_size_in c" "chunk_size_in c \<noteq> 0" "\<And>cid. fst (chunked_data_map c cid) = None"
    and "send_all ms a = (r, a')" "concat pieces = sent a'"
  shows "r = Inr () \<and> (\<exists>c'. feed note_message pieces [] (c, []) = (Inr (), [], (c', ms)))"
proof -
  obtain b where a': "r = Inr ()" "sent a' = concat (map (message_wire (chunk_size_in c)) ms)"
    using send_all_wire [OF assms(1,2)] assms(4-6,8) by auto
  obtain c' where "split_rtmp note_message (concat pieces) (c, []) = (Inr (length (concat pieces)), (c', ms))"
    using receive_all [OF assms(1,3,6,7), of "[]"] assms(9) a'(2) by auto
  then show ?thesis
    using a'(1) feed_whole by blast
qed

definition idle_connection :: "nat \<Rightarrow> chunk_state" where
  "idle_connection n = \<lparr>chunk_stream_id = 0, msg_stream_id = 0, chunk_size_in = n, chunk_size_out = n,
     chunked_data_map = (\<lambda>_. (None, None)), bytes_sent = 0, bytes_sent_last = 0, bytes_recv = 0,
     bytes_recv_last = 0, windows_size = 0, sent = []\<rparr>"

theorem messages_round_trip_witness:
  "let ms = [(MSG_CMD, 0, [1, 2, 3, 4, 5], 0, 3), (MSG_VIDEO, 1, [6, 7], 0x1000000, 4)];
       a = snd (send_all ms (idle_connection 2))
   in \<exists>c'. feed note_message (map (\<lambda>b. [b]) (sent a)) [] (idle_connection 2, []) = (Inr (), [], (c', ms))"
proof -
  define ms :: "message list" where "ms = [(MSG_CMD, 0, [1, 2, 3, 4, 5], 0, 3), (MSG_VIDEO, 1, [6, 7], 0x1000000, 4)]"
  obtain r a where a: "send_all ms (idle_connection 2) = (r, a)"
    by (cases "send_all ms (idle_connection 2)")
  have "concat (map (\<lambda>b. [b]) (sent a)) = sent a"
    by (induction "sent a") simp_all
  then show ?thesis
    using messages_round_trip [of ms "idle_connection 2" "idle_connection 2" r a "map (\<lambda>b. [b]) (sent a)"] a
    unfolding ms_def [symmetric] by (simp add: idle_connection_def ms_def [unfolded] Let_def)
qed

section \<open>Where the chunk layer fails\<close>

lemma ack_chunks: "4 \<le> n \<Longrightarrow> chunk_bytes n h [] True (set_be32 v) = Some (set_be32 v)"
  by (subst chunk_bytes.simps, subst chunk_bytes.simps) (auto simp: set_be32_def)

definition acknowledged :: "u32 \<Rightarrow> u32 \<Rightarrow> 'a chunk_state_scheme \<Rightarrow> 'a chunk_state_scheme" where
  "acknowledged sid n c = (send_bytes (set_be32 n) (send_bytes (rtmp_header_bytes MSG_ACK sid 4 0 2) c))
     \<lparr>bytes_sent := bytes_sent c + 16\<rparr>"

lemma ack_step:
  assumes "4 \<le> chunk_size_out c" "window_reached (bytes_sent c + 16) (bytes_sent_last c) c"
  shows "\<exists>k. fst (send_rtmp_depth depth MSG_ACK sid (set_be32 n) 0 CHUNK_NETWORK c) = (case depth of
      0 \<Rightarrow> Inl (Undefined ''endless recursion'')
    | Suc depth \<Rightarrow> fst (send_rtmp_depth depth MSG_ACK (msg_stream_id c) (set_be32 k) 0 CHUNK_NETWORK (acknowledged sid n c)))"
  using assms
  by (auto simp: send_rtmp_depth.simps [of depth] acknowledged_def CHUNK_NETWORK_def ack_chunks Let_def
      send_bytes_def window_reached_def split: nat.splits prod.splits sum.splits
      intro!: exI [of _ "ucast (bytes_sent c + 16 - bytes_sent_last c)"])

lemma ack_never_returns:
  "4 \<le> chunk_size_out c \<Longrightarrow> 0 < windows_size c \<Longrightarrow> ucast (windows_size c) \<le> bytes_sent c - bytes_sent_last c \<Longrightarrow>
     unat (bytes_sent c - bytes_sent_last c) + 16 * (depth + 1) < 2 ^ 64 \<Longrightarrow>
     fst (send_rtmp_depth depth MSG_ACK sid (set_be32 n) 0 CHUNK_NETWORK c) = Inl (Undefined ''endless recursion'')"
proof (induction depth arbitrary: c sid n)
  case (Suc depth)
  let ?diff = "bytes_sent c - bytes_sent_last c"
  have d: "unat (?diff + 16) = unat ?diff + 16"
    using Suc.prems(4) by (simp add: unat_word_ariths)
  then have w: "ucast (windows_size c) \<le> ?diff + 16"
    using Suc.prems(3) by (simp add: word_le_nat_alt)
  then have "window_reached (bytes_sent c + 16) (bytes_sent_last c) c"
    using Suc.prems(2) by (simp add: window_reached_def algebra_simps)
  from ack_step [OF Suc.prems(1) this, of "Suc depth" sid n] obtain k where
    k: "fst (send_rtmp_depth (Suc depth) MSG_ACK sid (set_be32 n) 0 CHUNK_NETWORK c)
      = fst (send_rtmp_depth depth MSG_ACK (msg_stream_id c) (set_be32 k) 0 CHUNK_NETWORK (acknowledged sid n c))"
    by auto
  have a: "bytes_sent (acknowledged sid n c) - bytes_sent_last (acknowledged sid n c) = ?diff + 16"
    "chunk_size_out (acknowledged sid n c) = chunk_size_out c" "windows_size (acknowledged sid n c) = windows_size c"
    by (simp_all add: acknowledged_def send_bytes_def)
  show ?case
    unfolding k by (rule Suc.IH) (use Suc.prems a w d in simp_all)
next
  case 0
  let ?diff = "bytes_sent c - bytes_sent_last c"
  have "unat (?diff + 16) = unat ?diff + 16"
    using 0(4) by (simp add: unat_word_ariths)
  then have "ucast (windows_size c) \<le> ?diff + 16"
    using 0(3) by (simp add: word_le_nat_alt)
  then have "window_reached (bytes_sent c + 16) (bytes_sent_last c) c"
    using 0(2) by (simp add: window_reached_def algebra_simps)
  then show ?case
    using ack_step [OF 0(1), of 0 sid n] by auto
qed

text \<open>Once as many bytes as the window size have been sent, an acknowledgement is not the end:
  \<open>send_rtmp\<close> acknowledges what it has just sent before it notes that it did, so
  \<open>send_acknowledgement\<close> calls itself until the stack is used up, whatever its size. (The member
  \<open>windows_size_\<close> is never assigned and stays 0, so the case does not arise in the program as it is.)\<close>

theorem acknowledgement_recursion:
  assumes "4 \<le> chunk_size_out c" "0 < windows_size c" "ucast (windows_size c) \<le> bytes_sent c - bytes_sent_last c"
    and "unat (bytes_sent c - bytes_sent_last c) + 16 * (depth + 1) < 2 ^ 64"
  shows "fst (send_rtmp_depth depth MSG_ACK (msg_stream_id c) (set_be32 n) 0 CHUNK_NETWORK c)
    = Inl (Undefined ''endless recursion'')"
  by (rule ack_never_returns [OF assms])

theorem acknowledgement_recursion_witness:
  "fst (send_acknowledgement 5 ((idle_connection 128)\<lparr>windows_size := 100, bytes_sent := 100\<rparr>))
    = Inl (Undefined ''endless recursion'')"
  using acknowledgement_recursion [of "(idle_connection 128)\<lparr>windows_size := 100, bytes_sent := 100\<rparr>" stack_depth 5]
  by (simp add: idle_connection_def send_acknowledgement_def send_rtmp_def stack_depth_def)

text \<open>A peer that opens a chunk stream with a chunk of format 3 makes the code read a packet whose
  members were never written: there is no earlier message whose header it could repeat, and nothing
  checks for that.\<close>

theorem first_chunk_uninitialised:
  assumes "2 \<le> cid" "cid \<le> 63" "chunked_data_map c cid = (None, None)"
  shows "fst (split_rtmp h ((word_of_nat cid OR push_bit 6 3) # rest) (c, x))
    = Inl (Undefined ''read of an uninitialised member'')"
  using header_next [OF assms(1,2)] assms(3)
  by (simp add: split_rtmp.simps [of h "_ # _"] split_step_def Let_def chunk_body_def read_header_def open_packet_def
      create_packet_def del: push_bit_numeral)

theorem first_chunk_uninitialised_witness:
  "fst (split_rtmp note_message [0xC3] (idle_connection 128, [])) = Inl (Undefined ''read of an uninitialised member'')"
  using first_chunk_uninitialised [of 3 "idle_connection 128" note_message "[]" "[]"] by (simp add: idle_connection_def)

lemma chunk_payload_wrapped:
  assumes "unat len < have_len" "have_len < 2 ^ 63" "n < 2 ^ 63"
  shows "chunk_payload n len have_len = n"
proof -
  have "unat (word_of_nat have_len :: u64) = have_len" "unat (ucast len :: u64) = unat len"
    using assms(2) unat_u32_less [of len] by (simp_all add: unat_of_nat unsigned_ucast_eq take_bit_nat_eq_self)
  then have "unat (ucast len - word_of_nat have_len :: u64) = 2 ^ 64 + unat len - have_len"
    using assms(1) by (simp add: unat_sub_if' del: unat_of_nat)
  then show ?thesis
    using assms by (simp add: chunk_payload_def)
qed

text \<open>One chunk whose message states less than is there: it is taken at full chunk size, and the message stays open.\<close>

definition overfull :: "nat \<Rightarrow> u32 \<Rightarrow> bytes \<Rightarrow> 'a chunk_state_scheme \<Rightarrow> bool" where
  "overfull cid len got c \<longleftrightarrow> windows_size c = 0 \<and> chunk_size_in c < 2 ^ 63 \<and> unat len < length got
     \<and> (\<exists>p d. fst (chunked_data_map c cid) = Some p \<and> pkt_ok p \<and> ts_delta p = Some d \<and> d \<noteq> 0xFFFFFF
        \<and> msg_length p = Some len \<and> payload p = got)"

lemma overfull_chunk:
  assumes "split_step h (pre @ piece @ rest) (c, x) = chunk_body h cid (length pre) (pre @ piece @ rest) p (c\<lparr>chunk_stream_id := cid\<rparr>, x)"
    and "pkt_ok p" "ts_delta p = Some d" "d \<noteq> 0xFFFFFF" "msg_length p = Some len" "unat len < length (payload p)"
    and "length (payload p) < 2 ^ 63" "chunk_size_in c < 2 ^ 63" "windows_size c = 0" "length piece = chunk_size_in c" "pre \<noteq> []"
  shows "\<exists>c'. overfull cid len (payload p @ piece) c' \<and> chunk_size_in c' = chunk_size_in c
    \<and> split_rtmp h (pre @ piece @ rest) (c, x) = (case split_rtmp h rest (c', x) of
        (Inl e, s) \<Rightarrow> (Inl e, s) | (Inr k, s) \<Rightarrow> (Inr (length (pre @ piece) + k), s))"
proof -
  let ?n = "chunk_size_in c" and ?data = "pre @ piece @ rest" and ?k = "length pre"
  define p' where "p' = stored ?k ?n ?data p"
  obtain m where m: "packet_size (add_payload ?k ?n ?data p) = (m, p')"
    by (metis p'_def stored_def prod.collapse)
  have room: "chunk_payload ?n len (unread_length (pkt_buf p)) = ?n"
    using chunk_payload_wrapped [OF assms(6-8)] by (simp add: payload_def)
  have pay: "pkt_ok p'" "payload p' = payload p @ piece"
    using stored_payload [OF assms(2), of ?k ?n ?data] assms(10) unfolding p'_def by simp_all
  have u: "unread_length (pkt_buf p') \<noteq> unat len"
  proof -
    have "unread_length (pkt_buf p') = length (payload p')"
      by (simp add: payload_def)
    then show ?thesis
      using assms(6) by (simp add: pay)
  qed
  have fields: "msg_length p' = Some len" "is_abs_stamp p' = is_abs_stamp p" "ts_delta p' = Some d"
    using assms(3,5) by (simp_all add: p'_def)
  define c' where "c' = received m cid (Some p', snd (chunked_data_map c cid)) c"
  have "split_step h ?data (c, x) = (Inr (Some (length (pre @ piece))), (c', x))"
    unfolding assms(1) using assms(3-5,9,10) room u fields
    by (simp add: chunk_body_def store_chunk_def m on_chunk_state_def count_received_def window_reached_def c'_def
        put_packet_def finish_message_def ebind_def Let_def received_def cong: if_cong)
  from split_rtmp_continue [OF _ this] assms(11) have "split_rtmp h ?data (c, x) = (case split_rtmp h rest (c', x) of
        (Inl e, s) \<Rightarrow> (Inl e, s) | (Inr k, s) \<Rightarrow> (Inr (length (pre @ piece) + k), s))"
    by simp
  moreover have "overfull cid len (payload p @ piece) c'" "chunk_size_in c' = ?n"
    using assms(4,6,8,9) pay fields by (auto simp: overfull_def c'_def)
  ultimately show ?thesis
    by blast
qed

text \<open>Any number of chunks of format 3 behind it.\<close>

definition chunks_3 :: "nat \<Rightarrow> bytes list \<Rightarrow> bytes" where
  "chunks_3 cid pieces = concat (map (\<lambda>piece. (word_of_nat cid OR push_bit 6 3) # piece) pieces)"

lemma overfull_chunks:
  assumes "2 \<le> cid" "cid \<le> 63"
  shows "overfull cid len got c \<Longrightarrow> \<forall>piece \<in> set pieces. length piece = chunk_size_in c \<Longrightarrow>
     length (got @ concat pieces) < 2 ^ 63 \<Longrightarrow>
     \<exists>c'. split_rtmp h (chunks_3 cid pieces) (c, x) = (Inr (length (chunks_3 cid pieces)), (c', x))
       \<and> overfull cid len (got @ concat pieces) c'"
proof (induction pieces arbitrary: got c)
  case Nil
  then show ?case
    by (auto simp: chunks_3_def split_rtmp.simps)
next
  case (Cons piece pieces)
  let ?h = "word_of_nat cid OR push_bit 6 3 :: u8"
  obtain p d where p: "fst (chunked_data_map c cid) = Some p" "pkt_ok p" "ts_delta p = Some d" "d \<noteq> 0xFFFFFF"
      "msg_length p = Some len" "payload p = got" and c: "windows_size c = 0" "chunk_size_in c < 2 ^ 63" "unat len < length got"
    using Cons.prems(1) by (auto simp: overfull_def)
  let ?p = "p\<lparr>pkt_chunk_stream_id := Some (word_of_nat cid)\<rparr>"
  have open_p: "open_packet (chunked_data_map c cid) = p"
    using p(1) by (cases "chunked_data_map c cid") simp
  have data: "chunks_3 cid (piece # pieces) = [?h] @ piece @ chunks_3 cid pieces"
    by (simp add: chunks_3_def)
  have "split_step h ([?h] @ piece @ chunks_3 cid pieces) (c, x)
      = chunk_body h cid (length [?h]) ([?h] @ piece @ chunks_3 cid pieces) ?p (c\<lparr>chunk_stream_id := cid\<rparr>, x)"
    using header_next [OF assms] open_p by (simp add: split_step_def Let_def read_header_def)
  from overfull_chunk [OF this, of d len] p c Cons.prems(2,3) obtain c' where
    c': "overfull cid len (got @ piece) c'" "chunk_size_in c' = chunk_size_in c"
      "split_rtmp h ([?h] @ piece @ chunks_3 cid pieces) (c, x) = (case split_rtmp h (chunks_3 cid pieces) (c', x) of
        (Inl e, s) \<Rightarrow> (Inl e, s) | (Inr k, s) \<Rightarrow> (Inr (length ([?h] @ piece) + k), s))"
    by (auto simp: pkt_ok_def payload_def)
  from Cons.IH [OF c'(1)] Cons.prems(2,3) c'(2) obtain c'' where
    "split_rtmp h (chunks_3 cid pieces) (c', x) = (Inr (length (chunks_3 cid pieces)), (c'', x))"
    "overfull cid len ((got @ piece) @ concat pieces) c''"
    by auto
  with c'(3) data show ?case by auto
qed

text \<open>The chunk of format 1 that states the length.\<close>

definition chunk_1 :: "nat \<Rightarrow> u32 \<Rightarrow> u32 \<Rightarrow> u8 \<Rightarrow> bytes \<Rightarrow> bytes" where
  "chunk_1 cid d len t piece = ((word_of_nat cid OR push_bit 6 1) # set_be24 d @ set_be24 len @ [t]) @ piece"

lemma chunk_1_header:
  assumes "2 \<le> cid" "cid \<le> 63" "unat d < 2 ^ 24" "unat len < 2 ^ 24" "fst (chunked_data_map c cid) = Some p"
  shows "split_step h (chunk_1 cid d len t piece @ rest) (c, x) = chunk_body h cid 8 (chunk_1 cid d len t piece @ rest)
    (p\<lparr>pkt_chunk_stream_id := Some (word_of_nat cid), ts_delta := Some d, msg_length := Some len, msg_type_id := Some t\<rparr>)
    (c\<lparr>chunk_stream_id := cid\<rparr>, x)"
proof -
  let ?h = "word_of_nat cid OR push_bit 6 1 :: u8"
  let ?d = "chunk_1 cid d len t piece @ rest"
  have open_p: "open_packet (chunked_data_map c cid) = p"
    using assms(5) by (cases "chunked_data_map c cid") simp
  have d: "?d = [?h] @ set_be24 d @ (set_be24 len @ [t] @ piece @ rest)"
    "?d = ([?h] @ set_be24 d) @ set_be24 len @ ([t] @ piece @ rest)"
    "?d = ([?h] @ set_be24 d @ set_be24 len) @ t # piece @ rest"
    by (simp_all add: chunk_1_def)
  have "load_be24 (drop 1 ?d) = d"
    by (subst d(1), rule be24.dec_enc_at) (use assms(3) in simp_all)
  moreover have "load_be24 (drop 4 ?d) = len"
    by (subst d(2), rule be24.dec_enc_at) (use assms(4) in simp_all)
  moreover have "?d ! 7 = t"
    by (simp add: d(3) nth_append)
  moreover have "8 \<le> length ?d"
    by (simp add: chunk_1_def)
  ultimately show ?thesis
    using header_format [OF assms(1,2), of 1] open_p
    by (simp add: split_step_def Let_def read_header_def kHeaderLength_def chunk_1_def del: push_bit_numeral)
qed

text \<open>C30: a chunk of format 1 in the middle of a message may state a length that is smaller than what has already
  been collected. The rest is then computed below zero in \<open>size_t\<close>: this chunk and any number of chunks of format
  3 behind it are taken at full chunk size, the handler is never called, and the message stays open with
  all their bytes in its buffer. (Only a chunk of format 0 or 1 that states another length ends this; with a chunk
  size of 0 the chunks carry nothing and the buffer does not grow.)\<close>

theorem shrunken_length_never_completes:
  fixes t :: u8
  assumes "2 \<le> cid" "cid \<le> 63" "fst (chunked_data_map c cid) = Some p" "pkt_ok p" "unat len < length (payload p)"
    and "unat d < 2 ^ 24" "d \<noteq> 0xFFFFFF" "unat len < 2 ^ 24" "windows_size c = 0" "chunk_size_in c < 2 ^ 63"
    and "\<forall>piece \<in> set (first # pieces). length piece = chunk_size_in c"
    and "length (payload p @ concat (first # pieces)) < 2 ^ 63"
  defines "sent_bytes \<equiv> chunk_1 cid d len t first @ chunks_3 cid pieces"
  shows "\<exists>c' p'. split_rtmp h sent_bytes (c, x) = (Inr (length sent_bytes), (c', x)) \<and> fst (chunked_data_map c' cid) = Some p'
    \<and> msg_length p' = Some len \<and> payload p' = payload p @ concat (first # pieces)"
proof -
  let ?p = "p\<lparr>pkt_chunk_stream_id := Some (word_of_nat cid), ts_delta := Some d, msg_length := Some len, msg_type_id := Some t\<rparr>"
  let ?pre = "(word_of_nat cid OR push_bit 6 1) # set_be24 d @ set_be24 len @ [t]"
  have pre: "chunk_1 cid d len t first @ rest = ?pre @ first @ rest" "length ?pre = 8" for rest
    by (simp_all add: chunk_1_def)
  have p: "pkt_ok ?p" "payload ?p = payload p"
    using assms(4) by (simp_all add: pkt_ok_def payload_def)
  note step = chunk_1_header [where h = h and t = t and piece = first and x = x, OF assms(1,2,6,8,3), of "chunks_3 cid pieces"]
  obtain c1 where c1: "overfull cid len (payload p @ first) c1" "chunk_size_in c1 = chunk_size_in c"
    "split_rtmp h (?pre @ first @ chunks_3 cid pieces) (c, x) = (case split_rtmp h (chunks_3 cid pieces) (c1, x) of
        (Inl e, s) \<Rightarrow> (Inl e, s) | (Inr k, s) \<Rightarrow> (Inr (length (?pre @ first) + k), s))"
    using overfull_chunk [of h ?pre first "chunks_3 cid pieces" c x cid ?p d len] step assms(5,7,9-12) p pre by auto
  obtain c2 where "split_rtmp h (chunks_3 cid pieces) (c1, x) = (Inr (length (chunks_3 cid pieces)), (c2, x))"
      and c2: "overfull cid len ((payload p @ first) @ concat pieces) c2"
    using overfull_chunks [OF assms(1,2) c1(1), of pieces h x] assms(11,12) c1(2) by auto
  with c1(3) have "split_rtmp h sent_bytes (c, x) = (Inr (length sent_bytes), (c2, x))"
    by (simp add: sent_bytes_def chunk_1_def)
  with c2 show ?thesis
    by (auto simp: overfull_def)
qed

theorem shrunken_length_never_completes_witness:
  "let p = create_packet\<lparr>pkt_buf := buf_write [7, 7, 7] (create 8)\<rparr>;
       c = (idle_connection 2)\<lparr>chunked_data_map := (\<lambda>_. (Some p, None))\<rparr>;
       sent_bytes = chunk_1 4 0 1 MSG_VIDEO [5, 6] @ chunks_3 4 [[8, 9], [8, 9]]
   in \<exists>c' p'. split_rtmp note_message sent_bytes (c, []) = (Inr (length sent_bytes), (c', []))
     \<and> fst (chunked_data_map c' 4) = Some p' \<and> payload p' = [7, 7, 7, 5, 6, 8, 9, 8, 9]"
proof -
  let ?p = "create_packet\<lparr>pkt_buf := buf_write [7, 7, 7] (create 8)\<rparr>"
  let ?c = "(idle_connection 2)\<lparr>chunked_data_map := (\<lambda>_. (Some ?p, None))\<rparr>"
  have "pkt_ok ?p" "payload ?p = [7, 7, 7]"
    by (simp_all add: pkt_ok_def payload_def)
  then show ?thesis
    using shrunken_length_never_completes [where cid = 4 and c = ?c and p = ?p and len = 1 and d = 0 and first = "[5, 6]"
        and pieces = "[[8, 9], [8, 9]]" and t = MSG_VIDEO and h = note_message and x = "[]"]
    by (fastforce simp: idle_connection_def)
qed

end
