(* ===== verification/Amf.thy ===== *)
theory Amf
  imports Flat_Buffer "HOL-Library.Char_ord" "HOL-Library.List_Lexorder"
begin

text \<open>
  \<open>include/protocol/rtmp/amf.h\<close> and \<open>src/protocol/rtmp/amf.cpp\<close>: the AMF0 values of
  the RTMP commands, their decoder over a \<open>flat_buffer\<close> and their encoder into a
  \<open>std::string\<close>. A \<open>double\<close> is its 64 bits (the code only copies it and converts it
  to and from \<open>int\<close>). A \<open>std::map\<close> is its list of pairs in iteration order, that is
  sorted by key; a \<open>std::unordered_map\<close> is a list of pairs in some iteration order.

  The interface of one encoded field is the locale \<open>amf_field\<close>.
\<close>

section \<open>Doubles\<close>

type_synonym double = u64

definition double_is_zero :: "double \<Rightarrow> bool" where
  "double_is_zero d \<longleftrightarrow> take_bit 63 d = 0"

text \<open>
  \<open>static_cast<int>(d)\<close>: truncation towards zero; a value outside \<open>int\<close> is
  undefined behaviour.
\<close>

definition double_trunc :: "double \<Rightarrow> int option" where
  "double_trunc d =
     (let e = unat (take_bit 11 (drop_bit 52 d));
          m = int (unat (take_bit 52 d));
          n = (if e = 0 then 0
               else if e \<ge> 1075 then (2 ^ 52 + m) * 2 ^ (e - 1075)
               else (2 ^ 52 + m) div 2 ^ (1075 - e))
      in if e = 2047 then None else Some (if bit d 63 then - n else n))"

definition double_to_int :: "double \<Rightarrow> int res" where
  "double_to_int d = (case double_trunc d of
     Some n \<Rightarrow> if - (2 ^ 31) \<le> n \<and> n < 2 ^ 31 then Inr n
               else Inl (Undefined ''conversion of a double that int cannot hold'')
   | None \<Rightarrow> Inl (Undefined ''conversion of a double that int cannot hold''))"

text \<open>\<open>(double)n\<close>: every \<open>int\<close> is a double; \<open>log2_of\<close> finds its exponent.\<close>

definition int_to_double :: "int \<Rightarrow> double" where
  "int_to_double n =
     (if n = 0 then 0
      else let a = nat \<bar>n\<bar>; k = log2_of a
        in word_of_nat ((if n < 0 then 2 ^ 63 else 0) + (1023 + k) * 2 ^ 52
             + (a * 2 ^ (52 - k) - 2 ^ 52)))"

section \<open>Values\<close>

datatype AMF0Type = AMF_NUMBER | AMF_BOOLEAN | AMF_STRING | AMF_OBJECT | AMF_NULL
  | AMF_ECMA_ARRAY | AMF_OBJECT_END | AMF_STRICT_ARRAY | AMF_SWITCH_3

fun amf0_code :: "AMF0Type \<Rightarrow> u8" where
  "amf0_code AMF_NUMBER = 0x00"
| "amf0_code AMF_BOOLEAN = 0x01"
| "amf0_code AMF_STRING = 0x02"
| "amf0_code AMF_OBJECT = 0x03"
| "amf0_code AMF_NULL = 0x05"
| "amf0_code AMF_ECMA_ARRAY = 0x08"
| "amf0_code AMF_OBJECT_END = 0x09"
| "amf0_code AMF_STRICT_ARRAY = 0x0a"
| "amf0_code AMF_SWITCH_3 = 0x11"

definition amf_type_is :: "AMF0Type \<Rightarrow> int \<Rightarrow> bool" where
  "amf_type_is amf_type v \<longleftrightarrow> uint (amf0_code amf_type) = v"

datatype amf_value = AMFValue (amf_type: AMF0Type) (amf_variant: amf_variant)
and amf_variant =
    VDouble double
  | VBool bool
  | VString string
  | VMap "(string \<times> amf_value) list"
  | VArray "amf_value list"

text \<open>The constructors of the class; a \<open>const char *\<close> is a string without a NUL.\<close>

definition amf_of_type :: "AMF0Type \<Rightarrow> amf_value" where
  "amf_of_type t = AMFValue t (if t = AMF_OBJECT then VMap []
     else if t = AMF_ECMA_ARRAY then VArray [] else VDouble 0)"

definition amf_of_cstr :: "string \<Rightarrow> amf_value" where
  "amf_of_cstr s = AMFValue AMF_STRING (VString s)"

definition amf_of_string :: "string \<Rightarrow> amf_value" where
  "amf_of_string s = amf_of_cstr (c_str s)"

definition amf_of_double :: "double \<Rightarrow> amf_value" where
  "amf_of_double n = AMFValue AMF_NUMBER (VDouble n)"

definition amf_of_bool :: "bool \<Rightarrow> amf_value" where
  "amf_of_bool b = AMFValue AMF_BOOLEAN (VBool b)"

text \<open>
  \<open>std::get_if\<close> for another alternative than the one held is a null pointer, which the
  code reads through.
\<close>

definition null_read :: exn where
  "null_read = Undefined ''read through a null pointer''"

definition as_string :: "amf_value \<Rightarrow> string res" where
  "as_string v = (if amf_type v \<noteq> AMF_STRING then Inl (Runtime_error ''AMF not a string'')
     else case amf_variant v of VString s \<Rightarrow> Inr s | _ \<Rightarrow> Inl null_read)"

definition as_number :: "amf_value \<Rightarrow> double res" where
  "as_number v = (if amf_type v \<noteq> AMF_NUMBER then Inl (Runtime_error ''AMF not a number'')
     else case amf_variant v of VDouble d \<Rightarrow> Inr d | _ \<Rightarrow> Inl null_read)"

definition as_integer :: "amf_value \<Rightarrow> int res" where
  "as_integer v = res_bind (as_number v) double_to_int"

definition as_boolean :: "amf_value \<Rightarrow> bool res" where
  "as_boolean v = (if amf_type v \<noteq> AMF_BOOLEAN then Inl (Runtime_error ''AMF not a bool'')
     else case amf_variant v of VDouble d \<Rightarrow> Inr (\<not> double_is_zero d) | _ \<Rightarrow> Inl null_read)"

definition amf_truthy :: "amf_value \<Rightarrow> bool" where
  "amf_truthy v = (amf_type v \<noteq> AMF_NULL)"

definition get_map :: "amf_value \<Rightarrow> (string \<times> amf_value) list res" where
  "get_map v = (if amf_type v \<noteq> AMF_OBJECT
     then Inl (Runtime_error ''AMF is not an object, so it cannot be set by a key'')
     else case amf_variant v of VMap m \<Rightarrow> Inr m | _ \<Rightarrow> Inl null_read)"

definition amf_index :: "amf_value \<Rightarrow> string \<Rightarrow> amf_value res" where
  "amf_index v key = (if amf_type v \<noteq> AMF_OBJECT
     then Inl (Runtime_error ''AMF is not an object, so it cannot be indexed by a key'')
     else case amf_variant v of
       VMap m \<Rightarrow> Inr (case map_of m key of None \<Rightarrow> amf_of_type AMF_NULL | Some x \<Rightarrow> x)
     | _ \<Rightarrow> Inl null_read)"

fun map_emplace :: "string \<Rightarrow> 'v \<Rightarrow> (string \<times> 'v) list \<Rightarrow> (string \<times> 'v) list" where
  "map_emplace k v [] = [(k, v)]"
| "map_emplace k v ((k', v') # m) =
     (if k = k' then (k', v') # m
      else if k < k' then (k, v) # (k', v') # m
      else (k', v') # map_emplace k v m)"

definition amf_set :: "string \<Rightarrow> amf_value \<Rightarrow> amf_value \<Rightarrow> amf_value res" where
  "amf_set key x v = (if amf_type v \<noteq> AMF_OBJECT
     then Inl (Runtime_error ''AMF is not an object, so it cannot be set by a key'')
     else case amf_variant v of
       VMap m \<Rightarrow> Inr (AMFValue AMF_OBJECT (VMap (map_emplace key x m)))
     | _ \<Rightarrow> Inl null_read)"

section \<open>Decoder\<close>

record decoder =
  dec_version :: nat
  dec_buf :: flat_buffer

definition peek_front :: "decoder \<Rightarrow> u8 res" where
  "peek_front d = peek_uint8 (dec_buf d)"

definition pop_front :: "decoder \<Rightarrow> (u8 \<times> decoder) res" where
  "pop_front d = res_bind (read_uint8 (dec_buf d)) (\<lambda>(x, b).
     Inr (x, d\<lparr>dec_buf := b, dec_version :=
       (if dec_version d = 0 \<and> amf0_code AMF_SWITCH_3 = x then 3 else dec_version d)\<rparr>))"

definition read_u16 :: "decoder \<Rightarrow> (u16 \<times> decoder) res" where
  "read_u16 d = res_bind (read_uint16 (dec_buf d)) (\<lambda>(x, b). Inr (x, d\<lparr>dec_buf := b\<rparr>))"

definition read_u64 :: "decoder \<Rightarrow> (u64 \<times> decoder) res" where
  "read_u64 d = res_bind (read_uint64 (dec_buf d)) (\<lambda>(x, b). Inr (x, d\<lparr>dec_buf := b\<rparr>))"

definition read_str :: "nat \<Rightarrow> decoder \<Rightarrow> (string \<times> decoder) res" where
  "read_str n d = res_bind (to_string n (dec_buf d)) (\<lambda>(x, b). Inr (x, d\<lparr>dec_buf := b\<rparr>))"

text \<open>The loop of \<open>load<unsigned int>\<close>, from its variable \<open>i\<close> on.\<close>

function load_uint_from :: "nat \<Rightarrow> u32 \<Rightarrow> decoder \<Rightarrow> (u32 \<times> decoder) res" where
  "load_uint_from i v d =
     (if i < 4 then
        res_bind (pop_front d) (\<lambda>(b, d1).
          if i = 3 then Inr (push_bit 8 v OR ucast b, d1)
          else let v1 = push_bit 7 v OR ucast (b AND 0x7f) in
            if b AND 0x80 = 0 then Inr (v1, d1) else load_uint_from (i + 1) v1 d1)
      else Inr (v, d))"
  by pat_completeness auto
termination
  by (relation "measure (\<lambda>(i, v, d). 4 - i)") auto

declare load_uint_from.simps [simp del]

definition load_uint :: "decoder \<Rightarrow> (u32 \<times> decoder) res" where
  "load_uint d = load_uint_from 0 0 d"

definition load_string :: "decoder \<Rightarrow> (string \<times> decoder) res" where
  "load_string d = res_bind (pop_front d) (\<lambda>(t, d1).
     if amf0_code AMF_STRING \<noteq> t then Inl (Runtime_error ''Expected a string'')
     else res_bind (read_u16 d1) (\<lambda>(len, d2). read_str (unat len) d2))"

definition load_double :: "decoder \<Rightarrow> (double \<times> decoder) res" where
  "load_double d = res_bind (pop_front d) (\<lambda>(t, d1).
     if amf0_code AMF_NUMBER \<noteq> t then Inl (Runtime_error ''Expected a number'')
     else read_u64 d1)"

definition load_bool :: "decoder \<Rightarrow> (bool \<times> decoder) res" where
  "load_bool d = res_bind (pop_front d) (\<lambda>(t, d1).
     if amf0_code AMF_BOOLEAN \<noteq> t then Inl (Runtime_error ''Expected a bool'')
     else res_bind (pop_front d1) (\<lambda>(x, d2). Inr (x \<noteq> 0, d2)))"

definition load_key :: "decoder \<Rightarrow> (string \<times> decoder) res" where
  "load_key d = res_bind (read_u16 d) (\<lambda>(len, d1). read_str (unat len) d1)"

text \<open>What a load leaves unread, whether or not the buffer is well formed.\<close>

definition d_len :: "decoder \<Rightarrow> nat" where
  "d_len d = unread_length (dec_buf d)"

lemma consume_length: "consume_or_fail n b = Inr b' \<Longrightarrow> unread_length b' = unread_length b - n \<and> n \<le> unread_length b"
  by (auto simp: consume_or_fail_def unread_length_def split: if_splits)

lemma pop_front_length: "pop_front d = Inr (x, d') \<Longrightarrow> d_len d' + 1 = d_len d"
  by (auto simp: pop_front_def read_uint8_def d_len_def res_bind_eq_Inr dest!: consume_length)

lemma read_u16_length: "read_u16 d = Inr (x, d') \<Longrightarrow> d_len d' + 2 = d_len d"
  by (auto simp: read_u16_def read_uint16_def d_len_def res_bind_eq_Inr dest!: consume_length)

lemma read_str_length: "read_str n d = Inr (s, d') \<Longrightarrow> d_len d' + n = d_len d"
  by (auto simp: read_str_def to_string_def d_len_def res_bind_eq_Inr dest!: consume_length
      split: if_splits)

lemma load_key_length: "load_key d = Inr (k, d') \<Longrightarrow> d_len d' + 2 \<le> d_len d"
  by (auto simp: load_key_def res_bind_eq_Inr dest!: read_u16_length read_str_length)

lemma load_string_length: "load_string d = Inr (s, d') \<Longrightarrow> d_len d' + 3 \<le> d_len d"
  by (auto simp: load_string_def res_bind_eq_Inr dest!: pop_front_length read_u16_length read_str_length
      split: if_splits)

function load_pairs :: "amf_value \<Rightarrow> decoder \<Rightarrow> (amf_value \<times> decoder) res" where
  "load_pairs object d =
     res_bind (load_key d) (\<lambda>(key, d1).
       if key = [] then Inr (object, d1)
       else res_bind (load_string d1) (\<lambda>(value, d2).
            res_bind (amf_set key (amf_of_string value) object) (\<lambda>object.
            load_pairs object d2)))"
  by pat_completeness auto
termination
  by (relation "measure (\<lambda>(v, d). d_len d)") (auto dest!: load_key_length load_string_length)

declare load_pairs.simps [simp del]

definition load_object :: "decoder \<Rightarrow> (amf_value \<times> decoder) res" where
  "load_object d = res_bind (pop_front d) (\<lambda>(t, d1).
     if amf0_code AMF_OBJECT \<noteq> t then Inl (Runtime_error ''expect an object'')
     else res_bind (load_pairs (amf_of_type AMF_OBJECT) d1) (\<lambda>(object, d2).
       res_bind (pop_front d2) (\<lambda>(t2, d3).
         if amf0_code AMF_OBJECT_END \<noteq> t2 then Inl (Runtime_error ''expect an object end'')
         else Inr (object, d3))))"

section \<open>Encoder\<close>

text \<open>The encoder is its buffer; each \<open>operator<<\<close> appends to it.\<close>

definition encoder_size :: "bytes \<Rightarrow> nat" where
  "encoder_size buf = length buf"

definition encoder_clear :: "bytes \<Rightarrow> bytes" where
  "encoder_clear buf = []"

definition write_key :: "string \<Rightarrow> bytes \<Rightarrow> bytes" where
  "write_key s buf = buf @ htons (word_of_nat (length s)) @ bytes_of_str s"

definition put_cstr :: "string \<Rightarrow> bytes \<Rightarrow> bytes" where
  "put_cstr s buf = buf @ [amf0_code AMF_STRING] @ htons (word_of_nat (length s)) @ bytes_of_str s"

definition put_string :: "string \<Rightarrow> bytes \<Rightarrow> bytes" where
  "put_string s buf = put_cstr (c_str s) buf"

definition put_null :: "bytes \<Rightarrow> bytes" where
  "put_null buf = buf @ [amf0_code AMF_NULL]"

definition put_double :: "double \<Rightarrow> bytes \<Rightarrow> bytes" where
  "put_double num buf = buf @ [amf0_code AMF_NUMBER]
     @ htonl (ucast (drop_bit 32 num)) @ htonl (ucast (num AND 0xFFFFFFFF))"

definition put_int :: "int \<Rightarrow> bytes \<Rightarrow> bytes" where
  "put_int n buf = put_double (int_to_double n) buf"

definition put_bool :: "bool \<Rightarrow> bytes \<Rightarrow> bytes" where
  "put_bool b buf = buf @ [amf0_code AMF_BOOLEAN, if b then 1 else 0]"

fun put_value :: "amf_value \<Rightarrow> bytes \<Rightarrow> bytes res"
  and put_pairs :: "(string \<times> amf_value) list \<Rightarrow> bytes \<Rightarrow> bytes res" where
  "put_value (AMFValue t x) buf =
     (case t of
        AMF_STRING \<Rightarrow> res_bind (as_string (AMFValue t x)) (\<lambda>s. Inr (put_string s buf))
      | AMF_NUMBER \<Rightarrow> res_bind (as_number (AMFValue t x)) (\<lambda>n. Inr (put_double n buf))
      | AMF_OBJECT \<Rightarrow>
          (case x of
             VMap m \<Rightarrow>
               res_bind (put_pairs m (buf @ [amf0_code AMF_OBJECT])) (\<lambda>buf.
               Inr (write_key [] buf @ [amf0_code AMF_OBJECT_END]))
           | _ \<Rightarrow> Inl null_read)
      | _ \<Rightarrow> Inr buf)"
| "put_pairs [] buf = Inr buf"
| "put_pairs ((k, v) # m) buf =
     res_bind (put_value v (write_key k buf)) (\<lambda>buf. put_pairs m buf)"

text \<open>
  The metadata, a map from strings to \<open>std::any\<close>. The code compares
  \<open>type().name()\<close>, a pointer to the compiler's name of the type, with a string literal.
  \<open>type_name\<close> is that name as the build's compiler (GCC) gives it; two pointers that are
  equal point to equal strings, so the test is at most the equality of the strings, and for
  the literals of the code it is false either way.
\<close>

datatype any_value = AnyEmpty | AnyDouble double | AnyBool bool | AnyString string

type_synonym metadata = "(string \<times> any_value) list"

fun type_name :: "any_value \<Rightarrow> string" where
  "type_name AnyEmpty = ''v''"
| "type_name (AnyDouble _) = ''d''"
| "type_name (AnyBool _) = ''b''"
| "type_name (AnyString _) = ''NSt7__cxx1112basic_stringIcSt11char_traitsIcESaIcEEE''"

fun put_metadata_pairs :: "metadata \<Rightarrow> bytes \<Rightarrow> bytes res" where
  "put_metadata_pairs [] buf = Inr buf"
| "put_metadata_pairs ((k, x) # m) buf =
     (let buf1 = write_key k buf in
      res_bind
        (if type_name x = ''double'' then
           (case x of AnyDouble d \<Rightarrow> Inr (put_double d buf1) | _ \<Rightarrow> Inl Bad_any_cast)
         else if type_name x = ''bool'' then
           (case x of AnyBool b \<Rightarrow> Inr (put_bool b buf1) | _ \<Rightarrow> Inl Bad_any_cast)
         else Inr buf1)
        (put_metadata_pairs m))"

definition put_metadata :: "metadata \<Rightarrow> bytes \<Rightarrow> bytes res" where
  "put_metadata m buf =
     res_bind (put_metadata_pairs m (buf @ [amf0_code AMF_OBJECT])) (\<lambda>buf.
     Inr (write_key [] buf @ [amf0_code AMF_OBJECT_END]))"

section \<open>Reading what was written\<close>

definition d_ok :: "decoder \<Rightarrow> bool" where
  "d_ok d \<longleftrightarrow> fb_ok (dec_buf d)"

definition d_unread :: "decoder \<Rightarrow> bytes" where
  "d_unread d = unread (dec_buf d)"

text \<open>A step of a decoder takes a prefix of what is unread.\<close>

definition d_takes :: "decoder \<Rightarrow> bytes \<Rightarrow> decoder \<Rightarrow> bool" where
  "d_takes d p d' \<longleftrightarrow> takes (dec_buf d) p (dec_buf d')"

lemma d_takes_iff: "d_takes d p d' \<Longrightarrow> d_ok d' \<and> d_unread d = p @ d_unread d'"
  by (simp add: d_takes_def d_ok_def d_unread_def takes_def)

lemma d_takes_trans: "d_takes d p d1 \<Longrightarrow> d_takes d1 q d2 \<Longrightarrow> d_takes d (p @ q) d2"
  by (auto simp: d_takes_def intro: takes_trans)

lemma pop_front_Inr: "d_ok d \<Longrightarrow> pop_front d = Inr (x, d') \<Longrightarrow> d_takes d [x] d'"
  by (auto simp: pop_front_def res_bind_eq_Inr d_takes_def d_ok_def intro: read_uint8_Inr)

lemma read_u16_Inr: "d_ok d \<Longrightarrow> read_u16 d = Inr (x, d') \<Longrightarrow> d_takes d (htons x) d'"
  by (auto simp: read_u16_def res_bind_eq_Inr d_takes_def d_ok_def intro: read_uint16_Inr)

lemma read_u64_Inr: "d_ok d \<Longrightarrow> read_u64 d = Inr (x, d') \<Longrightarrow> d_takes d (set_be64 x) d'"
  by (auto simp: read_u64_def res_bind_eq_Inr d_takes_def d_ok_def intro: read_uint64_Inr)

lemma read_str_Inr:
  "d_ok d \<Longrightarrow> read_str n d = Inr (s, d') \<Longrightarrow> d_takes d (bytes_of_str s) d' \<and> length s = n"
  by (auto simp: read_str_def res_bind_eq_Inr d_takes_def d_ok_def dest: to_string_Inr)

lemma pop_front_eq:
  assumes "d_ok d" "d_unread d = x # r"
  shows "\<exists>d'. pop_front d = Inr (x, d') \<and> d_ok d' \<and> d_unread d' = r"
proof -
  obtain d' where d': "pop_front d = Inr (x, d')"
    using assms read_uint8_eq [of "dec_buf d" x r] by (auto simp: pop_front_def d_ok_def d_unread_def)
  with pop_front_Inr [OF assms(1) d'] assms(2) show ?thesis
    by (auto dest: d_takes_iff)
qed

lemma read_u16_eq:
  assumes "d_ok d" "d_unread d = htons x @ r"
  shows "\<exists>d'. read_u16 d = Inr (x, d') \<and> d_ok d' \<and> d_unread d' = r"
proof -
  obtain d' where d': "read_u16 d = Inr (x, d')"
    using assms read_uint16_eq [of "dec_buf d" x r] by (auto simp: read_u16_def d_ok_def d_unread_def)
  with read_u16_Inr [OF assms(1) d'] assms(2) show ?thesis
    by (auto dest: d_takes_iff)
qed

lemma read_u64_eq:
  assumes "d_ok d" "d_unread d = set_be64 x @ r"
  shows "\<exists>d'. read_u64 d = Inr (x, d') \<and> d_ok d' \<and> d_unread d' = r"
proof -
  obtain d' where d': "read_u64 d = Inr (x, d')"
    using assms read_uint64_eq [of "dec_buf d" x r] by (auto simp: read_u64_def d_ok_def d_unread_def)
  with read_u64_Inr [OF assms(1) d'] assms(2) show ?thesis
    by (auto dest: d_takes_iff)
qed

lemma read_str_eq:
  assumes "d_ok d" "d_unread d = bytes_of_str s @ r" "length s = n"
  shows "\<exists>d'. read_str n d = Inr (s, d') \<and> d_ok d' \<and> d_unread d' = r"
proof -
  obtain d' where d': "read_str n d = Inr (s, d')"
    using assms to_string_eq [of "dec_buf d" s r n] by (auto simp: read_str_def d_ok_def d_unread_def)
  with read_str_Inr [OF assms(1) d'] assms(2) show ?thesis
    by (auto dest: d_takes_iff)
qed

section \<open>The interface of an encoded field\<close>

text \<open>
  \<open>load\<close> reads back what \<open>enc\<close> wrote in front of anything, for the values that
  \<open>fits\<close> the format. In an exact format whatever \<open>load\<close> accepts is moreover the
  encoding of the value it returns, so nothing else is read for it.
\<close>

locale amf_field =
  fixes enc :: "'v \<Rightarrow> bytes"
    and load :: "decoder \<Rightarrow> ('v \<times> decoder) res"
    and fits :: "'v \<Rightarrow> bool"
  assumes load_enc: "fits v \<Longrightarrow> d_ok d \<Longrightarrow> d_unread d = enc v @ r \<Longrightarrow>
    \<exists>d'. load d = Inr (v, d') \<and> d_ok d' \<and> d_unread d' = r"
begin

lemma load_then:
  assumes "fits v" "d_ok d" "d_unread d = enc v @ r"
    and "\<And>d'. d_ok d' \<Longrightarrow> d_unread d' = r \<Longrightarrow> \<exists>y. f (v, d') = Inr y \<and> P y"
  shows "\<exists>y. res_bind (load d) f = Inr y \<and> P y"
  using load_enc [OF assms(1-3)] assms(4) by auto

lemma load_two:
  assumes "fits v" "fits w" "d_ok d" "d_unread d = enc v @ enc w @ r"
  shows "\<exists>d'. res_bind (load d) (\<lambda>(x, d1). res_bind (load d1) (\<lambda>(y, d2). Inr ((x, y), d2)))
      = Inr ((v, w), d') \<and> d_unread d' = r"
proof -
  obtain d1 where "load d = Inr (v, d1)" "d_ok d1" "d_unread d1 = enc w @ r"
    using load_enc [OF assms(1,3,4)] by auto
  moreover obtain d2 where "load d1 = Inr (w, d2)" "d_unread d2 = r"
    using load_enc [OF assms(2) calculation(2,3)] by auto
  ultimately show ?thesis by simp
qed

lemma enc_prefix_free:
  assumes "fits v" "fits w" "enc v @ r = enc w @ s"
  shows "v = w \<and> r = s"
proof -
  define d where "d = \<lparr>dec_version = 0, dec_buf = buf_write (enc v @ r) (create 0)\<rparr>"
  have "d_ok d" "d_unread d = enc v @ r" "d_unread d = enc w @ s"
    using assms(3) by (simp_all add: d_def d_ok_def d_unread_def)
  obtain d1 where "load d = Inr (v, d1)" "d_unread d1 = r"
    using load_enc [OF assms(1) \<open>d_ok d\<close> \<open>d_unread d = enc v @ r\<close>] by blast
  moreover obtain d2 where "load d = Inr (w, d2)" "d_unread d2 = s"
    using load_enc [OF assms(2) \<open>d_ok d\<close> \<open>d_unread d = enc w @ s\<close>] by blast
  ultimately show ?thesis
    by simp
qed

end

locale amf_field_exact = amf_field +
  assumes load_Inr: "d_ok d \<Longrightarrow> load d = Inr (v, d') \<Longrightarrow> fits v \<and> d_takes d (enc v) d'"
begin

lemma load_reencodes: "d_ok d \<Longrightarrow> load d = Inr (v, d') \<Longrightarrow> d_unread d = enc v @ d_unread d'"
  using load_Inr by (blast dest: d_takes_iff)

end

definition fits_u16 :: "string \<Rightarrow> bool" where
  "fits_u16 s \<longleftrightarrow> length s < 2 ^ 16"

lemma unat_word_of_len: "fits_u16 s \<Longrightarrow> unat (word_of_nat (length s) :: u16) = length s"
  by (simp add: fits_u16_def unat_of_nat)

lemma fits_u16_unat: "length s = unat (len :: u16) \<Longrightarrow> fits_u16 s \<and> word_of_nat (length s) = len"
  using unat_u16_less [of len] by (simp add: fits_u16_def)

interpretation amf_key: amf_field_exact "\<lambda>s. write_key s []" load_key fits_u16
proof unfold_locales
  fix s d r
  assume a: "fits_u16 s" "d_ok d" "d_unread d = write_key s [] @ r"
  then obtain d1 where d1: "read_u16 d = Inr (word_of_nat (length s), d1)" "d_ok d1"
      "d_unread d1 = bytes_of_str s @ r"
    using read_u16_eq [of d "word_of_nat (length s)"] by (auto simp: write_key_def)
  with read_str_eq [OF d1(2,3) refl] a(1)
  show "\<exists>d'. load_key d = Inr (s, d') \<and> d_ok d' \<and> d_unread d' = r"
    by (simp add: load_key_def unat_word_of_len)
next
  fix s d d'
  assume a: "d_ok d" "load_key d = Inr (s, d')"
  then obtain len d1 where d1: "read_u16 d = Inr (len, d1)" "read_str (unat len) d1 = Inr (s, d')"
    by (auto simp: load_key_def res_bind_eq_Inr)
  note t = read_u16_Inr [OF a(1) d1(1)]
  have "d_takes d1 (bytes_of_str s) d' \<and> length s = unat len"
    using read_str_Inr [OF _ d1(2)] d_takes_iff [OF t] by blast
  with t show "fits_u16 s \<and> d_takes d (write_key s []) d'"
    using fits_u16_unat [of s len] by (auto simp: write_key_def intro: d_takes_trans)
qed

interpretation amf_str: amf_field_exact "\<lambda>s. put_cstr s []" load_string fits_u16
proof unfold_locales
  fix s d r
  assume a: "fits_u16 s" "d_ok d" "d_unread d = put_cstr s [] @ r"
  then obtain d1 where d1: "pop_front d = Inr (amf0_code AMF_STRING, d1)" "d_ok d1"
      "d_unread d1 = write_key s [] @ r"
    using pop_front_eq [of d "amf0_code AMF_STRING"]
    by (auto simp: put_cstr_def write_key_def)
  with amf_key.load_enc [OF a(1) d1(2,3)]
  show "\<exists>d'. load_string d = Inr (s, d') \<and> d_ok d' \<and> d_unread d' = r"
    by (auto simp: load_string_def load_key_def)
next
  fix s d d'
  assume a: "d_ok d" "load_string d = Inr (s, d')"
  then obtain d1 where d1: "pop_front d = Inr (amf0_code AMF_STRING, d1)" "load_key d1 = Inr (s, d')"
    by (auto simp: load_string_def load_key_def res_bind_eq_Inr split: if_splits)
  note t = pop_front_Inr [OF a(1) d1(1)]
  have "fits_u16 s \<and> d_takes d1 (write_key s []) d'"
    using amf_key.load_Inr [OF _ d1(2)] d_takes_iff [OF t] by blast
  with t show "fits_u16 s \<and> d_takes d (put_cstr s []) d'"
    using d_takes_trans [OF t] by (auto simp: write_key_def put_cstr_def)
qed

lemma mask32: "(0xFFFFFFFF :: u64) = mask 32"
  by (simp add: mask_eq_exp_minus_1)

lemma put_double_eq: "put_double x buf = buf @ amf0_code AMF_NUMBER # set_be64 x"
proof -
  have "ucast (x AND 0xFFFFFFFF) = (ucast x :: u32)"
    by (simp add: mask32, rule bit_word_eqI, auto simp: bit_simps)
  then show ?thesis
    by (simp add: put_double_def set_be64_def htonl_def)
qed

interpretation amf_num: amf_field_exact "\<lambda>x. put_double x []" load_double "\<lambda>_. True"
proof unfold_locales
  fix x d r
  assume a: "d_ok d" "d_unread d = put_double x [] @ r"
  then obtain d1 where d1: "pop_front d = Inr (amf0_code AMF_NUMBER, d1)" "d_ok d1"
      "d_unread d1 = set_be64 x @ r"
    using pop_front_eq [of d "amf0_code AMF_NUMBER"] by (auto simp: put_double_eq)
  with read_u64_eq [OF d1(2,3)]
  show "\<exists>d'. load_double d = Inr (x, d') \<and> d_ok d' \<and> d_unread d' = r"
    by (simp add: load_double_def)
next
  fix x d d'
  assume a: "d_ok d" "load_double d = Inr (x, d')"
  then obtain d1 where d1: "pop_front d = Inr (amf0_code AMF_NUMBER, d1)" "read_u64 d1 = Inr (x, d')"
    by (auto simp: load_double_def res_bind_eq_Inr split: if_splits)
  note t = pop_front_Inr [OF a(1) d1(1)]
  have "d_takes d1 (set_be64 x) d'"
    using read_u64_Inr [OF _ d1(2)] d_takes_iff [OF t] by blast
  with t show "True \<and> d_takes d (put_double x []) d'"
    using d_takes_trans [OF t] by (auto simp: put_double_eq)
qed

interpretation amf_bool: amf_field "\<lambda>x. put_bool x []" load_bool "\<lambda>_. True"
proof unfold_locales
  fix x d r
  assume a: "d_ok d" "d_unread d = put_bool x [] @ r"
  then obtain d1 where d1: "pop_front d = Inr (amf0_code AMF_BOOLEAN, d1)" "d_ok d1"
      "d_unread d1 = (if x then 1 else 0) # r"
    using pop_front_eq [of d "amf0_code AMF_BOOLEAN"] by (auto simp: put_bool_def)
  with pop_front_eq [OF d1(2,3)]
  show "\<exists>d'. load_bool d = Inr (x, d') \<and> d_ok d' \<and> d_unread d' = r"
    by (auto simp: load_bool_def)
qed

subsection \<open>Objects of strings\<close>

text \<open>
  The decoder of objects reads string values only. The objects it can read back are the ones
  whose keys are in order (as in a \<open>std::map\<close>) and not empty, and whose keys and
  values fit a 16-bit length; the values are C strings.
\<close>

fun str_pair :: "string \<times> amf_value \<Rightarrow> bool" where
  "str_pair (k, AMFValue AMF_STRING (VString s)) =
     (k \<noteq> [] \<and> fits_u16 k \<and> fits_u16 s \<and> nul \<notin> set s)"
| "str_pair _ = False"

fun string_object :: "amf_value \<Rightarrow> bool" where
  "string_object (AMFValue AMF_OBJECT (VMap m)) =
     (sorted_wrt (<) (map fst m) \<and> list_all str_pair m)"
| "string_object _ = False"

fun pair_bytes :: "string \<times> amf_value \<Rightarrow> bytes" where
  "pair_bytes (k, AMFValue AMF_STRING (VString s)) = write_key k [] @ put_cstr s []"
| "pair_bytes _ = []"

lemma str_pairE:
  assumes "str_pair p"
  obtains k s where "p = (k, amf_of_cstr s)" "k \<noteq> []" "fits_u16 k" "fits_u16 s" "nul \<notin> set s"
  using assms by (cases p rule: str_pair.cases) (auto simp: amf_of_cstr_def)

lemma put_pairs_str:
  "list_all str_pair m \<Longrightarrow> put_pairs m buf = Inr (buf @ concat (map pair_bytes m))"
proof (induction m arbitrary: buf)
  case (Cons p m)
  then obtain k s where "p = (k, amf_of_cstr s)" "nul \<notin> set s"
    by (auto elim: str_pairE)
  with Cons show ?case
    by (simp add: amf_of_cstr_def as_string_def put_string_def c_str_id write_key_def put_cstr_def)
qed simp

lemma put_object_str:
  "list_all str_pair m \<Longrightarrow> put_value (AMFValue AMF_OBJECT (VMap m)) buf
     = Inr (buf @ amf0_code AMF_OBJECT # concat (map pair_bytes m)
         @ write_key [] [] @ [amf0_code AMF_OBJECT_END])"
  by (simp add: put_pairs_str write_key_def)

lemma map_emplace_last: "\<forall>k' \<in> set (map fst m). k' < k \<Longrightarrow> map_emplace k v m = m @ [(k, v)]"
  by (induction m) auto

lemma load_pairs_str:
  assumes "list_all str_pair m" "sorted_wrt (<) (map fst (acc @ m))" "d_ok d"
    and "d_unread d = concat (map pair_bytes m) @ write_key [] [] @ r"
  shows "\<exists>d'. load_pairs (AMFValue AMF_OBJECT (VMap acc)) d
      = Inr (AMFValue AMF_OBJECT (VMap (acc @ m)), d') \<and> d_ok d' \<and> d_unread d' = r"
  using assms
proof (induction m arbitrary: acc d)
  case Nil
  then obtain d1 where "load_key d = Inr ([], d1)" "d_ok d1" "d_unread d1 = r"
    using amf_key.load_enc [of "[]" d r] by (auto simp: fits_u16_def)
  then show ?case
    by (subst load_pairs.simps) simp
next
  case (Cons p m)
  obtain k s where p: "p = (k, amf_of_cstr s)" "k \<noteq> []" "fits_u16 k" "fits_u16 s" "nul \<notin> set s"
    using Cons.prems(1) by (auto elim: str_pairE)
  let ?rest = "concat (map pair_bytes m) @ write_key [] [] @ r"
  obtain d1 where d1: "load_key d = Inr (k, d1)" "d_ok d1" "d_unread d1 = put_cstr s [] @ ?rest"
    using amf_key.load_enc [OF p(3) Cons.prems(3)] Cons.prems(4)
    by (auto simp: p(1) amf_of_cstr_def)
  obtain d2 where d2: "load_string d1 = Inr (s, d2)" "d_ok d2" "d_unread d2 = ?rest"
    using amf_str.load_enc [OF p(4) d1(2,3)] by auto
  have "\<forall>k' \<in> set (map fst acc). k' < k"
    using Cons.prems(2) by (auto simp: p(1) sorted_wrt_append)
  then have set: "amf_set k (amf_of_string s) (AMFValue AMF_OBJECT (VMap acc))
      = Inr (AMFValue AMF_OBJECT (VMap (acc @ [p])))"
    by (simp add: amf_set_def map_emplace_last amf_of_string_def c_str_id p)
  have "\<exists>d'. load_pairs (AMFValue AMF_OBJECT (VMap (acc @ [p]))) d2
      = Inr (AMFValue AMF_OBJECT (VMap ((acc @ [p]) @ m)), d') \<and> d_ok d' \<and> d_unread d' = r"
    using Cons.prems d2 by (intro Cons.IH) auto
  then show ?case
    using d1 d2 set p(2) by (subst load_pairs.simps) simp
qed

fun well_mapped :: "amf_value \<Rightarrow> bool" where
  "well_mapped (AMFValue AMF_OBJECT (VMap m)) = True"
| "well_mapped _ = False"

text \<open>
  The encoder writes objects with numbers too, as in the server's answer to \<open>connect\<close>. The decoder throws at
  the first number of such an object.
\<close>

fun plain_pair :: "string \<times> amf_value \<Rightarrow> bool" where
  "plain_pair (k, AMFValue AMF_NUMBER (VDouble x)) = (k \<noteq> [] \<and> fits_u16 k)"
| "plain_pair p = str_pair p"

fun plain_object :: "amf_value \<Rightarrow> bool" where
  "plain_object (AMFValue AMF_OBJECT (VMap m)) = (sorted_wrt (<) (map fst m) \<and> list_all plain_pair m)"
| "plain_object _ = False"

fun plain_bytes :: "string \<times> amf_value \<Rightarrow> bytes" where
  "plain_bytes (k, AMFValue AMF_NUMBER (VDouble x)) = write_key k [] @ put_double x []"
| "plain_bytes p = pair_bytes p"

lemma plain_pairE:
  assumes "plain_pair p"
  obtains (string) "str_pair p" "plain_bytes p = pair_bytes p"
    | (number) k x where "p = (k, amf_of_double x)" "k \<noteq> []" "fits_u16 k" "\<not> str_pair p"
      "plain_bytes p = write_key k [] @ put_double x []"
  using assms by (cases p rule: plain_pair.cases) (auto simp: amf_of_double_def)

lemma put_pairs_plain: "list_all plain_pair m \<Longrightarrow> put_pairs m buf = Inr (buf @ concat (map plain_bytes m))"
proof (induction m arbitrary: buf)
  case (Cons p m)
  from Cons.prems have "plain_pair p" by simp
  then show ?case
  proof (cases rule: plain_pairE)
    case string
    then have "put_pairs [p] buf = Inr (buf @ plain_bytes p)"
      using put_pairs_str [of "[p]" buf] by simp
    with Cons show ?thesis
      by (cases p) (auto simp: res_bind_eq_Inr)
  next
    case (number k x)
    with Cons show ?thesis
      by (simp add: amf_of_double_def as_number_def write_key_def put_double_def)
  qed
qed simp

lemma load_pairs_number:
  assumes "list_all plain_pair m" "\<not> list_all str_pair m" "d_ok d" "d_unread d = concat (map plain_bytes m) @ r"
    and "amf_type v = AMF_OBJECT" "well_mapped v"
  shows "load_pairs v d = Inl (Runtime_error ''Expected a string'')"
  using assms
proof (induction m arbitrary: v d)
  case (Cons p m)
  from Cons.prems have "plain_pair p" by simp
  then show ?case
  proof (cases rule: plain_pairE)
    case string
    then obtain k s where p: "p = (k, amf_of_cstr s)" "k \<noteq> []" "fits_u16 k" "fits_u16 s" "nul \<notin> set s"
      by (auto elim: str_pairE)
    let ?rest = "concat (map plain_bytes m) @ r"
    obtain d1 where d1: "load_key d = Inr (k, d1)" "d_ok d1" "d_unread d1 = put_cstr s [] @ ?rest"
      using amf_key.load_enc [OF p(3) Cons.prems(3)] Cons.prems(4) string
      by (auto simp: p(1) amf_of_cstr_def)
    obtain d2 where d2: "load_string d1 = Inr (s, d2)" "d_ok d2" "d_unread d2 = ?rest"
      using amf_str.load_enc [OF p(4) d1(2,3)] by auto
    obtain v' where v': "amf_set k (amf_of_string s) v = Inr v'" "amf_type v' = AMF_OBJECT" "well_mapped v'"
      using Cons.prems(5,6) by (cases v rule: well_mapped.cases) (auto simp: amf_set_def)
    have "load_pairs v' d2 = Inl (Runtime_error ''Expected a string'')"
      using Cons.prems string d2 v' by (intro Cons.IH) auto
    with d1 d2 v' p(2) show ?thesis
      by (subst load_pairs.simps) simp
  next
    case (number k x)
    obtain d1 where d1: "load_key d = Inr (k, d1)" "d_ok d1" "d_unread d1 = put_double x [] @ concat (map plain_bytes m) @ r"
      using amf_key.load_enc [OF number(3) Cons.prems(3)] Cons.prems(4) number(5) by auto
    have "load_string d1 = Inl (Runtime_error ''Expected a string'')"
      using pop_front_eq [OF d1(2)] d1(3) by (auto simp: put_double_def load_string_def)
    with d1 number(2) show ?thesis
      by (subst load_pairs.simps) simp
  qed
qed simp

lemma put_object_plain:
  "list_all plain_pair m \<Longrightarrow> put_value (AMFValue AMF_OBJECT (VMap m)) buf
     = Inr (buf @ amf0_code AMF_OBJECT # concat (map plain_bytes m) @ write_key [] [] @ [amf0_code AMF_OBJECT_END])"
  by (simp add: put_pairs_plain write_key_def)

lemma load_object_number:
  assumes "list_all plain_pair m" "\<not> list_all str_pair m" "d_ok d"
    and "d_unread d = amf0_code AMF_OBJECT # concat (map plain_bytes m) @ r"
  shows "load_object d = Inl (Runtime_error ''Expected a string'')"
proof -
  obtain d1 where d1: "pop_front d = Inr (amf0_code AMF_OBJECT, d1)" "d_ok d1" "d_unread d1 = concat (map plain_bytes m) @ r"
    using pop_front_eq [OF assms(3,4)] by auto
  have "load_pairs (amf_of_type AMF_OBJECT) d1 = Inl (Runtime_error ''Expected a string'')"
    by (rule load_pairs_number [OF assms(1,2) d1(2,3)]) (simp_all add: amf_of_type_def)
  with d1(1) show ?thesis
    by (simp add: load_object_def)
qed

text \<open>The encoding of a value, where the encoder accepts it.\<close>

definition value_bytes :: "amf_value \<Rightarrow> bytes" where
  "value_bytes v = (case put_value v [] of Inr bs \<Rightarrow> bs | Inl _ \<Rightarrow> [])"

lemma string_objectE:
  assumes "string_object v"
  obtains m where "v = AMFValue AMF_OBJECT (VMap m)" "sorted_wrt (<) (map fst m)"
    "list_all str_pair m"
  using assms by (cases v rule: string_object.cases) auto

interpretation amf_obj: amf_field value_bytes load_object string_object
proof unfold_locales
  fix v d r
  assume a: "string_object v" "d_ok d" "d_unread d = value_bytes v @ r"
  obtain m where v: "v = AMFValue AMF_OBJECT (VMap m)" "sorted_wrt (<) (map fst m)"
    "list_all str_pair m"
    using a(1) by (rule string_objectE)
  note bs = put_object_str [OF v(3), of "[]"]
  obtain d1 where d1: "pop_front d = Inr (amf0_code AMF_OBJECT, d1)" "d_ok d1"
      "d_unread d1 = concat (map pair_bytes m) @ write_key [] [] @ amf0_code AMF_OBJECT_END # r"
    using pop_front_eq [OF a(2)] a(3) bs by (auto simp: value_bytes_def v(1))
  obtain d2 where d2: "load_pairs (amf_of_type AMF_OBJECT) d1 = Inr (v, d2)" "d_ok d2"
      "d_unread d2 = amf0_code AMF_OBJECT_END # r"
    using load_pairs_str [OF v(3) _ d1(2,3), of "[]"] v by (auto simp: amf_of_type_def)
  with pop_front_eq [OF d2(2,3)] d1(1)
  show "\<exists>d'. load_object d = Inr (v, d') \<and> d_ok d' \<and> d_unread d' = r"
    by (auto simp: load_object_def)
qed

section \<open>The decoder on any input\<close>

text \<open>
  On a well-formed buffer a load may throw, but it reads no memory that was not written, and
  leaves a well-formed buffer. \<open>d_fine\<close> says both of a load.
\<close>

definition d_fine :: "('a \<times> decoder) res \<Rightarrow> bool" where
  "d_fine m \<longleftrightarrow> no_ub m \<and> (\<forall>a d'. m = Inr (a, d') \<longrightarrow> d_ok d')"

lemma d_fine_bind:
  "d_fine m \<Longrightarrow> (\<And>a d'. m = Inr (a, d') \<Longrightarrow> d_ok d' \<Longrightarrow> d_fine (f (a, d'))) \<Longrightarrow> d_fine (res_bind m f)"
  by (cases m) (auto simp: d_fine_def)

lemma d_fine_ret: "d_ok d \<Longrightarrow> d_fine (Inr (a, d))"
  by (simp add: d_fine_def)

lemma d_fine_throw: "\<not> is_undefined e \<Longrightarrow> d_fine (Inl e)"
  by (simp add: d_fine_def)

lemma d_fineI:
  assumes "no_ub m" "\<And>a d'. m = Inr (a, d') \<Longrightarrow> \<exists>p. d_takes d p d'"
  shows "d_fine m"
  using assms d_takes_iff by (fastforce simp: d_fine_def)

lemma no_ub_reads:
  assumes "fb_ok b"
  shows "no_ub (read_uint8 b)" "no_ub (read_uint16 b)" "no_ub (read_uint32 b)" "no_ub (to_string n b)"
  using assms
  by (auto simp: read_uint8_def read_uint16_def read_uint32_def to_string_def peek_uint8_eq
      peek_uint16_eq peek_uint32_eq data_bytes_front consume_or_fail_def intro!: no_ub_bind)

lemma no_ub_read_uint64:
  assumes "fb_ok b"
  shows "no_ub (read_uint64 b)"
proof (cases "unread_length b < 8")
  case True
  then show ?thesis by (simp add: read_uint64_def peek_uint64_def)
next
  case False
  let ?b1 = "b\<lparr>read_index := read_index b + 4\<rparr>"
  have "fb_ok ?b1" "unread_length ?b1 = unread_length b - 4"
    using takes_consume [OF assms, of 4] False by (auto simp: takes_def unread_length_def)
  then show ?thesis
    using False assms
    by (auto simp: read_uint64_def peek_uint64_def peek_uint32_eq consume_or_fail_def
        split: if_splits intro!: no_ub_bind)
qed

lemma d_fine_pop_front:
  assumes "d_ok d"
  shows "d_fine (pop_front d)"
proof (rule d_fineI)
  show "no_ub (pop_front d)"
    unfolding pop_front_def using assms by (intro no_ub_bind) (auto simp: no_ub_reads d_ok_def)
qed (use pop_front_Inr [OF assms] in blast)

lemma d_fine_read_u16:
  assumes "d_ok d"
  shows "d_fine (read_u16 d)"
proof (rule d_fineI)
  show "no_ub (read_u16 d)"
    unfolding read_u16_def using assms by (intro no_ub_bind) (auto simp: no_ub_reads d_ok_def)
qed (use read_u16_Inr [OF assms] in blast)

lemma d_fine_read_u64:
  assumes "d_ok d"
  shows "d_fine (read_u64 d)"
proof (rule d_fineI)
  show "no_ub (read_u64 d)"
    unfolding read_u64_def using assms by (intro no_ub_bind) (auto simp: no_ub_read_uint64 d_ok_def)
qed (use read_u64_Inr [OF assms] in blast)

lemma d_fine_read_str:
  assumes "d_ok d"
  shows "d_fine (read_str n d)"
proof (rule d_fineI)
  show "no_ub (read_str n d)"
    unfolding read_str_def using assms by (intro no_ub_bind) (auto simp: no_ub_reads d_ok_def)
qed (use read_str_Inr [OF assms] in blast)

lemmas d_fine_intros = d_fine_bind d_fine_ret d_fine_throw d_fine_pop_front d_fine_read_u16
  d_fine_read_u64 d_fine_read_str

lemma d_fine_load_key: "d_ok d \<Longrightarrow> d_fine (load_key d)"
  by (auto simp: load_key_def intro!: d_fine_intros)

lemma d_fine_load_string: "d_ok d \<Longrightarrow> d_fine (load_string d)"
  by (auto simp: load_string_def intro!: d_fine_intros)

lemma d_fine_load_double: "d_ok d \<Longrightarrow> d_fine (load_double d)"
  by (auto simp: load_double_def intro!: d_fine_intros)

lemma d_fine_load_bool: "d_ok d \<Longrightarrow> d_fine (load_bool d)"
  by (auto simp: load_bool_def intro!: d_fine_intros)

text \<open>The object under construction keeps its alternative and stays in key order.\<close>

fun sorted_object :: "amf_value \<Rightarrow> bool" where
  "sorted_object (AMFValue AMF_OBJECT (VMap m)) = sorted_wrt (<) (map fst m)"
| "sorted_object _ = False"

lemma set_map_emplace: "fst ` set (map_emplace k v m) = insert k (fst ` set m)"
  by (induction k v m rule: map_emplace.induct) auto

lemma sorted_map_emplace:
  "sorted_wrt (<) (map fst m) \<Longrightarrow> sorted_wrt (<) (map fst (map_emplace k v m))"
proof (induction k v m rule: map_emplace.induct)
  case (2 k v k' v' m)
  then show ?case
    by (auto simp: set_map_emplace)
qed simp

lemma map_of_emplace:
  "sorted_wrt (<) (map fst m) \<Longrightarrow> map_of (map_emplace k v m) k' =
     (if k' = k \<and> map_of m k = None then Some v else map_of m k')"
proof (induction k v m rule: map_emplace.induct)
  case (2 k v a b m)
  have "map_of m k = None" if "k < a"
    using 2(2) that by (auto simp: map_of_eq_None_iff)
  with 2 show ?case by auto
qed simp

lemma amf_set_sorted:
  "sorted_object v \<Longrightarrow> \<exists>v'. amf_set k x v = Inr v' \<and> sorted_object v'"
  by (cases v rule: sorted_object.cases) (auto simp: amf_set_def sorted_map_emplace)

lemma d_fine_load_pairs:
  "sorted_object v \<Longrightarrow> d_ok d \<Longrightarrow> d_fine (load_pairs v d)"
proof (induction v d rule: load_pairs.induct)
  case (1 v d)
  show ?case
  proof (subst load_pairs.simps, intro d_fine_bind d_fine_load_key)
    fix key d1 assume k: "load_key d = Inr (key, d1)" "d_ok d1"
    show "d_fine (case (key, d1) of (key, d1) \<Rightarrow> if key = [] then Inr (v, d1)
        else res_bind (load_string d1) (\<lambda>(value, d2).
          res_bind (amf_set key (amf_of_string value) v) (\<lambda>object. load_pairs object d2)))"
    proof (cases "key = []")
      case False
      have "d_fine (res_bind (load_string d1) (\<lambda>(value, d2).
          res_bind (amf_set key (amf_of_string value) v) (\<lambda>object. load_pairs object d2)))"
      proof (intro d_fine_bind d_fine_load_string k(2))
        fix s d2 assume s: "load_string d1 = Inr (s, d2)" "d_ok d2"
        obtain v' where v': "amf_set key (amf_of_string s) v = Inr v'" "sorted_object v'"
          using amf_set_sorted "1.prems"(1) by blast
        then show "d_fine (case (s, d2) of (value, d2) \<Rightarrow>
            res_bind (amf_set key (amf_of_string value) v) (\<lambda>object. load_pairs object d2))"
          using "1.IH" [OF k(1) refl False s(1) refl v'(1) v'(2) s(2)] by simp
      qed
      with False show ?thesis by simp
    qed (simp add: d_fine_ret k(2))
  qed (rule "1.prems"(2))
qed

lemma d_fine_load_object: "d_ok d \<Longrightarrow> d_fine (load_object d)"
  by (auto simp: load_object_def amf_of_type_def intro!: d_fine_intros d_fine_load_pairs)

section \<open>Integers as doubles\<close>

text \<open>A word put together from sign, exponent and fraction has them as its fields.\<close>

lemma double_fields:
  fixes s e f :: nat
  assumes "s \<le> 1" "e < 2 ^ 11" "f < 2 ^ 52"
  defines "w \<equiv> word_of_nat (s * 2 ^ 63 + e * 2 ^ 52 + f) :: double"
  shows "unat (take_bit 11 (drop_bit 52 w)) = e" "unat (take_bit 52 w) = f" "bit w 63 \<longleftrightarrow> s = 1"
proof -
  have "unat w = (s * 2 ^ 63 + e * 2 ^ 52 + f) mod 2 ^ LENGTH(64)"
    unfolding w_def by (rule unat_of_nat)
  also have "\<dots> = s * 2 ^ 63 + e * 2 ^ 52 + f"
    using assms(1-3) by simp
  finally have w: "unat w = s * 2 ^ 63 + e * 2 ^ 52 + f" .
  have w': "s * 2 ^ 63 + e * 2 ^ 52 + f = f + (s * 2 ^ 11 + e) * 2 ^ 52"
    by simp
  have "unat (take_bit 52 w) = take_bit 52 (unat w)"
    by (rule unsigned_take_bit_eq)
  also have "\<dots> = f"
    unfolding w w' take_bit_eq_mod using assms(3) by (simp only: mod_mult_self1 mod_less)
  finally show "unat (take_bit 52 w) = f" .
  have "drop_bit 52 (s * 2 ^ 63 + e * 2 ^ 52 + f) = s * 2 ^ 11 + e"
    using assms(3) by (simp add: drop_bit_eq_div)
  moreover have "take_bit 64 (unat w) = unat w"
    using unat_u64_less [of w] by (simp add: take_bit_nat_eq_self)
  ultimately have "unat (drop_bit 52 w) = s * 2 ^ 11 + e"
    by (simp add: unsigned_drop_bit_eq w)
  moreover have "unat (take_bit 11 (drop_bit 52 w)) = take_bit 11 (unat (drop_bit 52 w))"
    by (rule unsigned_take_bit_eq)
  ultimately show "unat (take_bit 11 (drop_bit 52 w)) = e"
    using assms(2) by (simp add: take_bit_eq_mod)
  have "bit (unat w) 63 \<longleftrightarrow> s = 1"
  proof (cases "s = 1")
    case True
    then have "unat w div 2 ^ 63 = 1"
      unfolding w using assms(2,3) by (intro div_nat_eqI) simp_all
    with True show ?thesis by (simp add: bit_iff_odd)
  next
    case False
    then show ?thesis
      unfolding w using assms(1-3) by (simp add: bit_iff_odd)
  qed
  then show "bit w 63 \<longleftrightarrow> s = 1"
    by (simp add: bit_unsigned_iff)
qed

lemma double_trunc_int: "\<bar>n\<bar> < 2 ^ 52 \<Longrightarrow> double_trunc (int_to_double n) = Some n"
proof (cases "n = 0")
  case False
  assume n: "\<bar>n\<bar> < 2 ^ 52"
  define a k f where "a = nat \<bar>n\<bar>" and "k = log2_of a" and "f = a * 2 ^ (52 - k) - 2 ^ 52"
  have a: "0 < a" "a < 2 ^ 52"
    using False n by (auto simp: a_def nat_less_iff)
  have k: "2 ^ k \<le> a" "a < 2 ^ Suc k" "k < 52"
    using log2_of_bounds [OF a(1)] log2_of_less [OF a] by (auto simp: k_def)
  have p: "(2::nat) ^ k * 2 ^ (52 - k) = 2 ^ 52"
    using k(3) by (simp flip: power_add)
  have "a * 2 ^ (52 - k) < 2 ^ Suc k * 2 ^ (52 - k)"
    using k(2) by (simp del: power_Suc)
  also have "\<dots> = 2 * 2 ^ 52"
    using p by (simp only: power_Suc mult.assoc)
  finally have "a * 2 ^ (52 - k) < 2 * 2 ^ 52" .
  moreover have "2 ^ 52 \<le> a * 2 ^ (52 - k)"
    using mult_le_mono1 [OF k(1), of "2 ^ (52 - k)"] p by simp
  ultimately have f: "f < 2 ^ 52" "2 ^ 52 + f = a * 2 ^ (52 - k)"
    by (auto simp: f_def)
  have w: "int_to_double n = word_of_nat ((if n < 0 then 1 else 0) * 2 ^ 63 + (1023 + k) * 2 ^ 52 + f)"
    using False by (simp add: int_to_double_def Let_def a_def k_def f_def)
  note fields = double_fields [of "if n < 0 then 1 else 0" "1023 + k" f, folded w]
  have e: "unat (take_bit 11 (drop_bit 52 (int_to_double n))) = 1023 + k"
    "unat (take_bit 52 (int_to_double n)) = f" "bit (int_to_double n) 63 \<longleftrightarrow> n < 0"
    using fields k(3) f(1) by auto
  have "(2 ^ 52 + int f) div 2 ^ (52 - k) = int a"
  proof -
    have "2 ^ 52 + int f = int a * 2 ^ (52 - k)"
      using f(2) by (metis of_nat_add of_nat_mult of_nat_numeral of_nat_power)
    then show ?thesis by simp
  qed
  then show ?thesis
    using k(3) by (simp add: double_trunc_def e Let_def a_def)
qed (simp add: double_trunc_def int_to_double_def)

lemma double_to_int_of_int: "- (2 ^ 31) \<le> n \<Longrightarrow> n < 2 ^ 31 \<Longrightarrow> double_to_int (int_to_double n) = Inr n"
  by (simp add: double_to_int_def double_trunc_int)

section \<open>The unsigned integer of AMF3\<close>

lemma load_uint_from_bound:
  assumes "load_uint_from i v d = Inr (x, d')" "i < 4" "take_bit (7 * i) v = v"
  shows "take_bit 29 x = x"
  using assms
proof (induction i v d rule: load_uint_from.induct)
  case (1 i v d)
  from "1.prems"(1,2) obtain b d1 where b: "pop_front d = Inr (b, d1)"
    by (auto simp: load_uint_from.simps [of i v d] res_bind_eq_Inr)
  show ?case
  proof (cases "i = 3")
    case True
    then have v: "take_bit 21 v = v" and x: "x = push_bit 8 v OR ucast b"
      using "1.prems"(1,3) b by (auto simp: load_uint_from.simps [of 3 v d])
    show ?thesis
      unfolding x by (subst v [symmetric], rule bit_word_eqI)
        (auto simp: bit_simps dest: bit_imp_le_length)
  next
    case False
    let ?v1 = "push_bit 7 v OR ucast (b AND 0x7f)"
    have m: "(0x7f :: u8) = mask 7"
      by (simp add: mask_eq_exp_minus_1)
    have v1: "take_bit (7 * (i + 1)) ?v1 = ?v1"
      by (subst (1 2) "1.prems"(3) [symmetric], rule bit_word_eqI)
        (auto simp: m bit_simps)
    show ?thesis
    proof (cases "b AND 0x80 = 0")
      case True
      then have "x = ?v1"
        using "1.prems"(1,2) b False by (simp add: load_uint_from.simps [of i v d])
      moreover have "take_bit (min 29 (7 * (i + 1))) ?v1 = ?v1"
        using v1 "1.prems"(2) False by (simp add: min_def)
      ultimately show ?thesis
        using v1 by (metis take_bit_take_bit)
    next
      case False': False
      then have "load_uint_from (i + 1) ?v1 d1 = Inr (x, d')"
        using "1.prems"(1,2) b False by (simp add: load_uint_from.simps [of i v d])
      with "1.IH" [OF "1.prems"(2) b refl False refl False'] v1 False "1.prems"(2) show ?thesis
        by simp
    qed
  qed
qed

lemma load_uint_bound: "load_uint d = Inr (x, d') \<Longrightarrow> unat x < 2 ^ 29"
  using load_uint_from_bound [of 0 0 d x d']
  by (metis load_uint_def mult_0_right take_bit_0 take_bit_nat_less_exp unsigned_take_bit_eq zero_less_numeral)

section \<open>Types\<close>

text \<open>The variant a value of each type holds; objects and arrays hold typed values.\<close>

fun well_typed :: "amf_value \<Rightarrow> bool" where
  "well_typed (AMFValue t (VDouble d)) \<longleftrightarrow> t \<notin> {AMF_BOOLEAN, AMF_STRING, AMF_OBJECT, AMF_ECMA_ARRAY}"
| "well_typed (AMFValue t (VBool b)) \<longleftrightarrow> t = AMF_BOOLEAN"
| "well_typed (AMFValue t (VString s)) \<longleftrightarrow> t = AMF_STRING"
| "well_typed (AMFValue t (VMap m)) \<longleftrightarrow> t = AMF_OBJECT \<and> (\<forall>x \<in> set m. well_typed (snd x))"
| "well_typed (AMFValue t (VArray vs)) \<longleftrightarrow> t = AMF_ECMA_ARRAY \<and> (\<forall>x \<in> set vs. well_typed x)"

lemma well_typed_of [simp]: "well_typed (amf_of_string s)" "well_typed (amf_of_type AMF_OBJECT)" "well_typed (amf_of_type AMF_NULL)"
    "well_typed (amf_of_double n)" "well_typed (amf_of_bool b)"
  by (simp_all add: amf_of_string_def amf_of_cstr_def amf_of_type_def amf_of_double_def amf_of_bool_def)

lemma well_typed_object: "well_typed v \<Longrightarrow> amf_type v = AMF_OBJECT \<Longrightarrow> \<exists>m. v = AMFValue AMF_OBJECT (VMap m) \<and> (\<forall>x \<in> set m. well_typed (snd x))"
  by (cases v rule: well_typed.cases) auto

lemma set_emplace: "set (map_emplace k x m) \<subseteq> insert (k, x) (set m)"
  by (induction k x m rule: map_emplace.induct) auto

lemma amf_set_typed:
  assumes "well_typed v" "well_typed x" "amf_set k x v = Inr v'"
  shows "well_typed v' \<and> amf_type v' = AMF_OBJECT"
proof -
  have "amf_type v = AMF_OBJECT"
    using assms(3) by (auto simp: amf_set_def split: if_splits)
  then obtain m where "v = AMFValue AMF_OBJECT (VMap m)" "\<forall>x \<in> set m. well_typed (snd x)"
    using well_typed_object [OF assms(1)] by blast
  then show ?thesis
    using assms(2,3) set_emplace [of k x m] by (fastforce simp: amf_set_def)
qed

lemma load_pairs_typed:
  "load_pairs v d = Inr (v', d') \<Longrightarrow> well_typed v \<Longrightarrow> amf_type v = AMF_OBJECT \<Longrightarrow> well_typed v' \<and> amf_type v' = AMF_OBJECT"
proof (induction v d arbitrary: v' d' rule: load_pairs.induct)
  case (1 v d)
  obtain k d1 where k: "load_key d = Inr (k, d1)"
    using 1(2) by (auto simp: load_pairs.simps [of v d] res_bind_eq_Inr)
  show ?case
  proof (cases "k = []")
    case True
    then show ?thesis
      using 1(2-4) k by (simp add: load_pairs.simps [of v d])
  next
    case False
    then obtain s d2 w where s: "load_string d1 = Inr (s, d2)" "amf_set k (amf_of_string s) v = Inr w" "load_pairs w d2 = Inr (v', d')"
      using 1(2) k by (auto simp: load_pairs.simps [of v d] res_bind_eq_Inr)
    then show ?thesis
      using 1(1) [OF k refl False s(1) refl s(2,3)] amf_set_typed [OF 1(3) _ s(2)] by simp
  qed
qed

lemma amf_index_typed:
  assumes "well_typed v" "amf_type v = AMF_OBJECT"
  shows "\<exists>x. amf_index v k = Inr x \<and> well_typed x"
proof -
  obtain m where "v = AMFValue AMF_OBJECT (VMap m)" "\<forall>x \<in> set m. well_typed (snd x)"
    using well_typed_object [OF assms] by blast
  then show ?thesis
    by (auto simp: amf_index_def split: option.split dest!: map_of_SomeD)
qed

lemma typed_reads: "well_typed x \<Longrightarrow> no_ub (as_string x) \<and> no_ub (as_number x) \<and> no_ub (get_map x)"
  by (cases x rule: well_typed.cases) (auto simp: as_string_def as_number_def get_map_def)

section \<open>Properties\<close>

text \<open>An AMF0 object of strings, as the \<open>std::map\<close> of the code holds it, is encoded
  without an exception, and the decoder reads back the same object and stops right behind its
  end marker, whatever follows.\<close>

theorem amf_object_round_trip:
  assumes "string_object v"
  shows "\<exists>bs. put_value v [] = Inr bs \<and> (\<forall>d r. d_ok d \<and> d_unread d = bs @ r \<longrightarrow>
    (\<exists>d'. load_object d = Inr (v, d') \<and> d_ok d' \<and> d_unread d' = r))"
proof -
  obtain m where v: "v = AMFValue AMF_OBJECT (VMap m)" "list_all str_pair m"
    using assms by (auto elim: string_objectE)
  then have "put_value v [] = Inr (value_bytes v)"
    using put_object_str [OF v(2), of "[]"] by (simp add: value_bytes_def)
  then show ?thesis
    using amf_obj.load_enc [OF assms] by blast
qed

theorem amf_object_round_trip_witness:
  "\<exists>bs. put_value (AMFValue AMF_OBJECT (VMap [(''app'', amf_of_cstr ''live'')])) [] = Inr bs
    \<and> (\<forall>d r. d_ok d \<and> d_unread d = bs @ r \<longrightarrow>
    (\<exists>d'. load_object d = Inr (AMFValue AMF_OBJECT (VMap [(''app'', amf_of_cstr ''live'')]), d')
      \<and> d_ok d' \<and> d_unread d' = r))"
  by (rule amf_object_round_trip) (simp add: amf_of_cstr_def fits_u16_def nul_def)

text \<open>C25: a command as RTMP sends it, a name, a transaction number and an object whose values are strings or
  numbers, is encoded by the three \<open>operator<<\<close> in a row without an exception. The three loads in a row read it
  back, whatever follows it, when every value of the object is a string; when one is a number, as in the server's own
  answer to \<open>connect\<close>, the decoder's load of the object throws.\<close>

theorem amf_command_round_trip:
  assumes "fits_u16 s" "nul \<notin> set s" "plain_object v"
  shows "\<exists>bs. put_value v (put_double n (put_string s [])) = Inr bs \<and> (\<forall>d r. d_ok d \<and> d_unread d = bs @ r \<longrightarrow>
    (let loaded = res_bind (load_string d) (\<lambda>(name, d1). res_bind (load_double d1) (\<lambda>(num, d2).
        res_bind (load_object d2) (\<lambda>(obj, d3). Inr ((name, num, obj), d3))))
     in if string_object v then \<exists>d'. loaded = Inr ((s, n, v), d') \<and> d_ok d' \<and> d_unread d' = r
        else loaded = Inl (Runtime_error ''Expected a string'')))"
proof -
  obtain m where v: "v = AMFValue AMF_OBJECT (VMap m)" "sorted_wrt (<) (map fst m)" "list_all plain_pair m"
    using assms(3) by (cases v rule: plain_object.cases) auto
  define vb where "vb = amf0_code AMF_OBJECT # concat (map plain_bytes m) @ write_key [] [] @ [amf0_code AMF_OBJECT_END]"
  have put: "put_value v buf = Inr (buf @ vb)" for buf
    unfolding v(1) vb_def by (rule put_object_plain [OF v(3)])
  have so: "string_object v \<longleftrightarrow> list_all str_pair m"
    using v(1,2) by simp
  have vb: "value_bytes v = vb"
    by (simp add: value_bytes_def put)
  show ?thesis
  proof (intro exI conjI allI impI)
    show "put_value v (put_double n (put_string s [])) = Inr (put_cstr s [] @ put_double n [] @ vb)"
      using assms(2) by (simp add: put put_string_def c_str_id put_double_def)
    fix d r
    assume d: "d_ok d \<and> d_unread d = (put_cstr s [] @ put_double n [] @ vb) @ r"
    then have ok: "d_ok d" and u: "d_unread d = put_cstr s [] @ put_double n [] @ vb @ r" by simp_all
    obtain d1 where d1: "load_string d = Inr (s, d1)" "d_ok d1" "d_unread d1 = put_double n [] @ vb @ r"
      using amf_str.load_enc [OF assms(1) ok u] by blast
    obtain d2 where d2: "load_double d1 = Inr (n, d2)" "d_ok d2" "d_unread d2 = vb @ r"
      using amf_num.load_enc [OF TrueI d1(2,3)] by blast
    have "\<exists>d3. load_object d2 = Inr (v, d3) \<and> d_ok d3 \<and> d_unread d3 = r" if "string_object v"
      using amf_obj.load_enc [OF that d2(2)] d2(3) vb by simp
    moreover have "load_object d2 = Inl (Runtime_error ''Expected a string'')" if "\<not> string_object v"
      using load_object_number [OF v(3) _ d2(2)] d2(3) so that by (simp add: vb_def)
    ultimately show "let loaded = res_bind (load_string d) (\<lambda>(name, d1). res_bind (load_double d1) (\<lambda>(num, d2).
        res_bind (load_object d2) (\<lambda>(obj, d3). Inr ((name, num, obj), d3))))
     in if string_object v then \<exists>d'. loaded = Inr ((s, n, v), d') \<and> d_ok d' \<and> d_unread d' = r
        else loaded = Inl (Runtime_error ''Expected a string'')"
      using d1(1) d2(1) by (auto simp: Let_def)
  qed
qed

theorem amf_command_round_trip_witness:
  "\<exists>bs. put_value (AMFValue AMF_OBJECT (VMap [(''app'', amf_of_cstr ''live''), (''n'', amf_of_double 31)]))
      (put_double 0 (put_string ''ok'' [])) = Inr bs
    \<and> (\<forall>d. d_ok d \<and> d_unread d = bs \<longrightarrow> res_bind (load_string d) (\<lambda>(name, d1). res_bind (load_double d1) (\<lambda>(num, d2).
        res_bind (load_object d2) (\<lambda>(obj, d3). Inr ((name, num, obj), d3)))) = Inl (Runtime_error ''Expected a string''))"
proof -
  let ?v = "AMFValue AMF_OBJECT (VMap [(''app'', amf_of_cstr ''live''), (''n'', amf_of_double 31)])"
  have "plain_object ?v" "\<not> string_object ?v"
    by (simp_all add: amf_of_cstr_def amf_of_double_def fits_u16_def nul_def)
  then show ?thesis
    using amf_command_round_trip [of "''ok''" ?v 0] by (fastforce simp: fits_u16_def nul_def Let_def)
qed

text \<open>What the loads of strings, numbers and keys accept is exactly the encoding of the
  value they return: no other bytes are skipped or left.\<close>

theorem amf_loads_exact:
  assumes "d_ok d"
  shows "(\<forall>s d'. load_string d = Inr (s, d') \<longrightarrow> d_unread d = put_cstr s [] @ d_unread d')
    \<and> (\<forall>x d'. load_double d = Inr (x, d') \<longrightarrow> d_unread d = put_double x [] @ d_unread d')
    \<and> (\<forall>k d'. load_key d = Inr (k, d') \<longrightarrow> d_unread d = write_key k [] @ d_unread d')"
  using assms amf_str.load_reencodes amf_num.load_reencodes amf_key.load_reencodes by blast

theorem amf_loads_exact_witness:
  "\<exists>d'. load_key \<lparr>dec_version = 0, dec_buf = buf_write [0, 1, 0x61, 5] (create 4)\<rparr> = Inr (''a'', d')
    \<and> [0, 1, 0x61, 5] = write_key ''a'' [] @ d_unread d'"
proof -
  let ?d = "\<lparr>dec_version = 0, dec_buf = buf_write [0, 1, 0x61, 5] (create 4)\<rparr>"
  have d: "d_ok ?d" "d_unread ?d = [0, 1, 0x61, 5]"
    by (simp_all add: d_ok_def d_unread_def)
  have u: "d_unread ?d = write_key ''a'' [] @ [5]"
    by (simp add: d_unread_def write_key_def htons_def byte_of_char_def)
  obtain d' where k: "load_key ?d = Inr (''a'', d')"
    using amf_key.load_enc [OF _ d(1) u] by (auto simp: fits_u16_def)
  have "d_unread ?d = write_key ''a'' [] @ d_unread d'"
    using amf_loads_exact [OF d(1)] k by blast
  with k d(2) show ?thesis by auto
qed

text \<open>C27: on whatever bytes a peer sends, the decoder's loads return a value or throw; they read
  no memory that was never written and leave a well-formed buffer.\<close>

theorem amf_decoder_safe:
  assumes "d_ok d"
  shows "d_fine (load_string d) \<and> d_fine (load_double d) \<and> d_fine (load_bool d)
    \<and> d_fine (load_key d) \<and> d_fine (load_object d)"
  using assms by (simp add: d_fine_load_string d_fine_load_double d_fine_load_bool d_fine_load_key
      d_fine_load_object)

theorem amf_decoder_safe_witness:
  "d_fine (load_object \<lparr>dec_version = 0, dec_buf = buf_write [3, 0, 9, 1] (create 4)\<rparr>)"
  using amf_decoder_safe [of "\<lparr>dec_version = 0, dec_buf = buf_write [3, 0, 9, 1] (create 4)\<rparr>"]
  by (simp add: d_ok_def)

text \<open>An \<open>int\<close> encoded as an AMF number is read back as the same \<open>int\<close>: the
  conversion to \<open>double\<close> and the truncation back are exact on the whole range.\<close>

theorem amf_int_round_trip:
  assumes "- (2 ^ 31) \<le> n" "n < 2 ^ 31" "d_ok d" "d_unread d = put_int n [] @ r"
  shows "\<exists>d'. res_bind (load_double d) (\<lambda>(x, d'). res_bind (double_to_int x) (\<lambda>i. Inr (i, d')))
      = Inr (n, d') \<and> d_unread d' = r"
  using amf_num.load_enc [OF TrueI assms(3), of "int_to_double n" r] assms(4)
    double_to_int_of_int [OF assms(1,2)]
  by (auto simp: put_int_def)

theorem amf_int_round_trip_witness:
  "\<exists>d'. res_bind (load_double \<lparr>dec_version = 0, dec_buf = buf_write (put_int (- 5) []) (create 4)\<rparr>)
      (\<lambda>(x, d'). res_bind (double_to_int x) (\<lambda>i. Inr (i, d'))) = Inr (- 5, d') \<and> d_unread d' = []"
  by (rule amf_int_round_trip) (simp_all add: d_ok_def d_unread_def)

lemma type_name_never: "type_name x \<noteq> ''double''" "type_name x \<noteq> ''bool''"
  by (cases x; simp)+

lemma put_metadata_pairs_eq:
  "put_metadata_pairs m buf = Inr (buf @ concat (map (\<lambda>(k, x). write_key k []) m))"
  by (induction m arbitrary: buf) (auto simp: type_name_never write_key_def)

text \<open>\<open>operator<<\<close> for the metadata writes the keys only. Its tests on
  \<open>type().name()\<close> hold for no type, so no value is ever written.\<close>

theorem put_metadata_drops_values:
  "put_metadata m buf = Inr (buf @ amf0_code AMF_OBJECT # concat (map (\<lambda>(k, x). write_key k []) m)
     @ [0, 0, amf0_code AMF_OBJECT_END])"
  by (simp add: put_metadata_def put_metadata_pairs_eq write_key_def htons_def)

text \<open>Reading a decoded boolean as one goes through a null pointer, since
  \<open>as_boolean\<close> asks the variant for a \<open>double\<close> where the constructor stores a
  \<open>bool\<close>.\<close>

theorem as_boolean_null_read: "as_boolean (amf_of_bool b) = Inl (Undefined ''read through a null pointer'')"
  by (simp add: as_boolean_def amf_of_bool_def null_read_def)

text \<open>C28: an object that the decoder returns is well typed: every value in it holds the alternative of the variant
  that its type says, so that looking up any key gives a value from which a string or a number can be asked for
  without reading through a null pointer. (\<open>as_boolean\<close> is the exception: it asks for the wrong alternative.)\<close>

theorem decoded_objects_typed:
  assumes "load_object d = Inr (v, d')"
  shows "well_typed v \<and> amf_type v = AMF_OBJECT
    \<and> (\<forall>k. \<exists>x. amf_index v k = Inr x \<and> well_typed x \<and> no_ub (as_string x) \<and> no_ub (as_number x))"
proof -
  obtain d1 d2 where "load_pairs (amf_of_type AMF_OBJECT) d1 = Inr (v, d2)"
    using assms by (auto simp: load_object_def res_bind_eq_Inr split: if_splits)
  then have "well_typed v \<and> amf_type v = AMF_OBJECT"
    using load_pairs_typed by (auto simp: amf_of_type_def)
  then show ?thesis
    using amf_index_typed typed_reads by blast
qed

theorem decoded_objects_typed_witness:
  "\<exists>v d'. load_object \<lparr>dec_version = 0, dec_buf = buf_write [3, 0, 1, 97, 2, 0, 1, 98, 0, 0, 9] (create 16)\<rparr> = Inr (v, d')
    \<and> amf_index v ''a'' = Inr (amf_of_string ''b'') \<and> well_typed v"
proof -
  have "(case load_object \<lparr>dec_version = 0, dec_buf = buf_write [3, 0, 1, 97, 2, 0, 1, 98, 0, 0, 9] (create 16)\<rparr> of
      Inr (v, d') \<Rightarrow> amf_index v ''a'' = Inr (amf_of_string ''b'') | Inl e \<Rightarrow> False)"
    by code_simp
  then obtain v d' where l: "load_object \<lparr>dec_version = 0, dec_buf = buf_write [3, 0, 1, 97, 2, 0, 1, 98, 0, 0, 9] (create 16)\<rparr> = Inr (v, d')"
    and "amf_index v ''a'' = Inr (amf_of_string ''b'')"
    by (auto split: sum.splits)
  then show ?thesis
    using decoded_objects_typed [OF l] by blast
qed

end
