(* ===== verification/Frame.thy ===== *)
theory Frame
  imports Flat_Buffer
begin

text \<open>
  \<open>include/codec/meta.h\<close>, \<open>include/codec/frame.h\<close>, \<open>include/codec/track.h\<close>,
  \<open>src/codec/aac/aac_frame.cpp\<close>, \<open>src/codec/h264/h264_frame.cpp\<close> and
  \<open>src/media/muxer.cpp\<close>: the access units that the decoders hand to a track and the track's
  \<open>frame_translator\<close>. The only translator of the code is \<open>muxer\<close>, whose
  \<open>translate_frame\<close> does nothing yet; a track keeps here the list of the frames it was
  called with.
\<close>

datatype Codec_Type = CodecInvalid | CodecH264 | CodecAAC

datatype Track_Type = Audio | Video

fun track_index :: "Track_Type \<Rightarrow> nat" where
  "track_index Audio = 0"
| "track_index Video = 1"

section \<open>Frames\<close>

record frame =
  frame_codec :: Codec_Type
  frame_dts :: u32
  frame_pts_field :: u32
  frame_prefix_size :: u8
  frame_buf :: "flat_buffer option"

definition new_frame :: "Codec_Type \<Rightarrow> frame" where
  "new_frame codec_id = \<lparr>frame_codec = codec_id, frame_dts = 0, frame_pts_field = 0,
     frame_prefix_size = 0, frame_buf = None\<rparr>"

definition frame_pts :: "frame \<Rightarrow> u32" where
  "frame_pts f = (if frame_pts_field f \<noteq> 0 then frame_pts_field f else frame_dts f)"

definition frame_data :: "frame \<Rightarrow> flat_buffer res" where
  "frame_data f = (case frame_buf f of
     None \<Rightarrow> Inl (Runtime_error ''The buffer within the frame has been lost'')
   | Some b \<Rightarrow> Inr b)"

definition aac_frame :: "flat_buffer \<Rightarrow> u32 \<Rightarrow> frame" where
  "aac_frame buf dts = (new_frame CodecAAC)\<lparr>frame_buf := Some buf, frame_dts := dts,
     frame_pts_field := 0, frame_prefix_size := 0\<rparr>"

subsection \<open>H.264 frames\<close>

definition NAL_IDR :: u8 where "NAL_IDR = 5"
definition NAL_SPS :: u8 where "NAL_SPS = 7"
definition NAL_PPS :: u8 where "NAL_PPS = 8"

text \<open>
  \<open>frame_type\<close> requires \<open>prefix_size\<close> bytes and then reads the byte after them.
\<close>

definition frame_type :: "frame \<Rightarrow> u8 res" where
  "frame_type f = res_bind (frame_data f) (\<lambda>b.
     res_bind (require_length_or_fail (unat (frame_prefix_size f)) b) (\<lambda>_.
     res_bind (data_bytes (unat (frame_prefix_size f)) 1 b) (\<lambda>p. Inr (p ! 0 AND 0x1F))))"

definition is_key_frame :: "frame \<Rightarrow> bool res" where
  "is_key_frame f = (if frame_codec f = CodecH264
     then res_bind (frame_type f) (\<lambda>t. Inr (t = NAL_IDR)) else Inr False)"

definition is_config_frame' :: "frame \<Rightarrow> bool res" where
  "is_config_frame' f = (if frame_codec f = CodecH264
     then res_bind (frame_type f) (\<lambda>t. Inr (t = NAL_SPS \<or> t = NAL_PPS)) else Inr False)"

definition frame_bytes :: "frame \<Rightarrow> bytes" where
  "frame_bytes f = (case frame_buf f of None \<Rightarrow> [] | Some b \<Rightarrow> unread b)"

definition frame_ok :: "frame \<Rightarrow> bool" where
  "frame_ok f \<longleftrightarrow> (case frame_buf f of None \<Rightarrow> False | Some b \<Rightarrow> fb_ok b)"

lemma frame_type_eq:
  assumes "frame_ok f" "unat (frame_prefix_size f) < length (frame_bytes f)"
  shows "frame_type f = Inr (frame_bytes f ! unat (frame_prefix_size f) AND 0x1F)"
proof -
  obtain b where b: "frame_buf f = Some b" "fb_ok b" "frame_bytes f = unread b"
    using assms(1) by (auto simp: frame_ok_def frame_bytes_def split: option.splits)
  have "data_bytes (unat (frame_prefix_size f)) 1 b
      = Inr [unread b ! unat (frame_prefix_size f)]"
    using assms(2) b data_bytes_ok [OF b(2), of "unat (frame_prefix_size f)" 1]
    by (simp add: take_Suc_conv_app_nth Cons_nth_drop_Suc [symmetric])
  then show ?thesis
    using assms(2) b by (simp add: frame_type_def frame_data_def require_length_or_fail_def)
qed

text \<open>With nothing after the prefix the byte that is read was never written.\<close>

lemma frame_type_empty:
  assumes "frame_buf f = Some (buf_write bs (create (length bs)))"
    and "unat (frame_prefix_size f) = length bs"
  shows "\<exists>m. frame_type f = Inl (Undefined m)"
proof -
  let ?b = "buf_write bs (create (length bs))"
  have "fb_data ?b (read_index ?b + length bs) = None"
    by (simp add: buf_write_def ensure_writable_bytes_def create_def writable_bytes_def
        mem_write_def new_memory_def Let_def)
  then have "mem_read (fb_data ?b) (read_index ?b + length bs) 1
      = Inl (Undefined ''read of memory that was not written'')"
    by (simp add: mem_read_def)
  moreover have "unread_length ?b = length bs"
    by (simp only: unread_write fb_ok_create unread_create append_Nil flip: length_unread)
  ultimately show ?thesis
    using assms by (simp add: frame_type_def frame_data_def require_length_or_fail_def data_bytes_def)
qed

section \<open>Tracks\<close>

record track =
  track_bit_rate :: u32
  translator :: "frame list option"

definition input_frame :: "frame \<Rightarrow> ('a track_scheme) \<Rightarrow> ('a track_scheme)" where
  "input_frame fr t = (case translator t of None \<Rightarrow> t
     | Some fs \<Rightarrow> t\<lparr>translator := Some (fs @ [fr])\<rparr>)"

text \<open>The frames a track has given to its translator.\<close>

definition frames_of :: "('a track_scheme) \<Rightarrow> frame list" where
  "frames_of t = (case translator t of None \<Rightarrow> [] | Some fs \<Rightarrow> fs)"

lemma frames_of_input: "translator t \<noteq> None \<Longrightarrow> frames_of (input_frame fr t) = frames_of t @ [fr]"
  by (auto simp: frames_of_def input_frame_def)

lemma translator_input [simp]: "translator (input_frame fr t) = None \<longleftrightarrow> translator t = None"
  by (auto simp: input_frame_def split: option.splits)

end
