(* ===== verification/Aac_Track.thy ===== *)
theory Aac_Track
  imports Frame
begin

text \<open>
  \<open>include/codec/aac/aac_track.h\<close> and \<open>src/codec/aac/aac_track.cpp\<close>: the audio
  configuration (the first two bytes of an AudioSpecificConfig) and the 7-byte ADTS header
  that is written in front of every raw AAC frame. \<open>adts_parse\<close> is the reading of an ADTS
  header after the standard, the reference for the writer.
\<close>

definition kAdtsHeaderLength :: nat where "kAdtsHeaderLength = 7"

definition samplingFrequencyTable :: "u32 list" where
  "samplingFrequencyTable = [96000, 88200, 64000, 48000, 44100, 32000, 24000, 22050, 16000,
     12000, 11025, 8000, 7350, 0, 0, 0]"

record adts_header =
  syncword :: u32
  adts_id :: u32
  layer :: u32
  protection_absent :: u32
  profile :: u32
  sampling_frequency_index :: u32
  private_bit :: u32
  channel_configuration :: u32
  originality :: u32
  home :: u32
  copyright_identification_bit :: u32
  copyright_identification_start :: u32
  aac_frame_length :: u32
  adts_buffer_fullness :: u32
  no_raw_data_blocks_in_frame :: u32

record aac_track = track +
  aac_cfg :: bytes
  aac_channel :: u8
  sample_rate :: u32
  sample_bit :: u32

definition new_aac_track :: "u32 \<Rightarrow> frame list option \<Rightarrow> aac_track" where
  "new_aac_track bit_rate ft = \<lparr>track_bit_rate = bit_rate, translator = ft, aac_cfg = [],
     aac_channel = 0, sample_rate = 0, sample_bit = 16\<rparr>"

text \<open>The last 3 bits of the first byte and the first bit of the second.\<close>

definition sample_index :: "u8 \<Rightarrow> u8 \<Rightarrow> u8" where
  "sample_index cfg1 cfg2 = push_bit 1 (cfg1 AND 0b00000111) OR drop_bit 7 cfg2"

definition config_channel :: "u8 \<Rightarrow> u8" where
  "config_channel cfg2 = drop_bit 3 (cfg2 AND 0b01111000)"

definition parse_aac_config :: "flat_buffer \<Rightarrow> aac_track \<Rightarrow> aac_track res" where
  "parse_aac_config buf t =
     res_bind (require_length_or_fail 2 buf) (\<lambda>_.
     res_bind (data_bytes 0 (unread_length buf) buf) (\<lambda>cfg.
       let cfg1 = cfg ! 0; cfg2 = cfg ! 1;
           index = unat (sample_index cfg1 cfg2)
       in if index \<ge> length samplingFrequencyTable
          then Inl (Runtime_error ''aac sample index is out of range'')
          else Inr (t\<lparr>aac_cfg := cfg, sample_rate := samplingFrequencyTable ! index,
                      aac_channel := config_channel cfg2\<rparr>)))"

definition extract_aac_config :: "aac_track \<Rightarrow> adts_header res" where
  "extract_aac_config t =
     (if length (aac_cfg t) < 2 then Inl (Runtime_error ''aac config is not valid'')
      else let cfg1 = aac_cfg t ! 0; cfg2 = aac_cfg t ! 1;
               audioObjectType = drop_bit 3 cfg1
        in Inr \<lparr>syncword = 0x0FFF, adts_id = 0, layer = 0, protection_absent = 1,
             profile = ucast audioObjectType - 1,
             sampling_frequency_index = ucast (sample_index cfg1 cfg2), private_bit = 0,
             channel_configuration = ucast (config_channel cfg2), originality = 0, home = 0,
             copyright_identification_bit = 0, copyright_identification_start = 0,
             aac_frame_length = 7, adts_buffer_fullness = 0b11111111111,
             no_raw_data_blocks_in_frame = 0\<rparr>)"

definition dump_adts_header :: "adts_header \<Rightarrow> bytes" where
  "dump_adts_header h =
     [ucast (drop_bit 4 (syncword h) AND 0xFF),
      ucast (push_bit 4 (syncword h) AND 0xF0)
        OR ucast (push_bit 3 (adts_id h) AND 0b1000)
        OR ucast (push_bit 1 (layer h) AND 0b0110)
        OR ucast (protection_absent h AND 0b0001),
      ucast (push_bit 6 (profile h) AND 0b11000000)
        OR ucast (push_bit 2 (sampling_frequency_index h) AND 0b00111100)
        OR ucast (push_bit 1 (private_bit h) AND 0b0010)
        OR ucast (drop_bit 2 (channel_configuration h) AND 0b0001),
      ucast (push_bit 6 (channel_configuration h) AND 0b11000000)
        OR ucast (push_bit 5 (originality h) AND 0b00100000)
        OR ucast (push_bit 4 (home h) AND 0b00010000)
        OR ucast (push_bit 3 (copyright_identification_bit h) AND 0b00001000)
        OR ucast (push_bit 2 (copyright_identification_start h) AND 0b00000100)
        OR ucast (drop_bit 11 (aac_frame_length h) AND 0b00000011),
      ucast (drop_bit 3 (aac_frame_length h) AND 0xFF),
      ucast (push_bit 5 (aac_frame_length h) AND 0b11100000)
        OR ucast (drop_bit 6 (adts_buffer_fullness h) AND 0b00011111),
      ucast (push_bit 2 (adts_buffer_fullness h) AND 0b11111100)
        OR ucast (no_raw_data_blocks_in_frame h AND 0b00000011)]"

section \<open>The reference reading of an ADTS header\<close>

text \<open>\<open>bit_field bs pos n\<close>: the \<open>n\<close> bits of the big-endian stream from bit
  \<open>pos\<close> on.\<close>

definition stream_bit :: "bytes \<Rightarrow> nat \<Rightarrow> bool" where
  "stream_bit bs i = bit (bs ! (i div 8)) (7 - i mod 8)"

fun bit_field :: "bytes \<Rightarrow> nat \<Rightarrow> nat \<Rightarrow> u32" where
  "bit_field bs pos 0 = 0"
| "bit_field bs pos (Suc n) = push_bit 1 (bit_field bs pos n) OR of_bool (stream_bit bs (pos + n))"

definition adts_parse :: "bytes \<Rightarrow> adts_header" where
  "adts_parse bs = \<lparr>syncword = bit_field bs 0 12, adts_id = bit_field bs 12 1,
     layer = bit_field bs 13 2, protection_absent = bit_field bs 15 1,
     profile = bit_field bs 16 2, sampling_frequency_index = bit_field bs 18 4,
     private_bit = bit_field bs 22 1, channel_configuration = bit_field bs 23 3,
     originality = bit_field bs 26 1, home = bit_field bs 27 1,
     copyright_identification_bit = bit_field bs 28 1,
     copyright_identification_start = bit_field bs 29 1,
     aac_frame_length = bit_field bs 30 13, adts_buffer_fullness = bit_field bs 43 11,
     no_raw_data_blocks_in_frame = bit_field bs 54 2\<rparr>"

text \<open>Every field of a header cut to its width.\<close>

definition adts_cut :: "adts_header \<Rightarrow> adts_header" where
  "adts_cut h = \<lparr>syncword = take_bit 12 (syncword h), adts_id = take_bit 1 (adts_id h),
     layer = take_bit 2 (layer h), protection_absent = take_bit 1 (protection_absent h),
     profile = take_bit 2 (profile h),
     sampling_frequency_index = take_bit 4 (sampling_frequency_index h),
     private_bit = take_bit 1 (private_bit h),
     channel_configuration = take_bit 3 (channel_configuration h),
     originality = take_bit 1 (originality h), home = take_bit 1 (home h),
     copyright_identification_bit = take_bit 1 (copyright_identification_bit h),
     copyright_identification_start = take_bit 1 (copyright_identification_start h),
     aac_frame_length = take_bit 13 (aac_frame_length h),
     adts_buffer_fullness = take_bit 11 (adts_buffer_fullness h),
     no_raw_data_blocks_in_frame = take_bit 2 (no_raw_data_blocks_in_frame h)\<rparr>"

lemma bit_bit_field: "k < 32 \<Longrightarrow> bit (bit_field bs pos n) k \<longleftrightarrow> k < n \<and> stream_bit bs (pos + n - 1 - k)"
proof (induction n arbitrary: k)
  case (Suc n)
  show ?case
  proof (cases k)
    case 0
    then show ?thesis by (simp add: bit_or_iff bit_push_bit_iff bit_of_bool_iff del: push_bit_Suc)
  next
    case (Suc j)
    then have "bit (bit_field bs pos (Suc n)) k = bit (bit_field bs pos n) j"
      using Suc.prems by (simp add: bit_or_iff bit_push_bit_iff bit_of_bool_iff bit_simps del: push_bit_Suc)
    then show ?thesis using Suc.IH [of j] Suc.prems Suc by auto
  qed
qed simp

lemma bit_fieldI:
  fixes v :: u32
  assumes "\<forall>k \<in> set [0..<n]. bit v k \<longleftrightarrow> stream_bit bs (pos + n - 1 - k)" "n \<le> 32"
  shows "bit_field bs pos n = take_bit n v"
  using assms by (intro bit_word_eqI) (auto simp: bit_bit_field bit_take_bit_iff)

lemmas adts_bits = upt_rec stream_bit_def dump_adts_header_def bit_simps nth_Cons'

lemma adts_long_fields:
  "bit_field (dump_adts_header h) 0 12 = take_bit 12 (syncword h)"
  "bit_field (dump_adts_header h) 30 13 = take_bit 13 (aac_frame_length h)"
  "bit_field (dump_adts_header h) 43 11 = take_bit 11 (adts_buffer_fullness h)"
  by (rule bit_fieldI; simp add: adts_bits del: push_bit_Suc; simp add: eval_nat_numeral)+

lemma adts_short_fields:
  "bit_field (dump_adts_header h) 13 2 = take_bit 2 (layer h)"
  "bit_field (dump_adts_header h) 16 2 = take_bit 2 (profile h)"
  "bit_field (dump_adts_header h) 18 4 = take_bit 4 (sampling_frequency_index h)"
  "bit_field (dump_adts_header h) 23 3 = take_bit 3 (channel_configuration h)"
  "bit_field (dump_adts_header h) 54 2 = take_bit 2 (no_raw_data_blocks_in_frame h)"
  by (rule bit_fieldI; simp add: adts_bits del: push_bit_Suc; simp add: eval_nat_numeral)+

lemma adts_flags:
  "bit_field (dump_adts_header h) 12 1 = take_bit 1 (adts_id h)"
  "bit_field (dump_adts_header h) 15 1 = take_bit 1 (protection_absent h)"
  "bit_field (dump_adts_header h) 22 1 = take_bit 1 (private_bit h)"
  "bit_field (dump_adts_header h) 26 1 = take_bit 1 (originality h)"
  "bit_field (dump_adts_header h) 27 1 = take_bit 1 (home h)"
  "bit_field (dump_adts_header h) 28 1 = take_bit 1 (copyright_identification_bit h)"
  "bit_field (dump_adts_header h) 29 1 = take_bit 1 (copyright_identification_start h)"
  by (rule bit_fieldI; simp add: adts_bits del: push_bit_Suc)+

lemma adts_round_trip_aux: "adts_parse (dump_adts_header h) = adts_cut h"
  by (simp only: adts_parse_def adts_cut_def adts_long_fields adts_short_fields adts_flags)

text \<open>The seven bytes that \<open>dump_adts_header\<close> writes are an ADTS header: a reader
  that takes the fields from their places in the bit stream finds every field of the header it
  was given, cut to its width.\<close>

theorem adts_round_trip: "adts_parse (dump_adts_header h) = adts_cut h"
  by (rule adts_round_trip_aux)

section \<open>The configuration\<close>

lemma sample_index_less: "unat (sample_index a b) < 16"
proof -
  have "take_bit 4 (sample_index a b) = sample_index a b"
    by (rule bit_word_eqI) (auto simp: sample_index_def u8_masks bit_simps dest: bit_imp_le_length simp del: push_bit_Suc)
  then show ?thesis
    using unat_take_bit_u8 [of 4 "sample_index a b"] mod_less_divisor [of 16 "unat (sample_index a b)"]
    by simp
qed

text \<open>So the check of the table's bounds never fails.\<close>

lemma parse_aac_config_eq:
  assumes "fb_ok buf" "unread buf = c1 # c2 # r"
  shows "parse_aac_config buf t = Inr (t\<lparr>aac_cfg := c1 # c2 # r,
    sample_rate := samplingFrequencyTable ! unat (sample_index c1 c2),
    aac_channel := config_channel c2\<rparr>)"
proof -
  have "data_bytes 0 (unread_length buf) buf = Inr (c1 # c2 # r)"
    using data_bytes_front [OF assms(1) order_refl] assms(2) by (simp flip: length_unread)
  moreover have "2 \<le> unread_length buf"
    using assms(2) by (simp flip: length_unread)
  ultimately show ?thesis
    using sample_index_less [of c1 c2]
    by (simp add: parse_aac_config_def require_length_or_fail_def Let_def samplingFrequencyTable_def)
qed

end
