(* ===== verification/Bit_Reader.thy ===== *)
theory Bit_Reader
  imports Prelude
begin

text \<open>
  \<open>src/codec/h264/SPSParser.c\<close>, lines 235 to 565: the bit context of the H.264 parser, its
  readers (one bit, up to 32 bits, Exp-Golomb codes) and the removal of the emulation
  prevention bytes. A C \<open>int\<close> is a 32-bit word read with \<open>sint\<close> where its sign
  matters; the fields of the context are natural numbers, which a parameter set of at most
  65535 bytes keeps far below the limits of \<open>int\<close>. A shift of a 32-bit value by 32 or
  more is \<open>Undefined\<close>.

  The reference is the list of the bits still to be read, \<open>bits_left\<close>.
\<close>

section \<open>The bit context\<close>

record bit_ctx =
  pu8Buf :: bytes
  iBufSize :: nat
  iTotalBit :: nat
  iBitPos :: nat
  iCurBitPos :: nat

definition getBitsLeft :: "bit_ctx \<Rightarrow> int" where
  "getBitsLeft c = (if iBufSize c = 0 \<or> iTotalBit c = 0 then 0
     else int (iTotalBit c) - int (iBitPos c))"

text \<open>Reads of the buffer; \<open>ctx_ok\<close> below keeps them inside it.\<close>

definition buf_at :: "bit_ctx \<Rightarrow> nat \<Rightarrow> u8" where
  "buf_at c i = (if i < length (pu8Buf c) then pu8Buf c ! i else 0)"

definition advance :: "nat \<Rightarrow> bit_ctx \<Rightarrow> bit_ctx" where
  "advance n c = c\<lparr>iBitPos := iBitPos c + n, iCurBitPos := (iBitPos c + n) mod 8\<rparr>"

definition getOneBit :: "bit_ctx \<Rightarrow> i32 \<times> bit_ctx" where
  "getOneBit c =
     (if getBitsLeft c < 1 then (- 1, c)
      else let cur_char = buf_at c (iBitPos c div 8);
               shift = 7 - iCurBitPos c
        in (ucast (drop_bit shift cur_char) AND 1, advance 1 c))"

definition MAX_LEN :: nat where
  "MAX_LEN = 32"

text \<open>
  \<open>au8Temp\<close>: five bytes, the last \<open>n\<close> of them copied from the buffer. The first of
  the five is shifted out of the 32-bit \<open>iRet\<close> and then lost. The right shift of the
  signed \<open>iRet\<close> copies its sign.
\<close>

definition temp_bytes :: "bit_ctx \<Rightarrow> nat \<Rightarrow> bytes" where
  "temp_bytes c n = replicate (5 - n) 0 @ map (\<lambda>i. buf_at c (iBitPos c div 8 + i)) [0..<n]"

definition peek_value :: "bit_ctx \<Rightarrow> nat \<Rightarrow> i32" where
  "peek_value c n =
     (let nbyte = (iCurBitPos c + n + 7) div 8;
          shift = nat ((8 - int (iCurBitPos c + n)) mod 8);
          t = temp_bytes c nbyte;
          ret = push_bit 24 (ucast (t ! 1)) OR push_bit 16 (ucast (t ! 2))
            OR push_bit 8 (ucast (t ! 3)) OR ucast (t ! 4) :: i32
      in take_bit n (signed_drop_bit shift ret))"

definition getBits :: "nat \<Rightarrow> bit_ctx \<Rightarrow> i32 \<times> bit_ctx" where
  "getBits iN c =
     (let iN = (if iN > MAX_LEN then MAX_LEN else iN) in
      if getBitsLeft c < int iN then (0, c)
      else let iN = (if iBitPos c + iN > iTotalBit c then iTotalBit c - iBitPos c else iN)
        in (peek_value c iN, advance iN c))"

definition showBits :: "nat \<Rightarrow> bit_ctx \<Rightarrow> u32" where
  "showBits iN c =
     (let iN = (if iN > MAX_LEN then MAX_LEN else iN) in
      if getBitsLeft c < int iN then 0
      else let iN = (if iBitPos c + iN > iTotalBit c then iTotalBit c - iBitPos c else iN)
        in peek_value c iN)"

definition showBitsLong :: "nat \<Rightarrow> bit_ctx \<Rightarrow> u32" where
  "showBitsLong iN c = (if iN \<le> 32 then showBits iN c else 0)"

section \<open>Exp-Golomb codes\<close>

text \<open>
  The loop of \<open>parseCodenum\<close>, from its counter on: it ends at a one bit or, because
  \<open>getOneBit\<close> then returns -1, at the end of the buffer. The counter is a
  \<open>uint8_t\<close> that starts at -1.
\<close>

function leading_zeros :: "u8 \<Rightarrow> bit_ctx \<Rightarrow> u8 \<times> bit_ctx" where
  "leading_zeros z c =
     (let (b, c1) = getOneBit c; z1 = z + 1
      in if (ucast b :: u8) = 0 then leading_zeros z1 c1 else (z1, c1))"
  by pat_completeness auto
termination
proof (relation "measure (\<lambda>(z, c). iTotalBit c - iBitPos c)")
  fix z :: u8 and c x b c1 and z1 :: u8
  assume a: "x = getOneBit c" "(b, c1) = x" "z1 = z + 1" "(ucast b :: u8) = 0"
  have "(ucast (- 1 :: i32) :: u8) = - 1"
    by (rule bit_word_eqI) (auto simp: bit_simps)
  with a have "1 \<le> getBitsLeft c"
    by (cases "getBitsLeft c < 1") (auto simp: getOneBit_def)
  with a show "((z1, c1), (z, c)) \<in> measure (\<lambda>(z, c). iTotalBit c - iBitPos c)"
    by (auto simp: getOneBit_def getBitsLeft_def advance_def Let_def split: if_splits)
qed simp

declare leading_zeros.simps [simp del]

definition parseCodenum :: "bit_ctx \<Rightarrow> i32 res \<times> bit_ctx" where
  "parseCodenum c =
     (let (z, c1) = leading_zeros (- 1) c in
      if unat z \<ge> 32 then (Inl (Undefined ''shift by the width of the type or more''), c1)
      else let (v, c2) = getBits (unat z) c1
        in (Inr (push_bit (unat z) 1 - 1 + v), c2))"

definition parseUe :: "bit_ctx \<Rightarrow> i32 res \<times> bit_ctx" where
  "parseUe c = parseCodenum c"

definition parseSe :: "bit_ctx \<Rightarrow> i32 res \<times> bit_ctx" where
  "parseSe c =
     (let (r, c1) = parseCodenum c
      in (res_bind r (\<lambda>k.
            if k = 0x7FFFFFFF then Inl (Undefined ''signed overflow'')
            else let v = signed_drop_bit 1 (k + 1)
            in Inr (if k AND 1 \<noteq> 0 then v else - v)), c1))"

section \<open>Emulation prevention\<close>

text \<open>
  The loop over \<open>i\<close> of \<open>deEmulationPrevention\<close>: \<open>n\<close> is \<open>tmp_buf_size\<close>, which
  the loop does not change, \<open>sz\<close> is \<open>iBufSize\<close>. The inner loop moves the bytes
  behind the removed one down by one place.
\<close>

definition move_down :: "nat \<Rightarrow> bytes \<Rightarrow> bytes" where
  "move_down k buf = take k buf @ drop (k + 1) buf @ [last buf]"

function de_emulate :: "nat \<Rightarrow> nat \<Rightarrow> nat \<Rightarrow> bytes \<Rightarrow> bytes \<times> nat" where
  "de_emulate i n sz buf =
     (if i + 2 < n then
        if unat (buf ! i) + unat (buf ! (i + 1)) + unat (buf ! (i + 2) XOR 3) = 0
        then de_emulate (i + 1) n (sz - 1) (move_down (i + 2) buf)
        else de_emulate (i + 1) n sz buf
      else (buf, sz))"
  by pat_completeness auto
termination
  by (relation "measure (\<lambda>(i, n, sz, buf). n - i)") auto

declare de_emulate.simps [simp del]

definition deEmulationPrevention :: "bit_ctx \<Rightarrow> bit_ctx" where
  "deEmulationPrevention c =
     (let (buf, sz) = de_emulate 0 (iBufSize c) (iBufSize c) (take (iBufSize c) (pu8Buf c))
      in c\<lparr>pu8Buf := buf, iBufSize := sz, iTotalBit := sz * 8\<rparr>)"

section \<open>The reference: a list of bits\<close>

definition byte_bits :: "u8 \<Rightarrow> bool list" where
  "byte_bits b = map (\<lambda>i. bit b (7 - i)) [0..<8]"

definition stream_bits :: "bytes \<Rightarrow> bool list" where
  "stream_bits bs = concat (map byte_bits bs)"

definition bits_nat :: "bool list \<Rightarrow> nat" where
  "bits_nat bs = foldl (\<lambda>n b. 2 * n + of_bool b) 0 bs"

definition ctx_ok :: "bit_ctx \<Rightarrow> bool" where
  "ctx_ok c \<longleftrightarrow> iBufSize c \<le> length (pu8Buf c) \<and> iTotalBit c = 8 * iBufSize c
     \<and> iBitPos c \<le> iTotalBit c \<and> iCurBitPos c = iBitPos c mod 8"

definition bits_left :: "bit_ctx \<Rightarrow> bool list" where
  "bits_left c = drop (iBitPos c) (stream_bits (take (iBufSize c) (pu8Buf c)))"

lemma length_byte_bits [simp]: "length (byte_bits b) = 8"
  by (simp add: byte_bits_def)

lemma nth_byte_bits: "i < 8 \<Longrightarrow> byte_bits b ! i = bit b (7 - i)"
  by (simp add: byte_bits_def)

lemma length_stream_bits [simp]: "length (stream_bits bs) = 8 * length bs"
  by (induction bs) (auto simp: stream_bits_def)

lemma nth_stream_bits:
  "i < 8 * length bs \<Longrightarrow> stream_bits bs ! i = bit (bs ! (i div 8)) (7 - i mod 8)"
proof (induction bs arbitrary: i)
  case (Cons b bs)
  show ?case
  proof (cases "i < 8")
    case True
    then show ?thesis by (simp add: stream_bits_def nth_append nth_byte_bits)
  next
    case False
    define k where "k = i - 8"
    with False have i: "i = k + 8" by simp
    have "stream_bits (b # bs) ! i = stream_bits bs ! k"
      by (simp add: stream_bits_def nth_append i)
    also have "\<dots> = bit (bs ! (k div 8)) (7 - k mod 8)"
      using Cons by (simp add: i)
    finally show ?thesis by (simp add: i div_add_self2)
  qed
qed simp

lemma bits_nat_Nil [simp]: "bits_nat [] = 0"
  by (simp add: bits_nat_def)

lemma bits_nat_snoc: "bits_nat (xs @ [b]) = 2 * bits_nat xs + of_bool b"
  by (simp add: bits_nat_def)

lemma bits_nat_append: "bits_nat (xs @ ys) = bits_nat xs * 2 ^ length ys + bits_nat ys"
proof (induction ys rule: rev_induct)
  case (snoc b ys)
  have "bits_nat (xs @ ys @ [b]) = 2 * bits_nat (xs @ ys) + of_bool b"
    using bits_nat_snoc [of "xs @ ys"] by simp
  then show ?case
    by (simp add: snoc bits_nat_snoc algebra_simps)
qed simp

lemma bits_nat_less: "bits_nat xs < 2 ^ length xs"
  by (induction xs rule: rev_induct) (auto simp: bits_nat_snoc)

lemma bit_bits_nat: "bit (bits_nat xs) k \<longleftrightarrow> k < length xs \<and> xs ! (length xs - 1 - k)"
proof (induction xs arbitrary: k rule: rev_induct)
  case (snoc b xs)
  show ?case
  proof (cases k)
    case 0
    then show ?thesis by (simp add: bits_nat_snoc bit_0)
  next
    case (Suc j)
    have "bit (2 * bits_nat xs + of_bool b) (Suc j) = bit (bits_nat xs) j"
      by (simp add: bit_Suc)
    with Suc snoc [of j] show ?thesis
      by (auto simp: bits_nat_snoc nth_append)
  qed
qed simp

section \<open>The readers on the list of bits\<close>

lemma length_bits_left: "ctx_ok c \<Longrightarrow> length (bits_left c) = iTotalBit c - iBitPos c"
  by (simp add: bits_left_def ctx_ok_def)

lemma nth_bits_left:
  assumes "ctx_ok c" "i < length (bits_left c)"
  shows "bits_left c ! i = bit (pu8Buf c ! ((iBitPos c + i) div 8)) (7 - (iBitPos c + i) mod 8)"
    and "(iBitPos c + i) div 8 < length (pu8Buf c)"
proof -
  have l: "iBitPos c + i < 8 * iBufSize c" "iBufSize c \<le> length (pu8Buf c)"
    using assms by (auto simp: ctx_ok_def length_bits_left [OF assms(1)])
  then have q: "(iBitPos c + i) div 8 < iBufSize c"
    by (simp add: less_mult_imp_div_less)
  with l(2) show "(iBitPos c + i) div 8 < length (pu8Buf c)"
    by simp
  show "bits_left c ! i = bit (pu8Buf c ! ((iBitPos c + i) div 8)) (7 - (iBitPos c + i) mod 8)"
    using l q by (simp add: bits_left_def nth_stream_bits)
qed

lemma getBitsLeft_eq: "ctx_ok c \<Longrightarrow> getBitsLeft c = int (length (bits_left c))"
  by (auto simp: getBitsLeft_def length_bits_left ctx_ok_def)

lemma advance_ok:
  assumes "ctx_ok c" "n \<le> length (bits_left c)"
  shows "ctx_ok (advance n c) \<and> bits_left (advance n c) = drop n (bits_left c)"
  using assms length_bits_left [OF assms(1)]
  by (auto simp: ctx_ok_def bits_left_def advance_def add.commute)

lemma getOneBit_Cons:
  assumes "ctx_ok c" "bits_left c = b # r"
  shows "getOneBit c = (of_bool b, advance 1 c)"
proof -
  have l: "0 < length (bits_left c)"
    using assms(2) by simp
  have b: "b = bit (pu8Buf c ! (iBitPos c div 8)) (7 - iBitPos c mod 8)"
    and q: "iBitPos c div 8 < length (pu8Buf c)"
    using nth_bits_left [OF assms(1) l] assms(2) by simp_all
  have cur: "iCurBitPos c = iBitPos c mod 8"
    using assms(1) by (simp add: ctx_ok_def)
  have "(ucast (drop_bit (7 - iCurBitPos c) (buf_at c (iBitPos c div 8))) AND 1 :: i32) = of_bool b"
    using q by (intro bit_word_eqI) (auto simp: b cur buf_at_def bit_simps)
  then show ?thesis
    using getBitsLeft_eq [OF assms(1)] assms(2) by (simp add: getOneBit_def)
qed

lemma getOneBit_Nil: "ctx_ok c \<Longrightarrow> bits_left c = [] \<Longrightarrow> getOneBit c = (- 1, c)"
  by (simp add: getOneBit_def getBitsLeft_eq)

lemma getBits_short: "ctx_ok c \<Longrightarrow> length (bits_left c) < min 32 n \<Longrightarrow> getBits n c = (0, c)"
  by (auto simp: getBits_def getBitsLeft_eq MAX_LEN_def Let_def min_def split: if_splits)

lemma nth_temp_bytes:
  assumes "n \<le> 4" "q < 4"
  shows "temp_bytes c n ! (4 - q) = (if q < n then buf_at c (iBitPos c div 8 + (n - 1 - q)) else 0)"
proof -
  have "4 - q - (5 - n) = n - 1 - q" if "q < n"
    using that assms by simp
  with assms show ?thesis
    by (auto simp: temp_bytes_def nth_append)
qed

text \<open>The 32-bit value that is put together from the last four of the five bytes.\<close>

lemma bit_four_bytes:
  assumes "j < 32"
  shows "bit (push_bit 24 (ucast (t ! 1)) OR push_bit 16 (ucast (t ! 2))
      OR push_bit 8 (ucast (t ! 3)) OR ucast (t ! 4 :: u8) :: i32) j
    \<longleftrightarrow> bit (t ! (4 - j div 8)) (j mod 8)"
proof -
  consider "j < 8" | "8 \<le> j" "j < 16" | "16 \<le> j" "j < 24" | "24 \<le> j" "j < 32"
    using assms by linarith
  then show ?thesis
  proof cases
    case 1
    then show ?thesis by (auto simp: bit_simps dest: bit_imp_le_length)
  next
    case 2
    then have "j div 8 = 1" "j mod 8 = j - 8"
      by (auto simp: div_nat_eqI mod_if)
    with 2 show ?thesis by (auto simp: bit_simps dest: bit_imp_le_length)
  next
    case 3
    then have "j div 8 = 2" "j mod 8 = j - 16"
      by (auto simp: div_nat_eqI mod_if)
    with 3 show ?thesis by (auto simp: bit_simps dest: bit_imp_le_length)
  next
    case 4
    then have "j div 8 = 3" "j mod 8 = j - 24"
      by (auto simp: div_nat_eqI mod_if)
    with 4 show ?thesis by (auto simp: bit_simps dest: bit_imp_le_length)
  qed
qed

lemma byte_and_bit:
  assumes "r < 8"
  shows "(8 * a + (7 - r)) div 8 = (a :: nat)" "7 - (8 * a + (7 - r)) mod 8 = r"
proof -
  define s where "s = 7 - r"
  have "s < 8" "r = 7 - s"
    using assms by (simp_all add: s_def)
  then show "(8 * a + (7 - r)) div 8 = a" "7 - (8 * a + (7 - r)) mod 8 = r"
    by (simp_all flip: s_def)
qed

lemma peek_value_eq:
  assumes "ctx_ok c" "n \<le> length (bits_left c)" "iCurBitPos c + n \<le> 32"
  shows "peek_value c n = word_of_nat (bits_nat (take n (bits_left c)))"
proof (rule bit_word_eqI)
  fix k assume k: "k < LENGTH(32)"
  define p cur nb sh where "p = iBitPos c div 8" and "cur = iCurBitPos c"
    and "nb = (cur + n + 7) div 8" and "sh = 8 * nb - (cur + n)"
  have cur: "cur < 8" "iBitPos c = 8 * p + cur"
    using assms(1) by (simp_all add: cur_def p_def ctx_ok_def)
  have nb: "nb \<le> 4" "8 * nb = cur + n + sh" "sh < 8"
    using assms(3) by (auto simp: nb_def sh_def cur_def)
  have shift: "nat ((8 - int (cur + n)) mod 8) = sh"
  proof -
    have "8 - int (cur + n) = int sh + 8 * (1 - int nb)"
      using nb(2) by simp
    then have "(8 - int (cur + n)) mod 8 = int sh mod 8"
      by (simp only: mod_mult_self2)
    then show ?thesis using nb(3) by simp
  qed
  show "bit (peek_value c n) k \<longleftrightarrow> bit (word_of_nat (bits_nat (take n (bits_left c))) :: i32) k"
  proof (cases "k < n")
    case True
    define j where "j = k + sh"
    have j: "j < 8 * nb" "j < 32"
      using True nb by (auto simp: j_def)
    then have q: "j div 8 < nb"
      by (simp add: less_mult_imp_div_less)
    have idx: "iBitPos c + (n - 1 - k) = 8 * (p + (nb - 1 - j div 8)) + (7 - j mod 8)"
    proof -
      define q r e where "q = j div 8" and "r = j mod 8" and "e = nb - 1 - q"
      have "j = 8 * q + r" "r < 8" "nb = e + 1 + q"
        using \<open>j div 8 < nb\<close> by (simp_all add: q_def r_def e_def)
      moreover have "iBitPos c + (n - 1 - k) + j + 1 = 8 * p + 8 * nb"
        using cur nb True by (simp add: j_def)
      ultimately show ?thesis
        by (simp flip: q_def r_def e_def)
    qed
    have "n - 1 - k < length (bits_left c)"
      using True assms(2) by simp
    note nth = nth_bits_left [OF assms(1) this, unfolded idx]
    have "j mod 8 < 8" by simp
    with nth have "bits_left c ! (n - 1 - k)
        \<longleftrightarrow> bit (buf_at c (p + (nb - 1 - j div 8))) (j mod 8)"
      by (simp only: byte_and_bit buf_at_def if_True)
    moreover have "\<not> 32 - sh \<le> k"
      using j(2) by (simp add: j_def)
    then have "bit (peek_value c n) k
        \<longleftrightarrow> bit (temp_bytes c nb ! (4 - j div 8)) (j mod 8)"
      using True k j(2) shift bit_four_bytes [OF j(2), of "temp_bytes c nb"]
      by (simp add: peek_value_def Let_def bit_take_bit_iff bit_signed_drop_bit_iff
          flip: cur_def nb_def) (simp add: j_def add.commute)
    moreover have "temp_bytes c nb ! (4 - j div 8) = buf_at c (p + (nb - 1 - j div 8))"
      using nth_temp_bytes [OF nb(1), of "j div 8" c] q nb(1) by (simp add: p_def)
    ultimately show ?thesis
      using True k assms(2) by (simp add: bit_of_nat_iff bit_bits_nat min_def)
  next
    case False
    then show ?thesis
      using assms(2) by (simp add: peek_value_def Let_def bit_take_bit_iff bit_of_nat_iff bit_bits_nat)
  qed
qed

lemma getBits_eq:
  assumes "ctx_ok c" "n \<le> length (bits_left c)" "iCurBitPos c + n \<le> 32"
  shows "getBits n c = (word_of_nat (bits_nat (take n (bits_left c))), advance n c)"
proof -
  have "\<not> iTotalBit c < iBitPos c + n"
    using assms length_bits_left [OF assms(1)] by (auto simp: ctx_ok_def)
  then show ?thesis
    using assms by (simp add: getBits_def getBitsLeft_eq MAX_LEN_def peek_value_eq Let_def)
qed

lemma showBits_eq:
  "ctx_ok c \<Longrightarrow> n \<le> length (bits_left c) \<Longrightarrow> iCurBitPos c + n \<le> 32 \<Longrightarrow>
     showBits n c = fst (getBits n c)"
  by (auto simp: showBits_def getBits_def Let_def)

section \<open>Exp-Golomb codes\<close>

text \<open>
  The code of \<open>v\<close> is the binary form of \<open>v + 1\<close> behind one zero less than it has digits.
\<close>

definition nat_bits :: "nat \<Rightarrow> nat \<Rightarrow> bool list" where
  "nat_bits w n = map (\<lambda>i. bit n (w - 1 - i)) [0..<w]"

definition ue_bits :: "nat \<Rightarrow> bool list" where
  "ue_bits v = (let n = log2_of (v + 1) in replicate n False @ True # nat_bits n (v + 1 - 2 ^ n))"

text \<open>Signed values are numbered 0, 1, -1, 2, -2, and so on.\<close>

definition se_bits :: "int \<Rightarrow> bool list" where
  "se_bits v = ue_bits (if v > 0 then nat (2 * v - 1) else nat (- 2 * v))"

lemma length_nat_bits [simp]: "length (nat_bits w n) = w"
  by (simp add: nat_bits_def)

lemma bits_nat_nat_bits: "n < 2 ^ w \<Longrightarrow> bits_nat (nat_bits w n) = n"
proof (rule bit_eqI)
  fix k assume "n < 2 ^ w"
  then have "take_bit w n = n"
    by (simp add: take_bit_nat_eq_self)
  then have "bit n k \<longleftrightarrow> k < w \<and> bit n k"
    by (metis bit_take_bit_iff)
  then show "bit (bits_nat (nat_bits w n)) k \<longleftrightarrow> bit n k"
    by (auto simp: bit_bits_nat nat_bits_def)
qed

lemma leading_zeros_eq:
  assumes "ctx_ok c" "bits_left c = replicate n False @ True # r"
  shows "leading_zeros z c = (z + word_of_nat (n + 1), advance (n + 1) c)"
  using assms
proof (induction n arbitrary: z c)
  case 0
  then show ?case
    using getOneBit_Cons [OF 0(1), of True r] by (simp add: leading_zeros.simps [of z c])
next
  case (Suc n)
  have o: "getOneBit c = (of_bool False, advance 1 c)"
    using Suc.prems by (intro getOneBit_Cons) auto
  have "ctx_ok (advance 1 c)" "bits_left (advance 1 c) = replicate n False @ True # r"
    using advance_ok [OF Suc.prems(1), of 1] Suc.prems(2) by simp_all
  from Suc.IH [OF this, of "z + 1"] show ?case
    by (subst leading_zeros.simps) (simp add: o add.assoc, simp add: advance_def add.commute)
qed

text \<open>
  Codes of up to 25 leading zeros: then the digits that follow span at most four bytes.
\<close>

lemma parseCodenum_eq:
  assumes "ctx_ok c" "bits_left c = ue_bits v @ r" "v + 1 < 2 ^ 26"
  shows "\<exists>c'. parseCodenum c = (Inr (word_of_nat v), c') \<and> ctx_ok c' \<and> bits_left c' = r"
proof -
  define n where "n = log2_of (v + 1)"
  have n: "2 ^ n \<le> v + 1" "v + 1 < 2 ^ Suc n"
    using log2_of_bounds [of "v + 1"] by (auto simp: n_def)
  have n25: "n \<le> 25"
    using log2_of_less [OF _ assms(3)] by (simp add: n_def)
  let ?x = "v + 1 - 2 ^ n"
  define c1 where "c1 = advance (n + 1) c"
  have u: "bits_left c = replicate n False @ True # nat_bits n ?x @ r"
    using assms(2) by (simp add: ue_bits_def Let_def n_def)
  have z: "leading_zeros (- 1) c = (word_of_nat n, c1)"
    using leading_zeros_eq [OF assms(1) u, of "- 1"] by (simp add: c1_def)
  have c1: "ctx_ok c1" "bits_left c1 = nat_bits n ?x @ r"
    using advance_ok [OF assms(1), of "n + 1"] u by (simp_all add: c1_def)
  have un: "unat (word_of_nat n :: u8) = n"
    using n25 by (simp add: unat_of_nat)
  have "iCurBitPos c1 < 8"
    by (simp add: c1_def advance_def)
  then have "getBits n c1 = (word_of_nat (bits_nat (take n (bits_left c1))), advance n c1)"
    using n25 c1 by (intro getBits_eq) simp_all
  also have "bits_nat (take n (bits_left c1)) = ?x"
    using n by (simp add: c1(2) bits_nat_nat_bits)
  finally have g: "getBits n c1 = (word_of_nat ?x, advance n c1)" .
  have "(push_bit n 1 - 1 + word_of_nat ?x :: i32) = word_of_nat v"
  proof -
    have "(push_bit n 1 :: i32) = word_of_nat (2 ^ n)"
      by (simp add: push_bit_eq_mult)
    then have "(push_bit n 1 - 1 + word_of_nat ?x :: i32) = word_of_nat (2 ^ n + ?x) - 1"
      by simp
    also have "2 ^ n + ?x = v + 1"
      using n(1) by simp
    finally show ?thesis by simp
  qed
  then have "parseCodenum c = (Inr (word_of_nat v), advance n c1)"
    using n25 by (simp add: parseCodenum_def z un g)
  moreover have "ctx_ok (advance n c1) \<and> bits_left (advance n c1) = r"
    using advance_ok [OF c1(1), of n] c1(2) by simp
  ultimately show ?thesis by blast
qed

lemma signed_half:
  assumes "v < 2 ^ 30"
  shows "signed_drop_bit 1 (word_of_nat v :: i32) = word_of_nat (v div 2)"
proof (rule bit_word_eqI)
  fix k assume k: "k < LENGTH(32)"
  have top: "\<not> bit v j" if "30 \<le> j" for j
  proof -
    have "take_bit 30 v = v"
      using assms by (simp add: take_bit_nat_eq_self)
    then show ?thesis
      using that by (metis bit_take_bit_iff linorder_not_le)
  qed
  have "bit (signed_drop_bit 1 (word_of_nat v :: i32)) k \<longleftrightarrow> bit v (Suc k)"
    using k top [of 31] top [of "Suc k"]
    by (auto simp: bit_signed_drop_bit_iff bit_of_nat_iff not_less)
  then show "bit (signed_drop_bit 1 (word_of_nat v :: i32)) k \<longleftrightarrow> bit (word_of_nat (v div 2) :: i32) k"
    using k by (simp add: bit_of_nat_iff bit_Suc)
qed

lemma parseSe_eq:
  assumes "ctx_ok c" "bits_left c = se_bits v @ r" "\<bar>v\<bar> < 2 ^ 24"
  shows "\<exists>c'. parseSe c = (Inr (word_of_int v), c') \<and> ctx_ok c' \<and> bits_left c' = r"
proof -
  define k where "k = (if v > 0 then nat (2 * v - 1) else nat (- 2 * v))"
  have k: "k + 1 < 2 ^ 26"
    using assms(3) by (auto simp: k_def)
  obtain c' where c': "parseCodenum c = (Inr (word_of_nat k), c')" "ctx_ok c'" "bits_left c' = r"
    using parseCodenum_eq [OF assms(1) _ k] assms(2) by (auto simp: se_bits_def k_def)
  have h: "signed_drop_bit 1 (word_of_nat k + 1 :: i32) = word_of_nat ((k + 1) div 2)"
    using signed_half [of "k + 1"] k by (simp add: add.commute)
  have n: "(word_of_nat k :: i32) \<noteq> 0x7FFFFFFF"
  proof
    assume "(word_of_nat k :: i32) = 0x7FFFFFFF"
    then have "unat (word_of_nat k :: i32) = 0x7FFFFFFF" by simp
    with k show False by (simp add: unat_of_nat take_bit_eq_mod)
  qed
  have o: "(word_of_nat k AND 1 :: i32) \<noteq> 0 \<longleftrightarrow> odd k"
    using bit_of_nat_iff [where 'a = "32 word", of k 0] by (simp add: and_one_eq mod2_eq_if bit_0)
  have "(if odd k then word_of_nat ((k + 1) div 2) else - word_of_nat ((k + 1) div 2) :: i32)
      = word_of_int v"
  proof (cases "v > 0")
    case True
    then have "odd k" "int ((k + 1) div 2) = v"
      by (auto simp: k_def nat_eq_iff even_nat_iff zdiv_int)
    then show ?thesis by (metis of_int_of_nat_eq)
  next
    case False
    then have "even k" "int ((k + 1) div 2) = - v"
      by (auto simp: k_def even_nat_iff zdiv_int)
    then show ?thesis by (metis minus_minus of_int_minus of_int_of_nat_eq)
  qed
  then show ?thesis
    using c' by (cases "odd k") (simp_all add: parseSe_def h [simplified] n o Let_def)
qed

section \<open>Emulation prevention on lists\<close>

text \<open>What the loop does, on the bytes not yet looked at.\<close>

function strip3 :: "bytes \<Rightarrow> bytes" where
  "strip3 (a # b # x # r) =
     (if a = 0 \<and> b = 0 \<and> x = 3 then a # strip3 (b # r) else a # strip3 (b # x # r))"
| "strip3 [a, b] = [a, b]"
| "strip3 [a] = [a]"
| "strip3 [] = []"
  by pat_completeness auto
termination
  by (relation "measure length") auto

lemma triple_iff: "unat (a :: u8) + unat (b :: u8) + unat (x XOR 3 :: u8) = 0 \<longleftrightarrow> a = 0 \<and> b = 0 \<and> x = 3"
proof -
  have "x XOR 3 = 0 \<longleftrightarrow> x = 3"
  proof
    assume "x XOR 3 = 0"
    moreover have "(x XOR 3) XOR 3 = x"
      by (simp only: xor.assoc xor_self_eq xor.right_neutral)
    ultimately show "x = 3" by simp
  qed simp
  then show ?thesis
    by (simp add: unsigned_eq_0_iff)
qed

lemma de_emulate_unfold:
  "de_emulate i n sz buf =
     (if i + 2 < n then
        if buf ! i = 0 \<and> buf ! (i + 1) = 0 \<and> buf ! (i + 2) = 3
        then de_emulate (i + 1) n (sz - 1) (move_down (i + 2) buf)
        else de_emulate (i + 1) n sz buf
      else (buf, sz))"
  using de_emulate.simps [of i n sz buf] unfolding triple_iff .

lemma de_emulate_match:
  assumes "i + 2 < n" "buf ! i = 0 \<and> buf ! (i + 1) = 0 \<and> buf ! (i + 2) = 3"
  shows "de_emulate i n sz buf = de_emulate (i + 1) n (sz - 1) (move_down (i + 2) buf)"
  using de_emulate_unfold [of i n sz buf] unfolding if_P [OF assms(1)] if_P [OF assms(2)] .

lemma de_emulate_skip:
  assumes "i + 2 < n" "\<not> (buf ! i = 0 \<and> buf ! (i + 1) = 0 \<and> buf ! (i + 2) = 3)"
  shows "de_emulate i n sz buf = de_emulate (i + 1) n sz buf"
  using de_emulate_unfold [of i n sz buf] unfolding if_P [OF assms(1)] if_not_P [OF assms(2)] .

lemma de_emulate_end: "\<not> i + 2 < n \<Longrightarrow> de_emulate i n sz buf = (buf, sz)"
  by (simp add: de_emulate_unfold [of i])

lemma de_emulate_tail:
  assumes "\<forall>j. i < j \<and> j < n \<longrightarrow> buf ! j = x"
  shows "de_emulate i n sz buf = (buf, sz)"
  using assms
proof (induction "n - i" arbitrary: i)
  case (Suc k)
  show ?case
  proof (cases "i + 2 < n")
    case True
    with Suc.prems have "buf ! (i + 1) = x" "buf ! (i + 2) = x"
      by auto
    then have "\<not> (buf ! i = 0 \<and> buf ! (i + 1) = 0 \<and> buf ! (i + 2) = 3)"
      by auto
    from de_emulate_skip [OF True this] Suc.hyps(1) [of "i + 1"] Suc.hyps(2) Suc.prems
    show ?thesis by simp
  qed (rule de_emulate_end)
qed (simp add: de_emulate_end)

lemma move_down_at:
  "move_down (length p + 2) (p @ a # b # x # r @ replicate d y) = p @ a # b # r @ replicate d y
     @ [last (x # r @ replicate d y)]"
  by (simp add: move_down_def)

text \<open>
  The buffer is a part that was looked at, a part \<open>q\<close> that was not, and the copies of the last
  byte that the removals left behind.
\<close>

lemma de_emulate_strip:
  assumes "d = 0 \<or> length q \<le> 1 \<or> last q = x" "length p = i" "n = i + length q + d"
  shows "\<exists>buf'. de_emulate i n (i + length q) (p @ q @ replicate d x) = (buf', i + length (strip3 q))
    \<and> length buf' = n \<and> take (i + length (strip3 q)) buf' = p @ strip3 q"
  using assms
proof (induction q arbitrary: p d x i rule: strip3.induct)
  case (1 a b c r)
  let ?buf = "p @ a # b # c # r @ replicate d x"
  have nth: "?buf ! i = a" "?buf ! (i + 1) = b" "?buf ! (i + 2) = c"
    using "1.prems"(2) by (auto simp: nth_append)
  show ?case
  proof (cases "a = 0 \<and> b = 0 \<and> c = 3")
    case True
    define y where "y = last (c # r @ replicate d x)"
    have m: "move_down (i + 2) ?buf = (p @ [a]) @ (b # r) @ replicate (Suc d) y"
    proof -
      have "replicate d x @ [y] = replicate (Suc d) y"
        by (cases d) (auto simp: y_def replicate_append_same)
      then show ?thesis
        using move_down_at [of p a b c r d x] "1.prems"(2) by (simp add: y_def)
    qed
    have l: "Suc d = 0 \<or> length (b # r) \<le> 1 \<or> last (b # r) = y"
      using "1.prems"(1) by (cases d) (auto simp: y_def)
    have "\<exists>buf'. de_emulate (i + 1) n (i + 1 + length (b # r)) ((p @ [a]) @ (b # r) @ replicate (Suc d) y)
        = (buf', i + 1 + length (strip3 (b # r))) \<and> length buf' = n
        \<and> take (i + 1 + length (strip3 (b # r))) buf' = (p @ [a]) @ strip3 (b # r)"
      using "1.prems" by (intro "1.IH"(1) [OF True l]) auto
    moreover have "i + 2 < n" "?buf ! i = 0 \<and> ?buf ! (i + 1) = 0 \<and> ?buf ! (i + 2) = 3"
      using True nth "1.prems"(3) by simp_all
    note de_emulate_match [OF this]
    ultimately show ?thesis
      using True m by simp
  next
    case False
    have l: "d = 0 \<or> length (b # c # r) \<le> 1 \<or> last (b # c # r) = x"
      using "1.prems"(1) by auto
    have "\<exists>buf'. de_emulate (i + 1) n (i + 1 + length (b # c # r)) ((p @ [a]) @ (b # c # r) @ replicate d x)
        = (buf', i + 1 + length (strip3 (b # c # r))) \<and> length buf' = n
        \<and> take (i + 1 + length (strip3 (b # c # r))) buf' = (p @ [a]) @ strip3 (b # c # r)"
      using "1.prems" by (intro "1.IH"(2) [OF False l]) auto
    moreover have "i + 2 < n" "\<not> (?buf ! i = 0 \<and> ?buf ! (i + 1) = 0 \<and> ?buf ! (i + 2) = 3)"
      using False nth "1.prems"(3) by simp_all
    note de_emulate_skip [OF this]
    ultimately show ?thesis
      using False by (simp only: strip3.simps if_False) simp
  qed
next
  case (2 a b)
  have "de_emulate i n (i + 2) (p @ [a, b] @ replicate d x) = (p @ [a, b] @ replicate d x, i + 2)"
  proof (cases "d = 0")
    case True
    then show ?thesis using "2.prems" by (intro de_emulate_end) simp
  next
    case False
    then show ?thesis
      using "2.prems" by (intro de_emulate_tail [of i n _ x]) (auto simp: nth_append nth_Cons')
  qed
  then show ?case using "2.prems" by simp
next
  case (3 a)
  have "de_emulate i n (i + 1) (p @ [a] @ replicate d x) = (p @ [a] @ replicate d x, i + 1)"
    using "3.prems" by (intro de_emulate_tail [of i n _ x]) (auto simp: nth_append nth_Cons')
  then show ?case using "3.prems" by simp
next
  case 4
  have "de_emulate i n i (p @ replicate d x) = (p @ replicate d x, i)"
    using "4.prems" by (intro de_emulate_tail [of i n _ x]) (auto simp: nth_append)
  then show ?case using "4.prems" by simp
qed

lemma deEmulationPrevention_eq:
  assumes "iBufSize c \<le> length (pu8Buf c)"
  defines "q \<equiv> take (iBufSize c) (pu8Buf c)"
  shows "\<exists>buf'. deEmulationPrevention c = c\<lparr>pu8Buf := buf', iBufSize := length (strip3 q),
      iTotalBit := length (strip3 q) * 8\<rparr>
    \<and> take (length (strip3 q)) buf' = strip3 q \<and> length (strip3 q) \<le> length buf'"
proof -
  have q: "length q = iBufSize c"
    using assms by simp
  have "\<exists>buf'. de_emulate 0 (iBufSize c) (0 + length q) ([] @ q @ replicate 0 undefined)
      = (buf', 0 + length (strip3 q)) \<and> length buf' = iBufSize c
      \<and> take (0 + length (strip3 q)) buf' = [] @ strip3 q"
    using q by (intro de_emulate_strip) simp_all
  then obtain buf' where b: "de_emulate 0 (iBufSize c) (iBufSize c) q = (buf', length (strip3 q))"
      "take (length (strip3 q)) buf' = strip3 q"
    using q by auto
  then have "length (strip3 q) \<le> length buf'"
    by (metis length_take min.cobounded1)
  with b show ?thesis
    by (intro exI [of _ buf']) (simp add: deEmulationPrevention_def q_def)
qed

text \<open>
  The writer of the standard: a byte 3 goes in front of every byte up to 3 that follows two
  zeros; the count of zeros starts again behind it.
\<close>

fun escape3 :: "nat \<Rightarrow> bytes \<Rightarrow> bytes" where
  "escape3 z [] = []"
| "escape3 z (b # bs) =
     (if z \<ge> 2 \<and> unat b \<le> 3 then 3 # b # escape3 (if b = 0 then 1 else 0) bs
      else b # escape3 (if b = 0 then z + 1 else 0) bs)"

text \<open>
  The payloads that come back as they were: those without a byte 3 behind an odd run of three or more zeros. The loop takes
  such a 3 for one the writer put in, since the zeros in front of it are adjacent again once the writer's bytes between
  them are gone. The first argument is the number of zeros in front.
\<close>

fun kept3 :: "nat \<Rightarrow> bytes \<Rightarrow> bool" where
  "kept3 n [] = True"
| "kept3 n (b # bs) = (\<not> (odd n \<and> 3 \<le> n \<and> b = 3) \<and> kept3 (if b = 0 then Suc n else 0) bs)"

definition no_zeros_3 :: "bytes \<Rightarrow> bool" where
  no_zeros_3_def [simp]: "no_zeros_3 = kept3 0"

text \<open>The writer's count after \<open>n\<close> zeros, and what the reader sees in its last two bytes \<open>y1\<close>, \<open>y2\<close>.\<close>

definition zero_count :: "nat \<Rightarrow> nat" where
  "zero_count n = (if n < 2 then n else if even n then 2 else 1)"

definition last_zeros :: "nat \<Rightarrow> u8 \<Rightarrow> u8 \<Rightarrow> bool" where
  "last_zeros n y1 y2 \<longleftrightarrow> (y2 = 0 \<longleftrightarrow> 1 \<le> n) \<and> (y1 = 0 \<and> y2 = 0 \<longleftrightarrow> 2 \<le> n)"

lemma last_zeros_step: "last_zeros n y1 y2 \<Longrightarrow> last_zeros (if b = 0 then Suc n else 0) y2 b"
  by (auto simp: last_zeros_def)

lemma strip3_keeps:
  assumes "last_zeros n y1 y2" "\<not> (odd n \<and> 3 \<le> n \<and> b = 3)"
  shows "strip3 (y1 # y2 # escape3 (zero_count n) (b # bs))
    = y1 # strip3 (y2 # b # escape3 (zero_count (if b = 0 then Suc n else 0)) bs)"
proof (cases "zero_count n \<ge> 2 \<and> unat b \<le> 3")
  case True
  then have "2 \<le> n" "even n" "y1 = 0" "y2 = 0"
    using assms(1) by (auto simp: zero_count_def last_zeros_def split: if_splits)
  then show ?thesis
    using True by (auto simp: zero_count_def)
next
  case False
  have "\<not> (y1 = 0 \<and> y2 = 0 \<and> b = 3)"
    using assms False by (cases "n = 2") (auto simp: zero_count_def last_zeros_def split: if_splits)
  moreover have "b = 0 \<Longrightarrow> zero_count (Suc n) = zero_count n + 1" "zero_count 0 = 0"
    using False by (cases "n = 1"; auto simp: zero_count_def split: if_splits)+
  then have "escape3 (zero_count n) (b # bs) = b # escape3 (zero_count (if b = 0 then Suc n else 0)) bs"
    using False by (cases "b = 0") auto
  ultimately show ?thesis
    by (simp only: strip3.simps if_False)
qed

lemma strip3_escape3:
  "last_zeros n y1 y2 \<Longrightarrow> kept3 n bs \<Longrightarrow> strip3 (y1 # y2 # escape3 (zero_count n) bs) = y1 # y2 # bs"
proof (induction bs arbitrary: n y1 y2)
  case (Cons b bs)
  then show ?case
    using strip3_keeps [OF Cons.prems(1), of b bs] last_zeros_step [OF Cons.prems(1), of b] by simp
qed simp

text \<open>Whatever the payload is, no more bytes come back, since every byte put in is taken out.\<close>

lemma strip3_escape3_length:
  "(2 \<le> z \<Longrightarrow> y1 = 0 \<and> y2 = 0) \<Longrightarrow> (z = 1 \<Longrightarrow> y2 = 0) \<Longrightarrow> length (strip3 (y1 # y2 # escape3 z bs)) \<le> 2 + length bs"
proof (induction "length bs" arbitrary: bs z y1 y2 rule: less_induct)
  case less
  show ?case
  proof (cases bs)
    case (Cons b cs)
    have next_byte: "length (strip3 (y2 # b # escape3 (if b = 0 then k else 0) cs)) \<le> 2 + length cs" if "k \<ge> 2 \<Longrightarrow> y2 = 0" for k
      by (rule less.hyps) (use Cons that in \<open>auto split: if_splits\<close>)
    show ?thesis
    proof (cases "z \<ge> 2 \<and> unat b \<le> 3")
      case True
      then show ?thesis
        using Cons less.prems next_byte [of 1] by simp
    next
      case False
      show ?thesis
      proof (cases "y1 = 0 \<and> y2 = 0 \<and> b = 3")
        case drop: True
        have "length (strip3 (0 # escape3 0 cs)) \<le> 1 + length cs"
        proof (cases cs)
          case tail: (Cons c ds)
          have "length (strip3 (0 # c # escape3 (if c = 0 then 1 else 0) ds)) \<le> 2 + length ds"
            by (rule less.hyps) (use Cons tail in \<open>auto split: if_splits\<close>)
          then show ?thesis
            using tail by (auto split: if_splits)
        qed simp
        then show ?thesis
          using Cons False drop by auto
      next
        case keep: False
        have "z + 1 \<ge> 2 \<Longrightarrow> y2 = 0"
          using less.prems by (cases "z = 1") auto
        then show ?thesis
          using Cons False keep next_byte [of "z + 1"] by auto
      qed
    qed
  qed simp
qed

lemma strip3_loses:
  "last_zeros n y1 y2 \<Longrightarrow> \<not> kept3 n bs \<Longrightarrow> length (strip3 (y1 # y2 # escape3 (zero_count n) bs)) < 2 + length bs"
proof (induction bs arbitrary: n y1 y2)
  case (Cons b bs)
  show ?case
  proof (cases "odd n \<and> 3 \<le> n \<and> b = 3")
    case True
    then have y: "y1 = 0" "y2 = 0" "zero_count n = 1"
      using Cons.prems(1) by (auto simp: last_zeros_def zero_count_def)
    have "length (strip3 (0 # escape3 0 bs)) \<le> 1 + length bs"
    proof (cases bs)
      case tail: (Cons c cs)
      have "length (strip3 (0 # c # escape3 (if c = 0 then 1 else 0) cs)) \<le> 2 + length cs"
        by (rule strip3_escape3_length) (auto split: if_splits)
      then show ?thesis
        using tail by (auto split: if_splits)
    qed simp
    then show ?thesis
      using y conjunct2 [OF conjunct2 [OF True]] by simp
  next
    case False
    then have "\<not> kept3 (if b = 0 then Suc n else 0) bs"
      using Cons.prems(2) by simp
    from Cons.IH [OF last_zeros_step [OF Cons.prems(1)] this] show ?thesis
      unfolding strip3_keeps [OF Cons.prems(1) False, of bs] by simp
  qed
qed simp

lemma strip3_nonzero: "y \<noteq> 0 \<Longrightarrow> strip3 (y # e) = y # strip3 e"
  by (cases e rule: strip3.cases) auto

lemma strip3_escape3_iff: "strip3 (escape3 0 bs) = bs \<longleftrightarrow> no_zeros_3 bs"
proof -
  have s: "last_zeros 0 1 1" "zero_count 0 = 0" "strip3 (1 # 1 # escape3 0 bs) = 1 # 1 # strip3 (escape3 0 bs)"
    by (simp_all add: last_zeros_def zero_count_def strip3_nonzero)
  show ?thesis
    using strip3_escape3 [OF s(1), of bs] strip3_loses [OF s(1), of bs] s(2,3) by fastforce
qed

lemma strip3_escape3_lengths: "length (strip3 (escape3 0 bs)) \<le> length bs \<and> (length (strip3 (escape3 0 bs)) = length bs \<longleftrightarrow> no_zeros_3 bs)"
proof -
  have s: "last_zeros 0 1 1" "zero_count 0 = 0" "strip3 (1 # 1 # escape3 0 bs) = 1 # 1 # strip3 (escape3 0 bs)"
    by (simp_all add: last_zeros_def zero_count_def strip3_nonzero)
  show ?thesis
    using strip3_escape3_iff [of bs] strip3_loses [OF s(1), of bs] s(2,3) by fastforce
qed

lemma strip3_escape3_start: "no_zeros_3 bs \<Longrightarrow> strip3 (escape3 0 bs) = bs"
  by (simp only: strip3_escape3_iff)

section \<open>Properties\<close>

text \<open>Reading up to 32 bits that span at most four bytes gives the big-endian number of the
  next bits of the stream and moves behind them; with fewer bits left nothing is read and 0 is
  returned.\<close>

theorem get_bits_value:
  assumes "ctx_ok c" "iCurBitPos c + n \<le> 32"
  shows "getBits n c = (if n \<le> length (bits_left c)
      then (word_of_nat (bits_nat (take n (bits_left c))), advance n c) else (0, c))
    \<and> ctx_ok (snd (getBits n c))"
  using getBits_eq [OF assms(1) _ assms(2)] getBits_short [OF assms(1), of n] advance_ok [OF assms(1), of n]
    assms by (auto simp: min_def)

theorem get_bits_value_witness:
  "fst (getBits 10 \<lparr>pu8Buf = [0xA5, 0xC3, 0x01], iBufSize = 3, iTotalBit = 24, iBitPos = 4, iCurBitPos = 4\<rparr>)
     = 0x170"
  using get_bits_value [of "\<lparr>pu8Buf = [0xA5, 0xC3, 0x01], iBufSize = 3, iTotalBit = 24, iBitPos = 4,
      iCurBitPos = 4\<rparr>" 10]
  by (simp add: ctx_ok_def bits_left_def stream_bits_def byte_bits_def upt_rec bits_nat_def)

text \<open>A read of 32 bits that does not start at a byte boundary spans five bytes, of which the
  first is lost: here the next 32 bits are a one and 31 zeros, and 0 is returned.\<close>

theorem get_bits_loses_first_byte:
  "bits_nat (take 32 (bits_left \<lparr>pu8Buf = [1, 0, 0, 0, 0], iBufSize = 5, iTotalBit = 40, iBitPos = 7,
       iCurBitPos = 7\<rparr>)) = 2 ^ 31
   \<and> fst (getBits 32 \<lparr>pu8Buf = [1, 0, 0, 0, 0], iBufSize = 5, iTotalBit = 40, iBitPos = 7,
       iCurBitPos = 7\<rparr>) = 0"
  by (simp add: bits_left_def stream_bits_def byte_bits_def upt_rec bits_nat_def getBits_def MAX_LEN_def
      getBitsLeft_def Let_def peek_value_def temp_bytes_def buf_at_def)

text \<open>The Exp-Golomb readers decode the codes of the standard: behind any bits, the code of an
  unsigned number below 67108863 or of a signed one below 16777216 in size is read as that
  number, and exactly its bits are consumed.\<close>

theorem exp_golomb_decodes:
  assumes "ctx_ok c"
  shows "(\<forall>v r. bits_left c = ue_bits v @ r \<and> v + 1 < 2 ^ 26 \<longrightarrow>
      (\<exists>c'. parseUe c = (Inr (word_of_nat v), c') \<and> ctx_ok c' \<and> bits_left c' = r))
    \<and> (\<forall>v r. bits_left c = se_bits v @ r \<and> \<bar>v\<bar> < 2 ^ 24 \<longrightarrow>
      (\<exists>c'. parseSe c = (Inr (word_of_int v), c') \<and> ctx_ok c' \<and> bits_left c' = r))"
  using parseCodenum_eq [OF assms] parseSe_eq [OF assms] by (simp add: parseUe_def)

theorem exp_golomb_decodes_witness:
  "\<exists>c'. parseUe \<lparr>pu8Buf = [0x2F], iBufSize = 1, iTotalBit = 8, iBitPos = 0, iCurBitPos = 0\<rparr> = (Inr 4, c')
    \<and> bits_left c' = [True, True, True]"
proof -
  let ?c = "\<lparr>pu8Buf = [0x2F], iBufSize = 1, iTotalBit = 8, iBitPos = 0, iCurBitPos = 0\<rparr>"
  have "ctx_ok ?c"
    by (simp add: ctx_ok_def)
  moreover have "bits_left ?c = ue_bits 4 @ [True, True, True]"
    by (simp add: bits_left_def stream_bits_def byte_bits_def upt_rec ue_bits_def log2_of.simps nat_bits_def bit_0)
  ultimately show ?thesis
    using exp_golomb_decodes [of ?c] by fastforce
qed

text \<open>C24: \<open>deEmulationPrevention\<close> undoes the insertion of emulation prevention bytes exactly for the payloads in which no
  byte 3 stands behind an odd run of three or more zeros; from every other payload it takes away at least one byte.\<close>

theorem emulation_prevention_round_trip:
  assumes "pu8Buf c = escape3 0 rbsp" "iBufSize c = length (escape3 0 rbsp)"
  shows "(take (iBufSize (deEmulationPrevention c)) (pu8Buf (deEmulationPrevention c)) = rbsp \<longleftrightarrow> no_zeros_3 rbsp)
    \<and> iTotalBit (deEmulationPrevention c) \<le> 8 * length rbsp
    \<and> (iTotalBit (deEmulationPrevention c) = 8 * length rbsp \<longleftrightarrow> no_zeros_3 rbsp)"
proof -
  have q: "take (iBufSize c) (pu8Buf c) = escape3 0 rbsp"
    using assms by simp
  obtain buf' where "deEmulationPrevention c = c\<lparr>pu8Buf := buf', iBufSize := length (strip3 (escape3 0 rbsp)),
      iTotalBit := length (strip3 (escape3 0 rbsp)) * 8\<rparr>" "take (length (strip3 (escape3 0 rbsp))) buf' = strip3 (escape3 0 rbsp)"
    using deEmulationPrevention_eq [of c, unfolded q] assms by auto
  moreover have "length (strip3 (escape3 0 rbsp)) \<le> length rbsp"
    "length (strip3 (escape3 0 rbsp)) = length rbsp \<longleftrightarrow> no_zeros_3 rbsp"
    using strip3_escape3_lengths [of rbsp] by simp_all
  ultimately show ?thesis
    by (simp add: strip3_escape3_iff del: no_zeros_3_def)
qed

theorem emulation_prevention_round_trip_witness:
  "take (iBufSize (deEmulationPrevention \<lparr>pu8Buf = [9, 0, 0, 3, 1], iBufSize = 5, iTotalBit = 0, iBitPos = 0,
       iCurBitPos = 0\<rparr>)) (pu8Buf (deEmulationPrevention \<lparr>pu8Buf = [9, 0, 0, 3, 1], iBufSize = 5,
       iTotalBit = 0, iBitPos = 0, iCurBitPos = 0\<rparr>)) = [9, 0, 0, 1]"
  using emulation_prevention_round_trip [of "\<lparr>pu8Buf = [9, 0, 0, 3, 1], iBufSize = 5,
       iTotalBit = 0, iBitPos = 0, iCurBitPos = 0\<rparr>" "[9, 0, 0, 1]"] by simp

text \<open>Without that restriction it removes too much: the payload 0 0 0 3 is sent as
  0 0 3 0 3 and is read as 0 0 0, since the loop looks for the pattern again in the bytes it has
  already cleaned.\<close>

theorem emulation_prevention_removes_payload:
  "escape3 0 [0, 0, 0, 3] = [0, 0, 3, 0, 3]
   \<and> take (iBufSize (deEmulationPrevention \<lparr>pu8Buf = [0, 0, 3, 0, 3], iBufSize = 5, iTotalBit = 0,
       iBitPos = 0, iCurBitPos = 0\<rparr>)) (pu8Buf (deEmulationPrevention \<lparr>pu8Buf = [0, 0, 3, 0, 3],
       iBufSize = 5, iTotalBit = 0, iBitPos = 0, iCurBitPos = 0\<rparr>)) = [0, 0, 0]"
  by (simp add: deEmulationPrevention_def de_emulate_unfold move_down_def)

end
