(* ===== verification/Bit_Parser.thy ===== *)
theory Bit_Parser
  imports Bit_Reader
begin

text \<open>
  What the parsers of \<open>src/codec/h264/SPSParser.c\<close> share: the bit context threaded together with
  the structure that is filled, steps that read into it, and \<open>goto exit\<close>. The functions return an
  \<open>int\<close> or, where they jump to their end, \<open>Some\<close> of it. The second half is the rules by
  which a parser is run on a list of bits.
\<close>

section \<open>State and steps\<close>

record 't parse_state =
  ss_ctx :: bit_ctx
  ss_sps :: 't

type_synonym ('t, 'a) parse_m = "('t parse_state, 'a) eff"

definition bit1 :: "('t, i32) parse_m" where
  "bit1 s = (let (v, c) = getOneBit (ss_ctx s) in (Inr v, s\<lparr>ss_ctx := c\<rparr>))"

definition bits :: "nat \<Rightarrow> ('t, i32) parse_m" where
  "bits n s = (let (v, c) = getBits n (ss_ctx s) in (Inr v, s\<lparr>ss_ctx := c\<rparr>))"

definition ue :: "('t, i32) parse_m" where
  "ue s = (let (v, c) = parseUe (ss_ctx s) in (v, s\<lparr>ss_ctx := c\<rparr>))"

definition se :: "('t, i32) parse_m" where
  "se s = (let (v, c) = parseSe (ss_ctx s) in (v, s\<lparr>ss_ctx := c\<rparr>))"

definition bits_left_m :: "('t, int) parse_m" where
  "bits_left_m s = (Inr (getBitsLeft (ss_ctx s)), s)"

definition put :: "('t \<Rightarrow> 't) \<Rightarrow> ('t, unit) parse_m" where
  "put f s = (Inr (), s\<lparr>ss_sps := f (ss_sps s)\<rparr>)"

definition get :: "('t, 't) parse_m" where
  "get s = (Inr (ss_sps s), s)"

definition unless_done :: "('t, 'r option) parse_m \<Rightarrow> ('t, 'r option) parse_m \<Rightarrow> ('t, 'r option) parse_m" where
  "unless_done m k = ebind m (\<lambda>r. case r of None \<Rightarrow> k | Some x \<Rightarrow> eret (Some x))"

text \<open>What comes next depends on the structure.\<close>

definition reading :: "('t \<Rightarrow> ('t, 'a) parse_m) \<Rightarrow> ('t, 'a) parse_m" where
  "reading f s = f (ss_sps s) s"

text \<open>
  Blocks of statements: \<open>steps\<close> runs parsers one after the other, \<open>stages\<close> stops at the
  first that jumps to the end, \<open>go\<close> is a block that does not, \<open>fail_if\<close> the check that
  returns -1, \<open>into m f\<close> stores what \<open>m\<close> reads.
\<close>

definition andthen :: "('t, 'a) parse_m \<Rightarrow> ('t, 'b) parse_m \<Rightarrow> ('t, 'b) parse_m" where
  "andthen m k = ebind m (\<lambda>_. k)"

fun steps :: "('t, unit) parse_m list \<Rightarrow> ('t, unit) parse_m" where
  "steps [] = eret ()"
| "steps (m # ms) = andthen m (steps ms)"

fun stages :: "('t, 'r option) parse_m list \<Rightarrow> ('t, 'r option) parse_m" where
  "stages [] = eret None"
| "stages (m # ms) = unless_done m (stages ms)"

definition go :: "('t, unit) parse_m list \<Rightarrow> ('t, 'r option) parse_m" where
  "go ms = andthen (steps ms) (eret None)"

definition fail_if :: "('t \<Rightarrow> bool) \<Rightarrow> ('t, i32 option) parse_m" where
  "fail_if c = reading (\<lambda>t. eret (if c t then Some (- 1) else None))"

definition into :: "('t, 'a) parse_m \<Rightarrow> ('a \<Rightarrow> 't \<Rightarrow> 't) \<Rightarrow> ('t, unit) parse_m" where
  "into m f = ebind m (\<lambda>v. put (f v))"

definition skip :: "('t, 'a) parse_m \<Rightarrow> ('t, unit) parse_m" where
  "skip m = andthen m (eret ())"

definition if_set :: "('t \<Rightarrow> bool) \<Rightarrow> ('t, unit) parse_m list \<Rightarrow> ('t, unit) parse_m" where
  "if_set c ms = reading (\<lambda>t. if c t then steps ms else eret ())"

text \<open>A function called on a member of the structure, and an index into an array of \<open>n\<close> elements.\<close>

definition zoom :: "('t \<Rightarrow> 'u) \<Rightarrow> ('u \<Rightarrow> 't \<Rightarrow> 't) \<Rightarrow> ('u, 'a) parse_m \<Rightarrow> ('t, 'a) parse_m" where
  "zoom g f m s = (case m \<lparr>ss_ctx = ss_ctx s, ss_sps = g (ss_sps s)\<rparr> of
     (r, s') \<Rightarrow> (r, \<lparr>ss_ctx = ss_ctx s', ss_sps = f (ss_sps s') (ss_sps s)\<rparr>))"

definition in_array :: "nat \<Rightarrow> nat \<Rightarrow> ('t, unit) parse_m" where
  "in_array i n = (if i < n then eret () else ethrow (Undefined ''index outside an array''))"

text \<open>
  The file includes no header that defines \<open>INT_MAX\<close>, so its own definition as 65535
  counts.
\<close>

definition INT_MAX :: u32 where "INT_MAX = 65535"

section \<open>Parsing on the list of bits\<close>

text \<open>The state with the bits \<open>q\<close> left and the set \<open>sps\<close>.\<close>

definition at :: "'t parse_state \<Rightarrow> bool list \<Rightarrow> 't \<Rightarrow> bool" where
  "at s q sps \<longleftrightarrow> ctx_ok (ss_ctx s) \<and> bits_left (ss_ctx s) = q \<and> ss_sps s = sps"

definition yields :: "('t, 'v) parse_m \<Rightarrow> 't parse_state \<Rightarrow> 'v \<Rightarrow> bool list \<Rightarrow> 't \<Rightarrow> bool" where
  "yields m s v q sps \<longleftrightarrow> (\<exists>s'. m s = (Inr v, s') \<and> at s' q sps)"

named_theorems parse_steps \<open>one step of the parser on the list of bits\<close>

lemma yields_ret [parse_steps]: "at s q sps \<Longrightarrow> yields (eret v) s v q sps"
  by (auto simp: yields_def)

lemma yields_bit1 [parse_steps]:
  assumes "at s (b # q) sps"
    and "\<And>s'. at s' q sps \<Longrightarrow> yields (f (of_bool b)) s' v r sps'"
  shows "yields (ebind bit1 f) s v r sps'"
proof -
  have c: "ctx_ok (ss_ctx s)" "bits_left (ss_ctx s) = b # q" "ss_sps s = sps"
    using assms(1) by (simp_all add: at_def)
  have "at (s\<lparr>ss_ctx := advance 1 (ss_ctx s)\<rparr>) q sps"
    using advance_ok [OF c(1), of 1] c by (simp add: at_def)
  from assms(2) [OF this] show ?thesis
    using getOneBit_Cons [OF c(1,2)] by (simp add: yields_def bit1_def ebind_def)
qed

lemma yields_bits [parse_steps]:
  assumes "at s (nat_bits n x @ q) sps" "x < 2 ^ n" "n \<le> 25"
    and "\<And>s'. at s' q sps \<Longrightarrow> yields (f (word_of_nat x)) s' v r sps'"
  shows "yields (ebind (bits n) f) s v r sps'"
proof -
  have c: "ctx_ok (ss_ctx s)" "bits_left (ss_ctx s) = nat_bits n x @ q" "ss_sps s = sps"
    using assms(1) by (simp_all add: at_def)
  have "iCurBitPos (ss_ctx s) < 8"
    using c(1) by (simp add: ctx_ok_def)
  then have "getBits n (ss_ctx s)
      = (word_of_nat (bits_nat (take n (bits_left (ss_ctx s)))), advance n (ss_ctx s))"
    using c assms(3) by (intro getBits_eq) simp_all
  then have g: "getBits n (ss_ctx s) = (word_of_nat x, advance n (ss_ctx s))"
    using assms(2) by (simp add: c(2) bits_nat_nat_bits)
  have "at (s\<lparr>ss_ctx := advance n (ss_ctx s)\<rparr>) q sps"
    using advance_ok [OF c(1), of n] c by (simp add: at_def)
  from assms(4) [OF this] show ?thesis
    by (simp add: yields_def bits_def ebind_def g)
qed

lemma yields_ue [parse_steps]:
  assumes "at s (ue_bits x @ q) sps" "x + 1 < 2 ^ 26"
    and "\<And>s'. at s' q sps \<Longrightarrow> yields (f (word_of_nat x)) s' v r sps'"
  shows "yields (ebind ue f) s v r sps'"
proof -
  have c: "ctx_ok (ss_ctx s)" "bits_left (ss_ctx s) = ue_bits x @ q" "ss_sps s = sps"
    using assms(1) by (simp_all add: at_def)
  obtain c' where c': "parseUe (ss_ctx s) = (Inr (word_of_nat x), c')" "ctx_ok c'" "bits_left c' = q"
    using parseCodenum_eq [OF c(1,2) assms(2)] by (auto simp: parseUe_def)
  then have "at (s\<lparr>ss_ctx := c'\<rparr>) q sps"
    using c by (simp add: at_def)
  from assms(3) [OF this] show ?thesis
    using c' by (simp add: yields_def ue_def ebind_def)
qed

lemma yields_put [parse_steps]:
  assumes "at s q sps" "\<And>s'. at s' q (g sps) \<Longrightarrow> yields (f ()) s' v r sps'"
  shows "yields (ebind (put g) f) s v r sps'"
proof -
  have "at (s\<lparr>ss_sps := g (ss_sps s)\<rparr>) q (g sps)"
    using assms(1) by (simp add: at_def)
  from assms(2) [OF this] show ?thesis
    by (simp add: yields_def put_def ebind_def)
qed

lemma yields_get [parse_steps]:
  assumes "at s q sps" "yields (f sps) s v r sps'"
  shows "yields (ebind get f) s v r sps'"
  using assms by (simp add: yields_def get_def ebind_def at_def)

lemma yields_left [parse_steps]:
  assumes "at s q sps" "yields (f (int (length q))) s v r sps'"
  shows "yields (ebind bits_left_m f) s v r sps'"
  using assms by (simp add: yields_def bits_left_m_def ebind_def at_def getBitsLeft_eq)

lemma yields_eret_bind [parse_steps]: "yields (f x) s v r sps' \<Longrightarrow> yields (ebind (eret x) f) s v r sps'"
  by (simp add: yields_def)

lemma yields_bind:
  "yields m s v q t \<Longrightarrow> (\<And>s'. at s' q t \<Longrightarrow> yields (f v) s' w r t') \<Longrightarrow> yields (ebind m f) s w r t'"
  by (auto simp: yields_def ebind_def)

lemma yields_unless:
  assumes "yields m s None q sps" "\<And>s'. at s' q sps \<Longrightarrow> yields k s' v r sps'"
  shows "yields (unless_done m k) s v r sps'"
  using assms by (auto simp: yields_def unless_done_def ebind_def)

lemma yields_unless_ex:
  assumes "\<exists>sp. yields m s None q sp \<and> P sp" "\<And>s' sp. at s' q sp \<Longrightarrow> P sp \<Longrightarrow> \<exists>sp'. yields k s' v r sp' \<and> Q sp'"
  shows "\<exists>sp'. yields (unless_done m k) s v r sp' \<and> Q sp'"
proof -
  obtain sp s1 where s1: "m s = (Inr None, s1)" "at s1 q sp" "P sp"
    using assms(1) by (auto simp: yields_def)
  from assms(2) [OF s1(2,3)] obtain sp' where "yields k s1 v r sp'" "Q sp'"
    by blast
  moreover have "yields (unless_done m k) s v r sp'"
    using calculation(1) s1(1) by (simp add: yields_def unless_done_def ebind_def)
  ultimately show ?thesis by blast
qed

section \<open>Comparisons of small words\<close>

lemma word_small:
  assumes "i < 2 ^ 31"
  shows "unat (word_of_nat i :: u32) = i" "sint (word_of_nat i :: u32) = int i"
proof -
  show u: "unat (word_of_nat i :: u32) = i"
    using assms by (simp add: unat_of_nat)
  have "uint (word_of_nat i :: u32) = int i"
    using u by (metis uint_nat)
  then show "sint (word_of_nat i :: u32) = int i"
    using assms by (simp add: sint_uint signed_take_bit_int_eq_self)
qed

lemma word_compare:
  assumes "a < 2 ^ 31" "b < 2 ^ 31"
  shows "(word_of_nat a :: u32) \<le> word_of_nat b \<longleftrightarrow> a \<le> b"
    and "(word_of_nat a :: u32) < word_of_nat b \<longleftrightarrow> a < b"
    and "(word_of_nat a :: u32) = word_of_nat b \<longleftrightarrow> a = b"
  using assms by (simp_all add: word_le_nat_alt word_less_nat_alt word_small word_unat_eq_iff)

lemma word_compare_numeral:
  assumes "a < 2 ^ 31" "numeral k < (2 :: nat) ^ 31"
  shows "(word_of_nat a :: u32) > numeral k \<longleftrightarrow> a > numeral k"
    and "(word_of_nat a :: u32) \<ge> numeral k \<longleftrightarrow> a \<ge> numeral k"
  using word_compare [OF assms] word_compare [OF assms(2,1)] by simp_all

lemma yields_else: "\<not> c \<Longrightarrow> yields k s v r sps \<Longrightarrow> yields (if c then m else k) s v r sps"
  by simp

lemma yields_then: "c \<Longrightarrow> yields m s v r sps \<Longrightarrow> yields (if c then m else k) s v r sps"
  by simp

end
