(* ===== verification/Sps_Parser.thy ===== *)
theory Sps_Parser
  imports Bit_Parser
begin

text \<open>
  \<open>src/codec/h264/SPSParser.c\<close>, lines 602 to 1121 and 2155 to 2245, with the structures of
  \<open>include/codec/h264/SPSParser.h\<close>: the H.264 sequence parameter set.
  The functions for H.265 in the same file are in \<open>Hevc_Sets\<close> and \<open>Hevc_Parser\<close>.

  A C \<open>int\<close> is a 32-bit word whose arithmetic wraps; comparisons with an unsigned
  operand are those of \<open>word\<close>, signed ones use \<open>sint\<close>. A stage of the parser
  returns \<open>None\<close> to go on or \<open>Some r\<close> for \<open>goto exit\<close> with \<open>iRet = r\<close>.
\<close>

section \<open>Structures\<close>

record T_SPS =
  uiSpsId :: u32
  iProfileIdc :: i32
  iLevelIdc :: i32
  iChromaFormatIdc :: i32
  iTransformBypass :: i32
  iLog2MaxFrameNum :: i32
  iPocType :: i32
  iLog2MaxPocLsb :: i32
  iDeltaPicOrderAlwaysZeroFlag :: i32
  iOffsetForNonRefPic :: i32
  iOffsetForTopToBottomField :: i32
  iPocCycleLength :: i32
  iRefFrameCount :: i32
  iGapsInFrameNumAllowedFlag :: i32
  iMbWidth :: i32
  iMbHeight :: i32
  iFrameMbsOnlyFlag :: i32
  iMbAff :: i32
  iDirect8x8InferenceFlag :: i32
  iCrop :: i32
  uiCropLeft :: u32
  uiCropRight :: u32
  uiCropTop :: u32
  uiCropBottom :: u32
  iVuiParametersPresentFlag :: i32
  tSar :: "i32 \<times> i32"
  iVideoSignalTypePresentFlag :: i32
  iFullRange :: i32
  iColourDescriptionPresentFlag :: i32
  tColorPrimaries :: u32
  tColorTrc :: u32
  tColorspace :: u32
  iTimingInfoPresentFlag :: i32
  u32NumUnitsInTick :: u32
  u32TimeScale :: u32
  iFixedFrameRateFlag :: i32
  asOffsetForRefFrame :: "16 word list"
  iBitstreamRestrictionFlag :: i32
  iNumReorderFrames :: i32
  iScalingMatrixPresent :: i32
  aau8ScalingMatrix4 :: "bytes list"
  aau8ScalingMatrix8 :: "bytes list"
  iNalHrdParametersPresentFlag :: i32
  iVclHrdParametersPresentFlag :: i32
  iPicStructPresentFlag :: i32
  iTimeOffsetLength :: i32
  iCpbCnt :: i32
  iInitialCpbRemovalDelayLength :: i32
  iCpbRemovalDelayLength :: i32
  iDpbOutputDelayLength :: i32
  iBitDepthLuma :: i32
  iBitDepthChroma :: i32
  iResidualColorTransformFlag :: i32
  iConstraintSetFlags :: i32
  iNew :: i32

definition zero_sps :: T_SPS where
  "zero_sps = \<lparr>uiSpsId = 0, iProfileIdc = 0, iLevelIdc = 0, iChromaFormatIdc = 0,
     iTransformBypass = 0, iLog2MaxFrameNum = 0, iPocType = 0, iLog2MaxPocLsb = 0,
     iDeltaPicOrderAlwaysZeroFlag = 0, iOffsetForNonRefPic = 0, iOffsetForTopToBottomField = 0,
     iPocCycleLength = 0, iRefFrameCount = 0, iGapsInFrameNumAllowedFlag = 0, iMbWidth = 0,
     iMbHeight = 0, iFrameMbsOnlyFlag = 0, iMbAff = 0, iDirect8x8InferenceFlag = 0, iCrop = 0,
     uiCropLeft = 0, uiCropRight = 0, uiCropTop = 0, uiCropBottom = 0,
     iVuiParametersPresentFlag = 0, tSar = (0, 0), iVideoSignalTypePresentFlag = 0,
     iFullRange = 0, iColourDescriptionPresentFlag = 0, tColorPrimaries = 0, tColorTrc = 0,
     tColorspace = 0, iTimingInfoPresentFlag = 0, u32NumUnitsInTick = 0, u32TimeScale = 0,
     iFixedFrameRateFlag = 0, asOffsetForRefFrame = replicate 256 0,
     iBitstreamRestrictionFlag = 0, iNumReorderFrames = 0, iScalingMatrixPresent = 0,
     aau8ScalingMatrix4 = replicate 6 (replicate 16 0),
     aau8ScalingMatrix8 = replicate 6 (replicate 64 0), iNalHrdParametersPresentFlag = 0,
     iVclHrdParametersPresentFlag = 0, iPicStructPresentFlag = 0, iTimeOffsetLength = 0,
     iCpbCnt = 0, iInitialCpbRemovalDelayLength = 0, iCpbRemovalDelayLength = 0,
     iDpbOutputDelayLength = 0, iBitDepthLuma = 0, iBitDepthChroma = 0,
     iResidualColorTransformFlag = 0, iConstraintSetFlags = 0, iNew = 0\<rparr>"

text \<open>The context and the set that the functions of the parser share.\<close>

type_synonym sps_state = "T_SPS parse_state"

type_synonym 'a sps_m = "(T_SPS, 'a) parse_m"

section \<open>Scaling lists\<close>

definition sg_aau8DefaultScaling4 :: "bytes list" where
  "sg_aau8DefaultScaling4 = [
     [6, 13, 20, 28, 13, 20, 28, 32, 20, 28, 32, 37, 28, 32, 37, 42],
     [10, 14, 20, 24, 14, 20, 24, 27, 20, 24, 27, 30, 24, 27, 30, 34]]"

definition sg_aau8DefaultScaling8 :: "bytes list" where
  "sg_aau8DefaultScaling8 = [
     [6, 10, 13, 16, 18, 23, 25, 27, 10, 11, 16, 18, 23, 25, 27, 29,
      13, 16, 18, 23, 25, 27, 29, 31, 16, 18, 23, 25, 27, 29, 31, 33,
      18, 23, 25, 27, 29, 31, 33, 36, 23, 25, 27, 29, 31, 33, 36, 38,
      25, 27, 29, 31, 33, 36, 38, 40, 27, 29, 31, 33, 36, 38, 40, 42],
     [9, 13, 15, 17, 19, 21, 22, 24, 13, 13, 17, 19, 21, 22, 24, 25,
      15, 17, 19, 21, 22, 24, 25, 27, 17, 19, 21, 22, 24, 25, 27, 28,
      19, 21, 22, 24, 25, 27, 28, 30, 21, 22, 24, 25, 27, 28, 30, 32,
      22, 24, 25, 27, 28, 30, 32, 33, 24, 25, 27, 28, 30, 32, 33, 35]]"

definition sg_au8ZigzagScan :: "nat list" where
  "sg_au8ZigzagScan = [0 + 0 * 4, 1 + 0 * 4, 0 + 1 * 4, 0 + 2 * 4, 1 + 1 * 4, 2 + 0 * 4,
     3 + 0 * 4, 2 + 1 * 4, 1 + 2 * 4, 0 + 3 * 4, 1 + 3 * 4, 2 + 2 * 4, 3 + 1 * 4, 3 + 2 * 4,
     2 + 3 * 4, 3 + 3 * 4, 0]"

definition g_au8FfZigzagDirect :: "nat list" where
  "g_au8FfZigzagDirect = [0, 1, 8, 16, 9, 2, 3, 10, 17, 24, 32, 25, 18, 11, 4, 5,
     12, 19, 26, 33, 40, 48, 41, 34, 27, 20, 13, 6, 7, 14, 21, 28,
     35, 42, 49, 56, 57, 50, 43, 36, 29, 22, 15, 23, 30, 37, 44, 51,
     58, 59, 52, 45, 38, 31, 39, 46, 53, 60, 61, 54, 47, 55, 62, 63]"

text \<open>The loop of \<open>decodeScalingList\<close>, from its variables on.\<close>

function scaling_loop :: "nat \<Rightarrow> nat \<Rightarrow> nat list \<Rightarrow> i32 \<Rightarrow> i32 \<Rightarrow> bytes \<Rightarrow> bytes \<Rightarrow> bytes sps_m" where
  "scaling_loop i iSize scan iLast iNext jvt factors =
     (if i < iSize then
        ebind (if iNext \<noteq> 0 then ebind se (\<lambda>v. eret ((iLast + v) AND 0xff)) else eret iNext)
          (\<lambda>iNext. if i = 0 \<and> iNext = 0 then eret (take iSize jvt)
            else let iLast = (if iNext \<noteq> 0 then iNext else iLast) in
              scaling_loop (i + 1) iSize scan iLast iNext jvt
                (factors[scan ! i := ucast iLast]))
      else eret factors)"
  by pat_completeness auto
termination
  by (relation "measure (\<lambda>(i, iSize, _). iSize - i)") auto

declare scaling_loop.simps [simp del]

definition decodeScalingList :: "bytes \<Rightarrow> nat \<Rightarrow> bytes \<Rightarrow> bytes \<Rightarrow> bytes sps_m" where
  "decodeScalingList factors iSize jvt fallback =
     ebind bit1 (\<lambda>b. if b = 0 then eret (take iSize fallback)
       else scaling_loop 0 iSize (if iSize = 16 then sg_au8ZigzagScan else g_au8FfZigzagDirect)
              8 8 jvt factors)"

text \<open>One call for matrix \<open>k\<close>, whose fallback is a default or an earlier matrix.\<close>

definition scaling4 :: "nat \<Rightarrow> bytes \<Rightarrow> (T_SPS \<Rightarrow> bytes) \<Rightarrow> unit sps_m" where
  "scaling4 k jvt fallback = ebind get (\<lambda>sps.
     ebind (decodeScalingList (aau8ScalingMatrix4 sps ! k) 16 jvt (fallback sps)) (\<lambda>m.
     put (\<lambda>sps. sps\<lparr>aau8ScalingMatrix4 := (aau8ScalingMatrix4 sps)[k := m]\<rparr>)))"

definition scaling8 :: "nat \<Rightarrow> bytes \<Rightarrow> (T_SPS \<Rightarrow> bytes) \<Rightarrow> unit sps_m" where
  "scaling8 k jvt fallback = ebind get (\<lambda>sps.
     ebind (decodeScalingList (aau8ScalingMatrix8 sps ! k) 64 jvt (fallback sps)) (\<lambda>m.
     put (\<lambda>sps. sps\<lparr>aau8ScalingMatrix8 := (aau8ScalingMatrix8 sps)[k := m]\<rparr>)))"

text \<open>
  \<open>decodeScalingMatrices\<close> as \<open>h264DecSeqParameterSet\<close> calls it: \<open>iIsSps\<close> is 1,
  the matrices are those of the set, so the fallbacks of the first lists are the defaults.
\<close>

definition decodeScalingMatrices :: "unit sps_m" where
  "decodeScalingMatrices =
     (let d4 = sg_aau8DefaultScaling4; d8 = sg_aau8DefaultScaling8;
          m4 = (\<lambda>k sps. aau8ScalingMatrix4 sps ! k); m8 = (\<lambda>k sps. aau8ScalingMatrix8 sps ! k) in
      ebind bit1 (\<lambda>b. if b = 0 then eret ()
      else
        ebind (put (\<lambda>sps. sps\<lparr>iScalingMatrixPresent := iScalingMatrixPresent sps OR 1\<rparr>)) (\<lambda>_.
        ebind (scaling4 0 (d4 ! 0) (\<lambda>_. d4 ! 0)) (\<lambda>_.
        ebind (scaling4 1 (d4 ! 0) (m4 0)) (\<lambda>_.
        ebind (scaling4 2 (d4 ! 0) (m4 1)) (\<lambda>_.
        ebind (scaling4 3 (d4 ! 1) (\<lambda>_. d4 ! 1)) (\<lambda>_.
        ebind (scaling4 4 (d4 ! 1) (m4 3)) (\<lambda>_.
        ebind (scaling4 5 (d4 ! 1) (m4 4)) (\<lambda>_.
        ebind (scaling8 0 (d8 ! 0) (\<lambda>_. d8 ! 0)) (\<lambda>_.
        ebind (scaling8 3 (d8 ! 1) (\<lambda>_. d8 ! 1)) (\<lambda>_.
        ebind get (\<lambda>sps. if iChromaFormatIdc sps = 3 then
          ebind (scaling8 1 (d8 ! 0) (m8 0)) (\<lambda>_.
          ebind (scaling8 4 (d8 ! 1) (m8 3)) (\<lambda>_.
          ebind (scaling8 2 (d8 ! 0) (m8 1)) (\<lambda>_.
          scaling8 5 (d8 ! 1) (m8 4))))
        else eret ()))))))))))))"

section \<open>HRD and VUI parameters\<close>

fun skip_cpb :: "nat \<Rightarrow> unit sps_m" where
  "skip_cpb 0 = eret ()"
| "skip_cpb (Suc n) = ebind ue (\<lambda>_. ebind ue (\<lambda>_. ebind bit1 (\<lambda>_. skip_cpb n)))"

definition decodeHrdPAarameters :: "i32 sps_m" where
  "decodeHrdPAarameters =
     ebind ue (\<lambda>iCpbCount. if iCpbCount > 32 then eret (- 1)
     else
       ebind (bits 4) (\<lambda>_. ebind (bits 4) (\<lambda>_.
       ebind (skip_cpb (unat iCpbCount)) (\<lambda>_.
       ebind (bits 5) (\<lambda>v. ebind (put (\<lambda>sps. sps\<lparr>iInitialCpbRemovalDelayLength := v + 1\<rparr>)) (\<lambda>_.
       ebind (bits 5) (\<lambda>v. ebind (put (\<lambda>sps. sps\<lparr>iCpbRemovalDelayLength := v + 1\<rparr>)) (\<lambda>_.
       ebind (bits 5) (\<lambda>v. ebind (put (\<lambda>sps. sps\<lparr>iDpbOutputDelayLength := v + 1\<rparr>)) (\<lambda>_.
       ebind (bits 5) (\<lambda>v. ebind (put (\<lambda>sps. sps\<lparr>iTimeOffsetLength := v, iCpbCnt := iCpbCount\<rparr>)) (\<lambda>_.
       eret 0))))))))))))"

definition EXTENDED_SAR :: u32 where "EXTENDED_SAR = 255"

definition sg_atFfH264PixelSspect :: "(i32 \<times> i32) list" where
  "sg_atFfH264PixelSspect = [(0, 1), (1, 1), (12, 11), (10, 11), (16, 11), (40, 33), (24, 11),
     (20, 11), (32, 11), (80, 33), (18, 11), (15, 11), (64, 33), (160, 99), (4, 3), (3, 2), (2, 1)]"

definition AVCOL_PRI_NB :: u32 where "AVCOL_PRI_NB = 10"
definition AVCOL_TRC_NB :: u32 where "AVCOL_TRC_NB = 16"
definition AVCOL_SPC_NB :: u32 where "AVCOL_SPC_NB = 11"
definition AVCOL_PRI_UNSPECIFIED :: u32 where "AVCOL_PRI_UNSPECIFIED = 2"
definition AVCOL_TRC_UNSPECIFIED :: u32 where "AVCOL_TRC_UNSPECIFIED = 2"
definition AVCOL_SPC_UNSPECIFIED :: u32 where "AVCOL_SPC_UNSPECIFIED = 2"

definition vui_aspect :: "i32 option sps_m" where
  "vui_aspect = ebind bit1 (\<lambda>present. if present \<noteq> 0 then
       ebind (bits 8) (\<lambda>idc.
       if idc = EXTENDED_SAR then
         ebind (bits 16) (\<lambda>n. ebind (put (\<lambda>sps. sps\<lparr>tSar := (n, snd (tSar sps))\<rparr>)) (\<lambda>_.
         ebind (bits 16) (\<lambda>d. ebind (put (\<lambda>sps. sps\<lparr>tSar := (fst (tSar sps), d)\<rparr>)) (\<lambda>_. eret None))))
       else if unat idc < length sg_atFfH264PixelSspect then
         ebind (put (\<lambda>sps. sps\<lparr>tSar := sg_atFfH264PixelSspect ! unat idc\<rparr>)) (\<lambda>_. eret None)
       else eret (Some (- 1)))
     else ebind (put (\<lambda>sps. sps\<lparr>tSar := (0, 0)\<rparr>)) (\<lambda>_. eret None))"

definition vui_colour :: "i32 option sps_m" where
  "vui_colour =
     ebind (ebind bit1 (\<lambda>ov. if ov \<noteq> 0 then ebind bit1 (\<lambda>_. eret ()) else eret ())) (\<lambda>_.
     ebind bit1 (\<lambda>v. ebind (put (\<lambda>sps. sps\<lparr>iVideoSignalTypePresentFlag := v\<rparr>)) (\<lambda>_.
     ebind (if v \<noteq> 0 then
       ebind (bits 3) (\<lambda>_.
       ebind bit1 (\<lambda>f. ebind (put (\<lambda>sps. sps\<lparr>iFullRange := f\<rparr>)) (\<lambda>_.
       ebind bit1 (\<lambda>cd. ebind (put (\<lambda>sps. sps\<lparr>iColourDescriptionPresentFlag := cd\<rparr>)) (\<lambda>_.
       if cd \<noteq> 0 then
         ebind (bits 8) (\<lambda>p. ebind (bits 8) (\<lambda>t. ebind (bits 8) (\<lambda>sp.
         put (\<lambda>sps. sps\<lparr>
           tColorPrimaries := (if p \<ge> AVCOL_PRI_NB then AVCOL_PRI_UNSPECIFIED else p),
           tColorTrc := (if t \<ge> AVCOL_TRC_NB then AVCOL_TRC_UNSPECIFIED else t),
           tColorspace := (if sp \<ge> AVCOL_SPC_NB then AVCOL_SPC_UNSPECIFIED else sp)\<rparr>))))
       else eret ())))))
     else eret ()) (\<lambda>_.
     ebind (ebind bit1 (\<lambda>ch. if ch \<noteq> 0 then ebind ue (\<lambda>_. ebind ue (\<lambda>_. eret ())) else eret ())) (\<lambda>_.
     ebind bits_left_m (\<lambda>n. if n < 10 then eret (Some 0) else eret None))))))"

definition vui_timing :: "i32 option sps_m" where
  "vui_timing =
     ebind bit1 (\<lambda>t. ebind (put (\<lambda>sps. sps\<lparr>iTimingInfoPresentFlag := t\<rparr>)) (\<lambda>_.
     if t \<noteq> 0 then
       ebind (bits 32) (\<lambda>units. ebind (bits 32) (\<lambda>scale.
       ebind (if units = 0 \<or> scale = 0 then put (\<lambda>sps. sps\<lparr>iTimingInfoPresentFlag := 0\<rparr>)
         else put (\<lambda>sps. sps\<lparr>u32NumUnitsInTick := units, u32TimeScale := scale\<rparr>)) (\<lambda>_.
       ebind bit1 (\<lambda>f. ebind (put (\<lambda>sps. sps\<lparr>iFixedFrameRateFlag := f\<rparr>)) (\<lambda>_. eret None)))))
     else eret None))"

definition vui_hrd :: "i32 option sps_m" where
  "vui_hrd =
     ebind bit1 (\<lambda>n. ebind (put (\<lambda>sps. sps\<lparr>iNalHrdParametersPresentFlag := n\<rparr>)) (\<lambda>_.
     ebind (if n \<noteq> 0 then decodeHrdPAarameters else eret 0) (\<lambda>r.
     if sint r < 0 then eret (Some (- 1))
     else ebind bit1 (\<lambda>v. ebind (put (\<lambda>sps. sps\<lparr>iVclHrdParametersPresentFlag := v\<rparr>)) (\<lambda>_.
     ebind (if v \<noteq> 0 then decodeHrdPAarameters else eret 0) (\<lambda>r.
     if sint r < 0 then eret (Some (- 1))
     else ebind (if n \<noteq> 0 \<or> v \<noteq> 0 then ebind bit1 (\<lambda>_. eret ()) else eret ()) (\<lambda>_.
     ebind bit1 (\<lambda>p. ebind (put (\<lambda>sps. sps\<lparr>iPicStructPresentFlag := p\<rparr>)) (\<lambda>_.
     ebind bits_left_m (\<lambda>l. if l = 0 then eret (Some 0) else eret None)))))))))) "

definition vui_restriction :: "i32 option sps_m" where
  "vui_restriction =
     ebind bit1 (\<lambda>b. ebind (put (\<lambda>sps. sps\<lparr>iBitstreamRestrictionFlag := b\<rparr>)) (\<lambda>_.
     if b \<noteq> 0 then
       ebind bit1 (\<lambda>_. ebind ue (\<lambda>_. ebind ue (\<lambda>_. ebind ue (\<lambda>_. ebind ue (\<lambda>_.
       ebind ue (\<lambda>n. ebind (put (\<lambda>sps. sps\<lparr>iNumReorderFrames := n\<rparr>)) (\<lambda>_.
       ebind ue (\<lambda>_.
       ebind bits_left_m (\<lambda>l.
       ebind (if l < 0 then put (\<lambda>sps. sps\<lparr>iNumReorderFrames := 0, iBitstreamRestrictionFlag := 0\<rparr>)
         else eret ()) (\<lambda>_.
       ebind get (\<lambda>sps. if iNumReorderFrames sps > 16 then
         ebind (put (\<lambda>sps. sps\<lparr>iNumReorderFrames := 16\<rparr>)) (\<lambda>_. eret (Some (- 1)))
       else eret None)))))))))))
     else eret None))"

definition decodeVuiParameters :: "i32 sps_m" where
  "decodeVuiParameters =
     ebind (unless_done vui_aspect (unless_done vui_colour (unless_done vui_timing
       (unless_done vui_hrd vui_restriction)))) (\<lambda>r.
     case r of None \<Rightarrow> eret 0 | Some x \<Rightarrow> eret x)"

section \<open>The sequence parameter set\<close>

definition MAX_SPS_COUNT :: u32 where "MAX_SPS_COUNT = 32"

definition sps_head :: "i32 option sps_m" where
  "sps_head =
     ebind (bits 8) (\<lambda>profile.
     ebind bit1 (\<lambda>f0. ebind bit1 (\<lambda>f1. ebind bit1 (\<lambda>f2.
     ebind bit1 (\<lambda>f3. ebind bit1 (\<lambda>f4. ebind bit1 (\<lambda>f5.
     ebind (bits 2) (\<lambda>_. ebind (bits 8) (\<lambda>level. ebind ue (\<lambda>sps_id.
     if sps_id \<ge> MAX_SPS_COUNT then eret (Some (- 1))
     else ebind (put (\<lambda>sps. sps\<lparr>uiSpsId := sps_id, iTimeOffsetLength := 24,
         iProfileIdc := profile,
         iConstraintSetFlags := f0 OR push_bit 1 f1 OR push_bit 2 f2 OR push_bit 3 f3
           OR push_bit 4 f4 OR push_bit 5 f5,
         iLevelIdc := level, iFullRange := - 1,
         aau8ScalingMatrix4 := replicate 6 (replicate 16 16),
         aau8ScalingMatrix8 := replicate 6 (replicate 64 16),
         iScalingMatrixPresent := 0, tColorspace := 2\<rparr>)) (\<lambda>_. eret None)))))))))))"

definition high_profile :: "i32 \<Rightarrow> bool" where
  "high_profile p \<longleftrightarrow> p \<in> {100, 110, 122, 244, 44, 83, 86, 118, 128, 138, 144}"

definition sps_depth :: "i32 option sps_m" where
  "sps_depth =
     ebind ue (\<lambda>l. ebind (put (\<lambda>sps. sps\<lparr>iBitDepthLuma := l + 8\<rparr>)) (\<lambda>_.
     ebind ue (\<lambda>c. ebind (put (\<lambda>sps. sps\<lparr>iBitDepthChroma := c + 8\<rparr>)) (\<lambda>_.
     if c + 8 \<noteq> l + 8 then eret (Some (- 1))
     else if sint (l + 8) < 8 \<or> sint (l + 8) > 14 \<or> sint (c + 8) < 8 \<or> sint (c + 8) > 14
       then eret (Some (- 1))
     else ebind bit1 (\<lambda>b. ebind (put (\<lambda>sps. sps\<lparr>iTransformBypass := b\<rparr>)) (\<lambda>_.
       ebind decodeScalingMatrices (\<lambda>_. eret None)))))))"

definition sps_chroma :: "i32 option sps_m" where
  "sps_chroma = ebind get (\<lambda>sps.
     if high_profile (iProfileIdc sps) then
       ebind ue (\<lambda>idc. ebind (put (\<lambda>sps. sps\<lparr>iChromaFormatIdc := idc\<rparr>)) (\<lambda>_.
       if idc > 3 then eret (Some (- 1))
       else if idc = 3 then
         ebind bit1 (\<lambda>r. ebind (put (\<lambda>sps. sps\<lparr>iResidualColorTransformFlag := r\<rparr>)) (\<lambda>_.
         if r \<noteq> 0 then eret (Some (- 1)) else sps_depth))
       else sps_depth))
     else ebind (put (\<lambda>sps. sps\<lparr>iChromaFormatIdc := 1, iBitDepthLuma := 8, iBitDepthChroma := 8\<rparr>))
       (\<lambda>_. eret None))"

definition sps_frame_num :: "i32 option sps_m" where
  "sps_frame_num =
     ebind ue (\<lambda>m. if sint m < 4 - 4 \<or> sint m > (12 + 4) - 4 then eret (Some (- 1))
     else ebind (put (\<lambda>sps. sps\<lparr>iLog2MaxFrameNum := m + 4\<rparr>)) (\<lambda>_. eret None))"

fun ref_offsets :: "nat \<Rightarrow> nat \<Rightarrow> unit sps_m" where
  "ref_offsets i 0 = eret ()"
| "ref_offsets i (Suc n) = ebind se (\<lambda>v.
     ebind (put (\<lambda>sps. sps\<lparr>asOffsetForRefFrame := (asOffsetForRefFrame sps)[i := ucast v]\<rparr>)) (\<lambda>_.
     ref_offsets (i + 1) n))"

definition sps_poc :: "i32 option sps_m" where
  "sps_poc =
     ebind ue (\<lambda>ty. ebind (put (\<lambda>sps. sps\<lparr>iPocType := ty\<rparr>)) (\<lambda>_.
     if ty = 0 then
       ebind ue (\<lambda>t. if t > 12 then eret (Some (- 1))
       else ebind (put (\<lambda>sps. sps\<lparr>iLog2MaxPocLsb := t + 4\<rparr>)) (\<lambda>_. eret None))
     else if ty = 1 then
       ebind bit1 (\<lambda>z. ebind (put (\<lambda>sps. sps\<lparr>iDeltaPicOrderAlwaysZeroFlag := z\<rparr>)) (\<lambda>_.
       ebind se (\<lambda>a. ebind (put (\<lambda>sps. sps\<lparr>iOffsetForNonRefPic := a\<rparr>)) (\<lambda>_.
       ebind se (\<lambda>b. ebind (put (\<lambda>sps. sps\<lparr>iOffsetForTopToBottomField := b\<rparr>)) (\<lambda>_.
       ebind ue (\<lambda>n. ebind (put (\<lambda>sps. sps\<lparr>iPocCycleLength := n\<rparr>)) (\<lambda>_.
       if n \<ge> 256 then eret (Some (- 1))
       else ebind (ref_offsets 0 (unat n)) (\<lambda>_. eret None)))))))))
     else if ty \<noteq> 2 then eret (Some (- 1))
     else eret None))"

definition sps_size :: "i32 option sps_m" where
  "sps_size =
     ebind ue (\<lambda>n. ebind (put (\<lambda>sps. sps\<lparr>iRefFrameCount := n\<rparr>)) (\<lambda>_.
     if sint n > 36 - 2 \<or> n > 16 then eret (Some (- 1))
     else
       ebind bit1 (\<lambda>g. ebind (put (\<lambda>sps. sps\<lparr>iGapsInFrameNumAllowedFlag := g\<rparr>)) (\<lambda>_.
       ebind ue (\<lambda>w. ebind (put (\<lambda>sps. sps\<lparr>iMbWidth := w + 1\<rparr>)) (\<lambda>_.
       ebind ue (\<lambda>h. ebind (put (\<lambda>sps. sps\<lparr>iMbHeight := h + 1\<rparr>)) (\<lambda>_.
       ebind bit1 (\<lambda>f. ebind (put (\<lambda>sps. sps\<lparr>iFrameMbsOnlyFlag := f\<rparr>)) (\<lambda>_.
       ebind (if f = 0 then bit1 else eret 0) (\<lambda>a. ebind (put (\<lambda>sps. sps\<lparr>iMbAff := a\<rparr>)) (\<lambda>_.
       ebind bit1 (\<lambda>d. ebind (put (\<lambda>sps. sps\<lparr>iDirect8x8InferenceFlag := d\<rparr>)) (\<lambda>_.
       ebind bit1 (\<lambda>c. ebind (put (\<lambda>sps. sps\<lparr>iCrop := c\<rparr>)) (\<lambda>_. eret None))))))))))))))))"

definition sps_crop :: "i32 option sps_m" where
  "sps_crop = ebind get (\<lambda>sps.
     if iCrop sps \<noteq> 0 then
       ebind ue (\<lambda>left. ebind ue (\<lambda>right. ebind ue (\<lambda>top. ebind ue (\<lambda>bottom.
       let width = 16 * iMbWidth sps;
           height = 16 * iMbHeight sps * (2 - iFrameMbsOnlyFlag sps);
           vsub = (if iChromaFormatIdc sps = 1 then 1 else 0);
           hsub = (if iChromaFormatIdc sps = 1 \<or> iChromaFormatIdc sps = 2 then 1 else 0);
           step_x = push_bit hsub 1;
           step_y = push_bit vsub (2 - iFrameMbsOnlyFlag sps);
           mask = drop_bit (if sint (iBitDepthLuma sps) > 8 then 1 else 0) 0x1F;
           left = (if left AND mask \<noteq> 0 then left AND NOT mask else left)
       in if left > INT_MAX div 4 div step_x \<or> right > INT_MAX div 4 div step_x
            \<or> top > INT_MAX div 4 div step_y \<or> bottom > INT_MAX div 4 div step_y
            \<or> (left + right) * step_x \<ge> width \<or> (top + bottom) * step_y \<ge> height
          then eret (Some (- 1))
          else ebind (put (\<lambda>sps. sps\<lparr>uiCropLeft := left * step_x, uiCropRight := right * step_x,
              uiCropTop := top * step_y, uiCropBottom := bottom * step_y\<rparr>)) (\<lambda>_. eret None)))))
     else ebind (put (\<lambda>sps. sps\<lparr>uiCropLeft := 0, uiCropRight := 0, uiCropTop := 0,
       uiCropBottom := 0, iCrop := 0\<rparr>)) (\<lambda>_. eret None))"

definition sps_tail :: "i32 option sps_m" where
  "sps_tail =
     ebind bit1 (\<lambda>v. ebind (put (\<lambda>sps. sps\<lparr>iVuiParametersPresentFlag := v\<rparr>)) (\<lambda>_.
     ebind (if v \<noteq> 0 then decodeVuiParameters else eret 0) (\<lambda>ret.
     if sint ret < 0 then eret (Some 0)
     else ebind bits_left_m (\<lambda>l.
       ebind (put (\<lambda>sps. sps\<lparr>tSar := (if snd (tSar sps) = 0 then (fst (tSar sps), 1) else tSar sps),
           iNew := 1\<rparr>)) (\<lambda>_.
       eret (if l < 0 then Some (- 1) else None))))))"

definition h264DecSeqParameterSet :: "bit_ctx \<Rightarrow> i32 res \<times> T_SPS" where
  "h264DecSeqParameterSet src =
     (let s = \<lparr>ss_ctx = deEmulationPrevention src, ss_sps = zero_sps\<rparr>;
          (r, s') = unless_done sps_head (unless_done sps_chroma (unless_done sps_frame_num
            (unless_done sps_poc (unless_done sps_size (unless_done sps_crop sps_tail))))) s
      in (res_bind r (\<lambda>x. Inr (case x of None \<Rightarrow> 0 | Some ret \<Rightarrow> ret)), ss_sps s'))"

section \<open>What the track takes from the set\<close>

definition h264GetWidthHeight :: "T_SPS \<Rightarrow> i32 \<times> i32" where
  "h264GetWidthHeight sps =
     (let coded_width = 16 * iMbWidth sps; coded_height = 16 * iMbHeight sps;
          width = coded_width - (uiCropRight sps + uiCropLeft sps);
          height = coded_height - (uiCropTop sps + uiCropBottom sps)
      in if sint width \<le> 0 \<or> sint height \<le> 0 then (coded_width, coded_height)
         else (width, height))"

definition h264GetFormat :: "T_SPS \<Rightarrow> i32" where
  "h264GetFormat sps = iFrameMbsOnlyFlag sps"

text \<open>
  The frame rate is \<open>(float)u32TimeScale / (float)u32NumUnitsInTick / 2.0\<close>; the model keeps the
  two operands, and \<open>None\<close> for the rate 0.
\<close>

definition h264GeFramerate :: "T_SPS \<Rightarrow> (u32 \<times> u32) option" where
  "h264GeFramerate sps = (if iTimingInfoPresentFlag sps \<noteq> 0
     then Some (u32TimeScale sps, u32NumUnitsInTick sps) else None)"

section \<open>A reference writer of parameter sets\<close>

text \<open>
  The syntax of the standard (7.3.2.1.1) for the profiles without the chroma fields, without
  VUI, and with a picture order count of type 0 or 2.
\<close>

record sps_fields =
  s_profile :: nat
  s_constraints :: "bool list"
  s_level :: nat
  s_id :: nat
  s_frame_num :: nat
  s_poc_lsb :: "nat option"
  s_refs :: nat
  s_gaps :: bool
  s_width :: nat
  s_height :: nat
  s_frame_mbs_only :: bool
  s_mbaff :: bool
  s_direct :: bool
  s_crop :: "(nat \<times> nat \<times> nat \<times> nat) option"

definition sps_bits :: "sps_fields \<Rightarrow> bool list" where
  "sps_bits p = nat_bits 8 (s_profile p) @ s_constraints p @ nat_bits 2 0 @ nat_bits 8 (s_level p)
     @ ue_bits (s_id p) @ ue_bits (s_frame_num p)
     @ (case s_poc_lsb p of None \<Rightarrow> ue_bits 2 | Some n \<Rightarrow> ue_bits 0 @ ue_bits n)
     @ ue_bits (s_refs p) @ [s_gaps p] @ ue_bits (s_width p - 1) @ ue_bits (s_height p - 1)
     @ [s_frame_mbs_only p] @ (if s_frame_mbs_only p then [] else [s_mbaff p]) @ [s_direct p]
     @ (case s_crop p of None \<Rightarrow> [False]
        | Some (l, r, t, b) \<Rightarrow> True # ue_bits l @ ue_bits r @ ue_bits t @ ue_bits b)
     @ [False]"

definition sps_unit_y :: "sps_fields \<Rightarrow> nat" where
  "sps_unit_y p = (if s_frame_mbs_only p then 2 else 4)"

text \<open>
  The picture as the standard has it (7-13 to 7-22): a map unit is one macroblock high in a frame and two in a set for
  fields, and a crop offset counts two luma samples, four vertically in a set for fields.
\<close>

definition frame_lines :: "sps_fields \<Rightarrow> nat" where
  "frame_lines p = (if s_frame_mbs_only p then 1 else 2) * (16 * s_height p)"

text \<open>Limits on the size, and a crop that leaves something of the picture.\<close>

definition sps_valid :: "sps_fields \<Rightarrow> bool" where
  "sps_valid p \<longleftrightarrow> s_profile p < 256 \<and> \<not> high_profile (word_of_nat (s_profile p))
     \<and> length (s_constraints p) = 6 \<and> s_level p < 256 \<and> s_id p < 32 \<and> s_frame_num p \<le> 12
     \<and> (case s_poc_lsb p of None \<Rightarrow> True | Some n \<Rightarrow> n \<le> 12) \<and> s_refs p \<le> 16
     \<and> 0 < s_width p \<and> s_width p < 1024 \<and> 0 < s_height p \<and> frame_lines p < 16384
     \<and> (case s_crop p of None \<Rightarrow> True | Some (l, r, t, b) \<Rightarrow> l mod 32 = 0
          \<and> 2 * (l + r) < 16 * s_width p \<and> sps_unit_y p * (t + b) < frame_lines p)"

lemma yields_head:
  assumes "at s (nat_bits 8 pr @ cs @ nat_bits 2 0 @ nat_bits 8 lv @ ue_bits i @ q) sp"
    and "pr < 256" "length cs = 6" "lv < 256" "i < 32"
  shows "\<exists>sp'. yields sps_head s None q sp' \<and> iProfileIdc sp' = word_of_nat pr
    \<and> iTimingInfoPresentFlag sp' = iTimingInfoPresentFlag sp"
proof -
  obtain f0 f1 f2 f3 f4 f5 where cs: "cs = [f0, f1, f2, f3, f4, f5]"
    using assms(3) by (auto simp: numeral_eq_Suc length_Suc_conv)
  have i: "\<not> word_of_nat i \<ge> MAX_SPS_COUNT"
    using assms(5) word_compare_numeral(2) [of i "num.Bit0 (num.Bit0 (num.Bit0 (num.Bit0 (num.Bit0 num.One))))"]
    by (simp add: MAX_SPS_COUNT_def)
  have n: "pr < 2 ^ 8" "lv < 2 ^ 8" "i + 1 < 2 ^ 26"
    using assms by simp_all
  have at: "at s (nat_bits 8 pr @ f0 # f1 # f2 # f3 # f4 # f5 # nat_bits 2 0 @ nat_bits 8 lv @ ue_bits i @ q) sp"
    using assms(1) cs by simp
  show ?thesis
    unfolding sps_head_def
    by (rule exI, rule conjI, insert at,
        (rule parse_steps, assumption | rule yields_else [OF i] | rule n | (simp; fail))+)
qed

lemma yields_chroma:
  assumes "at s q sp" "\<not> high_profile (iProfileIdc sp)"
  shows "\<exists>sp'. yields sps_chroma s None q sp' \<and> iChromaFormatIdc sp' = 1 \<and> iBitDepthLuma sp' = 8
    \<and> iTimingInfoPresentFlag sp' = iTimingInfoPresentFlag sp"
  unfolding sps_chroma_def
  by (rule exI, rule conjI, insert assms(1),
      (rule parse_steps, assumption | rule yields_else [OF assms(2)] | (simp; fail))+)

lemma yields_frame_num:
  assumes "at s (ue_bits m @ q) sp" "m \<le> 12"
  shows "\<exists>sp'. yields sps_frame_num s None q sp' \<and> iChromaFormatIdc sp' = iChromaFormatIdc sp
    \<and> iBitDepthLuma sp' = iBitDepthLuma sp
    \<and> iTimingInfoPresentFlag sp' = iTimingInfoPresentFlag sp"
proof -
  have n: "m + 1 < 2 ^ 26"
    using assms(2) by simp
  have i: "\<not> (sint (word_of_nat m :: i32) < 4 - 4 \<or> sint (word_of_nat m :: i32) > (12 + 4) - 4)"
    using word_small(2) [of m] assms(2) by simp
  show ?thesis
    unfolding sps_frame_num_def
    by (rule exI, rule conjI, insert assms(1),
        (rule parse_steps, assumption | rule yields_else [OF i] | rule n | (simp; fail))+)
qed

lemma yields_poc:
  assumes "at s ((case poc of None \<Rightarrow> ue_bits 2 | Some n \<Rightarrow> ue_bits 0 @ ue_bits n) @ q) sp"
    and "case poc of None \<Rightarrow> True | Some n \<Rightarrow> n \<le> 12"
  shows "\<exists>sp'. yields sps_poc s None q sp' \<and> iChromaFormatIdc sp' = iChromaFormatIdc sp
    \<and> iBitDepthLuma sp' = iBitDepthLuma sp
    \<and> iTimingInfoPresentFlag sp' = iTimingInfoPresentFlag sp"
proof (cases poc)
  case None
  then have at: "at s (ue_bits 2 @ q) sp"
    using assms(1) by simp
  show ?thesis
    unfolding sps_poc_def
    by (rule exI, rule conjI, insert at,
        (rule parse_steps, assumption | rule yields_else, (simp; fail) | (simp; fail))+)
next
  case (Some m)
  then have at: "at s (ue_bits 0 @ ue_bits m @ q) sp" and m: "m \<le> 12"
    using assms by simp_all
  have n: "m + 1 < 2 ^ 26"
    using m by simp
  have i: "\<not> (word_of_nat m :: i32) > 12"
    using m word_compare_numeral(1) [of m "num.Bit0 (num.Bit0 (num.Bit1 num.One))"] by simp
  show ?thesis
    unfolding sps_poc_def
    by (rule exI, rule conjI, insert at,
        (rule parse_steps, assumption | rule yields_else [OF i] | rule yields_then, (simp; fail)
          | rule n | (simp; fail))+)
qed

lemma yields_size:
  assumes "at s (ue_bits k @ g # ue_bits (w - 1) @ ue_bits (h - 1) @ fo # (if fo then [] else [af])
      @ d # c # q) sp"
    and "k \<le> 16" "0 < w" "w < 1024" "0 < h" "h < 1024"
  shows "\<exists>sp'. yields sps_size s None q sp' \<and> iChromaFormatIdc sp' = iChromaFormatIdc sp
    \<and> iBitDepthLuma sp' = iBitDepthLuma sp \<and> iMbWidth sp' = word_of_nat w
    \<and> iMbHeight sp' = word_of_nat h \<and> iFrameMbsOnlyFlag sp' = of_bool fo \<and> iCrop sp' = of_bool c
    \<and> iTimingInfoPresentFlag sp' = iTimingInfoPresentFlag sp"
proof -
  have n: "k + 1 < 2 ^ 26" "w - 1 + 1 < 2 ^ 26" "h - 1 + 1 < 2 ^ 26"
    using assms by simp_all
  have i: "\<not> (sint (word_of_nat k :: i32) > 36 - 2 \<or> (word_of_nat k :: i32) > 16)"
    using word_small(2) [of k] assms(2)
      word_compare_numeral(1) [of k "num.Bit0 (num.Bit0 (num.Bit0 (num.Bit0 num.One)))"] by simp
  have e: "word_of_nat (w - 1) + 1 = (word_of_nat w :: i32)" "word_of_nat (h - 1) + 1 = (word_of_nat h :: i32)"
    using assms by (simp_all add: of_nat_diff)
  show ?thesis
  proof (cases fo)
    case True
    then have at: "at s (ue_bits k @ g # ue_bits (w - 1) @ ue_bits (h - 1) @ True # d # c # q) sp"
      using assms(1) by simp
    have ne: "(of_bool True :: i32) \<noteq> 0" by simp
    show ?thesis
      unfolding sps_size_def if_not_P [OF ne]
      by (rule exI, rule conjI, insert at,
          (rule parse_steps, assumption | rule yields_else [OF i]
            | rule n | (simp only: of_bool_eq if_False one_neq_zero, rule yields_eret_bind)
            | (simp add: e [simplified] True; fail))+)
  next
    case False
    then have at: "at s (ue_bits k @ g # ue_bits (w - 1) @ ue_bits (h - 1) @ False # af # d # c # q) sp"
      using assms(1) by simp
    show ?thesis
      unfolding sps_size_def
      by (rule exI, rule conjI, insert at,
          (rule parse_steps, assumption | rule yields_else [OF i]
            | rule n | (simp only: of_bool_eq if_True simp_thms, rule yields_bit1, assumption)
            | (simp add: e [simplified] False; fail))+)
  qed
qed

text \<open>The checks on the crop, for offsets that leave something of the picture.\<close>

lemma crop_units:
  "INT_MAX div 4 div 2 = word_of_nat 8191" "INT_MAX div 4 div 4 = word_of_nat 4095"
  by (simp_all add: INT_MAX_def word_arith_nat_defs(6) word_unat_eq_iff unat_of_nat)

lemma crop_mask:
  assumes "l mod 32 = 0"
  shows "(word_of_nat l AND 0x1F :: u32) = 0"
proof -
  have "(0x1F :: u32) = mask 5"
    by (simp add: mask_eq_exp_minus_1)
  then have "(word_of_nat l AND 0x1F :: u32) = word_of_nat (take_bit 5 l)"
    by (simp only: take_bit_of_nat flip: take_bit_eq_mask)
  then show ?thesis
    using assms by (simp add: take_bit_eq_mod)
qed

lemma crop_word:
  "(word_of_nat a + word_of_nat b) * 2 = (word_of_nat (2 * (a + b)) :: u32)"
  "(word_of_nat a + word_of_nat b) * 4 = (word_of_nat (4 * (a + b)) :: u32)"
  "16 * word_of_nat a = (word_of_nat (16 * a) :: u32)"
  "16 * word_of_nat a * 2 = (word_of_nat (32 * a) :: u32)"
  by (simp_all add: algebra_simps)

lemma yields_crop:
  assumes "at s ((case crop of None \<Rightarrow> []
        | Some (l, r, t, b) \<Rightarrow> ue_bits l @ ue_bits r @ ue_bits t @ ue_bits b) @ q) sp"
    and "iCrop sp = of_bool (crop \<noteq> None)" "iChromaFormatIdc sp = 1" "iBitDepthLuma sp = 8"
    and "iMbWidth sp = word_of_nat w" "iMbHeight sp = word_of_nat h"
    and "iFrameMbsOnlyFlag sp = of_bool fo" "w < 1024" "(if fo then 1 else 2) * (16 * h) < 16384"
    and "case crop of None \<Rightarrow> True | Some (l, r, t, b) \<Rightarrow> l mod 32 = 0
          \<and> 2 * (l + r) < 16 * w \<and> (if fo then 2 else 4) * (t + b) < (if fo then 1 else 2) * (16 * h)"
  defines "n \<equiv> (case crop of None \<Rightarrow> (0, 0, 0, 0) | Some (l, r, t, b) \<Rightarrow>
      (2 * l, 2 * r, (if fo then 2 else 4) * t, (if fo then 2 else 4) * b))"
  shows "\<exists>sp'. yields sps_crop s None q sp' \<and> iMbWidth sp' = iMbWidth sp \<and> iMbHeight sp' = iMbHeight sp
    \<and> (uiCropLeft sp', uiCropRight sp', uiCropTop sp', uiCropBottom sp')
        = (case n of (l, r, t, b) \<Rightarrow> (word_of_nat l, word_of_nat r, word_of_nat t, word_of_nat b))
    \<and> iTimingInfoPresentFlag sp' = iTimingInfoPresentFlag sp"
proof (cases crop)
  case None
  then have at: "at s q sp" and c: "\<not> iCrop sp \<noteq> 0"
    using assms(1,2) by simp_all
  show ?thesis
    unfolding sps_crop_def
    by (rule exI, rule conjI, insert at,
        (rule parse_steps, assumption | rule yields_else [OF c] | (simp; fail))+)
      (simp add: n_def None)
next
  case (Some x)
  obtain l r t b where crop: "crop = Some (l, r, t, b)"
    using Some by (cases x) auto
  have at: "at s (ue_bits l @ ue_bits r @ ue_bits t @ ue_bits b @ q) sp" and c: "iCrop sp \<noteq> 0"
    and lim: "l mod 32 = 0" "2 * (l + r) < 16 * w" "(if fo then 2 else 4) * (t + b) < (if fo then 1 else 2) * (16 * h)"
    using assms(1,2,10) by (simp_all add: crop)
  have sy: "push_bit 1 (2 - of_bool fo :: u32) = (if fo then 2 else 4)"
    by simp
  have n: "l + 1 < 2 ^ 26" "r + 1 < 2 ^ 26" "t + 1 < 2 ^ 26" "b + 1 < 2 ^ 26"
    using lim assms(8,9) by (simp_all split: if_splits)
  have small: "l \<le> 8191" "r \<le> 8191" "t \<le> (if fo then 8191 else 4095)" "b \<le> (if fo then 8191 else 4095)"
    using lim assms(8,9) by (auto split: if_splits)
  let ?sx = "push_bit 1 1 :: u32" and ?sy = "push_bit 1 (2 - of_bool fo) :: u32"
  have guards: "\<not> word_of_nat l > INT_MAX div 4 div ?sx" "\<not> word_of_nat r > INT_MAX div 4 div ?sx"
    "\<not> word_of_nat t > INT_MAX div 4 div ?sy" "\<not> word_of_nat b > INT_MAX div 4 div ?sy"
    using small word_compare [of l 8191] word_compare [of r 8191]
      word_compare [of t 8191] word_compare [of b 8191] word_compare [of t 4095] word_compare [of b 4095]
    by (auto simp only: sy crop_units push_bit_0_id split: if_splits) (simp_all add: crop_units not_less word_compare)
  have more: "\<not> (word_of_nat l + word_of_nat r) * ?sx \<ge> 16 * iMbWidth sp"
    "\<not> (word_of_nat t + word_of_nat b) * ?sy \<ge> 16 * iMbHeight sp * (2 - iFrameMbsOnlyFlag sp)"
  proof -
    define hh u where "hh = (if fo then 16 * h else 32 * h)" and "u = (if fo then 2 else 4 :: nat)"
    have "16 * iMbHeight sp * (2 - iFrameMbsOnlyFlag sp) = word_of_nat hh"
      by (simp add: assms(6,7) hh_def algebra_simps)
    moreover have "(word_of_nat t + word_of_nat b) * ?sy = word_of_nat (u * (t + b))"
      by (simp add: u_def algebra_simps)
    moreover have "hh < 2 ^ 31" "u * (t + b) < 2 ^ 31" "u * (t + b) < hh"
      using lim(3) assms(9) by (auto simp: hh_def u_def)
    ultimately show "\<not> (word_of_nat t + word_of_nat b) * ?sy \<ge> 16 * iMbHeight sp * (2 - iFrameMbsOnlyFlag sp)"
      by (simp only: word_compare not_le)
    show "\<not> (word_of_nat l + word_of_nat r) * ?sx \<ge> 16 * iMbWidth sp"
      using lim(2) assms(8) word_compare [of "16 * w" "2 * (l + r)"]
      by (simp add: assms(5) algebra_simps)
  qed
  have mask: "drop_bit (if sint (iBitDepthLuma sp) > 8 then 1 else 0) (0x1F :: u32) = 0x1F"
    by (simp add: assms(4))
  show ?thesis
    unfolding sps_crop_def
    by (rule exI, rule conjI, insert at,
        ((rule parse_steps, assumption | rule yields_then [OF c] | rule n)+,
         simp only: Let_def mask crop_mask [OF lim(1)] assms(3) if_True if_False simp_thms assms(7),
         simp only: guards more if_True if_False simp_thms,
         rule yields_else, rule more(2) [unfolded assms(7)], (rule parse_steps, assumption)+))
      (simp add: n_def crop algebra_simps)
qed

lemma yields_tail:
  assumes "at s (False # q) sp"
  shows "\<exists>sp'. yields sps_tail s None q sp' \<and> iMbWidth sp' = iMbWidth sp \<and> iMbHeight sp' = iMbHeight sp
    \<and> uiCropLeft sp' = uiCropLeft sp \<and> uiCropRight sp' = uiCropRight sp \<and> uiCropTop sp' = uiCropTop sp
    \<and> uiCropBottom sp' = uiCropBottom sp \<and> iTimingInfoPresentFlag sp' = iTimingInfoPresentFlag sp"
proof -
  have z: "\<not> sint (0 :: i32) < 0" "\<not> (of_bool False :: i32) \<noteq> 0" "\<not> int (length q) < 0"
    by simp_all
  show ?thesis
    unfolding sps_tail_def
    by (rule exI, rule conjI, insert assms,
        ((rule parse_steps, assumption)+, simp only: if_not_P [OF z(2)],
         rule yields_eret_bind, rule yields_else [OF z(1)],
         (rule parse_steps, assumption)+, simp only: if_not_P [OF z(3)], rule yields_ret, assumption))
      simp
qed

lemma sps_bits_split:
  "sps_bits p @ q = nat_bits 8 (s_profile p) @ s_constraints p @ nat_bits 2 0 @ nat_bits 8 (s_level p)
     @ ue_bits (s_id p) @ ue_bits (s_frame_num p)
     @ (case s_poc_lsb p of None \<Rightarrow> ue_bits 2 | Some n \<Rightarrow> ue_bits 0 @ ue_bits n)
     @ ue_bits (s_refs p) @ s_gaps p # ue_bits (s_width p - 1) @ ue_bits (s_height p - 1)
     @ s_frame_mbs_only p # (if s_frame_mbs_only p then [] else [s_mbaff p]) @ s_direct p
     # (s_crop p \<noteq> None) # (case s_crop p of None \<Rightarrow> []
        | Some (l, r, t, b) \<Rightarrow> ue_bits l @ ue_bits r @ ue_bits t @ ue_bits b) @ False # q"
  by (simp add: sps_bits_def split: option.splits)

definition crop_of :: "sps_fields \<Rightarrow> nat \<times> nat \<times> nat \<times> nat" where
  "crop_of p = (case s_crop p of None \<Rightarrow> (0, 0, 0, 0) | Some (l, r, t, b) \<Rightarrow>
     (2 * l, 2 * r, sps_unit_y p * t, sps_unit_y p * b))"

lemma yields_sps:
  assumes "at s (sps_bits p @ q) sp" "sps_valid p" "iTimingInfoPresentFlag sp = 0"
  shows "\<exists>sp'. yields (unless_done sps_head (unless_done sps_chroma (unless_done sps_frame_num
      (unless_done sps_poc (unless_done sps_size (unless_done sps_crop sps_tail)))))) s None q sp'
    \<and> iMbWidth sp' = word_of_nat (s_width p) \<and> iMbHeight sp' = word_of_nat (s_height p)
    \<and> (uiCropLeft sp', uiCropRight sp', uiCropTop sp', uiCropBottom sp')
        = (case crop_of p of (l, r, t, b) \<Rightarrow> (word_of_nat l, word_of_nat r, word_of_nat t, word_of_nat b))
    \<and> iTimingInfoPresentFlag sp' = 0"
proof -
  note v = assms(2) [unfolded sps_valid_def]
  have crop: "crop_of p = (case s_crop p of None \<Rightarrow> (0, 0, 0, 0) | Some (l, r, t, b) \<Rightarrow>
      (2 * l, 2 * r, (if s_frame_mbs_only p then 2 else 4) * t, (if s_frame_mbs_only p then 2 else 4) * b))"
    by (simp add: crop_of_def sps_unit_y_def split: option.splits)
  have h: "s_height p < 1024"
    using v by (auto simp: frame_lines_def split: if_splits)
  note unit = v [unfolded sps_unit_y_def frame_lines_def]
  show ?thesis
    by (rule yields_unless_ex, rule yields_head, rule assms(1) [unfolded sps_bits_split],
        (insert v h, simp; fail)+, elim conjE,
        rule yields_unless_ex, rule yields_chroma, assumption, (insert v h, simp; fail)+, elim conjE,
        rule yields_unless_ex, rule yields_frame_num, assumption, (insert v h, simp; fail)+, elim conjE,
        rule yields_unless_ex, rule yields_poc, assumption, (insert v h, simp; fail)+, elim conjE,
        rule yields_unless_ex, rule yields_size, assumption, (insert v h, simp; fail)+, elim conjE,
        rule yields_unless_ex, rule yields_crop, assumption, (insert unit, simp; fail)+, elim conjE,
        drule yields_tail, elim exE conjE, rule exI, rule conjI, assumption,
        insert assms(3), simp add: crop)
qed

text \<open>What is reported: a map unit is taken for 16 lines, and a size that is not positive for one without a crop.\<close>

lemma h264GetWidthHeight_eq:
  assumes "iMbWidth sp = word_of_nat w" "iMbHeight sp = word_of_nat h"
    and "(uiCropLeft sp, uiCropRight sp, uiCropTop sp, uiCropBottom sp)
        = (word_of_nat l, word_of_nat r, word_of_nat t, word_of_nat b)"
    and "w < 1024" "h < 1024" "l + r < 16 * w" "t + b < 16384"
  shows "h264GetWidthHeight sp = (if t + b < 16 * h then (word_of_nat (16 * w - (l + r)), word_of_nat (16 * h - (t + b)))
    else (word_of_nat (16 * w), word_of_nat (16 * h)))"
proof -
  have width: "16 * word_of_nat w - (word_of_nat r + word_of_nat l) = (word_of_nat (16 * w - (l + r)) :: i32)"
    using assms(6) by (simp add: of_nat_diff algebra_simps)
  show ?thesis
  proof (cases "t + b < 16 * h")
    case True
    have "16 * word_of_nat h - (word_of_nat t + word_of_nat b) = (word_of_nat (16 * h - (t + b)) :: i32)"
      using True by (simp add: of_nat_diff algebra_simps)
    moreover have "0 < sint (word_of_nat (16 * w - (l + r)) :: i32)" "0 < sint (word_of_nat (16 * h - (t + b)) :: i32)"
      using assms True word_small(2) [of "16 * w - (l + r)"] word_small(2) [of "16 * h - (t + b)"] by auto
    ultimately show ?thesis
      using assms(3) width True by (simp add: h264GetWidthHeight_def assms(1,2))
  next
    case False
    have "16 * word_of_nat h - (word_of_nat t + word_of_nat b) = (- word_of_nat (t + b - 16 * h) :: i32)"
      using False by (simp add: of_nat_diff algebra_simps)
    moreover have "sint (- word_of_nat (t + b - 16 * h) :: i32) \<le> 0"
    proof -
      have "- int (t + b - 16 * h) = signed_take_bit 31 (- int (t + b - 16 * h))"
        using assms(7) by (intro signed_take_bit_int_eq_self [symmetric]) auto
      moreover have "sint (word_of_int x :: i32) = signed_take_bit 31 x" for x
        by (simp add: signed_of_int)
      moreover have "(- word_of_nat (t + b - 16 * h) :: i32) = word_of_int (- int (t + b - 16 * h))"
        by simp
      ultimately show ?thesis
        by (metis neg_le_0_iff_le of_nat_0_le_iff)
    qed
    ultimately show ?thesis
      using assms(3) width False by (simp add: h264GetWidthHeight_def assms(1,2))
  qed
qed

lemma frame_lines_pos: "sps_valid p \<Longrightarrow> 0 < frame_lines p \<and> frame_lines p < 16384 \<and> s_height p < 1024"
  by (auto simp: sps_valid_def frame_lines_def split: if_splits)

lemma crop_of_less:
  assumes "sps_valid p" "crop_of p = (l, r, t, b)"
  shows "l + r < 16 * s_width p \<and> t + b < frame_lines p"
  using assms frame_lines_pos [OF assms(1)] by (auto simp: sps_valid_def crop_of_def algebra_simps split: option.splits)

lemma sps_dimensions_aux:
  assumes "sps_valid p" "no_zeros_3 rbsp" "stream_bits rbsp = sps_bits p @ q"
    and "pu8Buf c = escape3 0 rbsp" "iBufSize c = length (escape3 0 rbsp)" "iBitPos c = 0"
    and "iCurBitPos c = 0" "crop_of p = (l, r, t, b)"
  shows "\<exists>sps. h264DecSeqParameterSet c = (Inr 0, sps)
    \<and> h264GetWidthHeight sps = (if t + b < 16 * s_height p
        then (word_of_nat (16 * s_width p - (l + r)), word_of_nat (16 * s_height p - (t + b)))
        else (word_of_nat (16 * s_width p), word_of_nat (16 * s_height p)))
    \<and> h264GeFramerate sps = None"
proof -
  define d where "d = deEmulationPrevention c"
  have strip: "strip3 (take (iBufSize c) (pu8Buf c)) = rbsp"
    using assms(2,4,5) strip3_escape3_start by simp
  have "\<exists>buf'. d = c\<lparr>pu8Buf := buf', iBufSize := length rbsp, iTotalBit := length rbsp * 8\<rparr>
      \<and> take (length rbsp) buf' = rbsp \<and> length rbsp \<le> length buf'"
    using deEmulationPrevention_eq [of c, unfolded strip] assms(4,5) by (simp add: d_def)
  then obtain buf' where d: "d = c\<lparr>pu8Buf := buf', iBufSize := length rbsp, iTotalBit := length rbsp * 8\<rparr>"
    "take (length rbsp) buf' = rbsp" "length rbsp \<le> length buf'"
    by blast
  have "at \<lparr>ss_ctx = d, ss_sps = zero_sps\<rparr> (sps_bits p @ q) zero_sps"
    using d assms(3,6,7) by (simp add: at_def ctx_ok_def bits_left_def)
  from yields_sps [OF this assms(1)] obtain s' sp where
    "(unless_done sps_head (unless_done sps_chroma (unless_done sps_frame_num
      (unless_done sps_poc (unless_done sps_size (unless_done sps_crop sps_tail))))))
      \<lparr>ss_ctx = d, ss_sps = zero_sps\<rparr> = (Inr None, s')" "ss_sps s' = sp"
    and sp: "iMbWidth sp = word_of_nat (s_width p)" "iMbHeight sp = word_of_nat (s_height p)"
      "(uiCropLeft sp, uiCropRight sp, uiCropTop sp, uiCropBottom sp)
        = (word_of_nat l, word_of_nat r, word_of_nat t, word_of_nat b)"
      "iTimingInfoPresentFlag sp = 0"
    using assms(8) by (auto simp: yields_def at_def zero_sps_def)
  then have "h264DecSeqParameterSet c = (Inr 0, sp)"
    by (simp add: h264DecSeqParameterSet_def flip: d_def)
  moreover have "s_width p < 1024"
    using assms(1) by (simp add: sps_valid_def)
  ultimately show ?thesis
    using h264GetWidthHeight_eq [OF sp(1,2,3)] crop_of_less [OF assms(1,8)] frame_lines_pos [OF assms(1)] sp(4)
    by (intro exI [of _ sp]) (simp add: h264GeFramerate_def)
qed

definition sample_sps :: sps_fields where
  "sample_sps = \<lparr>s_profile = 66, s_constraints = [True, True, False, False, False, False],
     s_level = 30, s_id = 0, s_frame_num = 0, s_poc_lsb = Some 0, s_refs = 1, s_gaps = False,
     s_width = 20, s_height = 15, s_frame_mbs_only = True, s_mbaff = False, s_direct = True,
     s_crop = None\<rparr>"

definition sample_rbsp :: bytes where
  "sample_rbsp = [0x42, 0xC0, 0x1E, 0xF4, 0x0A, 0x0F, 0xC8]"

lemma sample_bits: "stream_bits sample_rbsp = sps_bits sample_sps @ [True, False, False, False]"
  by (simp add: sample_rbsp_def sample_sps_def sps_bits_def stream_bits_def byte_bits_def nat_bits_def
      ue_bits_def log2_of.simps upt_rec Let_def bit_0)

lemma sample_valid: "sps_valid sample_sps" "crop_of sample_sps = (0, 0, 0, 0)"
  by (simp_all add: sps_valid_def frame_lines_def sample_sps_def high_profile_def crop_of_def)

section \<open>Properties\<close>

text \<open>C22: a sequence parameter set that is written after the syntax of the standard, with emulation prevention bytes where
  they are due, is parsed without an error. Of a set for frames (\<open>frame_mbs_only_flag\<close> 1) the track reports the picture's
  width and height as the standard has them. Of a set for fields (0) it reports a height that lacks half of the lines, 16 for
  each map unit, and without any crop, of the width either, when the crop takes that many: the function that
  reports the size forgets the factor the parser has in its check of the crop. Covered are the profiles without the chroma
  fields, no VUI, a picture order count of type 0 or 2, pictures of fewer than 16384 columns and lines, a left crop offset that is a multiple of 32
  (others are rounded down), and payloads without a byte 3 behind an odd run of three or more zeros.\<close>

theorem sps_dimensions:
  assumes "sps_valid p" "no_zeros_3 rbsp" "stream_bits rbsp = sps_bits p @ q"
    and "pu8Buf c = escape3 0 rbsp" "iBufSize c = length (escape3 0 rbsp)" "iBitPos c = 0"
    and "iCurBitPos c = 0" "crop_of p = (l, r, t, b)"
  shows "\<exists>sps. h264DecSeqParameterSet c = (Inr 0, sps) \<and> h264GeFramerate sps = None
    \<and> h264GetWidthHeight sps =
      (if s_frame_mbs_only p then (word_of_nat (16 * s_width p - (l + r)), word_of_nat (frame_lines p - (t + b)))
       else if t + b < 16 * s_height p then (word_of_nat (16 * s_width p - (l + r)), word_of_nat (frame_lines p - (t + b) - 16 * s_height p))
       else (word_of_nat (16 * s_width p), word_of_nat (frame_lines p - 16 * s_height p)))"
proof -
  obtain sps where sps: "h264DecSeqParameterSet c = (Inr 0, sps)" "h264GeFramerate sps = None"
    "h264GetWidthHeight sps = (if t + b < 16 * s_height p
        then (word_of_nat (16 * s_width p - (l + r)), word_of_nat (16 * s_height p - (t + b)))
        else (word_of_nat (16 * s_width p), word_of_nat (16 * s_height p)))"
    using sps_dimensions_aux [OF assms] by blast
  show ?thesis
  proof (cases "s_frame_mbs_only p")
    case True
    then show ?thesis
      using sps crop_of_less [OF assms(1,8)] by (intro exI [of _ sps]) (simp add: frame_lines_def)
  next
    case False
    then have "frame_lines p = 32 * s_height p"
      by (simp add: frame_lines_def)
    then show ?thesis
      using sps False by (intro exI [of _ sps]) simp
  qed
qed

theorem sps_dimensions_witness:
  "\<exists>sps. h264DecSeqParameterSet \<lparr>pu8Buf = sample_rbsp, iBufSize = 7, iTotalBit = 0, iBitPos = 0,
      iCurBitPos = 0\<rparr> = (Inr 0, sps) \<and> h264GetWidthHeight sps = (320, 240)"
proof -
  have e: "escape3 0 sample_rbsp = sample_rbsp" "no_zeros_3 sample_rbsp" "length sample_rbsp = 7"
    by (simp_all add: sample_rbsp_def)
  have s: "s_width sample_sps = 20" "s_height sample_sps = 15" "s_frame_mbs_only sample_sps" "frame_lines sample_sps = 240"
    by (simp_all add: sample_sps_def frame_lines_def)
  show ?thesis
    using sps_dimensions [OF sample_valid(1) e(2) sample_bits _ _ _ _ sample_valid(2),
        of "\<lparr>pu8Buf = sample_rbsp, iBufSize = 7, iTotalBit = 0, iBitPos = 0, iCurBitPos = 0\<rparr>"]
    by (auto simp: e s)
qed

end
