(* ===== verification/H264_Track.thy ===== *)
theory H264_Track
  imports Frame Sps_Parser
begin

text \<open>
  \<open>include/codec/h264/h264_track.h\<close> and \<open>src/codec/h264/h264_track.cpp\<close>: the decoder
  configuration of a video track. A track and the buffer it reads are threaded together, so that
  an exception leaves both as far as they had come.
\<close>

definition kH264HeaderPrefix :: bytes where
  "kH264HeaderPrefix = [0, 0, 0, 1]"

record h264_track = track +
  h264_height :: i32
  h264_width :: i32
  h264_fps :: "(u32 \<times> u32) option"
  h264_sps :: bytes
  h264_pps :: bytes

definition new_h264_track :: "u32 \<Rightarrow> frame list option \<Rightarrow> h264_track" where
  "new_h264_track bit_rate ft = \<lparr>track_bit_rate = bit_rate, translator = ft, h264_height = 0,
     h264_width = 0, h264_fps = None, h264_sps = [], h264_pps = []\<rparr>"

text \<open>\<open>h264_frame()\<close> with its setters, over a fresh buffer of the given bytes.\<close>

definition annexb_buffer :: "bytes \<Rightarrow> flat_buffer" where
  "annexb_buffer nal = buf_write nal (buf_write kH264HeaderPrefix (create (4 + length nal)))"

definition h264_frame :: "bytes \<Rightarrow> u32 \<Rightarrow> u32 \<Rightarrow> frame" where
  "h264_frame nal dts pts = (new_frame CodecH264)\<lparr>frame_prefix_size := 4, frame_dts := dts,
     frame_pts_field := pts, frame_buf := Some (annexb_buffer nal)\<rparr>"

definition encapsulate_config_frame :: "bytes \<Rightarrow> h264_track \<Rightarrow> h264_track" where
  "encapsulate_config_frame config t =
     (if config = [] then t else input_frame (h264_frame config 0 0) t)"

definition extract_bitstream_sps :: "h264_track \<Rightarrow> h264_track res" where
  "extract_bitstream_sps t =
     (if h264_sps t = [] \<or> length (h264_sps t) < 4 then Inr t
      else let ctx = \<lparr>pu8Buf = drop 1 (h264_sps t), iBufSize = length (h264_sps t) - 1,
                      iTotalBit = 0, iBitPos = 0, iCurBitPos = 0\<rparr>;
               (ret, sps) = h264DecSeqParameterSet ctx
        in res_bind ret (\<lambda>r.
             if r \<noteq> 0 then Inl (Runtime_error ''cannot parse sps'')
             else let (w, h) = h264GetWidthHeight sps
               in Inr (t\<lparr>h264_width := w, h264_height := h, h264_fps := h264GeFramerate sps\<rparr>)))"

text \<open>Steps on the buffer and on the track.\<close>

type_synonym ('t, 'a) track_m = "(flat_buffer \<times> 't, 'a) eff"

definition on_buf :: "(flat_buffer \<Rightarrow> ('a \<times> flat_buffer) res) \<Rightarrow> ('t, 'a) track_m" where
  "on_buf f = (\<lambda>(b, t). case f b of Inl e \<Rightarrow> (Inl e, (b, t)) | Inr (a, b') \<Rightarrow> (Inr a, (b', t)))"

definition on_track :: "('t \<Rightarrow> 't res) \<Rightarrow> ('t, unit) track_m" where
  "on_track f = (\<lambda>(b, t). case f t of Inl e \<Rightarrow> (Inl e, (b, t)) | Inr t' \<Rightarrow> (Inr (), (b, t')))"

definition consuming :: "nat \<Rightarrow> flat_buffer \<Rightarrow> (unit \<times> flat_buffer) res" where
  "consuming n b = res_bind (consume_or_fail n b) (\<lambda>b'. Inr ((), b'))"

definition requiring :: "nat \<Rightarrow> flat_buffer \<Rightarrow> (unit \<times> flat_buffer) res" where
  "requiring n b = res_bind (require_length_or_fail n b) (\<lambda>_. Inr ((), b))"

definition peeking :: "nat \<Rightarrow> flat_buffer \<Rightarrow> (bytes \<times> flat_buffer) res" where
  "peeking n b = res_bind (data_bytes 0 n b) (\<lambda>p. Inr (p, b))"

definition parse_h264_config :: "(h264_track, unit) track_m" where
  "parse_h264_config =
     ebind (on_buf (consuming 6)) (\<lambda>_.
     ebind (on_buf read_uint16) (\<lambda>sps_size.
     ebind (on_buf (requiring (unat sps_size))) (\<lambda>_.
     ebind (on_buf (peeking (unat sps_size))) (\<lambda>sps.
     ebind (on_track (\<lambda>t. Inr (t\<lparr>h264_sps := sps\<rparr>))) (\<lambda>_.
     ebind (on_buf (consuming (unat sps_size))) (\<lambda>_.
     ebind (on_buf (consuming 1)) (\<lambda>_.
     ebind (on_buf read_uint16) (\<lambda>pps_size.
     ebind (on_buf (requiring (unat pps_size))) (\<lambda>_.
     ebind (on_buf (peeking (unat pps_size))) (\<lambda>pps.
     ebind (on_track (\<lambda>t. Inr (t\<lparr>h264_pps := pps\<rparr>))) (\<lambda>_.
     ebind (on_buf (consuming (unat pps_size))) (\<lambda>_.
     ebind (on_track extract_bitstream_sps) (\<lambda>_.
     ebind (on_track (\<lambda>t. Inr (encapsulate_config_frame (h264_sps t) t))) (\<lambda>_.
     on_track (\<lambda>t. Inr (encapsulate_config_frame (h264_pps t) t))))))))))))))))"

section \<open>Steps on the unread bytes\<close>

text \<open>
  \<open>track_at b q t s\<close>: the state \<open>s\<close> is a later state of the buffer \<open>b\<close>, of which \<open>q\<close> is
  still unread, and the track \<open>t\<close>.
\<close>

definition track_at :: "flat_buffer \<Rightarrow> bytes \<Rightarrow> 't \<Rightarrow> flat_buffer \<times> 't \<Rightarrow> bool" where
  "track_at b q t s \<longleftrightarrow> snd s = t \<and> (\<exists>p. takes b p (fst s)) \<and> unread (fst s) = q"

lemma track_at_start: "fb_ok b \<Longrightarrow> track_at b (unread b) t (b, t)"
  using takes_refl [of b] by (auto simp: track_at_def)

lemma track_at_ok: "track_at b q t s \<Longrightarrow> fb_ok (fst s) \<and> unread_length (fst s) = length q"
  by (auto simp: track_at_def takes_def simp flip: length_unread)

lemma track_at_step:
  assumes "track_at b q t s" "takes (fst s) p b'" "unread b' = q'"
  shows "track_at b q' t (b', snd s)"
  using assms takes_trans by (fastforce simp: track_at_def)

lemma on_consuming:
  assumes "track_at b (p @ q) t s" "length p = n"
  shows "\<exists>s'. on_buf (consuming n) s = (Inr (), s') \<and> track_at b q t s'"
proof -
  have ok: "fb_ok (fst s)" and u: "unread (fst s) = p @ q"
    using track_at_ok [OF assms(1)] assms(1) by (simp_all add: track_at_def)
  let ?b = "(fst s)\<lparr>read_index := read_index (fst s) + n\<rparr>"
  have len: "n \<le> unread_length (fst s)"
    using u assms(2) by (simp flip: length_unread)
  have t: "takes (fst s) p ?b"
    using takes_consume [OF ok len] u assms(2) by simp
  have "on_buf (consuming n) s = (Inr (), (?b, snd s))"
    using consume_or_fail_Inr [OF len] by (simp add: on_buf_def consuming_def split_beta)
  moreover have "unread ?b = q"
    using takes_unread [OF t] u by simp
  ultimately show ?thesis
    using track_at_step [OF assms(1) t] by blast
qed

lemma on_read_uint16:
  assumes "track_at b (htons x @ q) t s"
  shows "\<exists>s'. on_buf read_uint16 s = (Inr x, s') \<and> track_at b q t s'"
proof -
  have ok: "fb_ok (fst s)" and u: "unread (fst s) = htons x @ q"
    using track_at_ok [OF assms] assms by (simp_all add: track_at_def)
  note r = read_uint16_eq [OF ok u]
  note t = read_uint16_Inr [OF ok r]
  have "on_buf read_uint16 s = (Inr x, ((fst s)\<lparr>read_index := read_index (fst s) + 2\<rparr>, snd s))"
    using r by (simp add: on_buf_def split_beta)
  then show ?thesis
    using track_at_step [OF assms t] takes_unread [OF t] u by auto
qed

lemma on_requiring:
  assumes "track_at b q t s" "n \<le> length q"
  shows "on_buf (requiring n) s = (Inr (), s)"
  using track_at_ok [OF assms(1)] assms(2)
  by (simp add: on_buf_def requiring_def require_length_or_fail_def split_beta)

lemma on_peeking:
  assumes "track_at b q t s" "n \<le> length q"
  shows "on_buf (peeking n) s = (Inr (take n q), s)"
proof -
  have "data_bytes 0 n (fst s) = Inr (take n q)"
    using track_at_ok [OF assms(1)] assms data_bytes_front [of "fst s" n] by (simp add: track_at_def)
  then show ?thesis
    by (cases s) (simp add: on_buf_def peeking_def)
qed

lemma on_track_Inr:
  assumes "track_at b q t s" "f t = Inr t'"
  shows "\<exists>s'. on_track f s = (Inr (), s') \<and> track_at b q t' s'"
  using assms by (auto simp: on_track_def track_at_def split_beta)

text \<open>The annex B form of a unit that a frame carries.\<close>

lemma annexb_buffer_ok [simp]:
  "fb_ok (annexb_buffer nal)" "unread (annexb_buffer nal) = [0, 0, 0, 1] @ nal"
  by (simp_all add: annexb_buffer_def kH264HeaderPrefix_def)

lemma frame_bytes_h264 [simp]: "frame_bytes (h264_frame nal dts pts) = [0, 0, 0, 1] @ nal"
  by (simp add: frame_bytes_def h264_frame_def)

text \<open>The configuration record of an AVC sequence header, with one SPS and one PPS.\<close>

definition avc_record :: "bytes \<Rightarrow> bytes \<Rightarrow> bytes \<Rightarrow> u8 \<Rightarrow> bytes" where
  "avc_record head sps pps n = head @ htons (word_of_nat (length sps)) @ sps
     @ n # htons (word_of_nat (length pps)) @ pps"

lemma unat_u16_len: "n < 65536 \<Longrightarrow> unat (word_of_nat n :: u16) = n"
  by (simp add: unat_of_nat)

lemma parse_h264_config_eq:
  assumes "track_at b (avc_record head sps pps n @ r) t s" "length head = 6"
    and "length sps < 65536" "length pps < 65536"
    and "extract_bitstream_sps (t\<lparr>h264_sps := sps, h264_pps := pps\<rparr>) = Inr t'"
    and "h264_sps t' = sps" "h264_pps t' = pps"
  shows "\<exists>s'. parse_h264_config s = (Inr (), s')
    \<and> track_at b r (encapsulate_config_frame pps (encapsulate_config_frame sps t')) s'"
proof -
  note len = unat_u16_len [OF assms(3)] unat_u16_len [OF assms(4)]
  obtain s1 where s1: "on_buf (consuming 6) s = (Inr (), s1)"
    "track_at b (htons (word_of_nat (length sps)) @ sps @ [n] @ htons (word_of_nat (length pps)) @ pps @ r) t s1"
    using on_consuming [OF assms(1) [unfolded avc_record_def append_assoc] assms(2)] by auto
  obtain s2 where s2: "on_buf read_uint16 s1 = (Inr (word_of_nat (length sps)), s2)"
    "track_at b (sps @ [n] @ htons (word_of_nat (length pps)) @ pps @ r) t s2"
    using on_read_uint16 [OF s1(2)] by auto
  have s2': "on_buf (requiring (length sps)) s2 = (Inr (), s2)"
    "on_buf (peeking (length sps)) s2 = (Inr sps, s2)"
    using on_requiring [OF s2(2)] on_peeking [OF s2(2)] by simp_all
  obtain s3 where s3: "on_track (\<lambda>t. Inr (t\<lparr>h264_sps := sps\<rparr>)) s2 = (Inr (), s3)"
    "track_at b (sps @ [n] @ htons (word_of_nat (length pps)) @ pps @ r) (t\<lparr>h264_sps := sps\<rparr>) s3"
    using on_track_Inr [OF s2(2), of "\<lambda>t. Inr (t\<lparr>h264_sps := sps\<rparr>)"] by auto
  obtain s4 where s4: "on_buf (consuming (length sps)) s3 = (Inr (), s4)"
    "track_at b ([n] @ htons (word_of_nat (length pps)) @ pps @ r) (t\<lparr>h264_sps := sps\<rparr>) s4"
    using on_consuming [OF s3(2) refl] by auto
  obtain s5 where s5: "on_buf (consuming 1) s4 = (Inr (), s5)"
    "track_at b (htons (word_of_nat (length pps)) @ pps @ r) (t\<lparr>h264_sps := sps\<rparr>) s5"
    using on_consuming [OF s4(2), of 1] by auto
  obtain s6 where s6: "on_buf read_uint16 s5 = (Inr (word_of_nat (length pps)), s6)"
    "track_at b (pps @ r) (t\<lparr>h264_sps := sps\<rparr>) s6"
    using on_read_uint16 [OF s5(2)] by auto
  have s6': "on_buf (requiring (length pps)) s6 = (Inr (), s6)"
    "on_buf (peeking (length pps)) s6 = (Inr pps, s6)"
    using on_requiring [OF s6(2)] on_peeking [OF s6(2)] by simp_all
  obtain s7 where s7: "on_track (\<lambda>t. Inr (t\<lparr>h264_pps := pps\<rparr>)) s6 = (Inr (), s7)"
    "track_at b (pps @ r) (t\<lparr>h264_sps := sps, h264_pps := pps\<rparr>) s7"
    using on_track_Inr [OF s6(2), of "\<lambda>t. Inr (t\<lparr>h264_pps := pps\<rparr>)"] by auto
  obtain s8 where s8: "on_buf (consuming (length pps)) s7 = (Inr (), s8)"
    "track_at b r (t\<lparr>h264_sps := sps, h264_pps := pps\<rparr>) s8"
    using on_consuming [OF s7(2) refl] by auto
  obtain s9 where s9: "on_track extract_bitstream_sps s8 = (Inr (), s9)" "track_at b r t' s9"
    using on_track_Inr [OF s8(2), of extract_bitstream_sps, OF assms(5)] by blast
  obtain s10 where s10: "on_track (\<lambda>t. Inr (encapsulate_config_frame (h264_sps t) t)) s9 = (Inr (), s10)"
    "track_at b r (encapsulate_config_frame sps t') s10"
    using on_track_Inr [OF s9(2), of "\<lambda>t. Inr (encapsulate_config_frame (h264_sps t) t)"] assms(6) by auto
  have "h264_pps (encapsulate_config_frame sps t') = pps"
    using assms(7) by (auto simp: encapsulate_config_frame_def input_frame_def split: option.splits)
  then obtain s11 where s11: "on_track (\<lambda>t. Inr (encapsulate_config_frame (h264_pps t) t)) s10 = (Inr (), s11)"
    "track_at b r (encapsulate_config_frame pps (encapsulate_config_frame sps t')) s11"
    using on_track_Inr [OF s10(2), of "\<lambda>t. Inr (encapsulate_config_frame (h264_pps t) t)"] by auto
  show ?thesis
    using s1(1) s2(1) s2' s3(1) s4(1) s5(1) s6(1) s6' s7(1) s8(1) s9(1) s10(1) s11
    by (simp add: parse_h264_config_def ebind_def len)
qed

lemma frames_of_encapsulate:
  assumes "translator t \<noteq> None" "config \<noteq> []"
  shows "frames_of (encapsulate_config_frame config t) = frames_of t @ [h264_frame config 0 0]"
  using assms by (simp add: encapsulate_config_frame_def frames_of_input)

lemma translator_encapsulate [simp]:
  "translator (encapsulate_config_frame config t) = None \<longleftrightarrow> translator t = None"
  by (simp add: encapsulate_config_frame_def)

lemma track_sets_encapsulate [simp]:
  "h264_sps (encapsulate_config_frame c t) = h264_sps t" "h264_pps (encapsulate_config_frame c t) = h264_pps t"
  by (auto simp: encapsulate_config_frame_def input_frame_def split: option.splits)

lemma track_dims_encapsulate [simp]:
  "h264_width (encapsulate_config_frame c t) = h264_width t"
  "h264_height (encapsulate_config_frame c t) = h264_height t"
  by (auto simp: encapsulate_config_frame_def input_frame_def split: option.splits)

text \<open>The SPS that the writer of the reference produces is accepted.\<close>

lemma extract_bitstream_sps_eq:
  assumes "sps_valid p" "no_zeros_3 rbsp" "stream_bits rbsp = sps_bits p @ q"
    and "h264_sps t = hd_byte # escape3 0 rbsp" "3 \<le> length (escape3 0 rbsp)" "crop_of p = (cl, cr, ct, cb)"
  obtains w h where "extract_bitstream_sps t = Inr (t\<lparr>h264_width := w, h264_height := h, h264_fps := None\<rparr>)"
    and "s_frame_mbs_only p \<Longrightarrow> w = word_of_nat (16 * s_width p - (cl + cr)) \<and> h = word_of_nat (frame_lines p - (ct + cb))"
proof -
  let ?c = "\<lparr>pu8Buf = escape3 0 rbsp, iBufSize = length (escape3 0 rbsp), iTotalBit = 0, iBitPos = 0,
    iCurBitPos = 0\<rparr>"
  obtain sps where sps: "h264DecSeqParameterSet ?c = (Inr 0, sps)" "h264GeFramerate sps = None"
    "h264GetWidthHeight sps = (if ct + cb < 16 * s_height p
        then (word_of_nat (16 * s_width p - (cl + cr)), word_of_nat (16 * s_height p - (ct + cb)))
        else (word_of_nat (16 * s_width p), word_of_nat (16 * s_height p)))"
    using sps_dimensions_aux [OF assms(1-3), of ?c] assms(6) by auto
  obtain w h where wh: "h264GetWidthHeight sps = (w, h)"
    by fastforce
  have "extract_bitstream_sps t = Inr (t\<lparr>h264_width := w, h264_height := h, h264_fps := None\<rparr>)"
    using assms(4,5) sps(1,2) wh by (simp add: extract_bitstream_sps_def)
  moreover have "w = word_of_nat (16 * s_width p - (cl + cr)) \<and> h = word_of_nat (frame_lines p - (ct + cb))" if "s_frame_mbs_only p"
    using sps(3) wh that crop_of_less [OF assms(1,6)] by (simp add: frame_lines_def)
  ultimately show thesis
    using that by blast
qed

section \<open>Properties\<close>



end
