(* ===== verification/Rtmp_Codec.thy ===== *)
theory Rtmp_Codec
  imports Amf Rtmp_Packet Aac_Track H264_Track
begin

text \<open>
  \<open>src/protocol/rtmp/aac_rtmp.cpp\<close>, \<open>h264_rtmp.cpp\<close>, \<open>rtmp_codec.cpp\<close> and
  \<open>rtmp_demuxer.cpp\<close>, with \<open>include/media/demuxer.h\<close>: the decoders between RTMP
  messages and tracks. They consume the buffer of the message they are given; the demuxer takes
  a snapshot before and restores it behind them, so that the message can be sent on.
\<close>

section \<open>AAC\<close>

definition classify :: "rtmp_packet \<Rightarrow> ('t, bool) track_m" where
  "classify pkt = (\<lambda>s. (is_config_frame (pkt\<lparr>pkt_buf := fst s\<rparr>), s))"

definition parse_aac :: "(aac_track, unit) track_m" where
  "parse_aac = (\<lambda>(b, t). case parse_aac_config b t of
     Inl e \<Rightarrow> (Inl e, (b, t)) | Inr t' \<Rightarrow> (Inr (), (b, t')))"

definition adts_buffer :: "adts_header \<Rightarrow> bytes \<Rightarrow> flat_buffer" where
  "adts_buffer h data = buf_write data (buf_write (dump_adts_header h)
     (create (kAdtsHeaderLength + length data)))"

definition input_aac_frame :: "rtmp_packet \<Rightarrow> (aac_track, unit) track_m" where
  "input_aac_frame pkt = (\<lambda>(b, t).
     case res_bind (extract_aac_config t) (\<lambda>h.
          res_bind (data_bytes 0 (unread_length b) b) (\<lambda>data.
          res_bind (initialised (time_stamp pkt)) (\<lambda>ts.
            let h = h\<lparr>aac_frame_length := word_of_nat (unread_length b + kAdtsHeaderLength)\<rparr>
            in Inr (input_frame (aac_frame (adts_buffer h data) ts) t)))) of
       Inl e \<Rightarrow> (Inl e, (b, t)) | Inr t' \<Rightarrow> (Inr (), (b, t')))"

definition aac_input_rtmp :: "rtmp_packet \<Rightarrow> (aac_track, unit) track_m" where
  "aac_input_rtmp pkt =
     ebind (on_buf (requiring 2)) (\<lambda>_.
     ebind (classify pkt) (\<lambda>config.
     if config then ebind (on_buf (consuming 2)) (\<lambda>_. parse_aac)
     else ebind (on_buf (consuming 2)) (\<lambda>_. input_aac_frame pkt)))"

section \<open>H.264\<close>

text \<open>
  The units of a video message are preceded by their lengths. The loop ends with an error
  unless everything was consumed; a length that reaches beyond the message is consumed before
  the test.
\<close>

definition split_end :: "flat_buffer \<Rightarrow> unit res" where
  "split_end b = (if unread_length b \<noteq> 0 then Inl (Runtime_error ''H.264 frames are encoded incorrectly'')
     else Inr ())"

lemma read_uint32_length: "read_uint32 b = Inr (x, b') \<Longrightarrow> unread_length b' + 4 = unread_length b"
  by (auto simp: read_uint32_def res_bind_eq_Inr dest!: consume_length)

function split_nal_frame :: "u32 \<Rightarrow> u32 \<Rightarrow> flat_buffer \<Rightarrow> h264_track \<Rightarrow> unit res \<times> (flat_buffer \<times> h264_track)" where
  "split_nal_frame dts pts b t =
     (if unread_length b \<ge> 4 then
        (case read_uint32 b of
           Inl e \<Rightarrow> (Inl e, (b, t))
         | Inr (frame_len, b1) \<Rightarrow>
             if unat frame_len > unread_length b1 then (split_end b1, (b1, t))
             else (case data_bytes 0 (unat frame_len) b1 of
                Inl e \<Rightarrow> (Inl e, (b1, t))
              | Inr nal \<Rightarrow>
                  (case consume_or_fail (unat frame_len) b1 of
                     Inl e \<Rightarrow> (Inl e, (b1, t))
                   | Inr b2 \<Rightarrow> split_nal_frame dts pts b2 (input_frame (h264_frame nal dts pts) t))))
      else (split_end b, (b, t)))"
  by pat_completeness auto
termination
  by (relation "measure (\<lambda>(dts, pts, b, t). unread_length b)")
    (auto dest!: read_uint32_length consume_length)

declare split_nal_frame.simps [simp del]

definition composition_offset :: "bytes \<Rightarrow> u32" where
  "composition_offset p = ((push_bit 16 (ucast (p ! 0)) OR push_bit 8 (ucast (p ! 1)) OR ucast (p ! 2))
     + 0xff800000) XOR 0xff800000"

definition h264_input_rtmp :: "rtmp_packet \<Rightarrow> (h264_track, unit) track_m" where
  "h264_input_rtmp pkt =
     ebind (on_buf (requiring 5)) (\<lambda>_.
     ebind (classify pkt) (\<lambda>config.
     if config then ebind (on_buf (consuming 5)) (\<lambda>_. parse_h264_config)
     else
       ebind (on_buf (consuming 2)) (\<lambda>_.
       ebind (on_buf (peeking 3)) (\<lambda>cts.
       ebind (elift (initialised (time_stamp pkt))) (\<lambda>ts.
       ebind (on_buf (consuming 3)) (\<lambda>_.
       (\<lambda>(b, t). split_nal_frame ts (ts + composition_offset cts) b t))))))) "

section \<open>The demuxer\<close>

record demuxer =
  has_muxer :: bool
  dm_duration :: double
  audio_decoder :: "aac_track option"
  video_decoder :: "h264_track option"

definition new_demuxer :: demuxer where
  "new_demuxer = \<lparr>has_muxer = False, dm_duration = 0, audio_decoder = None, video_decoder = None\<rparr>"

definition set_muxer :: "demuxer \<Rightarrow> demuxer" where
  "set_muxer d = d\<lparr>has_muxer := True\<rparr>"

definition get_muxer :: "demuxer \<Rightarrow> frame list res" where
  "get_muxer d = (if has_muxer d then Inr []
     else Inl (Runtime_error ''The muxer assigned to the demuxer has been lost.''))"

definition init_audio_track :: "u8 \<Rightarrow> u32 \<Rightarrow> demuxer \<Rightarrow> demuxer res" where
  "init_audio_track codecid bit_rate d =
     (if audio_decoder d \<noteq> None then Inr d
      else if codecid \<noteq> codec_aac
        then Inl (Runtime_error ''Currently, only the AAC audio codec is supported'')
      else res_bind (get_muxer d) (\<lambda>m.
        Inr (d\<lparr>audio_decoder := Some (new_aac_track bit_rate (Some m))\<rparr>)))"

definition init_video_track :: "u8 \<Rightarrow> u32 \<Rightarrow> demuxer \<Rightarrow> demuxer res" where
  "init_video_track codecid bit_rate d =
     (if video_decoder d \<noteq> None then Inr d
      else if codecid \<noteq> codec_h264
        then Inl (Runtime_error ''Currently, only the H264 video codec is supported'')
      else res_bind (get_muxer d) (\<lambda>m.
        Inr (d\<lparr>video_decoder := Some (new_h264_track bit_rate (Some m))\<rparr>)))"

text \<open>
  \<open>std::any_cast\<close> on the entry that \<open>operator[]\<close> gives; where there is none it puts an empty one into
  the map, which is the session's own and keeps it when the cast throws.
\<close>

definition meta_at :: "string \<Rightarrow> (metadata, any_value) eff" where
  "meta_at k m = (case map_of m k of Some v \<Rightarrow> (Inr v, m) | None \<Rightarrow> (Inr AnyEmpty, m @ [(k, AnyEmpty)]))"

definition any_double :: "string \<Rightarrow> (metadata, double) eff" where
  "any_double k = ebind (meta_at k) (\<lambda>v. elift (case v of AnyDouble d \<Rightarrow> Inr d | _ \<Rightarrow> Inl Bad_any_cast))"

definition any_bool :: "string \<Rightarrow> (metadata, bool) eff" where
  "any_bool k = ebind (meta_at k) (\<lambda>v. elift (case v of AnyBool b \<Rightarrow> Inr b | _ \<Rightarrow> Inl Bad_any_cast))"

definition any_int :: "string \<Rightarrow> (metadata, int) eff" where
  "any_int k = ebind (any_double k) (\<lambda>d. elift (double_to_int d))"

text \<open>\<open>rate * 1024\<close> on \<open>int\<close>, then converted to \<open>uint32_t\<close>.\<close>

definition times_1024 :: "int \<Rightarrow> u32 res" where
  "times_1024 n = (if - (2 ^ 31) \<le> n * 1024 \<and> n * 1024 < 2 ^ 31 then Inr (word_of_int (n * 1024))
     else Inl (Undefined ''signed overflow''))"

definition init_tracks_with_metadata :: "metadata option \<Rightarrow> demuxer \<Rightarrow> unit res \<times> metadata option \<times> demuxer" where
  "init_tracks_with_metadata metainfo d =
     (case metainfo of
        None \<Rightarrow> (Inl (Runtime_error ''rtmp demuxer cannot initialize tracks with empty metadata''), (None, d))
      | Some m \<Rightarrow>
          if m = [] then (Inl (Runtime_error ''Cannot initialize tracks with empty metadata''), (Some m, d))
          else (case any_double ''duration'' m of
            (Inl e, m) \<Rightarrow> (Inl e, (Some m, d))
          | (Inr du, m) \<Rightarrow>
              let d = d\<lparr>dm_duration := du\<rparr> in
              (case ebind (any_int ''audiosamplerate'') (\<lambda>_.
                    ebind (any_int ''audiosamplesize'') (\<lambda>_.
                    ebind (any_bool ''stereo'') (\<lambda>_.
                    ebind (any_int ''videocodecid'') (\<lambda>vc.
                    ebind (any_int ''audiocodecid'') (\<lambda>ac.
                    ebind (any_int ''audiodatarate'') (\<lambda>ar.
                    ebind (any_int ''videodatarate'') (\<lambda>vr. eret (vc, ac, ar, vr)))))))) m of
                 (Inl e, m) \<Rightarrow> (Inl e, (Some m, d))
               | (Inr (vc, ac, ar, vr), m) \<Rightarrow>
                   (case (if vc \<noteq> 0 then res_bind (times_1024 vr) (\<lambda>r. init_video_track (word_of_int vc) r d)
                          else Inr d) of
                      Inl e \<Rightarrow> (Inl e, (Some m, d))
                    | Inr d1 \<Rightarrow>
                        (case (if ac \<noteq> 0 then res_bind (times_1024 ar) (\<lambda>r. init_audio_track (word_of_int ac) r d1)
                               else Inr d1) of
                           Inl e \<Rightarrow> (Inl e, (Some m, d1))
                         | Inr d2 \<Rightarrow> (Inr (), (Some m, d2)))))))"

text \<open>Without an exception the snapshot is restored.\<close>

definition demuxer_input_rtmp :: "rtmp_packet \<Rightarrow> demuxer \<Rightarrow> unit res \<times> (rtmp_packet \<times> demuxer)" where
  "demuxer_input_rtmp pkt d =
     (let pkt = pkt\<lparr>pkt_buf := capture_snapshot (pkt_buf pkt)\<rparr>;
          restore = (\<lambda>b. pkt\<lparr>pkt_buf := restore_snapshot b\<rparr>) in
      case initialised (msg_type_id pkt) of
        Inl e \<Rightarrow> (Inl e, (pkt, d))
      | Inr t \<Rightarrow>
          if t = MSG_VIDEO \<and> video_decoder d \<noteq> None then
            (case h264_input_rtmp pkt (pkt_buf pkt, the (video_decoder d)) of
               (Inl e, (b, v)) \<Rightarrow> (Inl e, (pkt\<lparr>pkt_buf := b\<rparr>, d\<lparr>video_decoder := Some v\<rparr>))
             | (Inr u, (b, v)) \<Rightarrow> (Inr (), (restore b, d\<lparr>video_decoder := Some v\<rparr>)))
          else if t = MSG_AUDIO \<and> audio_decoder d \<noteq> None then
            (case aac_input_rtmp pkt (pkt_buf pkt, the (audio_decoder d)) of
               (Inl e, (b, v)) \<Rightarrow> (Inl e, (pkt\<lparr>pkt_buf := b\<rparr>, d\<lparr>audio_decoder := Some v\<rparr>))
             | (Inr u, (b, v)) \<Rightarrow> (Inr (), (restore b, d\<lparr>audio_decoder := Some v\<rparr>)))
          else (Inr (), (restore (pkt_buf pkt), d)))"

section \<open>The decoders only consume\<close>

definition only_consumes :: "('t, 'a) track_m \<Rightarrow> bool" where
  "only_consumes m \<longleftrightarrow> (\<forall>s r s'. fb_ok (fst s) \<longrightarrow> m s = (r, s') \<longrightarrow> (\<exists>p. takes (fst s) p (fst s')))"

lemma only_consumesD:
  "only_consumes m \<Longrightarrow> m s = (r, s') \<Longrightarrow> fb_ok (fst s) \<Longrightarrow> \<exists>p. takes (fst s) p (fst s')"
  unfolding only_consumes_def by blast

named_theorems consuming_intros \<open>steps that only consume the buffer\<close>

lemma only_consumes_bind [consuming_intros]:
  assumes "only_consumes m" "\<And>a. only_consumes (f a)"
  shows "only_consumes (ebind m f)"
  unfolding only_consumes_def
proof (intro allI impI)
  fix s r s' assume ok: "fb_ok (fst s)" and m: "ebind m f s = (r, s')"
  obtain r1 s1 where s1: "m s = (r1, s1)" by (cases "m s")
  then obtain p where p: "takes (fst s) p (fst s1)"
    using only_consumesD [OF assms(1) _ ok] by blast
  show "\<exists>p. takes (fst s) p (fst s')"
  proof (cases r1)
    case (Inl e)
    with m s1 p show ?thesis by (auto simp: ebind_def)
  next
    case (Inr a)
    then have "f a s1 = (r, s')"
      using m s1 by (simp add: ebind_def)
    then obtain q where "takes (fst s1) q (fst s')"
      using only_consumesD [OF assms(2) _ takes_ok [OF p]] by blast
    with p show ?thesis by (blast intro: takes_trans)
  qed
qed

lemma only_consumes_pure [consuming_intros]:
  "(\<And>s. fst (snd (m s)) = fst s) \<Longrightarrow> only_consumes m"
  unfolding only_consumes_def by (metis snd_conv takes_refl)

lemma only_consumes_buf:
  assumes "\<And>b a b'. fb_ok b \<Longrightarrow> f b = Inr (a, b') \<Longrightarrow> \<exists>p. takes b p b'"
  shows "only_consumes (on_buf f)"
  using assms takes_refl
  by (fastforce simp: only_consumes_def on_buf_def split: prod.splits sum.splits)

lemma only_consumes_steps [consuming_intros]:
  "only_consumes (on_buf (consuming n))" "only_consumes (on_buf read_uint16)"
  by (rule only_consumes_buf, auto simp: consuming_def res_bind_eq_Inr dest: takes_consume_Inr read_uint16_Inr)+

lemma only_consumes_reads [consuming_intros]:
  "only_consumes (on_buf (requiring n))" "only_consumes (on_buf (peeking n))"
  by (rule only_consumes_buf, auto simp: requiring_def peeking_def res_bind_eq_Inr intro: takes_refl)+

lemma only_consumes_track [consuming_intros]:
  "only_consumes (on_track f)" "only_consumes (classify pkt)" "only_consumes parse_aac"
  "only_consumes (input_aac_frame pkt)" "only_consumes (elift x)"
  by (rule only_consumes_pure,
      auto simp: on_track_def classify_def parse_aac_def input_aac_frame_def split: prod.splits sum.splits)+

lemma only_consumes_if [consuming_intros]:
  "only_consumes m \<Longrightarrow> only_consumes k \<Longrightarrow> only_consumes (if c then m else k)"
  by simp

lemma split_nal_frame_takes:
  "fb_ok b \<Longrightarrow> \<exists>p. takes b p (fst (snd (split_nal_frame dts pts b t)))"
proof (induction dts pts b t rule: split_nal_frame.induct)
  case (1 dts pts b t)
  show ?case
  proof (cases "unread_length b \<ge> 4")
    case True
    show ?thesis
    proof (cases "read_uint32 b")
      case (Inl e)
      then show ?thesis using True takes_refl [OF 1(2)] by (subst split_nal_frame.simps) auto
    next
      case (Inr x)
      obtain n b1 where x: "x = (n, b1)" by fastforce
      note t1 = read_uint32_Inr [OF 1(2) Inr [unfolded x]]
      show ?thesis
      proof (cases "unat n > unread_length b1 \<or> (\<exists>e. data_bytes 0 (unat n) b1 = Inl e)
          \<or> (\<exists>e. consume_or_fail (unat n) b1 = Inl e)")
        case True': True
        then have "fst (snd (split_nal_frame dts pts b t)) = b1"
          using True Inr x by (subst split_nal_frame.simps) (auto split: sum.splits)
        with t1 show ?thesis by auto
      next
        case False
        then obtain nal b2 where o: "data_bytes 0 (unat n) b1 = Inr nal" "consume_or_fail (unat n) b1 = Inr b2"
          by (metis sum.exhaust)
        note t2 = takes_consume_Inr [OF takes_ok [OF t1] o(2)]
        obtain p where "takes b2 p (fst (snd (split_nal_frame dts pts b2 (input_frame (h264_frame nal dts pts) t))))"
          using 1(1) [OF True Inr [unfolded x] refl _ o takes_ok [OF t2]] False by auto
        then show ?thesis
          using True False Inr x o t1 t2 by (subst split_nal_frame.simps) (auto intro: takes_trans)
      qed
    qed
  qed (subst split_nal_frame.simps, auto intro: takes_refl 1(2))
qed

lemma only_consumes_split [consuming_intros]:
  "only_consumes (\<lambda>(b, t). split_nal_frame dts pts b t)"
  unfolding only_consumes_def
proof (intro allI impI)
  fix s :: "flat_buffer \<times> h264_track" and r s'
  assume "fb_ok (fst s)" "(\<lambda>(b, t). split_nal_frame dts pts b t) s = (r, s')"
  then show "\<exists>p. takes (fst s) p (fst s')"
    using split_nal_frame_takes [of "fst s" dts pts "snd s"] by (simp add: split_beta)
qed

lemma only_consumes_decoders:
  "only_consumes (aac_input_rtmp pkt)" "only_consumes (h264_input_rtmp pkt)"
  unfolding aac_input_rtmp_def h264_input_rtmp_def parse_h264_config_def
  by (rule consuming_intros | assumption)+

lemma restore_decoder:
  assumes "only_consumes m" "fb_ok b" "m (capture_snapshot b, t) = (r, (b', t'))"
  shows "restore_snapshot b' = capture_snapshot b"
proof -
  obtain p where "takes (capture_snapshot b) p b'"
    using only_consumesD [OF assms(1,3)] assms(2) by auto
  then show ?thesis by (rule restore_after_consuming)
qed

lemma demuxer_restores:
  assumes "pkt_ok pkt" "demuxer_input_rtmp pkt d = (Inr u, (pkt', d'))"
  shows "pkt' = pkt\<lparr>pkt_buf := capture_snapshot (pkt_buf pkt)\<rparr>"
proof -
  have ok: "fb_ok (pkt_buf pkt)" and snap: "restore_snapshot (capture_snapshot (pkt_buf pkt)) = capture_snapshot (pkt_buf pkt)"
    using assms(1) restore_after_consuming [OF takes_refl] by (auto simp: pkt_ok_def)
  show ?thesis
    using assms(2) snap restore_decoder [OF only_consumes_decoders(1) ok]
      restore_decoder [OF only_consumes_decoders(2) ok]
    by (auto simp: demuxer_input_rtmp_def Let_def split: sum.splits prod.splits if_splits)
qed

section \<open>The units of a video message\<close>

text \<open>
  The reference: the units, each preceded by its length, and what is left at the end.
\<close>

function avcc_units :: "bytes \<Rightarrow> bytes list \<times> bytes" where
  "avcc_units bs =
     (if length bs < 4 then ([], bs)
      else let n = unat (load_be32 bs); r = drop 4 bs in
        if n > length r then ([], r)
        else let (us, q) = avcc_units (drop n r) in (take n r # us, q))"
  by pat_completeness auto
termination
  by (relation "measure length") auto

declare avcc_units.simps [simp del]

lemma split_nal_frame_eq:
  assumes "fb_ok b" "translator t \<noteq> None"
  shows "\<exists>b' t'. split_nal_frame dts pts b t = (if snd (avcc_units (unread b)) = [] then Inr ()
        else Inl (Runtime_error ''H.264 frames are encoded incorrectly''), (b', t'))
    \<and> fb_ok b' \<and> unread b' = snd (avcc_units (unread b))
    \<and> frames_of t' = frames_of t @ map (\<lambda>u. h264_frame u dts pts) (fst (avcc_units (unread b)))"
  using assms
proof (induction dts pts b t rule: split_nal_frame.induct)
  case (1 dts pts b t)
  have endc: "split_end b = (if unread b = [] then Inr () else Inl (Runtime_error ''H.264 frames are encoded incorrectly''))" for b
    by (simp add: split_end_def flip: length_unread)
  show ?case
  proof (cases "length (unread b) < 4")
    case True
    then show ?thesis
      using 1(2) endc [of b] by (simp add: split_nal_frame.simps [of _ _ b] avcc_units.simps [of "unread b"])
  next
    case False
    then obtain p q r s z where u: "unread b = p # q # r # s # z"
      by (metis list4_exhaust not_less)
    define n where "n = load_be32 (unread b)"
    have u': "unread b = set_be32 n @ z"
      using set_be32_load [of p q r s] by (simp add: n_def u load_be32_def)
    let ?b1 = "b\<lparr>read_index := read_index b + 4\<rparr>"
    have r1: "read_uint32 b = Inr (n, ?b1)"
      using read_uint32_eq [OF 1(2) u'] by simp
    have b1: "fb_ok ?b1" "unread ?b1 = z"
      using read_uint32_Inr [OF 1(2) r1] u' by (auto simp: takes_def)
    have a: "avcc_units (unread b) = (if unat n > length z then ([], z)
        else (take (unat n) z # fst (avcc_units (drop (unat n) z)), snd (avcc_units (drop (unat n) z))))"
      using False u by (subst avcc_units.simps) (simp add: n_def split_beta Let_def)
    show ?thesis
    proof (cases "unat n > length z")
      case True
      then show ?thesis
        using False r1 b1 a endc [of ?b1] by (subst split_nal_frame.simps) (simp flip: length_unread)
    next
      case False': False
      let ?b2 = "?b1\<lparr>read_index := read_index ?b1 + unat n\<rparr>"
      have len: "unat n \<le> unread_length ?b1"
        using False' b1(2) by (simp flip: length_unread)
      have d: "data_bytes 0 (unat n) ?b1 = Inr (take (unat n) z)"
        using data_bytes_front [OF b1(1) len] b1(2) by simp
      have c: "consume_or_fail (unat n) ?b1 = Inr ?b2"
        using consume_or_fail_Inr [OF len] by simp
      have lz: "unat n \<le> length z"
        using False' by simp
      have b2: "fb_ok ?b2" "unread ?b2 = drop (unat n) z"
        using takes_ok [OF takes_consume_Inr [OF b1(1) c]] takes_drop [OF takes_consume_Inr [OF b1(1) c]] b1(2)
          lz by (simp_all add: min_def)
      let ?t = "input_frame (h264_frame (take (unat n) z) dts pts) t"
      have "translator ?t \<noteq> None"
        using 1(3) by simp
      from 1(1) [OF _ r1 refl _ d c b2(1) this] False False' len b2(2)
      obtain b' t' where "split_nal_frame dts pts ?b2 ?t = (if snd (avcc_units (drop (unat n) z)) = [] then Inr ()
          else Inl (Runtime_error ''H.264 frames are encoded incorrectly''), (b', t'))"
        "fb_ok b'" "unread b' = snd (avcc_units (drop (unat n) z))"
        "frames_of t' = frames_of ?t @ map (\<lambda>u. h264_frame u dts pts) (fst (avcc_units (drop (unat n) z)))"
        by auto
      moreover have "split_nal_frame dts pts b t = split_nal_frame dts pts ?b2 ?t"
        using False r1 d c len by (subst split_nal_frame.simps) simp
      ultimately show ?thesis
        using False' a 1(3) by (simp add: frames_of_input)
    qed
  qed
qed

definition avcc_encode :: "bytes list \<Rightarrow> bytes" where
  "avcc_encode us = concat (map (\<lambda>u. set_be32 (word_of_nat (length u)) @ u) us)"

lemma avcc_units_encode:
  "\<forall>u \<in> set us. length u < 2 ^ 32 \<Longrightarrow> avcc_units (avcc_encode us) = (us, [])"
proof (induction us)
  case Nil
  then show ?case by (simp add: avcc_encode_def avcc_units.simps)
next
  case (Cons u us)
  have n: "unat (load_be32 (avcc_encode (u # us))) = length u"
    using Cons.prems by (simp add: avcc_encode_def be32.dec_enc unat_of_nat)
  have d: "drop 4 (avcc_encode (u # us)) = u @ avcc_encode us" "\<not> length (avcc_encode (u # us)) < 4"
    by (simp_all add: avcc_encode_def)
  show ?case
    using Cons by (subst avcc_units.simps) (simp only: n d Let_def if_False, simp)
qed


section \<open>Whole messages\<close>

lemma classify_eq:
  assumes "track_at b q t s" "is_config_frame (pkt\<lparr>pkt_buf := fst s\<rparr>) = Inr c"
  shows "classify pkt s = (Inr c, s)"
  using assms by (simp add: classify_def)

text \<open>The 24-bit composition time offset is sign-extended.\<close>

lemma composition_offset_eq: "composition_offset p = signed_take_bit 23 (load_be24 p)"
proof -
  let ?x = "load_be24 p" and ?m = "NOT (mask 23) :: u32"
  have x: "take_bit (Suc 23) ?x = ?x"
    using load_be24_less [of p] take_bit_24_eq [of ?x] by simp
  have b: "k < 23 \<or> k = 23" if "bit ?x k" for k
    using x that by (metis bit_take_bit_iff less_Suc_eq)
  have m: "0xff800000 = ?m" "?m = - (2 ^ 23)"
    by (simp_all add: mask_eq_exp_minus_1 not_eq_complement)
  have disj: "take_bit 23 ?x AND ?m = 0"
    by (rule bit_word_eqI) (auto simp: bit_simps)
  have "(?x + ?m) XOR ?m = signed_take_bit 23 ?x"
  proof (cases "bit ?x 23")
    case False
    then have x: "take_bit 23 ?x = ?x"
      by (intro bit_word_eqI) (auto simp: bit_simps dest: b)
    then have "?x + ?m = ?x OR ?m"
      using disj by (simp add: disjunctive_add_eq_or)
    moreover have "(take_bit 23 ?x OR ?m) XOR ?m = take_bit 23 ?x"
      by (rule bit_word_eqI) (auto simp: bit_simps)
    ultimately show ?thesis
      using x False by (simp add: signed_take_bit_eq_if_positive)
  next
    case True
    define e :: u32 where "e = 2 ^ 23"
    have e: "bit e k \<longleftrightarrow> k = 23" for k
      by (simp only: e_def bit_exp_iff possible_bit_word) auto
    have "?x = e OR take_bit 23 ?x"
      using True by (intro bit_word_eqI) (auto simp: bit_simps e dest: b)
    moreover have "e AND take_bit 23 ?x = 0"
      by (rule bit_word_eqI) (auto simp: bit_simps e)
    ultimately have "?x = 2 ^ 23 + take_bit 23 ?x"
      using disjunctive_add_eq_or [of e "take_bit 23 ?x"] by (simp add: e_def)
    then have "?x + ?m = 2 ^ 23 + take_bit 23 ?x + - (2 ^ 23)"
      using m(2) by simp
    then have "?x + ?m = take_bit 23 ?x"
      by simp
    moreover have "take_bit 23 ?x XOR ?m = take_bit 23 ?x OR ?m"
      by (rule bit_word_eqI) (auto simp: bit_simps)
    ultimately show ?thesis
      using True by (simp add: signed_take_bit_eq_if_negative)
  qed
  then show ?thesis
    by (simp only: composition_offset_def m(1) load_be24_def)
qed

lemma track_at_bytes:
  assumes "track_at b q t (b1, t1)"
  shows "fb_ok b1 \<and> unread b1 = q \<and> t1 = t"
  using track_at_ok [OF assms] assms by (simp add: track_at_def)

text \<open>A video message that is no configuration: its units become annex B frames.\<close>

lemma h264_input_units:
  assumes "fb_ok b" "unread b = h # x # c0 # c1 # c2 # avcc_encode us"
    and "\<forall>u \<in> set us. length u < 2 ^ 32" "translator t \<noteq> None" "time_stamp pkt = Some ts"
    and "is_config_frame (pkt\<lparr>pkt_buf := b\<rparr>) = Inr False"
  defines "pts \<equiv> ts + signed_take_bit 23 (load_be24 [c0, c1, c2])"
  shows "\<exists>b' t'. h264_input_rtmp pkt (b, t) = (Inr (), (b', t'))
    \<and> frames_of t' = frames_of t @ map (\<lambda>u. h264_frame u ts pts) us"
proof -
  have s0: "track_at b (h # x # c0 # c1 # c2 # avcc_encode us) t (b, t)"
    using track_at_start [OF assms(1)] assms(2) by simp
  have q0: "on_buf (requiring 5) (b, t) = (Inr (), (b, t))"
    using on_requiring [OF s0, of 5] by simp
  have q1: "classify pkt (b, t) = (Inr False, (b, t))"
    using classify_eq [OF s0] assms(6) by simp
  obtain s2 where s2: "on_buf (consuming 2) (b, t) = (Inr (), s2)"
    "track_at b (c0 # c1 # c2 # avcc_encode us) t s2"
    using on_consuming [of b "[h, x]" "c0 # c1 # c2 # avcc_encode us" t "(b, t)" 2] s0 by auto
  have q2: "on_buf (peeking 3) s2 = (Inr [c0, c1, c2], s2)"
    using on_peeking [OF s2(2), of 3] by simp
  obtain s3 where s3: "on_buf (consuming 3) s2 = (Inr (), s3)" "track_at b (avcc_encode us) t s3"
    using on_consuming [of b "[c0, c1, c2]" "avcc_encode us" t s2 3] s2(2) by auto
  obtain b3 where s3': "s3 = (b3, t)" "fb_ok b3" "unread b3 = avcc_encode us"
    using track_at_bytes s3(2) by (metis surj_pair)
  obtain b' t' where "split_nal_frame ts pts b3 t = (Inr (), (b', t'))"
    "frames_of t' = frames_of t @ map (\<lambda>u. h264_frame u ts pts) us"
    using split_nal_frame_eq [OF s3'(2) assms(4), of ts pts] avcc_units_encode [OF assms(3)]
    by (auto simp: s3'(3))
  then show ?thesis
    using q0 q1 s2(1) q2 s3(1) assms(5)
    by (simp add: h264_input_rtmp_def ebind_def s3'(1) composition_offset_eq pts_def)
qed

lemma capture_fb [simp]: "fb_ok b \<Longrightarrow> fb_ok (capture_snapshot b)" "unread (capture_snapshot b) = unread b"
  by simp_all

lemma config_capture: "is_config_frame (p\<lparr>pkt_buf := capture_snapshot b\<rparr>) = is_config_frame (p\<lparr>pkt_buf := b\<rparr>)"
  by (simp add: is_config_frame_def is_video_keyframe_def get_av_codec_id_def peek_uint8_def
      data_bytes_def require_length_or_fail_def unread_length_def capture_snapshot_def cong: if_cong)

text \<open>An audio frame gets an ADTS header of its own in front.\<close>

lemma aac_input_frame:
  assumes "fb_ok b" "unread b = h # x # data" "aac_cfg t = g1 # g2 # g"
    and "translator t \<noteq> None" "time_stamp pkt = Some ts"
    and "is_config_frame (pkt\<lparr>pkt_buf := b\<rparr>) = Inr False"
  shows "\<exists>b' t' hd. aac_input_rtmp pkt (b, t) = (Inr (), (b', t'))
    \<and> frames_of t' = frames_of t @ [aac_frame (adts_buffer hd data) ts]
    \<and> syncword hd = 0xFFF \<and> layer hd = 0 \<and> protection_absent hd = 1
    \<and> profile hd = ucast (drop_bit 3 g1) - 1
    \<and> sampling_frequency_index hd = ucast (sample_index g1 g2)
    \<and> channel_configuration hd = ucast (config_channel g2)
    \<and> aac_frame_length hd = word_of_nat (length data + 7)"
proof -
  have s0: "track_at b (h # x # data) t (b, t)"
    using track_at_start [OF assms(1)] assms(2) by simp
  have q0: "on_buf (requiring 2) (b, t) = (Inr (), (b, t))"
    using on_requiring [OF s0, of 2] by simp
  have q1: "classify pkt (b, t) = (Inr False, (b, t))"
    using classify_eq [OF s0] assms(6) by simp
  obtain s2 where s2: "on_buf (consuming 2) (b, t) = (Inr (), s2)" "track_at b data t s2"
    using on_consuming [of b "[h, x]" data t "(b, t)" 2] s0 by auto
  obtain b2 where b2: "s2 = (b2, t)" "fb_ok b2" "unread b2 = data"
    using track_at_bytes s2(2) by (metis surj_pair)
  have d: "data_bytes 0 (unread_length b2) b2 = Inr data" "unread_length b2 = length data"
    using data_bytes_front [OF b2(2) order_refl] b2(3) by (simp_all flip: length_unread)
  show ?thesis
    using q0 q1 s2(1) assms(3,5) d
    by (simp add: aac_input_rtmp_def ebind_def b2(1) input_aac_frame_def extract_aac_config_def
        frames_of_input [OF assms(4)] Let_def kAdtsHeaderLength_def)
      (rule exI, intro conjI, rule refl, simp_all)
qed

section \<open>Properties\<close>

text \<open>C23: the demuxer leaves the message as it was. Whatever a decoder consumed of it, once the
  demuxer returns without an exception the unread bytes and all other fields are the ones it was
  given, so that the dispatcher can send the same message on.\<close>

theorem demuxer_keeps_message:
  assumes "pkt_ok pkt" "demuxer_input_rtmp pkt d = (Inr (), (pkt', d'))"
  shows "payload pkt' = payload pkt \<and> pkt_ok pkt'
    \<and> pkt' = pkt\<lparr>pkt_buf := capture_snapshot (pkt_buf pkt)\<rparr>"
  using demuxer_restores [OF assms] assms(1) by (simp add: payload_def pkt_ok_def)

theorem demuxer_keeps_message_witness:
  "\<exists>pkt' d'. demuxer_input_rtmp (create_packet\<lparr>msg_type_id := Some 20, pkt_buf := buf_write [1, 2] (create 4)\<rparr>)
      new_demuxer = (Inr (), (pkt', d')) \<and> payload pkt' = [1, 2]"
proof -
  let ?p = "create_packet\<lparr>msg_type_id := Some 20, pkt_buf := buf_write [1, 2] (create 4)\<rparr>"
  obtain p' d' where e: "demuxer_input_rtmp ?p new_demuxer = (Inr (), (p', d'))"
    by (simp add: demuxer_input_rtmp_def msg_defs)
  moreover have "pkt_ok ?p" "payload ?p = [1, 2]"
    by (simp_all add: pkt_ok_def payload_def)
  ultimately show ?thesis
    using demuxer_keeps_message [OF _ e] by auto
qed

text \<open>The units of a video message are split at their length fields exactly as the reference
  splits them: every unit becomes one frame, in order, behind an annex B start code, with the
  message's decoding and presentation times; bytes left over end in an exception after the whole
  units were delivered.\<close>

theorem nal_units_to_annexb:
  assumes "fb_ok b" "translator t \<noteq> None"
  shows "\<exists>b' t'. split_nal_frame dts pts b t = (if snd (avcc_units (unread b)) = [] then Inr ()
        else Inl (Runtime_error ''H.264 frames are encoded incorrectly''), (b', t'))
    \<and> frames_of t' = frames_of t @ map (\<lambda>u. h264_frame u dts pts) (fst (avcc_units (unread b)))"
  using split_nal_frame_eq [OF assms, of dts pts] by blast

theorem nal_units_to_annexb_witness:
  "\<exists>b' t'. split_nal_frame 5 6 (buf_write [0, 0, 0, 2, 0x65, 9, 0, 0, 0, 1, 0x41] (create 4))
      (new_h264_track 0 (Some [])) = (Inr (), (b', t'))
    \<and> frames_of t' = [h264_frame [0x65, 9] 5 6, h264_frame [0x41] 5 6]"
proof -
  have "avcc_units [0, 0, 0, 2, 0x65, 9, 0, 0, 0, 1, 0x41] = ([[0x65, 9], [0x41]], [])"
    by (simp add: avcc_units.simps load_be32_def)
  then show ?thesis
    using nal_units_to_annexb [of "buf_write [0, 0, 0, 2, 0x65, 9, 0, 0, 0, 1, 0x41] (create 4)"
        "new_h264_track 0 (Some [])" 5 6]
    by (auto simp: new_h264_track_def frames_of_def)
qed

text \<open>C19: a video message that is no configuration, with any number of length-prefixed units,
  goes through the demuxer without an exception: the track gets one frame for each unit, with the
  message's time as decoding time and, as presentation time, that time moved by the signed 24-bit
  composition offset; the message is unchanged.\<close>

theorem video_message_frames:
  assumes "pkt_ok pkt" "msg_type_id pkt = Some MSG_VIDEO" "time_stamp pkt = Some ts"
    and "payload pkt = h # x # c0 # c1 # c2 # avcc_encode us" "\<not> spec_video_config h x"
    and "\<forall>u \<in> set us. length u < 2 ^ 32" "video_decoder d = Some v" "translator v \<noteq> None"
  shows "\<exists>pkt' d' v'. demuxer_input_rtmp pkt d = (Inr (), (pkt', d')) \<and> payload pkt' = payload pkt
    \<and> video_decoder d' = Some v' \<and> frames_of v' = frames_of v
      @ map (\<lambda>u. h264_frame u ts (ts + signed_take_bit 23 (load_be24 [c0, c1, c2]))) us"
proof -
  let ?b = "capture_snapshot (pkt_buf pkt)"
  have ok: "fb_ok ?b" "unread ?b = h # x # c0 # c1 # c2 # avcc_encode us"
    using assms(1,4) by (simp_all add: pkt_ok_def payload_def)
  have "is_config_frame pkt = Inr False"
    using is_config_frame_video [OF assms(1,2,4)] assms(5) by simp
  then have "is_config_frame ((pkt\<lparr>pkt_buf := ?b\<rparr>)\<lparr>pkt_buf := ?b\<rparr>) = Inr False"
    using config_capture [where p = pkt and b = "pkt_buf pkt"] by simp
  from h264_input_units [OF ok assms(6,8) _ this] assms(3)
  obtain b' v' where v': "h264_input_rtmp (pkt\<lparr>pkt_buf := ?b\<rparr>) (?b, v) = (Inr (), (b', v'))"
    "frames_of v' = frames_of v
      @ map (\<lambda>u. h264_frame u ts (ts + signed_take_bit 23 (load_be24 [c0, c1, c2]))) us"
    by auto
  then have e: "demuxer_input_rtmp pkt d = (Inr (), (pkt\<lparr>pkt_buf := restore_snapshot b'\<rparr>,
      d\<lparr>video_decoder := Some v'\<rparr>))"
    using assms(2,7) by (simp add: demuxer_input_rtmp_def)
  show ?thesis
    using demuxer_restores [OF assms(1) e] e v'(2) by (auto simp: payload_def)
qed

theorem video_message_frames_witness:
  "\<exists>pkt' d' v'. demuxer_input_rtmp (create_packet\<lparr>msg_type_id := Some 9, time_stamp := Some 40,
        pkt_buf := buf_write [0x27, 1, 0xFF, 0xFF, 0xFE, 0, 0, 0, 1, 0x41] (create 16)\<rparr>)
      (new_demuxer\<lparr>video_decoder := Some (new_h264_track 0 (Some []))\<rparr>) = (Inr (), (pkt', d'))
    \<and> video_decoder d' = Some v' \<and> frames_of v' = [h264_frame [0x41] 40 38]"
proof -
  let ?p = "create_packet\<lparr>msg_type_id := Some 9, time_stamp := Some 40,
        pkt_buf := buf_write [0x27, 1, 0xFF, 0xFF, 0xFE, 0, 0, 0, 1, 0x41] (create 16)\<rparr>"
  have p: "pkt_ok ?p" "msg_type_id ?p = Some MSG_VIDEO"
    "payload ?p = 0x27 # 1 # 0xFF # 0xFF # 0xFE # avcc_encode [[0x41]]" "\<not> spec_video_config 0x27 1"
    by (simp_all add: pkt_ok_def msg_defs payload_def avcc_encode_def set_be32_def spec_video_config_def
        spec_keyframe_def tag_frame_type_def tag_extended_def bit_7_u8)
  have c: "40 + signed_take_bit 23 (load_be24 [0xFF, 0xFF, 0xFE]) = (38 :: u32)"
    by (simp add: load_be24_def)
  show ?thesis
    using video_message_frames [OF p(1,2) _ p(3,4), of 40 "new_demuxer\<lparr>video_decoder := Some (new_h264_track 0 (Some []))\<rparr>"]
    by (auto simp: c new_h264_track_def frames_of_def)
qed

text \<open>C20: an AAC message that is no configuration goes through the demuxer without an exception
  once the track has its configuration: the track gets one frame, the raw data behind a 7-byte
  header that reads back as an ADTS header with the configured profile, sampling index and
  channels and the length of header and data (mod 8192); the message is unchanged.\<close>

theorem audio_message_frame:
  assumes "pkt_ok pkt" "msg_type_id pkt = Some MSG_AUDIO" "time_stamp pkt = Some ts"
    and "payload pkt = h # x # data" "\<not> spec_audio_config h x"
    and "audio_decoder d = Some v" "aac_cfg v = g1 # g2 # g" "translator v \<noteq> None"
  shows "\<exists>pkt' d' v' fr hd. demuxer_input_rtmp pkt d = (Inr (), (pkt', d')) \<and> payload pkt' = payload pkt
    \<and> audio_decoder d' = Some v' \<and> frames_of v' = frames_of v @ [fr] \<and> frame_dts fr = ts
    \<and> frame_bytes fr = hd @ data \<and> length hd = 7 \<and> syncword (adts_parse hd) = 0xFFF
    \<and> layer (adts_parse hd) = 0 \<and> protection_absent (adts_parse hd) = 1
    \<and> profile (adts_parse hd) = take_bit 2 (ucast (drop_bit 3 g1) - 1)
    \<and> sampling_frequency_index (adts_parse hd) = take_bit 4 (ucast (sample_index g1 g2))
    \<and> channel_configuration (adts_parse hd) = take_bit 3 (ucast (config_channel g2))
    \<and> aac_frame_length (adts_parse hd) = word_of_nat ((length data + 7) mod 8192)"
proof -
  let ?b = "capture_snapshot (pkt_buf pkt)"
  have ok: "fb_ok ?b" "unread ?b = h # x # data"
    using assms(1,4) by (simp_all add: pkt_ok_def payload_def)
  have "is_config_frame pkt = Inr False"
    using is_config_frame_audio [OF assms(1,2,4)] assms(5) by simp
  then have "is_config_frame ((pkt\<lparr>pkt_buf := ?b\<rparr>)\<lparr>pkt_buf := ?b\<rparr>) = Inr False"
    using config_capture [where p = pkt and b = "pkt_buf pkt"] by simp
  from aac_input_frame [OF ok assms(7,8) _ this] assms(3)
  obtain b' v' hd where v': "aac_input_rtmp (pkt\<lparr>pkt_buf := ?b\<rparr>) (?b, v) = (Inr (), (b', v'))"
    "frames_of v' = frames_of v @ [aac_frame (adts_buffer hd data) ts]"
    and hd: "syncword hd = 0xFFF" "layer hd = 0" "protection_absent hd = 1"
      "profile hd = ucast (drop_bit 3 g1) - 1" "sampling_frequency_index hd = ucast (sample_index g1 g2)"
      "channel_configuration hd = ucast (config_channel g2)"
      "aac_frame_length hd = word_of_nat (length data + 7)"
    by auto
  have e: "demuxer_input_rtmp pkt d = (Inr (), (pkt\<lparr>pkt_buf := restore_snapshot b'\<rparr>,
      d\<lparr>audio_decoder := Some v'\<rparr>))"
    using assms(2,6) v'(1) by (simp add: demuxer_input_rtmp_def msg_defs)
  have "take_bit 13 (word_of_nat (length data + 7) :: u32) = word_of_nat ((length data + 7) mod 8192)"
    by (simp only: take_bit_of_nat) (simp add: take_bit_eq_mod)
  moreover have "take_bit 12 (0xFFF :: u32) = 0xFFF" "length (dump_adts_header hd) = 7"
    by (simp_all add: dump_adts_header_def)
  moreover have "frame_bytes (aac_frame (adts_buffer hd data) ts) = dump_adts_header hd @ data"
    by (simp add: frame_bytes_def aac_frame_def adts_buffer_def)
  ultimately show ?thesis
    using demuxer_restores [OF assms(1) e] e v'(2) hd adts_round_trip_aux [of hd]
    by (intro exI [of _ "pkt\<lparr>pkt_buf := restore_snapshot b'\<rparr>"] exI [of _ "d\<lparr>audio_decoder := Some v'\<rparr>"]
        exI [of _ v'] exI [of _ "aac_frame (adts_buffer hd data) ts"] exI [of _ "dump_adts_header hd"])
      (simp add: payload_def aac_frame_def adts_cut_def)
qed

theorem audio_message_frame_witness:
  "\<exists>pkt' d' v' fr hd. demuxer_input_rtmp (create_packet\<lparr>msg_type_id := Some 8, time_stamp := Some 40,
        pkt_buf := buf_write [0xAF, 1, 7, 8] (create 16)\<rparr>)
      (new_demuxer\<lparr>audio_decoder := Some (new_aac_track 0 (Some [])\<lparr>aac_cfg := [0x12, 0x10]\<rparr>)\<rparr>) = (Inr (), (pkt', d'))
    \<and> audio_decoder d' = Some v' \<and> frames_of v' = [fr] \<and> frame_bytes fr = hd @ [7, 8]
    \<and> sampling_frequency_index (adts_parse hd) = 4 \<and> channel_configuration (adts_parse hd) = 2
    \<and> aac_frame_length (adts_parse hd) = 9"
proof -
  let ?p = "create_packet\<lparr>msg_type_id := Some 8, time_stamp := Some 40,
        pkt_buf := buf_write [0xAF, 1, 7, 8] (create 16)\<rparr>"
  let ?v = "new_aac_track 0 (Some [])\<lparr>aac_cfg := [0x12, 0x10]\<rparr>"
  have p: "pkt_ok ?p" "msg_type_id ?p = Some MSG_AUDIO" "time_stamp ?p = Some 40"
    "payload ?p = 0xAF # 1 # [7, 8]" "\<not> spec_audio_config 0xAF 1"
    by (simp_all add: pkt_ok_def msg_defs payload_def spec_audio_config_def)
  have v: "aac_cfg ?v = 0x12 # 0x10 # []" "translator ?v \<noteq> None" "frames_of ?v = []"
    by (simp_all add: new_aac_track_def frames_of_def)
  have c: "take_bit 4 (ucast (sample_index 0x12 0x10)) = (4 :: u32)"
    "take_bit 3 (ucast (config_channel 0x10)) = (2 :: u32)"
    by (simp_all add: sample_index_def config_channel_def)
  show ?thesis
    using audio_message_frame [OF p _ v(1,2), of "new_demuxer\<lparr>audio_decoder := Some ?v\<rparr>"]
    by (simp add: c v(3)) blast
qed

end
