(* ===== verification/Media_Info.thy ===== *)
theory Media_Info
  imports Std_String
begin

text \<open>
  \<open>include/media/media_info.h\<close>: what names a stream, and how the name that a publisher
  sends is taken apart. The creation time, read from the clock, is a parameter.
\<close>

definition kRTMP_SCHEMA :: string where "kRTMP_SCHEMA = ''RTMP''"
definition kVhostParam :: string where "kVhostParam = ''vhost=''"
definition kTokenParam :: string where "kTokenParam = ''token=''"

record media_info =
  mi_info :: string
  mi_schema :: string
  mi_app :: string
  mi_vhost :: string
  mi_stream_id :: string
  mi_token :: string
  mi_tc_url :: string
  created_time :: u64

definition create_media_info :: "u64 \<Rightarrow> string \<Rightarrow> media_info" where
  "create_media_info now schema = \<lparr>mi_info = [], mi_schema = schema, mi_app = [], mi_vhost = [],
     mi_stream_id = [], mi_token = [], mi_tc_url = [], created_time = now\<rparr>"

definition set_schema :: "string \<Rightarrow> media_info \<Rightarrow> media_info res" where
  "set_schema s m = (if s = [] then Inl (Invalid_argument ''schema cannot be empty'')
     else Inr (m\<lparr>mi_schema := s\<rparr>))"

definition set_app :: "string \<Rightarrow> media_info \<Rightarrow> media_info res" where
  "set_app s m = (if s = [] then Inl (Invalid_argument ''app cannot be empty'')
     else Inr (m\<lparr>mi_app := s\<rparr>))"

definition set_stream_id :: "string \<Rightarrow> media_info \<Rightarrow> media_info res" where
  "set_stream_id s m = (if s = [] then Inl (Invalid_argument ''stream_id cannot be empty'')
     else Inr (m\<lparr>mi_stream_id := s\<rparr>))"

definition set_vhost :: "string \<Rightarrow> media_info \<Rightarrow> media_info res" where
  "set_vhost s m = (if s = [] then Inl (Invalid_argument ''vhost cannot be empty'')
     else Inr (m\<lparr>mi_vhost := s\<rparr>))"

definition set_token :: "string \<Rightarrow> media_info \<Rightarrow> media_info res" where
  "set_token s m = (if s = [] then Inl (Invalid_argument ''token cannot be empty'')
     else Inr (m\<lparr>mi_token := s\<rparr>))"

definition set_tc_url :: "string \<Rightarrow> media_info \<Rightarrow> media_info res" where
  "set_tc_url s m = (if s = [] then Inl (Invalid_argument ''tc_url cannot be empty'')
     else Inr (m\<lparr>mi_tc_url := s\<rparr>))"

lemma param_lengths: "length kVhostParam = 6" "length kTokenParam = 6"
  by (simp_all add: kVhostParam_def kTokenParam_def)

text \<open>
  \<open>std::isalpha\<close> in the C locale. A byte of 128 or more reaches it as a negative number
  and is taken for no letter, as the C library of the platform does.
\<close>

definition is_alpha :: "char \<Rightarrow> bool" where
  "is_alpha c = (let n = (of_char c :: nat) in (65 \<le> n \<and> n \<le> 90) \<or> (97 \<le> n \<and> n \<le> 122))"

definition parse_stream :: "string \<Rightarrow> media_info \<Rightarrow> media_info res" where
  "parse_stream stream m =
     (if stream = [] then Inl (Invalid_argument ''stream cannot be empty'')
      else let
        start = (case find_if is_alpha stream of Some i \<Rightarrow> i | None \<Rightarrow> 0);
        stream_pos = str_find ''?'' stream (Some start);
        m = m\<lparr>mi_stream_id := str_between stream start stream_pos\<rparr>
      in case str_find kVhostParam stream stream_pos of
        None \<Rightarrow> Inr m
      | Some pos \<Rightarrow> let
          vhost_pos = pos + length kVhostParam;
          amper_pos = str_find ''&'' stream (Some vhost_pos);
          m = m\<lparr>mi_vhost := str_between stream vhost_pos amper_pos\<rparr>
        in case str_find kTokenParam stream amper_pos of
          None \<Rightarrow> Inr m
        | Some token_pos \<Rightarrow> Inr (m\<lparr>mi_token := drop (token_pos + length kTokenParam) stream\<rparr>))"

text \<open>\<open>info()\<close> composes its text once; later changes of the fields do not show.\<close>

definition info :: "media_info \<Rightarrow> string \<times> media_info" where
  "info m = (let i = (if mi_info m = []
       then mi_schema m @ ''|'' @ mi_app m @ ''|'' @ mi_vhost m @ ''|'' @ mi_stream_id m else mi_info m)
     in (i, m\<lparr>mi_info := i\<rparr>))"

definition is_complete :: "media_info \<Rightarrow> bool" where
  "is_complete m \<longleftrightarrow> mi_schema m \<noteq> [] \<and> mi_app m \<noteq> [] \<and> mi_vhost m \<noteq> [] \<and> mi_stream_id m \<noteq> []"

text \<open>The four fields a source is registered under.\<close>

definition media_key :: "media_info \<Rightarrow> string \<times> string \<times> string \<times> string" where
  "media_key m = (mi_schema m, mi_vhost m, mi_app m, mi_stream_id m)"

section \<open>Taking a stream name apart\<close>

lemma parse_start:
  assumes "\<forall>c \<in> set junk. \<not> is_alpha c" "is_alpha c"
  shows "find_if is_alpha (junk @ c # r) = Some (length junk)"
  using assms by (rule find_if_append)

lemma parse_stream_plain_aux:
  assumes "\<forall>c \<in> set junk. \<not> is_alpha c" "sid \<noteq> []" "is_alpha (hd sid)" "CHR ''?'' \<notin> set sid"
  shows "parse_stream (junk @ sid) m = Inr (m\<lparr>mi_stream_id := sid\<rparr>)"
proof -
  obtain c r where sid: "sid = c # r"
    using assms(2) by (cases sid) auto
  then have "find_if is_alpha (junk @ sid) = Some (length junk)"
    using parse_start assms by simp
  moreover have "str_find ''?'' (junk @ sid) (Some (length junk)) = None"
    using find_first_char_None [OF assms(4)] by (simp add: str_find_def)
  ultimately show ?thesis
    using assms(2) by (simp add: parse_stream_def Let_def str_between_def)
qed

lemma parse_stream_full_aux:
  assumes "\<forall>c \<in> set junk. \<not> is_alpha c" "sid \<noteq> []" "is_alpha (hd sid)" "CHR ''?'' \<notin> set sid"
    and "CHR ''&'' \<notin> set vhost"
  shows "parse_stream (junk @ sid @ ''?vhost='' @ vhost @ ''&token='' @ token) m
    = Inr (m\<lparr>mi_stream_id := sid, mi_vhost := vhost, mi_token := token\<rparr>)"
proof -
  let ?t = "''token='' @ token"
  let ?v = "''vhost='' @ vhost @ CHR ''&'' # ?t"
  let ?s = "junk @ sid @ CHR ''?'' # ?v"
  obtain c r where sid: "sid = c # r"
    using assms(2) by (cases sid) auto
  have start: "find_if is_alpha ?s = Some (length junk)"
    using parse_start [OF assms(1), of c "r @ CHR ''?'' # ?v"] assms(3) sid by simp
  have q: "str_find ''?'' ?s (Some (length junk)) = Some (length junk + length sid)"
    using find_first_char [OF assms(4)] by (simp add: str_find_def)
  have "find_first kVhostParam (CHR ''?'' # ?v) = Some 1"
    using find_first_here [of kVhostParam "vhost @ CHR ''&'' # ?t"]
    by (simp add: kVhostParam_def find_first_next)
  then have v: "str_find kVhostParam ?s (Some (length junk + length sid)) = Some (length junk + length sid + 1)"
    by (simp add: str_find_def)
  let ?p = "length junk + length sid + 7"
  have dv: "drop ?p ?s = vhost @ CHR ''&'' # ?t"
    by simp
  have a: "str_find ''&'' ?s (Some ?p) = Some (?p + length vhost)"
    using find_first_char [OF assms(5), of ?t] unfolding str_find_def option.case dv by simp
  have da: "drop (?p + length vhost) ?s = CHR ''&'' # ?t"
    by (subst add.commute, subst drop_drop [symmetric], subst dv) simp
  have "find_first kTokenParam (CHR ''&'' # ?t) = Some 1"
    using find_first_here [of kTokenParam token] by (simp add: kTokenParam_def find_first_next)
  then have t: "str_find kTokenParam ?s (Some (?p + length vhost)) = Some (?p + length vhost + 1)"
    unfolding str_find_def option.case da by simp
  have dt: "drop (?p + length vhost + 7) ?s = token"
    by (subst add.commute, subst drop_drop [symmetric], subst da) simp
  have b: "str_between ?s (length junk) (Some (length junk + length sid)) = sid"
    "str_between ?s ?p (Some (?p + length vhost)) = vhost"
    unfolding str_between_def option.case dv by simp_all
  have e: "junk @ sid @ ''?vhost='' @ vhost @ ''&token='' @ token = ?s" "?s \<noteq> []"
    by simp_all
  define s where "s = ?s"
  note facts = start q v a t b dt e(2)
  show ?thesis
    unfolding e(1) using facts unfolding s_def [symmetric]
    by (simp add: parse_stream_def Let_def param_lengths ac_simps)
qed

section \<open>Properties\<close>

text \<open>C18: a stream name of the documented form, an identifier that starts with a letter, the
  virtual host and the token, is taken apart into exactly these three; what precedes the first
  letter is dropped.\<close>

theorem parse_stream_full:
  assumes "\<forall>c \<in> set junk. \<not> is_alpha c" "sid \<noteq> []" "is_alpha (hd sid)" "CHR ''?'' \<notin> set sid"
    and "CHR ''&'' \<notin> set vhost"
  shows "parse_stream (junk @ sid @ ''?vhost='' @ vhost @ ''&token='' @ token) m
    = Inr (m\<lparr>mi_stream_id := sid, mi_vhost := vhost, mi_token := token\<rparr>)"
  using parse_stream_full_aux [OF assms] .

theorem parse_stream_full_witness:
  "parse_stream ''/live1?vhost=a.com&token=x'' (create_media_info 0 ''RTMP'')
     = Inr (create_media_info 0 ''RTMP''\<lparr>mi_stream_id := ''live1'', mi_vhost := ''a.com'', mi_token := ''x''\<rparr>)"
  using parse_stream_full [of "''/''" "''live1''" "''a.com''" "''x''" "create_media_info 0 ''RTMP''"]
  by (simp add: is_alpha_def)

text \<open>A stream name without a question mark sets the identifier alone: with no virtual host set
  before, the media information stays incomplete and no source can be found or created for it.\<close>

theorem parse_stream_plain:
  assumes "\<forall>c \<in> set junk. \<not> is_alpha c" "sid \<noteq> []" "is_alpha (hd sid)" "CHR ''?'' \<notin> set sid"
    and "mi_vhost m = []"
  shows "parse_stream (junk @ sid) m = Inr (m\<lparr>mi_stream_id := sid\<rparr>)
    \<and> \<not> is_complete (m\<lparr>mi_stream_id := sid\<rparr>)"
  using parse_stream_plain_aux [OF assms(1-4)] assms(5) by (simp add: is_complete_def)

theorem parse_stream_plain_witness:
  "parse_stream ''live'' (create_media_info 0 ''RTMP'') = Inr (create_media_info 0 ''RTMP''\<lparr>mi_stream_id := ''live''\<rparr>)"
  using parse_stream_plain [of "[]" "''live''" "create_media_info 0 ''RTMP''"]
  by (simp add: is_alpha_def create_media_info_def)

end
