(* ===== verification/Timer.thy ===== *)
theory Timer
  imports Prelude
begin

text \<open>
  \<open>include/util/timer.h\<close>: the ticker and the byte rate of a track. The clock is a
  parameter: an operation is given the milliseconds that its reads of the clock return, in the
  order in which it makes them.
\<close>

record ticker =
  tick_begin :: u64
  tick_created :: u64

definition new_ticker :: "u64 \<Rightarrow> ticker" where
  "new_ticker now = \<lparr>tick_begin = now, tick_created = now\<rparr>"

definition elapsed_time :: "u64 \<Rightarrow> ticker \<Rightarrow> u64" where
  "elapsed_time now t = now - tick_begin t"

definition time_since_creation :: "u64 \<Rightarrow> ticker \<Rightarrow> u64" where
  "time_since_creation now t = now - tick_created t"

definition reset_time :: "u64 \<Rightarrow> ticker \<Rightarrow> ticker" where
  "reset_time now t = t\<lparr>tick_begin := now\<rparr>"

record bytes_speed =
  cur_speed :: i32
  cur_bytes :: u64
  sp_ticker :: ticker

definition new_bytes_speed :: "u64 \<Rightarrow> bytes_speed" where
  "new_bytes_speed now = \<lparr>cur_speed = 0, cur_bytes = 0, sp_ticker = new_ticker now\<rparr>"

text \<open>\<open>bytes_ * 1000\<close> wraps at 64 bits; the cast to \<open>int\<close> keeps the low 32 bits.\<close>

definition compute_speed :: "u64 \<Rightarrow> u64 \<Rightarrow> bytes_speed \<Rightarrow> i32 \<times> bytes_speed" where
  "compute_speed t1 t2 s = (let elapsed = elapsed_time t1 (sp_ticker s)
     in if elapsed = 0 then (cur_speed s, s)
        else let v = ucast (cur_bytes s * 1000 div elapsed)
          in (v, s\<lparr>cur_speed := v, sp_ticker := reset_time t2 (sp_ticker s), cur_bytes := 0\<rparr>))"

definition add_bytes :: "u64 \<Rightarrow> u64 \<Rightarrow> u64 \<Rightarrow> bytes_speed \<Rightarrow> bytes_speed" where
  "add_bytes t1 t2 n s = (let s = s\<lparr>cur_bytes := cur_bytes s + n\<rparr>
     in if cur_bytes s > 1024 * 1024 then snd (compute_speed t1 t2 s) else s)"

definition get_speed :: "u64 \<Rightarrow> u64 \<Rightarrow> u64 \<Rightarrow> bytes_speed \<Rightarrow> i32 \<times> bytes_speed" where
  "get_speed t0 t1 t2 s = (if elapsed_time t0 (sp_ticker s) < 1000 then (cur_speed s, s)
     else compute_speed t1 t2 s)"

section \<open>The rate is the average over the interval\<close>

lemma unat_mult_u64: "unat (a :: u64) * unat b < 2 ^ 64 \<Longrightarrow> unat (a * b) = unat a * unat b"
  by (simp add: unat_word_ariths)

lemma compute_speed_average:
  assumes "tick_begin (sp_ticker s) < t1" "unat (cur_bytes s) < 2 ^ 54"
  shows "fst (compute_speed t1 t2 s)
    = word_of_nat (unat (cur_bytes s) * 1000 div (unat t1 - unat (tick_begin (sp_ticker s))))"
proof -
  have e: "unat (t1 - tick_begin (sp_ticker s)) = unat t1 - unat (tick_begin (sp_ticker s))"
    using assms(1) by (simp add: unat_sub less_imp_le)
  have m: "unat (cur_bytes s * 1000) = unat (cur_bytes s) * 1000"
    using unat_mult_u64 [of "cur_bytes s" 1000] assms(2) by simp
  have "t1 - tick_begin (sp_ticker s) \<noteq> 0"
    using assms(1) by auto
  then show ?thesis
    using e m by (simp add: compute_speed_def elapsed_time_def Let_def word_unat_eq_iff unat_div
        unsigned_ucast_eq take_bit_eq_mod unsigned_of_nat)
qed

text \<open>Over an interval of \<open>t\<close> milliseconds in which \<open>n\<close> bytes (fewer than
  \<open>2^54\<close>) were counted, \<open>compute_speed\<close> gives \<open>n * 1000 / t\<close> bytes a second,
  rounded down (modulo \<open>2^32\<close>, the width of the result), and starts a new interval.\<close>

theorem speed_is_average:
  assumes "tick_begin (sp_ticker s) < t1" "unat (cur_bytes s) < 2 ^ 54"
  shows "compute_speed t1 t2 s
    = (let v = word_of_nat (unat (cur_bytes s) * 1000 div (unat t1 - unat (tick_begin (sp_ticker s))))
       in (v, s\<lparr>cur_speed := v, cur_bytes := 0, sp_ticker := sp_ticker s\<lparr>tick_begin := t2\<rparr>\<rparr>))"
proof -
  have "t1 - tick_begin (sp_ticker s) \<noteq> 0"
    using assms(1) by auto
  then show ?thesis
    using compute_speed_average [OF assms, of t2]
    by (simp add: compute_speed_def elapsed_time_def Let_def reset_time_def)
qed

theorem speed_is_average_witness:
  "fst (compute_speed 3000 3001 (new_bytes_speed 1000\<lparr>cur_bytes := 500000\<rparr>)) = 250000"
proof -
  have "unat (500000 :: u64) = 500000" "unat (3000 :: u64) = 3000" "unat (1000 :: u64) = 1000"
    by simp_all
  then show ?thesis
    using speed_is_average [of "new_bytes_speed 1000\<lparr>cur_bytes := 500000\<rparr>" 3000 3001]
    by (simp add: new_bytes_speed_def new_ticker_def Let_def)
qed

end
