(* ===== verification/Media_Source.thy ===== *)
theory Media_Source
  imports Media_Info Timer "HOL-Library.AList"
begin

text \<open>
  \<open>include/media/media_source.h\<close> and \<open>src/media/media_source.cpp\<close>: the sources
  of the program and the registry through which clients find them. The registry is the nest of
  four hash maps of the code, association lists here; its leaves are weak pointers, the
  identities of sources, which lock as long as the source exists. Identities are not reused.
  A source shares its media information with the session that made it, so the information
  lives in a store of its own. Every operation runs under the registry's lock and is one step.
\<close>

section \<open>The nested maps\<close>

type_synonym stream_map = "(string \<times> nat) list"
type_synonym app_map = "(string \<times> stream_map) list"
type_synonym vhost_map = "(string \<times> app_map) list"
type_synonym schema_map = "(string \<times> vhost_map) list"
type_synonym media_key = "string \<times> string \<times> string \<times> string"

text \<open>\<open>map[k]\<close>, which makes an empty entry where there is none, and storing through it.\<close>

definition at_key :: "('k \<times> 'm list) list \<Rightarrow> 'k \<Rightarrow> 'm list" where
  "at_key m k = (case map_of m k of None \<Rightarrow> [] | Some v \<Rightarrow> v)"

definition put_source :: "media_key \<Rightarrow> nat \<Rightarrow> schema_map \<Rightarrow> schema_map" where
  "put_source = (\<lambda>(schema, vhost, app, stream_id) src reg.
     let vhosts = at_key reg schema; apps = at_key vhosts vhost; streams = at_key apps app
     in AList.update schema (AList.update vhost (AList.update app
          (AList.update stream_id src streams) apps) vhosts) reg)"

definition look_up :: "schema_map \<Rightarrow> media_key \<Rightarrow> nat option" where
  "look_up reg = (\<lambda>(schema, vhost, app, stream_id).
     map_of (at_key (at_key (at_key reg schema) vhost) app) stream_id)"

text \<open>
  \<open>erase_media_source\<close>: the inner template erases the entry if its source is gone or is
  the given one; the outer one erases the entry of a map that became empty. The result is the
  map, whether it is empty, and \<open>hit\<close>.
\<close>

definition erase_leaf :: "(nat \<Rightarrow> bool) \<Rightarrow> nat \<Rightarrow> string \<Rightarrow> stream_map \<Rightarrow> stream_map \<times> bool" where
  "erase_leaf live this k m = (case map_of m k of
     None \<Rightarrow> (m, False)
   | Some src \<Rightarrow> if \<not> live src \<or> src = this then (AList.delete k m, True) else (m, False))"

definition erase_node :: "('m list \<Rightarrow> 'm list \<times> bool) \<Rightarrow> string \<Rightarrow> (string \<times> 'm list) list \<Rightarrow>
    (string \<times> 'm list) list \<times> bool" where
  "erase_node inner k m = (case map_of m k of
     None \<Rightarrow> (m, False)
   | Some v \<Rightarrow> let (v', hit) = inner v
      in (if v' = [] then AList.delete k m else AList.update k v' m, hit))"

definition erase_media_source :: "(nat \<Rightarrow> bool) \<Rightarrow> nat \<Rightarrow> media_key \<Rightarrow> schema_map \<Rightarrow> schema_map" where
  "erase_media_source live this = (\<lambda>(schema, vhost, app, stream_id) reg.
     fst (erase_node (erase_node (erase_node (erase_leaf live this stream_id) app) vhost) schema reg))"

section \<open>Sources\<close>

record media_source =
  src_info :: nat
  owned :: bool
  is_registered :: bool
  audio_speed :: bytes_speed
  video_speed :: bytes_speed

record 's media_world =
  registry :: schema_map
  infos :: "nat \<Rightarrow> media_info option"
  sources :: "nat \<Rightarrow> 's option"

text \<open>The constructor refuses missing or incomplete information.\<close>

definition check_info :: "media_info option \<Rightarrow> unit res" where
  "check_info m = (case m of
     None \<Rightarrow> Inl (Invalid_argument ''Cannot build a media source with invalid media info.'')
   | Some m \<Rightarrow> throw_if (\<not> is_complete m) (Invalid_argument ''Cannot build a media source with invalid media info.''))"

definition live :: "'s media_world \<Rightarrow> nat \<Rightarrow> bool" where
  "live w i \<longleftrightarrow> sources w i \<noteq> None"

definition change_source :: "nat \<Rightarrow> ('s \<Rightarrow> 's) \<Rightarrow> 's media_world \<Rightarrow> 's media_world" where
  "change_source i f w = w\<lparr>sources := (sources w)(i := map_option f (sources w i))\<rparr>"

definition key_of :: "'a media_source_scheme media_world \<Rightarrow> nat \<Rightarrow> media_key option" where
  "key_of w i = (case sources w i of None \<Rightarrow> None | Some s \<Rightarrow> map_option media_key (infos w (src_info s)))"

text \<open>The log lines of the registry call \<open>info()\<close> of the source's information, which keeps the text it composes.\<close>

definition cache_info :: "nat \<Rightarrow> 'a media_source_scheme media_world \<Rightarrow> 'a media_source_scheme media_world" where
  "cache_info i w = (case sources w i of None \<Rightarrow> w | Some s \<Rightarrow>
     (case infos w (src_info s) of None \<Rightarrow> w | Some m \<Rightarrow> w\<lparr>infos := (infos w)(src_info s \<mapsto> snd (info m))\<rparr>))"

text \<open>A member function of a source that does not exist is undefined.\<close>

definition regist :: "nat \<Rightarrow> 'a media_source_scheme media_world \<Rightarrow> unit res \<times> 'a media_source_scheme media_world" where
  "regist i w = (case key_of w i of
     None \<Rightarrow> (Inl (Undefined ''no such source''), w)
   | Some k \<Rightarrow>
       (case look_up (registry w) k of
          Some j \<Rightarrow>
            if live w j then
              (if j = i then (Inr (), cache_info i w)
               else (Inl (Runtime_error ''another client is trying to push source''), cache_info i w))
            else (Inr (), cache_info i (change_source i (\<lambda>s. s\<lparr>is_registered := True\<rparr>)
              (w\<lparr>registry := put_source k i (registry w)\<rparr>)))
        | None \<Rightarrow>
            (Inr (), cache_info i (change_source i (\<lambda>s. s\<lparr>is_registered := True\<rparr>)
              (w\<lparr>registry := put_source k i (registry w)\<rparr>)))))"

definition unregist :: "nat \<Rightarrow> 'a media_source_scheme media_world \<Rightarrow> unit res \<times> 'a media_source_scheme media_world" where
  "unregist i w = (case key_of w i of
     None \<Rightarrow> (Inl (Undefined ''no such source''), w)
   | Some k \<Rightarrow> (Inr (), cache_info i (change_source i (\<lambda>s. s\<lparr>is_registered := False\<rparr>)
       (w\<lparr>registry := erase_media_source (live w) i k (registry w)\<rparr>))))"

text \<open>The destructor: its own weak pointers no longer lock when it calls \<open>unregist\<close>.\<close>

definition destroy :: "nat \<Rightarrow> 'a media_source_scheme media_world \<Rightarrow> 'a media_source_scheme media_world" where
  "destroy i w = (case key_of w i of
     None \<Rightarrow> w
   | Some k \<Rightarrow> (cache_info i w)\<lparr>registry := erase_media_source (\<lambda>j. live w j \<and> j \<noteq> i) i k (registry w),
       sources := (sources w)(i := None)\<rparr>)"

text \<open>\<open>find\<close>: the source if it still exists, and whether there is an entry.\<close>

definition find_source :: "media_key \<Rightarrow> 's media_world \<Rightarrow> (nat option \<times> bool) res" where
  "find_source k w = (case k of (schema, vhost, app, stream_id) \<Rightarrow>
     if schema = [] \<or> vhost = [] \<or> app = [] \<or> stream_id = []
     then Inl (Invalid_argument ''cannot find media source with empty params'')
     else (case look_up (registry w) k of
         None \<Rightarrow> Inr (None, False)
       | Some i \<Rightarrow> Inr (if live w i then Some i else None, True)))"

text \<open>
  \<open>get_ownership\<close>: a token, or nothing if the source is owned; giving up the token clears
  the flag if the source still exists.
\<close>

definition get_ownership :: "nat \<Rightarrow> 'a media_source_scheme media_world \<Rightarrow> bool res \<times> 'a media_source_scheme media_world" where
  "get_ownership i w = (case sources w i of
     None \<Rightarrow> (Inl (Undefined ''no such source''), w)
   | Some s \<Rightarrow> if owned s then (Inr False, w) else (Inr True, change_source i (\<lambda>s. s\<lparr>owned := True\<rparr>) w))"

definition release_ownership :: "nat \<Rightarrow> 'a media_source_scheme media_world \<Rightarrow> 'a media_source_scheme media_world" where
  "release_ownership i = change_source i (\<lambda>s. s\<lparr>owned := False\<rparr>)"

lemma cache_info_simps [simp]: "registry (cache_info i w) = registry w" "sources (cache_info i w) = sources w"
    "live (cache_info i w) j = live w j" "infos (cache_info i w) a = None \<longleftrightarrow> infos w a = None"
  by (auto simp: cache_info_def live_def split: option.splits)

lemma cache_info_key: "map_option media_key (infos (cache_info i w) a) = map_option media_key (infos w a)"
    and cache_info_key_of [simp]: "key_of (cache_info i w) j = key_of w j"
proof -
  show k: "map_option media_key (infos (cache_info i w) a) = map_option media_key (infos w a)" for a
    by (auto simp: cache_info_def info_def media_key_def Let_def split: option.splits)
  show "key_of (cache_info i w) j = key_of w j"
    by (simp add: key_of_def k split: option.splits)
qed

lemma destroy_key_of: "key_of (destroy i w) j = (if j = i then None else key_of w j)"
proof (cases "key_of w i")
  case (Some k)
  then have "key_of (destroy i w) j = (if j = i then None else key_of (cache_info i w) j)"
    unfolding destroy_def by (simp add: key_of_def split: option.splits)
  then show ?thesis by simp
qed (simp add: destroy_def)

section \<open>The registry as one map\<close>

lemma at_key_update [simp]: "at_key (AList.update k v m) k' = (if k' = k then v else at_key m k')"
  by (simp add: at_key_def update_conv')

lemma at_key_delete [simp]: "at_key (AList.delete k m) k' = (if k' = k then [] else at_key m k')"
  by (simp add: at_key_def delete_conv')

lemma look_up_put: "look_up (put_source k i reg) k' = (if k' = k then Some i else look_up reg k')"
  by (cases k; cases k') (auto simp: put_source_def look_up_def Let_def update_conv')

lemma map_of_erase_leaf:
  "map_of (fst (erase_leaf l i k m)) k' = (if k' = k \<and> (case map_of m k of Some j \<Rightarrow> \<not> l j \<or> j = i | None \<Rightarrow> False)
     then None else map_of m k')"
  by (auto simp: erase_leaf_def delete_conv' split: option.splits)

lemma at_key_erase_node:
  assumes "fst (inner []) = []"
  shows "at_key (fst (erase_node inner k m)) k' = (if k' = k then fst (inner (at_key m k)) else at_key m k')"
  using assms by (auto simp: erase_node_def at_key_def update_conv' delete_conv' split: option.splits prod.splits)

lemma erase_leaf_Nil [simp]: "fst (erase_leaf l i k []) = []"
  by (simp add: erase_leaf_def)

lemma erase_node_Nil [simp]: "fst (erase_node inner k []) = []"
  by (simp add: erase_node_def)

lemma look_up_erase:
  "look_up (erase_media_source l i k reg) k' = (if k' = k \<and> (case look_up reg k of Some j \<Rightarrow> \<not> l j \<or> j = i | None \<Rightarrow> False)
     then None else look_up reg k')"
  by (cases k; cases k') (auto simp: erase_media_source_def look_up_def at_key_erase_node map_of_erase_leaf)

text \<open>No map below the outermost one is empty, which is what \<open>erase_media_source\<close> is for.\<close>

definition no_empty_maps :: "schema_map \<Rightarrow> bool" where
  "no_empty_maps reg \<longleftrightarrow> (\<forall>(s, vs) \<in> set reg. vs \<noteq> []
     \<and> (\<forall>(v, as) \<in> set vs. as \<noteq> [] \<and> (\<forall>(a, ss) \<in> set as. ss \<noteq> [])))"

definition below :: "('m \<Rightarrow> bool) \<Rightarrow> (string \<times> 'm) list \<Rightarrow> bool" where
  "below P m \<longleftrightarrow> (\<forall>(k, v) \<in> set m. P v)"

lemma no_empty_below:
  "no_empty_maps reg \<longleftrightarrow> below (\<lambda>vs. vs \<noteq> [] \<and> below (\<lambda>as. as \<noteq> [] \<and> below (\<lambda>ss. ss \<noteq> []) as) vs) reg"
  by (simp add: no_empty_maps_def below_def)

lemma below_update: "below P m \<Longrightarrow> P v \<Longrightarrow> below P (AList.update k v m)"
  by (induction m) (auto simp: below_def)

lemma below_delete: "below P m \<Longrightarrow> below P (AList.delete k m)"
  using delete_notin_dom by (induction m) (auto simp: below_def)

lemma below_at_key: "below P m \<Longrightarrow> at_key m k = [] \<or> P (at_key m k)"
  by (auto simp: below_def at_key_def split: option.splits dest!: map_of_SomeD)

lemma below_erase_node:
  assumes "below (\<lambda>v. v \<noteq> [] \<and> P v) m" "\<And>v. P v \<Longrightarrow> P (fst (inner v))"
  shows "below (\<lambda>v. v \<noteq> [] \<and> P v) (fst (erase_node inner k m))"
proof (cases "map_of m k")
  case (Some v)
  then have "P v"
    using assms(1) by (auto simp: below_def dest!: map_of_SomeD)
  then have "P (fst (inner v))"
    by (rule assms(2))
  then show ?thesis
    using Some assms(1)
    by (auto simp: erase_node_def split: prod.splits intro!: below_update below_delete)
qed (use assms(1) in \<open>simp add: erase_node_def\<close>)

lemma update_not_Nil [simp]: "AList.update k v m \<noteq> []"
  by (cases m) auto

lemma below_erase_last: "below (\<lambda>v. v \<noteq> []) m \<Longrightarrow> below (\<lambda>v. v \<noteq> []) (fst (erase_node inner k m))"
  using below_erase_node [where P = "\<lambda>_. True" and inner = inner and k = k and m = m] by simp

lemma no_empty_erase: "no_empty_maps reg \<Longrightarrow> no_empty_maps (erase_media_source l i k reg)"
  unfolding no_empty_below erase_media_source_def
  by (cases k) (simp add: below_erase_node below_erase_last)

lemma no_empty_put:
  assumes "no_empty_maps reg"
  shows "no_empty_maps (put_source k i reg)"
proof -
  obtain a b c d where k: "k = (a, b, c, d)"
    by (cases k)
  have "at_key reg a = [] \<or> below (\<lambda>as. as \<noteq> [] \<and> below (\<lambda>ss. ss \<noteq> []) as) (at_key reg a)"
    using below_at_key [OF assms [unfolded no_empty_below], of a] by auto
  then have vs: "below (\<lambda>as. as \<noteq> [] \<and> below (\<lambda>ss. ss \<noteq> []) as) (at_key reg a)"
    by (auto simp: below_def)
  then have as: "below (\<lambda>ss. ss \<noteq> []) (at_key (at_key reg a) b)"
    using below_at_key [OF vs, of b] by (auto simp: below_def)
  show ?thesis
    using assms vs as unfolding no_empty_below k put_source_def
    by (simp add: Let_def below_update)
qed

section \<open>The interface of the registry\<close>

text \<open>
  What sources need of the registry: it is a map from streams to sources in which an entry can
  be made, and removed if its source is gone or is the one that asks.
\<close>

definition agrees :: "('key \<Rightarrow> nat option) \<Rightarrow> (nat \<Rightarrow> ('key \<times> bool) option) \<Rightarrow> bool" where
  "agrees f objs \<longleftrightarrow> (\<forall>i k b. objs i = Some (k, b) \<longrightarrow> (b \<longleftrightarrow> f k = Some i))"

lemma agrees_at: "agrees f objs \<Longrightarrow> objs i = Some (k, b) \<Longrightarrow> b \<longleftrightarrow> f k = Some i"
  by (simp add: agrees_def)

locale stream_registry =
  fixes look :: "'reg \<Rightarrow> 'key \<Rightarrow> nat option"
    and enter :: "'key \<Rightarrow> nat \<Rightarrow> 'reg \<Rightarrow> 'reg"
    and remove :: "(nat \<Rightarrow> bool) \<Rightarrow> nat \<Rightarrow> 'key \<Rightarrow> 'reg \<Rightarrow> 'reg"
  assumes look_enter: "look (enter k i g) k' = (if k' = k then Some i else look g k')"
    and look_remove: "look (remove l i k g) k' = (if k' = k
        \<and> (case look g k of Some j \<Rightarrow> \<not> l j \<or> j = i | None \<Rightarrow> False) then None else look g k')"
begin

lemma remove_own: "look g k = Some i \<Longrightarrow> look (remove l i k g) k = None"
  by (simp add: look_remove)

lemma remove_other: "look g k = Some j \<Longrightarrow> l j \<Longrightarrow> j \<noteq> i \<Longrightarrow> look (remove l i k g) k = Some j"
  by (simp add: look_remove)

lemma remove_elsewhere: "k' \<noteq> k \<Longrightarrow> look (remove l i k g) k' = look g k'"
  by (simp add: look_remove)

text \<open>The flag of a source says whether the registry has it under its key.\<close>

lemma agrees_enter:
  assumes "agrees (look g) objs" "objs i = Some (k, b)" "\<And>j. look g k = Some j \<Longrightarrow> objs j = None"
  shows "agrees (look (enter k i g)) (objs(i \<mapsto> (k, True)))"
  using assms unfolding agrees_def look_enter by (auto split: if_splits) fastforce+

lemma agrees_remove:
  assumes "agrees (look g) objs" "objs i = Some (k, b)" "\<And>j. l j \<longleftrightarrow> objs j \<noteq> None"
  shows "agrees (look (remove l i k g)) (objs(i \<mapsto> (k, False)))"
  unfolding agrees_def
proof (intro allI impI)
  fix j k' b'
  assume a: "(objs(i \<mapsto> (k, False))) j = Some (k', b')"
  show "b' \<longleftrightarrow> look (remove l i k g) k' = Some j"
  proof (cases "j = i")
    case True
    then show ?thesis
      using a by (auto simp: look_remove split: option.splits)
  next
    case False
    then have oj: "objs j = Some (k', b')" "l j"
      using a assms(3) by auto
    show ?thesis
      using agrees_at [OF assms(1) oj(1)] oj(2) False by (auto simp: look_remove split: option.splits)
  qed
qed

lemma agrees_destroy:
  assumes "agrees (look g) objs" "\<And>j. l j \<longleftrightarrow> objs j \<noteq> None \<and> j \<noteq> i"
  shows "agrees (look (remove l i k g)) (objs(i := None))"
  unfolding agrees_def
proof (intro allI impI)
  fix j k' b'
  assume "(objs(i := None)) j = Some (k', b')"
  then have oj: "objs j = Some (k', b')" "l j" "j \<noteq> i"
    using assms(2) by (auto split: if_splits)
  show "b' \<longleftrightarrow> look (remove l i k g) k' = Some j"
    using agrees_at [OF assms(1) oj(1)] oj(2,3) by (auto simp: look_remove split: option.splits)
qed

lemma agrees_fresh:
  assumes "agrees (look g) objs" "\<And>k. look g k \<noteq> Some i"
  shows "agrees (look g) (objs(i \<mapsto> (k, False)))"
  using assms by (auto simp: agrees_def)

end

interpretation reg: stream_registry look_up put_source erase_media_source
  by unfold_locales (rule look_up_put, rule look_up_erase)

section \<open>The sources agree with the registry\<close>

definition objs_of :: "'a media_source_scheme media_world \<Rightarrow> nat \<Rightarrow> (media_key \<times> bool) option" where
  "objs_of w i = (case sources w i of None \<Rightarrow> None
     | Some s \<Rightarrow> map_option (\<lambda>m. (media_key m, is_registered s)) (infos w (src_info s)))"

definition world_ok :: "'a media_source_scheme media_world \<Rightarrow> bool" where
  "world_ok w \<longleftrightarrow> (\<forall>i s. sources w i = Some s \<longrightarrow> infos w (src_info s) \<noteq> None)
     \<and> agrees (look_up (registry w)) (objs_of w) \<and> no_empty_maps (registry w)"

lemma cache_info_objs [simp]: "objs_of (cache_info i w) = objs_of w"
proof
  fix j
  show "objs_of (cache_info i w) j = objs_of w j"
  proof (cases "sources w j")
    case (Some s)
    have "map_option (\<lambda>k. (k, is_registered s)) (map_option media_key (infos (cache_info i w) (src_info s)))
        = map_option (\<lambda>k. (k, is_registered s)) (map_option media_key (infos w (src_info s)))"
      by (simp only: cache_info_key)
    then show ?thesis
      using Some by (simp add: objs_of_def option.map_comp comp_def)
  qed (simp add: objs_of_def)
qed

lemma cache_info_ok [simp]: "world_ok (cache_info i w) = world_ok w"
  by (simp add: world_ok_def)

lemma live_objs: "world_ok w \<Longrightarrow> live w j \<longleftrightarrow> objs_of w j \<noteq> None"
  by (cases "sources w j") (auto simp: world_ok_def live_def objs_of_def simp del: not_None_eq)

lemma key_objs: "key_of w i = Some k \<longleftrightarrow> (\<exists>b. objs_of w i = Some (k, b))"
  by (auto simp: key_of_def objs_of_def split: option.splits)

lemma objs_change:
  "objs_of (change_source i (\<lambda>s. s\<lparr>is_registered := b\<rparr>) w) =
     (objs_of w)(i := map_option (\<lambda>(k, _). (k, b)) (objs_of w i))"
  by (auto simp: objs_of_def change_source_def fun_eq_iff option.map_comp comp_def split: option.splits)

lemma objs_registry [simp]: "objs_of (w\<lparr>registry := g\<rparr>) = objs_of w"
  by (simp add: objs_of_def fun_eq_iff split: option.splits)

lemma change_infos: "(\<forall>i s. sources w i = Some s \<longrightarrow> infos w (src_info s) \<noteq> None) \<Longrightarrow>
    (\<forall>j s. sources (change_source i (\<lambda>s. s\<lparr>is_registered := b\<rparr>) (w\<lparr>registry := g\<rparr>)) j = Some s \<longrightarrow>
      infos (change_source i (\<lambda>s. s\<lparr>is_registered := b\<rparr>) (w\<lparr>registry := g\<rparr>)) (src_info s) \<noteq> None)"
  by (auto simp: change_source_def)

lemma registry_change [simp]: "registry (change_source i f w) = registry w"
  by (simp add: change_source_def)

lemma regist_enter_ok:
  assumes "world_ok w" "key_of w i = Some k" "\<And>j. look_up (registry w) k = Some j \<Longrightarrow> \<not> live w j"
  shows "world_ok (change_source i (\<lambda>s. s\<lparr>is_registered := True\<rparr>) (w\<lparr>registry := put_source k i (registry w)\<rparr>))"
proof -
  obtain b where b: "objs_of w i = Some (k, b)"
    using assms(2) by (auto simp: key_objs)
  have "agrees (look_up (put_source k i (registry w))) ((objs_of w)(i \<mapsto> (k, True)))"
  proof (rule reg.agrees_enter [where objs = "objs_of w" and b = b])
    show "agrees (look_up (registry w)) (objs_of w)"
      using assms(1) by (simp add: world_ok_def)
    show "look_up (registry w) k = Some j \<Longrightarrow> objs_of w j = None" for j
      using assms(3) [of j] live_objs [OF assms(1), of j] by blast
  qed (rule b)
  then show ?thesis
    using assms(1) change_infos [of w i True "put_source k i (registry w)"]
    by (simp add: world_ok_def objs_change no_empty_put b)
qed

lemma regist_ok: "world_ok w \<Longrightarrow> world_ok (snd (regist i w))"
  using regist_enter_ok [of w i] by (auto simp: regist_def split: option.splits)

lemma unregist_ok:
  assumes "world_ok w"
  shows "world_ok (snd (unregist i w))"
proof (cases "key_of w i")
  case (Some k)
  then obtain b where b: "objs_of w i = Some (k, b)"
    by (auto simp: key_objs)
  have "agrees (look_up (erase_media_source (live w) i k (registry w))) ((objs_of w)(i \<mapsto> (k, False)))"
    using reg.agrees_remove [of "registry w" "objs_of w" i k b "live w"] b assms live_objs [OF assms] by (auto simp: world_ok_def)
  then show ?thesis
    using assms Some change_infos [of w i False "erase_media_source (live w) i k (registry w)"]
    by (simp add: world_ok_def objs_change no_empty_erase unregist_def b)
qed (use assms in \<open>simp add: unregist_def\<close>)

lemma destroy_ok:
  assumes "world_ok w"
  shows "world_ok (destroy i w)"
proof (cases "key_of w i")
  case (Some k)
  have "agrees (look_up (erase_media_source (\<lambda>j. live w j \<and> j \<noteq> i) i k (registry w))) ((objs_of w)(i := None))"
    using reg.agrees_destroy [of "registry w" "objs_of w" "\<lambda>j. live w j \<and> j \<noteq> i" i k] assms
      live_objs [OF assms] by (auto simp: world_ok_def)
  moreover have "objs_of (destroy i w) = (objs_of (cache_info i w))(i := None)"
    using Some unfolding destroy_def objs_of_def by (auto simp: fun_eq_iff split: option.splits)
  ultimately show ?thesis
    using assms Some by (auto simp: world_ok_def destroy_def no_empty_erase)
qed (use assms in \<open>simp add: destroy_def\<close>)

lemma new_source_ok:
  assumes "world_ok w" "infos w (src_info s) \<noteq> None" "\<not> is_registered s" "\<And>k. look_up (registry w) k \<noteq> Some i"
  shows "world_ok (w\<lparr>sources := (sources w)(i \<mapsto> s)\<rparr>)"
proof -
  obtain m where m: "infos w (src_info s) = Some m"
    using assms(2) by auto
  have "objs_of (w\<lparr>sources := (sources w)(i \<mapsto> s)\<rparr>) = (objs_of w)(i \<mapsto> (media_key m, False))"
    using m assms(3) by (auto simp: objs_of_def fun_eq_iff split: option.splits)
  then show ?thesis
    using assms(1,2) reg.agrees_fresh [OF _ assms(4)] by (auto simp: world_ok_def)
qed

text \<open>A world with one source for \<open>RTMP|live|a|s\<close>, made by a session that owns it.\<close>

definition sample_info :: media_info where
  "sample_info = create_media_info 0 ''RTMP''\<lparr>mi_app := ''live'', mi_vhost := ''a'', mi_stream_id := ''s''\<rparr>"

definition sample_source :: "nat \<Rightarrow> media_source" where
  "sample_source m = \<lparr>src_info = m, owned = True, is_registered = False, audio_speed = new_bytes_speed 0,
     video_speed = new_bytes_speed 0\<rparr>"

definition sample_world :: "media_source media_world" where
  "sample_world = \<lparr>registry = [], infos = [0 \<mapsto> sample_info, 1 \<mapsto> sample_info],
     sources = [5 \<mapsto> sample_source 0, 6 \<mapsto> sample_source 1]\<rparr>"

definition sample_key :: media_key where
  "sample_key = (''RTMP'', ''a'', ''live'', ''s'')"

lemma sample_key: "key_of sample_world 5 = Some sample_key" "key_of sample_world 6 = Some sample_key"
  by (simp_all add: key_of_def sample_world_def sample_source_def sample_info_def media_key_def
      sample_key_def create_media_info_def)

lemma sample_world_ok: "world_ok sample_world"
  by (auto simp: world_ok_def sample_world_def agrees_def objs_of_def sample_source_def look_up_def
      no_empty_maps_def at_key_def split: if_splits)

section \<open>Properties\<close>

text \<open>C14: registering, unregistering and destroying a source, in any order and whether they succeed or
  throw, keep the registry and the sources in agreement: a live source carries the registered
  flag exactly if the registry has it under its stream, and no emptied map is left behind.\<close>

theorem registry_invariant:
  assumes "world_ok w"
  shows "world_ok (snd (regist i w)) \<and> world_ok (snd (unregist i w)) \<and> world_ok (destroy i w)"
  using regist_ok [OF assms] unregist_ok [OF assms] destroy_ok [OF assms] by simp

theorem registry_invariant_witness:
  "world_ok (snd (regist 5 sample_world)) \<and> world_ok (destroy 5 sample_world)"
  using registry_invariant [OF sample_world_ok, of 5] by simp

text \<open>Registering succeeds exactly if no other live source has the stream; then a search for the
  stream finds this source, and searches for other streams are not affected. Otherwise it
  throws and nothing changes but the text that the information of the source keeps.\<close>

lemma regist_outcome:
  assumes "key_of w i = Some k" "fst k \<noteq> []" "fst (snd k) \<noteq> []" "fst (snd (snd k)) \<noteq> []" "snd (snd (snd k)) \<noteq> []"
  shows "if \<exists>j. look_up (registry w) k = Some j \<and> live w j \<and> j \<noteq> i
    then regist i w = (Inl (Runtime_error ''another client is trying to push source''), cache_info i w)
    else fst (regist i w) = Inr () \<and> find_source k (snd (regist i w)) = Inr (Some i, True)
      \<and> (\<forall>k'. k' \<noteq> k \<longrightarrow> look_up (registry (snd (regist i w))) k' = look_up (registry w) k')"
proof -
  have i: "live w i"
    using assms(1) by (auto simp: key_of_def live_def split: option.splits)
  have l: "live (change_source i f (w\<lparr>registry := g\<rparr>)) i" for f g
    using i by (simp add: live_def change_source_def)
  show ?thesis
    using assms i l
    by (cases "look_up (registry w) k") (auto simp: regist_def find_source_def look_up_put split: prod.splits)
qed

lemma regist_keeps_keys: "key_of (snd (regist i w)) j = key_of w j" "live (snd (regist i w)) j = live w j"
proof -
  have "key_of (change_source i (\<lambda>s. s\<lparr>is_registered := b\<rparr>) (w\<lparr>registry := g\<rparr>)) j = key_of w j" for b g
    by (auto simp: key_of_def change_source_def split: option.splits)
  then show "key_of (snd (regist i w)) j = key_of w j"
    by (auto simp: regist_def split: option.splits)
  have "live (change_source i (\<lambda>s. s\<lparr>is_registered := b\<rparr>) (w\<lparr>registry := g\<rparr>)) j = live w j" for b g
    by (auto simp: live_def change_source_def)
  then show "live (snd (regist i w)) j = live w j"
    by (auto simp: regist_def split: option.splits)
qed

lemma left_stream_free:
  assumes "world_ok w" "key_of w i = Some k" "key_of w j = Some k" "j \<noteq> i" "look_up (registry w) k = Some i"
    and "fst k \<noteq> []" "fst (snd k) \<noteq> []" "fst (snd (snd k)) \<noteq> []" "snd (snd (snd k)) \<noteq> []"
    and "w' = destroy i w \<or> w' = snd (unregist i w)"
  shows "fst (regist j w') = Inr () \<and> find_source k (snd (regist j w')) = Inr (Some j, True)"
proof -
  have u: "key_of (change_source i (\<lambda>s. s\<lparr>is_registered := b\<rparr>) (w\<lparr>registry := g\<rparr>)) j = key_of w j" for b g
    by (auto simp: key_of_def change_source_def split: option.splits)
  have "key_of w' j = Some k"
    using assms(2,3,4,10) u by (auto simp: destroy_key_of unregist_def)
  moreover have "look_up (registry w') k = None"
    using assms(2,5,10) by (auto simp: destroy_def unregist_def reg.look_remove)
  ultimately show ?thesis
    using regist_outcome [of w' j k] assms(6-9) by simp
qed

text \<open>C15: a stream has one source at a time. Of two sources of the same stream, once the first has
  registered, the second is refused when it registers; a search for the stream finds the first one,
  the second is not marked as registered, and the entries of all other streams are as before. As soon as
  the first one unregisters or is destroyed, the second can register and is found.\<close>

theorem stream_has_one_source:
  assumes "world_ok w" "key_of w i = Some k" "key_of w j = Some k" "j \<noteq> i" "fst (regist i w) = Inr ()"
    and "fst k \<noteq> []" "fst (snd k) \<noteq> []" "fst (snd (snd k)) \<noteq> []" "snd (snd (snd k)) \<noteq> []"
  shows "\<exists>w'. regist j (snd (regist i w)) = (Inl (Runtime_error ''another client is trying to push source''), w')
    \<and> find_source k w' = Inr (Some i, True) \<and> (\<forall>s. sources w' j = Some s \<longrightarrow> \<not> is_registered s)
    \<and> (\<forall>k'. k' \<noteq> k \<longrightarrow> look_up (registry w') k' = look_up (registry w) k')
    \<and> (\<forall>w'' \<in> {destroy i w', snd (unregist i w')}. fst (regist j w'') = Inr ()
        \<and> find_source k (snd (regist j w'')) = Inr (Some j, True))"
proof -
  let ?w1 = "snd (regist i w)" and ?w2 = "cache_info j (snd (regist i w))"
  have f: "find_source k ?w1 = Inr (Some i, True)" "\<forall>k'. k' \<noteq> k \<longrightarrow> look_up (registry ?w1) k' = look_up (registry w) k'"
    using regist_outcome [OF assms(2,6-9)] assms(5) by (simp_all split: if_splits)
  have l: "look_up (registry ?w1) k = Some i" "live ?w1 i"
    using f(1) assms(6-9) by (auto simp: find_source_def split: option.splits if_splits prod.splits)
  have keys: "key_of ?w1 i = Some k" "key_of ?w1 j = Some k"
    using assms(2,3) by (simp_all add: regist_keeps_keys)
  have ok: "world_ok ?w2" "look_up (registry ?w2) k = Some i" "key_of ?w2 i = Some k" "key_of ?w2 j = Some k"
    using regist_ok [OF assms(1)] l keys by simp_all
  have out: "regist j ?w1 = (Inl (Runtime_error ''another client is trying to push source''), ?w2)"
    using regist_outcome [OF keys(2) assms(6-9)] l assms(4) by auto
  have "find_source k ?w2 = Inr (Some i, True)"
    using l assms(6-9) by (cases k) (simp add: find_source_def)
  moreover have "\<forall>s. sources ?w2 j = Some s \<longrightarrow> \<not> is_registered s"
  proof (intro allI impI)
    fix s
    assume "sources ?w2 j = Some s"
    then have o: "objs_of ?w2 j = Some (k, is_registered s)"
      using keys(2) by (simp only: cache_info_objs) (auto simp: objs_of_def key_of_def split: option.splits)
    then show "\<not> is_registered s"
      using ok(1,2) assms(4) agrees_at [of "look_up (registry ?w2)" "objs_of ?w2" j k "is_registered s"] o
      by (simp add: world_ok_def)
  qed
  moreover have "fst (regist j w'') = Inr () \<and> find_source k (snd (regist j w'')) = Inr (Some j, True)"
    if "w'' = destroy i ?w2 \<or> w'' = snd (unregist i ?w2)" for w''
    by (rule left_stream_free [OF ok(1,3,4) assms(4) ok(2) assms(6-9) that])
  ultimately show ?thesis
    using out f(2) by (intro exI [of _ ?w2]) simp
qed

theorem stream_has_one_source_witness:
  "fst (regist 6 (snd (regist 5 sample_world))) = Inl (Runtime_error ''another client is trying to push source'')"
proof -
  have "fst (regist 5 sample_world) = Inr ()"
    using regist_outcome [OF sample_key(1)]
    by (simp add: sample_key_def) (simp add: sample_world_def look_up_def at_key_def)
  then show ?thesis
    using stream_has_one_source [OF sample_world_ok sample_key] by (auto simp: sample_key_def)
qed

text \<open>A source that goes away takes its registration with it: the stream is not found any more,
  and a stream of another live source is found as before.\<close>

theorem destroyed_source_not_found:
  assumes "world_ok w" "sources w i = Some s" "is_registered s" "key_of w i = Some k"
  shows "look_up (registry (destroy i w)) k = None
    \<and> (\<forall>k' j. k' \<noteq> k \<longrightarrow> look_up (registry (destroy i w)) k' = look_up (registry w) k')"
proof -
  have "objs_of w i = Some (k, True)"
    using assms(2-4) by (auto simp: objs_of_def key_of_def)
  then have "look_up (registry w) k = Some i"
    using assms(1) agrees_at [of "look_up (registry w)" "objs_of w"] by (auto simp: world_ok_def)
  then show ?thesis
    using assms(4) by (simp add: destroy_def reg.remove_own reg.remove_elsewhere)
qed

theorem destroyed_source_not_found_witness:
  "look_up (registry (destroy 5 (snd (regist 5 sample_world)))) sample_key = None"
proof -
  let ?w = "snd (regist 5 sample_world)"
  have w: "?w = cache_info 5 (change_source 5 (\<lambda>s. s\<lparr>is_registered := True\<rparr>) (sample_world\<lparr>registry := put_source sample_key 5 []\<rparr>))"
    using sample_key by (simp add: regist_def) (simp add: sample_world_def look_up_def sample_key_def at_key_def)
  have "sources ?w 5 = Some (sample_source 0\<lparr>is_registered := True\<rparr>)" "key_of ?w 5 = Some sample_key"
    using sample_key unfolding w by simp_all (simp_all add: change_source_def sample_world_def key_of_def)
  then show ?thesis
    using destroyed_source_not_found [OF regist_ok [OF sample_world_ok]] by simp
qed

text \<open>Ownership is exclusive: while a source is owned no further token is given out, and giving
  the token up makes it available again; nothing but the flag changes.\<close>

theorem ownership_exclusive:
  assumes "sources w i = Some s"
  shows "fst (get_ownership i w) = Inr (\<not> owned s)
    \<and> fst (get_ownership i (snd (get_ownership i w))) = Inr False
    \<and> fst (get_ownership i (release_ownership i (snd (get_ownership i w)))) = Inr True
    \<and> (\<not> owned s \<longrightarrow> release_ownership i (snd (get_ownership i w)) = w)"
  using assms
  by (auto simp: get_ownership_def release_ownership_def change_source_def fun_upd_idem_iff)

theorem ownership_exclusive_witness:
  "fst (get_ownership 5 sample_world) = Inr False"
  using ownership_exclusive [of sample_world 5 "sample_source 0"]
  by (simp add: sample_world_def sample_source_def)

end
