(* ===== verification/Packet_Dispatcher.thy ===== *)
theory Packet_Dispatcher
  imports Prelude
begin

text \<open>
  \<open>include/media/packet_dispatcher.h\<close>: the readers that pull a stream and the dispatcher
  that caches the packets since the last key frame and hands them out. A reader is named by its
  address; the two sets of shared pointers are ascending lists of addresses, as
  \<open>std::set\<close> orders them. The callbacks that \<open>set_read_cb\<close> and
  \<open>set_detach\<close> store are functions on the rest of the program's state \<open>'w\<close>
  and may throw. A dispatcher operation runs under its locks, so it is one step.
\<close>

section \<open>Readers\<close>

record client_reader =
  cr_id :: string
  cr_registered :: bool
  has_read_cb :: bool
  has_detach_cb :: bool

record ('p, 'w) reader_cbs =
  read_cb :: "nat \<Rightarrow> 'p \<Rightarrow> ('w, unit) eff"
  detach_cb :: "nat \<Rightarrow> 'w \<Rightarrow> 'w"

text \<open>\<open>create\<close> locks the weak pointer to the session: \<open>None\<close> when it has expired.\<close>

definition create_reader :: "string option \<Rightarrow> string \<Rightarrow> client_reader res" where
  "create_reader session_id token = (case session_id of
     None \<Rightarrow> Inl (Runtime_error ''cannot create client_reader with invalid session'')
   | Some s \<Rightarrow> Inr \<lparr>cr_id = ''Client['' @ s @ ''-'' @ token @ '']'', cr_registered = False,
       has_read_cb = False, has_detach_cb = False\<rparr>)"

section \<open>The dispatcher\<close>

definition kMaxPacketCacheSize :: nat where "kMaxPacketCacheSize = 1024"
definition kMinPacketCacheSize :: nat where "kMinPacketCacheSize = 32"

record 'p dispatcher =
  max_size :: nat
  packet_list :: "'p list"
  new_clients :: "nat list"
  old_clients :: "nat list"
  readers :: "nat \<Rightarrow> client_reader option"

definition create_dispatcher :: "nat \<Rightarrow> 'p dispatcher" where
  "create_dispatcher size_max = \<lparr>max_size = max size_max kMinPacketCacheSize, packet_list = [],
     new_clients = [], old_clients = [], readers = (\<lambda>_. None)\<rparr>"

text \<open>A change of the reader at an address, where there is one.\<close>

definition change_reader :: "nat \<Rightarrow> (client_reader \<Rightarrow> client_reader) \<Rightarrow> 'p dispatcher \<Rightarrow> 'p dispatcher" where
  "change_reader r f d = d\<lparr>readers := (readers d)(r := map_option f (readers d r))\<rparr>"

definition set_registered :: "nat \<Rightarrow> bool \<Rightarrow> 'p dispatcher \<Rightarrow> 'p dispatcher" where
  "set_registered r b = change_reader r (\<lambda>c. c\<lparr>cr_registered := b\<rparr>)"

definition reader_registered :: "nat \<Rightarrow> 'p dispatcher \<Rightarrow> bool" where
  "reader_registered r d = (case readers d r of None \<Rightarrow> False | Some c \<Rightarrow> cr_registered c)"

definition regist_reader :: "nat \<Rightarrow> client_reader \<Rightarrow> 'p dispatcher \<Rightarrow> 'p dispatcher" where
  "regist_reader r c d = d\<lparr>readers := (readers d)(r \<mapsto> c\<lparr>cr_registered := True\<rparr>),
     new_clients := insort_insert r (new_clients d)\<rparr>"

text \<open>Only the set of new readers is searched.\<close>

definition deregist_reader :: "nat \<Rightarrow> 'p dispatcher \<Rightarrow> 'p dispatcher" where
  "deregist_reader r d = d\<lparr>new_clients := removeAll r (new_clients d)\<rparr>"

definition leave :: "nat \<Rightarrow> 'p dispatcher \<Rightarrow> 'p dispatcher" where
  "leave r d = (if reader_registered r d then deregist_reader r d else d)"

definition on_read :: "('p, 'w) reader_cbs \<Rightarrow> 'p dispatcher \<Rightarrow> 'p \<Rightarrow> nat \<Rightarrow> ('w, unit) eff" where
  "on_read cbs d pkt r = (case readers d r of
     Some c \<Rightarrow> if has_read_cb c then read_cb cbs r pkt else eret ()
   | None \<Rightarrow> eret ())"

text \<open>The cache: a key frame clears it, any other packet drops the oldest ones that are too many.\<close>

fun pop_front_while :: "nat \<Rightarrow> 'p list \<Rightarrow> 'p list" where
  "pop_front_while m [] = []"
| "pop_front_while m (p # ps) = (if m \<le> length (p # ps) then pop_front_while m ps else p # ps)"

definition cache_packet :: "'p \<Rightarrow> bool \<Rightarrow> 'p dispatcher \<Rightarrow> 'p dispatcher" where
  "cache_packet pkt is_idr d = d\<lparr>packet_list :=
     (if is_idr then [] else pop_front_while (max_size d) (packet_list d)) @ [pkt]\<rparr>"

definition merge_clients :: "'p dispatcher \<Rightarrow> 'p dispatcher" where
  "merge_clients d = d\<lparr>old_clients := fold insort_insert (new_clients d) (old_clients d), new_clients := []\<rparr>"

definition distribute :: "('p, 'w) reader_cbs \<Rightarrow> 'p \<Rightarrow> bool \<Rightarrow> ('p dispatcher \<times> 'w, unit) eff" where
  "distribute cbs pkt is_idr = (\<lambda>(d, w).
     case each (on_read cbs d pkt) (old_clients d) w of
       (Inl e, w) \<Rightarrow> (Inl e, (d, w))
     | (Inr _, w) \<Rightarrow>
         let d = cache_packet pkt is_idr d
         in if new_clients d = [] then (Inr (), (d, w))
            else case each (\<lambda>p. each (on_read cbs d p) (new_clients d)) (packet_list d) w of
              (Inl e, w) \<Rightarrow> (Inl e, (d, w))
            | (Inr _, w) \<Rightarrow> (Inr (), (merge_clients d, w)))"

text \<open>\<open>detach()\<close> is called without its argument, whatever \<open>is_normal\<close> was.\<close>

definition detach_reader :: "('p, 'w) reader_cbs \<Rightarrow> nat \<Rightarrow> 'p dispatcher \<times> 'w \<Rightarrow> 'p dispatcher \<times> 'w" where
  "detach_reader cbs r = (\<lambda>(d, w).
     let w = (case readers d r of
           Some c \<Rightarrow> if cr_registered c \<and> has_detach_cb c then detach_cb cbs r w else w
         | None \<Rightarrow> w)
     in (set_registered r False d, w))"

definition detach_all_readers :: "('p, 'w) reader_cbs \<Rightarrow> 'p dispatcher \<times> 'w \<Rightarrow> 'p dispatcher \<times> 'w" where
  "detach_all_readers cbs = (\<lambda>(d, w).
     let (d, w) = fold (detach_reader cbs) (new_clients d @ old_clients d) (d, w)
     in (d\<lparr>new_clients := [], old_clients := []\<rparr>, w))"

section \<open>Well-formed dispatchers\<close>

definition disp_ok :: "'p dispatcher \<Rightarrow> bool" where
  "disp_ok d \<longleftrightarrow> kMinPacketCacheSize \<le> max_size d \<and> length (packet_list d) \<le> max_size d
     \<and> sorted (new_clients d) \<and> distinct (new_clients d)
     \<and> sorted (old_clients d) \<and> distinct (old_clients d)
     \<and> (\<forall>r \<in> set (new_clients d) \<union> set (old_clients d). readers d r \<noteq> None)"

lemma pop_cache_eq: "pop_front_while m ps = drop (Suc (length ps) - m) ps" if "0 < m"
proof (induction ps)
  case (Cons p ps)
  then show ?case
    using that by (cases "m \<le> length (p # ps)") (auto simp: Suc_diff_le)
qed simp

lemma pop_cache_length: "0 < m \<Longrightarrow> length (pop_front_while m ps) < m"
  by (simp add: pop_cache_eq)

lemma set_merge: "set (fold insort_insert xs ys) = set xs \<union> set ys"
  by (induction xs arbitrary: ys) (auto simp: set_insort_insert)

lemma sorted_merge: "sorted ys \<Longrightarrow> sorted (fold insort_insert xs ys)"
  by (induction xs arbitrary: ys) (auto simp: sorted_insort_insert)

lemma distinct_merge: "distinct ys \<Longrightarrow> distinct (fold insort_insert xs ys)"
  by (induction xs arbitrary: ys) (auto simp: distinct_insort_insert)

lemma create_dispatcher_ok [simp]: "disp_ok (create_dispatcher n)"
  by (simp add: disp_ok_def create_dispatcher_def kMinPacketCacheSize_def)

lemma regist_reader_ok [simp]: "disp_ok d \<Longrightarrow> disp_ok (regist_reader r c d)"
  by (auto simp: disp_ok_def regist_reader_def set_insort_insert sorted_insort_insert distinct_insort_insert)

lemma deregist_reader_ok [simp]: "disp_ok d \<Longrightarrow> disp_ok (deregist_reader r d)"
  by (auto simp: disp_ok_def deregist_reader_def removeAll_filter_not_eq sorted_wrt_filter)

lemma cache_packet_ok [simp]: "disp_ok d \<Longrightarrow> disp_ok (cache_packet p b d)"
  using pop_cache_length [of "max_size d" "packet_list d"]
  by (auto simp: disp_ok_def cache_packet_def kMinPacketCacheSize_def Suc_le_eq)

lemma merge_clients_ok [simp]: "disp_ok d \<Longrightarrow> disp_ok (merge_clients d)"
  by (auto simp: disp_ok_def merge_clients_def set_merge sorted_merge distinct_merge)

lemma set_registered_ok [simp]: "disp_ok d \<Longrightarrow> disp_ok (set_registered r b d)"
  by (auto simp: disp_ok_def set_registered_def change_reader_def)

lemma distribute_ok_aux: "disp_ok d \<Longrightarrow> distribute cbs p b (d, w) = (v, (d', w')) \<Longrightarrow> disp_ok d'"
  by (auto simp: distribute_def Let_def split: prod.splits sum.splits if_splits)

lemma detach_fold_ok: "disp_ok d \<Longrightarrow> disp_ok (fst (fold (detach_reader cbs) rs (d, w)))"
  by (induction rs arbitrary: d w) (auto simp: detach_reader_def Let_def)

lemma detach_all_readers_ok: "disp_ok d \<Longrightarrow> disp_ok (fst (detach_all_readers cbs (d, w)))"
  using detach_fold_ok [of d cbs "new_clients d @ old_clients d" w]
  by (auto simp: detach_all_readers_def disp_ok_def split: prod.splits)

section \<open>What the readers are given\<close>

text \<open>
  The interface between the dispatcher and whoever registers readers: a callback never throws
  and appends to the output of its own reader. \<open>out\<close> is the output of each reader,
  \<open>enc r p\<close> what reader \<open>r\<close> makes of packet \<open>p\<close>; the law may rest on a
  property \<open>good\<close> of the packets and on one of the state, \<open>steady\<close>, that it keeps.
\<close>

definition all_read :: "'p dispatcher \<Rightarrow> bool" where
  "all_read d \<longleftrightarrow> (\<forall>r \<in> set (new_clients d) \<union> set (old_clients d).
     \<exists>c. readers d r = Some c \<and> has_read_cb c)"

text \<open>The clients after a packet was distributed.\<close>

definition after_packet :: "'p \<Rightarrow> bool \<Rightarrow> 'p dispatcher \<Rightarrow> 'p dispatcher" where
  "after_packet p b d = merge_clients (cache_packet p b d)"

lemma after_packet_ok [simp]: "disp_ok d \<Longrightarrow> disp_ok (after_packet p b d)"
  by (simp add: after_packet_def)

locale emitting_readers =
  fixes cbs :: "('p, 'w) reader_cbs"
    and out :: "'w \<Rightarrow> nat \<Rightarrow> 'o list"
    and enc :: "nat \<Rightarrow> 'p \<Rightarrow> 'o list"
    and good :: "'p \<Rightarrow> bool"
    and steady :: "'w \<Rightarrow> bool"
  assumes emits: "good p \<Longrightarrow> steady w \<Longrightarrow> \<exists>w'. read_cb cbs r p w = (Inr (), w')
    \<and> steady w' \<and> out w' = (out w)(r := out w r @ enc r p)"
begin

lemma each_client:
  assumes "good p" "\<forall>r \<in> set rs. \<exists>c. readers d r = Some c \<and> has_read_cb c" "distinct rs" "steady w"
  shows "\<exists>w'. each (on_read cbs d p) rs w = (Inr (), w') \<and> steady w'
    \<and> out w' = (\<lambda>r. out w r @ (if r \<in> set rs then enc r p else []))"
  using assms(2-4)
proof (induction rs arbitrary: w)
  case (Cons r rs)
  obtain w1 where w1: "read_cb cbs r p w = (Inr (), w1)" "out w1 = (out w)(r := out w r @ enc r p)" "steady w1"
    using emits [OF assms(1) Cons.prems(3)] by blast
  obtain w2 where w2: "each (on_read cbs d p) rs w1 = (Inr (), w2)" "steady w2"
    "out w2 = (\<lambda>r. out w1 r @ (if r \<in> set rs then enc r p else []))"
    using Cons.IH [of w1] Cons.prems w1(3) by auto
  have "on_read cbs d p r w = (Inr (), w1)"
    using Cons.prems(1) w1(1) by (auto simp: on_read_def)
  then show ?case
    using w2 w1(2) Cons.prems(2) by (intro exI [of _ w2]) (auto simp: ebind_def)
qed simp

lemma each_packet:
  assumes "\<forall>p \<in> set ps. good p" "\<forall>r \<in> set rs. \<exists>c. readers d r = Some c \<and> has_read_cb c" "distinct rs" "steady w"
  shows "\<exists>w'. each (\<lambda>p. each (on_read cbs d p) rs) ps w = (Inr (), w') \<and> steady w'
    \<and> out w' = (\<lambda>r. out w r @ (if r \<in> set rs then concat (map (enc r) ps) else []))"
  using assms(1,4)
proof (induction ps arbitrary: w)
  case (Cons p ps)
  have g: "good p"
    using Cons.prems(1) by simp
  obtain w1 where w1: "each (on_read cbs d p) rs w = (Inr (), w1)" "steady w1"
    "out w1 = (\<lambda>r. out w r @ (if r \<in> set rs then enc r p else []))"
    using each_client [OF g assms(2,3) Cons.prems(2)] by blast
  obtain w2 where "each (\<lambda>p. each (on_read cbs d p) rs) ps w1 = (Inr (), w2)" "steady w2"
    "out w2 = (\<lambda>r. out w1 r @ (if r \<in> set rs then concat (map (enc r) ps) else []))"
    using Cons.IH [of w1] Cons.prems w1(2) by auto
  then show ?case
    using w1 by (intro exI [of _ w2]) (auto simp: ebind_def)
qed (auto simp: fun_eq_iff)

text \<open>Old clients are given the packet, new ones the whole cache, and then they are old.\<close>

lemma distribute_emits:
  assumes "disp_ok d" "all_read d" "good p" "\<forall>q \<in> set (packet_list d). good q" "steady w"
  shows "\<exists>w'. distribute cbs p b (d, w) = (Inr (), (after_packet p b d, w')) \<and> steady w'
    \<and> out w' = (\<lambda>r. out w r @ (if r \<in> set (old_clients d) then enc r p else [])
        @ (if r \<in> set (new_clients d) then concat (map (enc r) (packet_list (after_packet p b d))) else []))"
proof -
  let ?c = "cache_packet p b d"
  have rd: "readers ?c = readers d" "new_clients ?c = new_clients d" "old_clients ?c = old_clients d"
    by (simp_all add: cache_packet_def)
  have cb: "\<forall>r \<in> set (old_clients d). \<exists>c. readers d r = Some c \<and> has_read_cb c"
    "\<forall>r \<in> set (new_clients ?c). \<exists>c. readers ?c r = Some c \<and> has_read_cb c"
    using assms(2) by (auto simp: all_read_def rd)
  have dst: "distinct (old_clients d)" "distinct (new_clients ?c)"
    using assms(1) by (simp_all add: disp_ok_def rd)
  obtain w1 where w1: "each (on_read cbs d p) (old_clients d) w = (Inr (), w1)" "steady w1"
    "out w1 = (\<lambda>r. out w r @ (if r \<in> set (old_clients d) then enc r p else []))"
    using each_client [OF assms(3) cb(1) dst(1) assms(5)] by blast
  have g: "\<forall>q \<in> set (packet_list ?c). good q"
    using assms(1,3,4) set_drop_subset
    by (auto simp: cache_packet_def pop_cache_eq disp_ok_def kMinPacketCacheSize_def dest: in_set_dropD)
  obtain w2 where w2: "each (\<lambda>p. each (on_read cbs ?c p) (new_clients ?c)) (packet_list ?c) w1 = (Inr (), w2)" "steady w2"
    "out w2 = (\<lambda>r. out w1 r @ (if r \<in> set (new_clients ?c) then concat (map (enc r) (packet_list ?c)) else []))"
    using each_packet [OF g cb(2) dst(2) w1(2)] by blast
  have a: "packet_list (after_packet p b d) = packet_list ?c"
    by (simp add: after_packet_def merge_clients_def)
  show ?thesis
  proof (cases "new_clients d = []")
    case True
    then have "after_packet p b d = ?c"
      by (simp add: after_packet_def merge_clients_def cache_packet_def)
    then show ?thesis
      using w1 True rd(2) by (simp add: distribute_def Let_def)
  next
    case False
    then show ?thesis
      using w1 w2 a rd by (auto simp: distribute_def Let_def after_packet_def)
  qed
qed

lemma distribute_all_emits:
  assumes "disp_ok d" "all_read d" "new_clients d = []" "\<forall>(p, b) \<in> set ps. good p"
    "\<forall>q \<in> set (packet_list d). good q" "steady w"
  shows "\<exists>d' w'. each (\<lambda>(p, b). distribute cbs p b) ps (d, w) = (Inr (), (d', w')) \<and> steady w'
    \<and> (\<forall>r \<in> set (old_clients d). out w' r = out w r @ concat (map (enc r \<circ> fst) ps))"
  using assms
proof (induction ps arbitrary: d w)
  case (Cons pb ps)
  obtain p b where pb: "pb = (p, b)" by fastforce
  let ?d = "after_packet p b d"
  obtain w1 where w1: "distribute cbs p b (d, w) = (Inr (), (?d, w1))" "steady w1"
    "out w1 = (\<lambda>r. out w r @ (if r \<in> set (old_clients d) then enc r p else []))"
    using distribute_emits [of d p w b] Cons.prems pb by auto
  have d: "disp_ok ?d" "all_read ?d" "new_clients ?d = []" "old_clients ?d = old_clients d"
    using Cons.prems(1) after_packet_ok [OF Cons.prems(1), of p b] Cons.prems(2,3)
    by (auto simp: after_packet_def all_read_def cache_packet_def merge_clients_def)
  have g: "\<forall>q \<in> set (packet_list ?d). good q"
    using Cons.prems pb
    by (auto simp: after_packet_def merge_clients_def cache_packet_def pop_cache_eq disp_ok_def
        kMinPacketCacheSize_def dest: in_set_dropD)
  have ps: "\<forall>(p, b) \<in> set ps. good p"
    using Cons.prems(4) by simp
  obtain d' w' where "each (\<lambda>(p, b). distribute cbs p b) ps (?d, w1) = (Inr (), (d', w'))" "steady w'"
    "\<forall>r \<in> set (old_clients ?d). out w' r = out w1 r @ concat (map (enc r \<circ> fst) ps)"
    using Cons.IH [OF d(1-3) ps g w1(2)] by blast
  then show ?case
    using w1 d(4) by (auto simp: pb ebind_def comp_def)
qed simp

text \<open>A reader that registers is given the cache as it is after the next packet, then every packet once.\<close>

lemma late_reader_emits:
  assumes "disp_ok d" "all_read d" "has_read_cb c" "r \<notin> set (old_clients d)" "good p"
    "\<forall>(q, b) \<in> set ps. good q" "\<forall>q \<in> set (packet_list d). good q" "steady w"
  shows "\<exists>d' w'. each (\<lambda>(p, b). distribute cbs p b) ((p, b) # ps) (regist_reader r c d, w)
      = (Inr (), (d', w')) \<and> steady w'
    \<and> out w' r = out w r @ concat (map (enc r) (packet_list (cache_packet p b d) @ map fst ps))"
proof -
  let ?d = "regist_reader r c d"
  let ?e = "after_packet p b ?d"
  have pl: "packet_list ?d = packet_list d" "old_clients ?d = old_clients d" "r \<in> set (new_clients ?d)"
    by (simp_all add: regist_reader_def set_insort_insert)
  have al: "all_read ?d"
    using assms(2,3) by (auto simp: all_read_def regist_reader_def set_insort_insert)
  obtain w1 where w1: "distribute cbs p b (?d, w) = (Inr (), (?e, w1))" "steady w1"
    "out w1 r = out w r @ concat (map (enc r) (packet_list ?e))"
    using distribute_emits [OF regist_reader_ok [OF assms(1)] al assms(5) _ assms(8)] assms(4,7) pl by fastforce
  have e: "disp_ok ?e" "all_read ?e" "new_clients ?e = []" "r \<in> set (old_clients ?e)"
    using after_packet_ok [OF regist_reader_ok [OF assms(1)], of p b r c] al pl(3)
    by (auto simp: after_packet_def all_read_def cache_packet_def merge_clients_def set_merge)
  have ple: "packet_list ?e = packet_list (cache_packet p b d)"
    by (simp add: after_packet_def merge_clients_def cache_packet_def regist_reader_def)
  have g: "\<forall>q \<in> set (packet_list ?e). good q"
    using assms(1,5,7) unfolding ple
    by (auto simp: cache_packet_def pop_cache_eq disp_ok_def kMinPacketCacheSize_def dest: in_set_dropD)
  obtain d' w' where "each (\<lambda>(p, b). distribute cbs p b) ps (?e, w1) = (Inr (), (d', w'))" "steady w'"
    "out w' r = out w1 r @ concat (map (enc r \<circ> fst) ps)"
    using distribute_all_emits [OF e(1-3) assms(6) g w1(2)] e(4) by blast
  then show ?thesis
    using w1 ple by (auto simp: ebind_def)
qed

end

section \<open>The cache\<close>

text \<open>The cache after a history of packets, marked where they are key frames, if no reader throws.\<close>

definition cache_after :: "'p dispatcher \<Rightarrow> ('p \<times> bool) list \<Rightarrow> 'p list" where
  "cache_after d h = packet_list (fold (\<lambda>(p, b). cache_packet p b) h d)"

lemma fold_cache_max: "max_size (fold (\<lambda>(p, b). cache_packet p b) h d) = max_size d"
  by (induction h arbitrary: d) (auto simp: cache_packet_def)

lemma fold_cache_list:
  "packet_list d = packet_list e \<Longrightarrow> max_size d = max_size e \<Longrightarrow>
     packet_list (fold (\<lambda>(p, b). cache_packet p b) h d) = packet_list (fold (\<lambda>(p, b). cache_packet p b) h e)"
proof (induction h arbitrary: d e)
  case (Cons x h)
  then show ?case
    by (cases x) (simp add: cache_packet_def)
qed simp

lemma distribute_cache:
  assumes "distribute cbs p b (d, w) = (Inr (), (d', w'))"
  shows "packet_list d' = packet_list (cache_packet p b d) \<and> max_size d' = max_size d"
  using assms by (auto simp: distribute_def Let_def merge_clients_def cache_packet_def split: prod.splits sum.splits if_splits)

lemma each_distribute_cache:
  "each (\<lambda>(p, b). distribute cbs p b) h (d, w) = (Inr (), (d', w')) \<Longrightarrow> packet_list d' = cache_after d h"
proof (induction h arbitrary: d w)
  case (Cons x h)
  obtain p b where x: "x = (p, b)"
    by fastforce
  obtain d1 w1 where one: "distribute cbs p b (d, w) = (Inr (), (d1, w1))"
    and rest: "each (\<lambda>(p, b). distribute cbs p b) h (d1, w1) = (Inr (), (d', w'))"
    using Cons.prems by (auto simp: x ebind_def split: prod.splits sum.splits)
  have "packet_list d1 = packet_list (cache_packet p b d)" "max_size d1 = max_size (cache_packet p b d)"
    using distribute_cache [OF one] by (simp_all add: cache_packet_def)
  from fold_cache_list [OF this] show ?case
    using Cons.IH [OF rest] by (simp add: x cache_after_def)
qed (simp add: cache_after_def)

text \<open>Without a key frame the newest packets stay.\<close>

lemma cache_without_key:
  assumes "0 < max_size d" "length (packet_list d) \<le> max_size d"
  shows "packet_list (fold (\<lambda>(p, b). cache_packet p b) (map (\<lambda>p. (p, False)) ps) d)
    = drop (length (packet_list d) + length ps - max_size d) (packet_list d @ ps)"
  using assms
proof (induction ps arbitrary: d)
  case (Cons p ps)
  let ?d = "cache_packet p False d" and ?l = "packet_list d" and ?m = "max_size d"
  have m: "packet_list ?d = drop (Suc (length ?l) - ?m) ?l @ [p]" "max_size ?d = ?m"
    using Cons.prems by (simp_all add: cache_packet_def pop_cache_eq)
  then have "packet_list (fold (\<lambda>(p, b). cache_packet p b) (map (\<lambda>p. (p, False)) ps) ?d)
      = drop (length (packet_list ?d) + length ps - ?m) (packet_list ?d @ ps)"
    using Cons.IH [of ?d] Cons.prems by simp
  moreover have "drop (length (packet_list ?d) + length ps - ?m) (packet_list ?d @ ps)
      = drop (length ?l + length (p # ps) - ?m) (?l @ p # ps)"
  proof (cases "length ?l < ?m")
    case False
    then have "length ?l = ?m"
      using Cons.prems by simp
    then show ?thesis
      using Cons.prems(1) unfolding m by (cases ?l) simp_all
  qed (simp add: m)
  ultimately show ?case
    by simp
qed simp

lemma cache_holds_newest:
  assumes "0 < max_size d"
  shows "cache_after d (h @ (k, True) # map (\<lambda>p. (p, False)) ps) = drop (Suc (length ps) - max_size d) (k # ps)"
proof -
  let ?e = "cache_packet k True (fold (\<lambda>(p, b). cache_packet p b) h d)"
  have "packet_list ?e = [k]" "max_size ?e = max_size d"
    by (simp_all add: cache_packet_def fold_cache_max)
  then show ?thesis
    using cache_without_key [of ?e ps] assms by (simp add: cache_after_def)
qed

text \<open>Without readers a packet is only cached.\<close>

lemma distribute_quiet:
  "new_clients d = [] \<Longrightarrow> old_clients d = [] \<Longrightarrow>
     each (\<lambda>(p, b). distribute cbs p b) h (d, w) = (Inr (), (fold (\<lambda>(p, b). cache_packet p b) h d, w))"
proof (induction h arbitrary: d)
  case (Cons x h)
  then show ?case
    by (cases x) (simp add: ebind_def distribute_def cache_packet_def)
qed simp

lemma leave_old_aux: "r \<notin> set (new_clients d) \<Longrightarrow> leave r d = d"
  by (simp add: leave_def deregist_reader_def)

section \<open>Properties\<close>

text \<open>Distributing a packet keeps the dispatcher well formed, whatever the callbacks do: the cache
  holds at most \<open>max_size_\<close> packets, and the sets of readers stay ordered sets. This also
  holds when a callback throws in the middle.\<close>

theorem distribute_keeps_ok:
  assumes "disp_ok d" "distribute cbs p b (d, w) = (v, (d', w'))"
  shows "disp_ok d'"
  using distribute_ok_aux [OF assms] .

theorem distribute_keeps_ok_witness:
  "\<exists>v d' w'. distribute \<lparr>read_cb = (\<lambda>r p w. (Inl Std_exception, w)), detach_cb = (\<lambda>r w. w)\<rparr> (5 :: nat) True
      (regist_reader 1 \<lparr>cr_id = [], cr_registered = False, has_read_cb = True, has_detach_cb = True\<rparr>
        (create_dispatcher 0), ()) = (v, (d', w')) \<and> v = Inl Std_exception \<and> disp_ok d'"
proof -
  let ?c = "\<lparr>cr_id = [], cr_registered = False, has_read_cb = True, has_detach_cb = True\<rparr>"
  let ?d = "regist_reader 1 ?c (create_dispatcher 0)"
  let ?cbs = "\<lparr>read_cb = (\<lambda>r p w. (Inl Std_exception, w)), detach_cb = (\<lambda>r w. w)\<rparr>"
  obtain v d' w' where e: "distribute ?cbs (5 :: nat) True (?d, ()) = (v, (d', w'))"
    by (metis surj_pair)
  moreover have "disp_ok d'"
    by (rule distribute_keeps_ok [OF _ e]) simp
  moreover have "v = Inl Std_exception"
    using e by (simp add: distribute_def regist_reader_def create_dispatcher_def cache_packet_def
        on_read_def ebind_def insort_insert_key_def Let_def)
  ultimately show ?thesis by blast
qed

text \<open>C17: the cache holds the packets since the last key frame, in order, as far as there is room. After any history of
  packets distributed without an exception, whatever the readers are and do, that ends in a key frame \<open>k\<close> and the packets \<open>ps\<close>,
  none of them a key frame, the cache is the last \<open>max_size\<close> packets of \<open>k\<close> and \<open>ps\<close>: all of them while
  there are no more, and without the key frame as soon as there are.\<close>

theorem cache_since_key_frame:
  assumes "0 < max_size d"
    and "each (\<lambda>(p, b). distribute cbs p b) (h @ (k, True) # map (\<lambda>p. (p, False)) ps) (d, w) = (Inr (), (d', w'))"
  shows "packet_list d' = drop (Suc (length ps) - max_size d) (k # ps)"
  using each_distribute_cache [OF assms(2)] cache_holds_newest [OF assms(1)] by simp

theorem cache_since_key_frame_witness:
  "\<exists>d'. each (\<lambda>(p, b). distribute \<lparr>read_cb = (\<lambda>r p w. (Inr (), w)), detach_cb = (\<lambda>r w. w)\<rparr> p b)
      ([(7, False)] @ (0, True) # map (\<lambda>p. (p, False)) [1..<41]) (create_dispatcher 32, ()) = (Inr (), (d', ()))
    \<and> packet_list d' = [9..<41]"
proof -
  let ?cbs = "\<lparr>read_cb = (\<lambda>r p w. (Inr (), w)), detach_cb = (\<lambda>r w. w)\<rparr> :: (nat, unit) reader_cbs"
  let ?h = "[(7, False)] @ (0, True) # map (\<lambda>p. (p, False)) [1..<41]" and ?d = "create_dispatcher 32 :: nat dispatcher"
  have m: "max_size ?d = 32" "new_clients ?d = []" "old_clients ?d = []"
    by (simp_all add: create_dispatcher_def kMinPacketCacheSize_def)
  have run: "each (\<lambda>(p, b). distribute ?cbs p b) ?h (?d, ()) = (Inr (), (fold (\<lambda>(p, b). cache_packet p b) ?h ?d, ()))"
    by (rule distribute_quiet [OF m(2,3)])
  have "packet_list (fold (\<lambda>(p, b). cache_packet p b) ?h ?d) = drop (Suc (length [1..<41]) - max_size ?d) (0 # [1..<41])"
    by (rule cache_since_key_frame [OF _ run]) (simp only: m(1))
  moreover have "drop (Suc (length [1..<41]) - 32) (0 # [1..<41]) = [9..<41]"
    by code_simp
  ultimately have "packet_list (fold (\<lambda>(p, b). cache_packet p b) ?h ?d) = [9..<41]"
    by (simp only: m(1))
  then show ?thesis
    by (intro exI conjI) (rule run)
qed

text \<open>A reader that leaves after it was given its first packets is not removed: \<open>leave\<close>
  searches the set of new readers alone, and once a packet was distributed that set is empty.\<close>

theorem leave_ignores_old_reader:
  assumes "disp_ok d" "r \<in> set (new_clients d)" "distribute cbs p b (d, w) = (Inr (), (d', w'))"
  shows "leave r d' = d' \<and> r \<in> set (old_clients (leave r d'))"
proof -
  have "new_clients d' = [] \<and> r \<in> set (old_clients d')"
    using assms(2,3)
    by (auto simp: distribute_def Let_def merge_clients_def cache_packet_def set_merge
        split: prod.splits sum.splits if_splits)
  then show ?thesis
    using leave_old_aux [of r d'] by simp
qed

theorem leave_ignores_old_reader_witness:
  "\<exists>d' w'. distribute \<lparr>read_cb = (\<lambda>r p w. (Inr (), w)), detach_cb = (\<lambda>r w. w)\<rparr> (5 :: nat) True
      (regist_reader 1 \<lparr>cr_id = [], cr_registered = False, has_read_cb = True, has_detach_cb = True\<rparr>
        (create_dispatcher 0), ()) = (Inr (), (d', w')) \<and> 1 \<in> set (old_clients (leave 1 d'))"
proof -
  let ?c = "\<lparr>cr_id = [], cr_registered = False, has_read_cb = True, has_detach_cb = True\<rparr>"
  let ?d = "regist_reader 1 ?c (create_dispatcher 0)"
  let ?cbs = "\<lparr>read_cb = (\<lambda>r p w. (Inr (), w)), detach_cb = (\<lambda>r w. w)\<rparr>"
  obtain d' w' where e: "distribute ?cbs (5 :: nat) True (?d, ()) = (Inr (), (d', w'))"
    by (simp add: distribute_def regist_reader_def create_dispatcher_def cache_packet_def
        on_read_def ebind_def insort_insert_key_def Let_def merge_clients_def)
  moreover have "disp_ok ?d" "1 \<in> set (new_clients ?d)"
    by (simp_all, simp add: regist_reader_def set_insort_insert)
  ultimately show ?thesis
    using leave_ignores_old_reader [of ?d 1 ?cbs 5 True "()" d' w'] by blast
qed

end
