(* ===== verification/Flv_Muxer.thy ===== *)
theory Flv_Muxer
  imports Amf Rtmp_Packet Packet_Dispatcher
begin

text \<open>
  \<open>include/protocol/flv/flv_header.h\<close> and \<open>src/protocol/flv/flv_muxer.cpp\<close>: the
  FLV file header, the tags, and the callback that turns the packets of a stream into tags on
  the connection of a client. The state is the list of the calls of \<open>send\<close> that were made, in
  order. They are asynchronous: a call says what its buffer held when it was made and whose memory that
  is, not what reaches the peer. \<open>parse_flv\<close> is a reader of FLV files after the format's description,
  the reference for the writer.
\<close>

section \<open>Headers and tags\<close>

definition kFlvVersion :: u8 where "kFlvVersion = 1"
definition kFlvHeaderLength :: u32 where "kFlvHeaderLength = 9"

text \<open>The bit fields of the fifth byte: \<open>have_video\<close> is bit 0, \<open>have_audio\<close> bit 2.\<close>

definition prepare_flv_header :: bytes where
  "prepare_flv_header = bytes_of_str ''FLV'' @ [kFlvVersion, 0b101] @ htonl kFlvHeaderLength"

definition prepare_flv_tag_header :: "u8 \<Rightarrow> nat \<Rightarrow> u32 \<Rightarrow> bytes" where
  "prepare_flv_tag_header t body_size ts = t # set_be24 (word_of_nat body_size)
     @ set_be24 (ts AND 0xFFFFFF) @ [ucast (drop_bit 24 ts AND 0xFF)] @ [0, 0, 0]"

section \<open>Calls of send\<close>

text \<open>
  Every call of \<open>send\<close> on an HTTP connection asks for an asynchronous write, which only takes the address
  of its data. What the bytes are in when the call is made: a literal of the program, the buffer of a packet
  (which lives as long as the packet does), a buffer of the pool, or a local variable of the function that calls;
  of the last two nothing is left when that function returns.
\<close>

datatype send_buffer = Literal_Buffer | Packet_Buffer | Pooled_Buffer | Local_Buffer

record send_call =
  sc_data :: bytes
  sc_close :: bool
  sc_buffer :: send_buffer

definition call_of :: "send_buffer \<Rightarrow> bytes \<Rightarrow> send_call" where
  "call_of k data = \<lparr>sc_data = data, sc_close = False, sc_buffer = k\<rparr>"

definition gone_on_return :: "send_call \<Rightarrow> bool" where
  "gone_on_return c \<longleftrightarrow> sc_buffer c = Pooled_Buffer \<or> sc_buffer c = Local_Buffer"

text \<open>What the buffers of calls held, one after another.\<close>

definition call_bytes :: "send_call list \<Rightarrow> bytes" where
  "call_bytes cs = concat (map sc_data cs)"

lemma call_bytes_simps [simp]:
  "call_bytes [] = []" "call_bytes (c # cs) = sc_data c @ call_bytes cs" "call_bytes (cs @ ds) = call_bytes cs @ call_bytes ds"
  "call_bytes (concat css) = concat (map call_bytes css)"
  by (simp_all add: call_bytes_def) (induction css; simp add: call_bytes_def)

lemma call_of_simps [simp]: "sc_data (call_of k d) = d" "sc_close (call_of k d) = False" "sc_buffer (call_of k d) = k"
  by (simp_all add: call_of_def)

definition sending :: "send_buffer \<Rightarrow> bytes \<Rightarrow> (send_call list, unit) eff" where
  "sending k data = emodify (\<lambda>calls. calls @ [call_of k data])"

text \<open>The first argument is the buffer the data are in.\<close>

definition write_flv :: "send_buffer \<Rightarrow> u8 \<Rightarrow> bytes \<Rightarrow> u32 \<Rightarrow> (send_call list, unit) eff" where
  "write_flv k t data ts =
     (if data = [] then ethrow (Runtime_error ''cannot write flv with invalid source or data'')
      else let hd = prepare_flv_tag_header t (length data) ts in
        ebind (sending Pooled_Buffer hd) (\<lambda>_.
        ebind (sending k data) (\<lambda>_.
        sending Local_Buffer (htonl (word_of_nat (length hd + length data))))))"

section \<open>The callback of a client\<close>

text \<open>
  The muxer of a client: the calls of \<open>send\<close> on its connection, whether the muxer still exists (the
  callback holds a weak pointer), and the time before which the client wants no packet.
\<close>

record flv_client =
  fc_calls :: "send_call list"
  fc_alive :: bool
  fc_start_pts :: u32
  fc_shut_down :: bool

definition flv_on_packet :: "rtmp_packet \<Rightarrow> (send_call list, unit) eff" where
  "flv_on_packet pkt =
     ebind (elift (initialised (msg_type_id pkt))) (\<lambda>t.
     ebind (elift (data_bytes 0 (unread_length (pkt_buf pkt)) (pkt_buf pkt))) (\<lambda>data.
     ebind (elift (initialised (time_stamp pkt))) (\<lambda>ts.
     write_flv Packet_Buffer t data ts)))"

definition flv_read :: "rtmp_packet \<Rightarrow> flv_client \<Rightarrow> unit res \<times> flv_client" where
  "flv_read pkt c =
     (case (if fc_start_pts c > 0 then res_bind (initialised (time_stamp pkt)) (\<lambda>ts. Inr (ts < fc_start_pts c))
            else Inr False) of
        Inl e \<Rightarrow> (Inl e, c)
      | Inr early \<Rightarrow>
          if early \<or> \<not> fc_alive c then (Inr (), c)
          else let (r, calls) = flv_on_packet pkt (fc_calls c) in (r, c\<lparr>fc_calls := calls\<rparr>))"

text \<open>The callbacks of all clients, each on its own connection.\<close>

type_synonym flv_clients = "nat \<Rightarrow> flv_client"

definition flv_cbs :: "(rtmp_packet, flv_clients) reader_cbs" where
  "flv_cbs = \<lparr>read_cb = (\<lambda>r pkt cs. let (v, c) = flv_read pkt (cs r) in (v, cs(r := c))),
     detach_cb = (\<lambda>r cs. cs(r := (cs r)\<lparr>fc_shut_down := True\<rparr>))\<rparr>"

section \<open>A reader of FLV files\<close>

function parse_tags :: "bytes \<Rightarrow> (u8 \<times> u32 \<times> bytes) list option" where
  "parse_tags bs =
     (if bs = [] then Some []
      else if length bs < 11 then None
      else let n = unat (load_be24 (drop 1 bs));
               ts = load_be24 (drop 4 bs) OR push_bit 24 (ucast (bs ! 7))
        in if length bs < 15 + n \<or> unat (load_be32 (drop (11 + n) bs)) \<noteq> 11 + n then None
           else map_option (Cons (bs ! 0, ts, take n (drop 11 bs))) (parse_tags (drop (15 + n) bs)))"
  by pat_completeness auto
termination
  by (relation "measure length") auto

declare parse_tags.simps [simp del]

definition parse_flv :: "bytes \<Rightarrow> (u8 \<times> u32 \<times> bytes) list option" where
  "parse_flv bs = (if take 4 bs = bytes_of_str ''FLV'' @ [1] \<and> load_be32 (drop 5 bs) = 9
       \<and> take 4 (drop 9 bs) = [0, 0, 0, 0]
     then parse_tags (drop 13 bs) else None)"

definition tag_bytes :: "u8 \<times> u32 \<times> bytes \<Rightarrow> bytes" where
  "tag_bytes = (\<lambda>(t, ts, data). prepare_flv_tag_header t (length data) ts @ data
     @ htonl (word_of_nat (11 + length data)))"

definition tag_fits :: "u8 \<times> u32 \<times> bytes \<Rightarrow> bool" where
  "tag_fits = (\<lambda>(t, ts, data). data \<noteq> [] \<and> length data < 2 ^ 24)"

lemma length_tag_header [simp]: "length (prepare_flv_tag_header t n ts) = 11"
  by (simp add: prepare_flv_tag_header_def)

text \<open>The calls a tag becomes.\<close>

definition tag_calls :: "send_buffer \<Rightarrow> u8 \<times> u32 \<times> bytes \<Rightarrow> send_call list" where
  "tag_calls k = (\<lambda>(t, ts, data). [call_of Pooled_Buffer (prepare_flv_tag_header t (length data) ts), call_of k data,
     call_of Local_Buffer (htonl (word_of_nat (11 + length data)))])"

lemma write_flv_eq:
  "data \<noteq> [] \<Longrightarrow> write_flv k t data ts calls = (Inr (), calls @ tag_calls k (t, ts, data))"
  by (simp add: write_flv_def sending_def tag_calls_def Let_def)

text \<open>Two of them do not outlive the function that makes them.\<close>

lemma tag_calls_gone: "map gone_on_return (tag_calls Packet_Buffer x) = [True, False, True]"
  by (simp add: tag_calls_def gone_on_return_def split: prod.splits)

lemma tag_calls_simps [simp]: "call_bytes (tag_calls k x) = tag_bytes x" "tag_calls k x \<noteq> []"
    "\<forall>c \<in> set (tag_calls k x). \<not> sc_close c"
  by (cases x; auto simp: tag_calls_def tag_bytes_def)+

lemma timestamp_split:
  "take_bit 24 (ts AND 0xFFFFFF) OR push_bit 24 (ucast (ucast (drop_bit 24 ts AND 0xFF) :: u8)) = (ts :: u32)"
proof -
  have m: "(0xFFFFFF :: u32) = mask 24" "(0xFF :: u32) = mask 8"
    by (simp_all add: mask_eq_exp_minus_1)
  show ?thesis
    unfolding m
    by (rule bit_word_eqI) (auto simp: bit_simps dest: bit_imp_le_length)
qed

lemma parse_tag:
  assumes "tag_fits (t, ts, data)"
  shows "parse_tags (tag_bytes (t, ts, data) @ r) = map_option (Cons (t, ts, data)) (parse_tags r)"
proof -
  let ?n = "word_of_nat (length data) :: u32"
  let ?e = "ucast (drop_bit 24 ts AND 0xFF) :: u8"
  let ?tail = "data @ htonl (word_of_nat (11 + length data)) @ r"
  let ?b = "tag_bytes (t, ts, data) @ r"
  have b: "?b = t # set_be24 ?n @ set_be24 (ts AND 0xFFFFFF) @ [?e, 0, 0, 0] @ ?tail"
    by (simp add: tag_bytes_def prepare_flv_tag_header_def)
  have n: "unat ?n = length data"
    using assms by (simp add: tag_fits_def unsigned_of_nat take_bit_nat_eq_self)
  have d1: "load_be24 (drop 1 ?b) = ?n"
    using be24.dec_enc [of ?n] assms n by (simp add: b tag_fits_def)
  have d4: "drop 4 ?b = set_be24 (ts AND 0xFFFFFF) @ [?e, 0, 0, 0] @ ?tail"
    by (simp add: b set_be24_def)
  have l4: "load_be24 (drop 4 ?b) = take_bit 24 (ts AND 0xFFFFFF)"
    unfolding d4 by (rule load_be24_set_mod)
  have b7: "?b ! 7 = ?e" "?b ! 0 = t"
    by (simp_all add: b set_be24_def)
  have d11: "drop 11 ?b = ?tail"
    by (simp add: b set_be24_def)
  have dn: "drop (11 + length data) ?b = htonl (word_of_nat (11 + length data)) @ r"
    by (subst add.commute, subst drop_drop [symmetric], subst d11) simp
  have q: "4 + (11 + length data) = 15 + length data"
    by simp
  have "drop 4 (drop (11 + length data) ?b) = r"
    unfolding dn by (simp add: htonl_def)
  then have dr: "drop (15 + length data) ?b = r"
    unfolding drop_drop q .
  have ln: "unat (word_of_nat (11 + length data) :: u32) = 11 + length data"
    using assms by (simp add: tag_fits_def unsigned_of_nat take_bit_nat_eq_self del: of_nat_add)
  have lb: "length ?b = 15 + length data + length r" "?b \<noteq> []"
    by (simp_all add: b htonl_def)
  show ?thesis
    using timestamp_split [of ts]
    by (subst parse_tags.simps) (simp only: Let_def d1 n l4 b7 d11 dn dr lb htonl_def load_be32_set ln, simp)
qed

lemma parse_tags_concat:
  "\<forall>x \<in> set xs. tag_fits x \<Longrightarrow> parse_tags (concat (map tag_bytes xs)) = Some xs"
proof (induction xs)
  case (Cons x xs)
  then show ?case
    by (cases x) (simp add: parse_tag)
qed (simp add: parse_tags.simps)

lemma flv_file_read:
  assumes "\<forall>x \<in> set xs. tag_fits x"
  shows "parse_flv (prepare_flv_header @ [0, 0, 0, 0] @ concat (map tag_bytes xs)) = Some xs"
proof -
  have h: "prepare_flv_header = bytes_of_str ''FLV'' @ [1, 5] @ set_be32 9"
    by (simp add: prepare_flv_header_def kFlvVersion_def kFlvHeaderLength_def htonl_def)
  have "load_be32 (set_be32 9 @ r) = 9" for r
    by (rule load_be32_set)
  then show ?thesis
    using parse_tags_concat [OF assms] by (simp add: parse_flv_def h set_be32_def)
qed

section \<open>The clients as readers of a dispatcher\<close>

text \<open>The tag a packet becomes, and the packets the callback can take.\<close>

definition packet_tag :: "rtmp_packet \<Rightarrow> u8 \<times> u32 \<times> bytes" where
  "packet_tag p = (the (msg_type_id p), the (time_stamp p), payload p)"

abbreviation packet_calls :: "rtmp_packet \<Rightarrow> send_call list" where
  "packet_calls p \<equiv> tag_calls Packet_Buffer (packet_tag p)"

definition flv_packet :: "rtmp_packet \<Rightarrow> bool" where
  "flv_packet p \<longleftrightarrow> pkt_ok p \<and> msg_type_id p \<noteq> None \<and> time_stamp p \<noteq> None \<and> tag_fits (packet_tag p)"

definition wants :: "bool \<Rightarrow> u32 \<Rightarrow> rtmp_packet \<Rightarrow> bool" where
  "wants alive start_pts p \<longleftrightarrow> alive \<and> \<not> (start_pts > 0 \<and> the (time_stamp p) < start_pts)"

lemma flv_on_packet_eq:
  assumes "flv_packet p"
  shows "flv_on_packet p calls = (Inr (), calls @ packet_calls p)"
proof -
  have d: "data_bytes 0 (unread_length (pkt_buf p)) (pkt_buf p) = Inr (payload p)" "payload p \<noteq> []"
    using assms data_bytes_front [of "pkt_buf p" "unread_length (pkt_buf p)"]
    by (simp_all add: flv_packet_def pkt_ok_def payload_def packet_tag_def tag_fits_def)
  then show ?thesis
    using assms by (auto simp: flv_on_packet_def ebind_def flv_packet_def write_flv_eq packet_tag_def)
qed

lemma flv_read_eq:
  assumes "flv_packet p"
  shows "flv_read p c = (Inr (), c\<lparr>fc_calls := fc_calls c
    @ (if wants (fc_alive c) (fc_start_pts c) p then packet_calls p else [])\<rparr>)"
  using assms flv_on_packet_eq [OF assms]
  by (auto simp: flv_read_def wants_def flv_packet_def)

interpretation flv: emitting_readers flv_cbs "\<lambda>cs r. fc_calls (cs r)"
    "\<lambda>r p. if wants (fst (who r)) (snd (who r)) p then packet_calls p else []" flv_packet
    "\<lambda>cs. \<forall>r. who r = (fc_alive (cs r), fc_start_pts (cs r))"
  for who :: "nat \<Rightarrow> bool \<times> u32"
proof unfold_locales
  fix p r and w :: flv_clients
  assume "flv_packet p" "\<forall>r. who r = (fc_alive (w r), fc_start_pts (w r))"
  then show "\<exists>w'. read_cb flv_cbs r p w = (Inr (), w')
      \<and> (\<forall>r. who r = (fc_alive (w' r), fc_start_pts (w' r)))
      \<and> (\<lambda>r. fc_calls (w' r)) = (\<lambda>r. fc_calls (w r))(r := fc_calls (w r)
        @ (if wants (fst (who r)) (snd (who r)) p then packet_calls p else []))"
    using flv_read_eq [of p "w r"] by (auto simp: flv_cbs_def Let_def)
qed

section \<open>Properties\<close>

text \<open>C16: what the muxer writes is an FLV file. A run of \<open>write_flv\<close> over any sequence of tags with
  non-empty data of fewer than \<open>2^24\<close> bytes makes calls of \<open>send\<close> whose bytes, after the header
  and the first size field, are read back as these tags, with their types, their full 32-bit times and their data,
  every size field right. No call asks for the connection to be closed. Without data \<open>write_flv\<close> throws
  and calls nothing.\<close>

theorem flv_round_trip:
  assumes "\<forall>x \<in> set xs. tag_fits x"
  shows "\<exists>calls. each (\<lambda>(t, ts, data). write_flv k t data ts) xs before = (Inr (), before @ calls)
      \<and> parse_flv (prepare_flv_header @ [0, 0, 0, 0] @ call_bytes calls) = Some xs \<and> (\<forall>c \<in> set calls. \<not> sc_close c)
      \<and> (\<exists>e. write_flv k t [] ts before = (Inl e, before))"
proof -
  have "each (\<lambda>(t, ts, data). write_flv k t data ts) xs before = (Inr (), before @ concat (map (tag_calls k) xs))"
    using assms
  proof (induction xs arbitrary: before)
    case (Cons x xs)
    obtain t ts data where x: "x = (t, ts, data)" "data \<noteq> []"
      using Cons.prems by (cases x) (auto simp: tag_fits_def)
    then show ?case
      using Cons by (simp add: ebind_def write_flv_eq)
  qed simp
  moreover have "call_bytes (concat (map (tag_calls k) xs)) = concat (map tag_bytes xs)"
    by (simp add: comp_def)
  moreover have "\<forall>c \<in> set (concat (map (tag_calls k) xs)). \<not> sc_close c"
    using tag_calls_simps(3) by auto
  ultimately show ?thesis
    using flv_file_read [OF assms] by (intro exI [of _ "concat (map (tag_calls k) xs)"]) (simp add: write_flv_def)
qed

theorem flv_round_trip_witness:
  "\<exists>calls. ebind (write_flv Packet_Buffer 9 [1, 2] 0x12345678) (\<lambda>_. write_flv Packet_Buffer 8 [3] 5) [] = (Inr (), calls)
     \<and> parse_flv (prepare_flv_header @ [0, 0, 0, 0] @ call_bytes calls) = Some [(9, 0x12345678, [1, 2]), (8, 5, [3])]"
proof -
  have "\<forall>x \<in> set [(9, 0x12345678, [1, 2]), (8, 5, [3])]. tag_fits x"
    by (simp add: tag_fits_def)
  from flv_round_trip [OF this, of Packet_Buffer "[]"] show ?thesis
    by (auto simp: ebind_def write_flv_eq)
qed

text \<open>A client that joins late sees a playable stream. Let the cache hold the key frame \<open>k\<close>
  and the packets \<open>ps\<close> since it, with room for more. A client that registers now and wants
  everything gets, once the next packet \<open>p\<close> and further packets \<open>qs\<close> are distributed, the calls
  of \<open>send\<close> for the tags of \<open>k\<close>, \<open>ps\<close>, \<open>p\<close> and \<open>qs\<close>, each once and in order,
  whatever other clients there are.\<close>

theorem late_client_stream:
  assumes "disp_ok d" "all_read d" "packet_list d = k # ps" "Suc (length ps) < max_size d"
    and "\<forall>x \<in> set (k # ps @ p # map fst qs). flv_packet x"
    and "has_read_cb c" "r \<notin> set (old_clients d)" "fc_alive (cs r)" "fc_start_pts (cs r) = 0"
  shows "\<exists>d' cs'. each (\<lambda>(q, b). distribute flv_cbs q b) ((p, False) # qs) (regist_reader r c d, cs)
      = (Inr (), (d', cs'))
    \<and> fc_calls (cs' r) = fc_calls (cs r) @ concat (map packet_calls (k # ps @ p # map fst qs))"
proof -
  let ?who = "\<lambda>r. (fc_alive (cs r), fc_start_pts (cs r))"
  have pl: "packet_list (cache_packet p False d) = k # ps @ [p]"
    using assms(3,4) by (simp add: cache_packet_def pop_cache_eq)
  have g: "flv_packet p" "\<forall>(q, b) \<in> set qs. flv_packet q" "\<forall>q \<in> set (packet_list d). flv_packet q"
    using assms(5) by (auto simp: assms(3) rev_image_eqI)
  have "(\<lambda>x. if wants (fst (?who r)) (snd (?who r)) x then packet_calls x else [])
      = packet_calls"
    using assms(8,9) by (auto simp: wants_def)
  then show ?thesis
    using flv.late_reader_emits [where who = ?who and w = cs and b = False,
        OF assms(1,2,6,7) g] unfolding pl by auto
qed

theorem late_client_stream_witness:
  "\<exists>d' cs'. each (\<lambda>(q, b). distribute flv_cbs q b)
      [(create_packet\<lparr>msg_type_id := Some 9, time_stamp := Some 40, pkt_buf := buf_write [0x27, 1, 9] (create 8)\<rparr>, False)]
      (regist_reader 1 \<lparr>cr_id = [], cr_registered = False, has_read_cb = True, has_detach_cb = True\<rparr>
        (create_dispatcher 1024\<lparr>packet_list := [create_packet\<lparr>msg_type_id := Some 9, time_stamp := Some 0,
          pkt_buf := buf_write [0x17, 1, 7] (create 8)\<rparr>]\<rparr>),
       \<lambda>_. \<lparr>fc_calls = [], fc_alive = True, fc_start_pts = 0, fc_shut_down = False\<rparr>)
      = (Inr (), (d', cs'))
    \<and> fc_calls (cs' 1) = tag_calls Packet_Buffer (9, 0, [0x17, 1, 7]) @ tag_calls Packet_Buffer (9, 40, [0x27, 1, 9])"
proof -
  let ?k = "create_packet\<lparr>msg_type_id := Some 9, time_stamp := Some 0, pkt_buf := buf_write [0x17, 1, 7] (create 8)\<rparr>"
  let ?p = "create_packet\<lparr>msg_type_id := Some 9, time_stamp := Some 40, pkt_buf := buf_write [0x27, 1, 9] (create 8)\<rparr>"
  let ?d = "create_dispatcher 1024\<lparr>packet_list := [?k]\<rparr>"
  have t: "packet_tag ?k = (9, 0, [0x17, 1, 7])" "packet_tag ?p = (9, 40, [0x27, 1, 9])"
    by (simp_all add: packet_tag_def payload_def)
  have "\<forall>x \<in> set (?k # [] @ ?p # map fst []). flv_packet x"
    using t by (simp add: flv_packet_def pkt_ok_def tag_fits_def)
  moreover have "disp_ok ?d" "all_read ?d" "packet_list ?d = ?k # []" "Suc (length []) < max_size ?d"
    "1 \<notin> set (old_clients ?d)"
    by (simp_all add: disp_ok_def all_read_def create_dispatcher_def kMinPacketCacheSize_def)
  ultimately show ?thesis
    using late_client_stream [of ?d ?k "[]" ?p "[]"
        "\<lparr>cr_id = [], cr_registered = False, has_read_cb = True, has_detach_cb = True\<rparr>" 1
        "\<lambda>_. \<lparr>fc_calls = [], fc_alive = True, fc_start_pts = 0, fc_shut_down = False\<rparr>"]
    by (simp add: t)
qed

end
