(* ===== verification/Rtmp_Media_Source.thy ===== *)
theory Rtmp_Media_Source
  imports Rtmp_Codec Media_Source Flv_Muxer
begin

text \<open>
  \<open>include/protocol/rtmp/rtmp_media_source.h\<close> and
  \<open>src/protocol/rtmp/rtmp_media_source.cpp\<close>: the source a publisher feeds. The server is
  the world of sources, the metadata of the sessions, which sources point into, and what the
  callbacks of the readers work on (\<open>outside\<close>). A source is named by its address; addresses
  are given out in order and not used again. The clock readings an operation makes are its first
  arguments.
\<close>

section \<open>State\<close>

text \<open>
  The publishers' pointers to a source are counted (\<open>source_refs\<close>); nothing else keeps a source
  alive. \<open>clock_at\<close> is what the clock shows when it is read for the n-th time.
  \<open>meta_data_\<close> is a raw pointer to the map of the session, \<open>None\<close> while it is not
  initialised. \<open>config_frame_map_\<close> has at most an entry for audio and one for video.
\<close>

record rtmp_source = media_source +
  audio_stamp :: u32
  video_stamp :: u32
  src_demuxer :: demuxer
  meta_data :: "nat option"
  config_frames :: "(u8 \<times> rtmp_packet) list"
  src_dispatcher :: "rtmp_packet dispatcher option"

record 'w rtmp_server =
  media :: "rtmp_source media_world"
  next_source :: nat
  next_info :: nat
  source_refs :: "nat \<Rightarrow> nat"
  clock_at :: "nat \<Rightarrow> u64"
  clock_reads :: nat
  metas :: "nat \<Rightarrow> metadata option"
  outside :: 'w

definition tick :: "('w rtmp_server, u64) eff" where
  "tick srv = (Inr (clock_at srv (clock_reads srv)), srv\<lparr>clock_reads := clock_reads srv + 1\<rparr>)"

definition the_source :: "nat \<Rightarrow> 'w rtmp_server \<Rightarrow> rtmp_source res" where
  "the_source i srv = (case sources (media srv) i of None \<Rightarrow> Inl (Undefined ''no such source'') | Some s \<Rightarrow> Inr s)"

definition set_source :: "nat \<Rightarrow> (rtmp_source \<Rightarrow> rtmp_source) \<Rightarrow> 'w rtmp_server \<Rightarrow> 'w rtmp_server" where
  "set_source i f srv = srv\<lparr>media := change_source i f (media srv)\<rparr>"

definition on_media :: "(rtmp_source media_world \<Rightarrow> 'a res \<times> rtmp_source media_world) \<Rightarrow> ('w rtmp_server, 'a) eff" where
  "on_media m srv = (let (r, w) = m (media srv) in (r, srv\<lparr>media := w\<rparr>))"

section \<open>Operations\<close>

definition new_rtmp_source :: "u64 \<Rightarrow> u64 \<Rightarrow> nat \<Rightarrow> rtmp_source" where
  "new_rtmp_source t0 t1 m = \<lparr>src_info = m, owned = False, is_registered = False, audio_speed = new_bytes_speed t0,
     video_speed = new_bytes_speed t1, audio_stamp = 0, video_stamp = 0, src_demuxer = set_muxer new_demuxer,
     meta_data = None, config_frames = [], src_dispatcher = None\<rparr>"

text \<open>\<open>create\<close>, and the constructors it calls: \<open>m\<close> is the address of the media information.\<close>

definition create_source :: "u64 \<Rightarrow> u64 \<Rightarrow> nat \<Rightarrow> ('w rtmp_server, nat) eff" where
  "create_source t0 t1 m = (\<lambda>srv.
     case res_bind (case infos (media srv) m of
              None \<Rightarrow> Inl (Invalid_argument ''media_info is invalid'')
            | Some mi \<Rightarrow> throw_if (mi_schema mi \<noteq> ''RTMP'') (Invalid_argument ''media_info is invalid''))
          (\<lambda>_. check_info (infos (media srv) m)) of
       Inl e \<Rightarrow> (Inl e, srv)
     | Inr _ \<Rightarrow>
         let i = next_source srv in
         (Inr i, srv\<lparr>next_source := i + 1, media := (media srv)\<lparr>sources := (sources (media srv))(i \<mapsto> new_rtmp_source t0 t1 m)\<rparr>\<rparr>))"

text \<open>The end of a dispatcher: its readers are detached.\<close>

definition drop_dispatcher :: "(rtmp_packet, 'w) reader_cbs \<Rightarrow> rtmp_packet dispatcher option \<Rightarrow> 'w \<Rightarrow> 'w" where
  "drop_dispatcher cbs od w = (case od of None \<Rightarrow> w | Some d \<Rightarrow> snd (detach_all_readers cbs (d, w)))"

definition init_tracks :: "(rtmp_packet, 'w) reader_cbs \<Rightarrow> nat \<Rightarrow> nat \<Rightarrow> ('w rtmp_server, unit) eff" where
  "init_tracks cbs i session = (\<lambda>srv. case the_source i srv of Inl e \<Rightarrow> (Inl e, srv)
     | Inr s \<Rightarrow>
         (case init_tracks_with_metadata (metas srv session) (src_demuxer s) of
            (Inl e, (md, dm)) \<Rightarrow> (Inl e, set_source i (\<lambda>s. s\<lparr>src_demuxer := dm\<rparr>) (srv\<lparr>metas := (metas srv)(session := md)\<rparr>))
          | (Inr _, (md, dm)) \<Rightarrow>
              let srv = srv\<lparr>metas := (metas srv)(session := md)\<rparr>;
                  srv = set_source i (\<lambda>s. s\<lparr>src_demuxer := dm, meta_data := Some session,
                    src_dispatcher := Some (create_dispatcher kMaxPacketCacheSize)\<rparr>) srv
              in (Inr (), srv\<lparr>outside := drop_dispatcher cbs (src_dispatcher s) (outside srv)\<rparr>)))"

definition get_metadata :: "nat \<Rightarrow> 'w rtmp_server \<Rightarrow> metadata res" where
  "get_metadata i srv = res_bind (the_source i srv) (\<lambda>s.
     res_bind (initialised (meta_data s)) (\<lambda>session.
     case metas srv session of None \<Rightarrow> Inl (Undefined ''metadata of a session that is gone'') | Some m \<Rightarrow> Inr m))"

definition get_dispatcher :: "nat \<Rightarrow> 'w rtmp_server \<Rightarrow> rtmp_packet dispatcher res" where
  "get_dispatcher i srv = res_bind (the_source i srv) (\<lambda>s.
     case src_dispatcher s of None \<Rightarrow> Inl (Runtime_error ''rtmp dispatcher is empty'') | Some d \<Rightarrow> Inr d)"

text \<open>\<open>loop_config_frame\<close>: \<open>order\<close> is the order in which the hash map is walked.\<close>

definition loop_config_frame :: "((u8 \<times> rtmp_packet) list \<Rightarrow> (u8 \<times> rtmp_packet) list) \<Rightarrow>
    (rtmp_packet \<Rightarrow> ('s, unit) eff) \<Rightarrow> rtmp_source \<Rightarrow> ('s, unit) eff" where
  "loop_config_frame order f s = each (\<lambda>(t, p). f p) (order (config_frames s))"

text \<open>The byte rate and the time of the track a packet belongs to.\<close>

definition update_track :: "u64 \<Rightarrow> u64 \<Rightarrow> bool \<Rightarrow> nat \<Rightarrow> u32 \<Rightarrow> rtmp_source \<Rightarrow> rtmp_source" where
  "update_track t1 t2 is_video n ts s =
     (if is_video then s\<lparr>video_speed := add_bytes t1 t2 (word_of_nat n) (video_speed s), video_stamp := ts\<rparr>
      else s\<lparr>audio_speed := add_bytes t1 t2 (word_of_nat n) (audio_speed s), audio_stamp := ts\<rparr>)"

definition distribute_packet :: "(rtmp_packet, 'w) reader_cbs \<Rightarrow> nat \<Rightarrow> rtmp_packet \<Rightarrow> ('w rtmp_server, unit) eff" where
  "distribute_packet cbs i pkt = (\<lambda>srv.
     case res_bind (get_dispatcher i srv) (\<lambda>d. res_bind (is_video_keyframe pkt) (\<lambda>key. Inr (d, key))) of
       Inl e \<Rightarrow> (Inl e, srv)
     | Inr (d, key) \<Rightarrow>
         (case distribute cbs pkt key (d, outside srv) of
            (r, (d, w)) \<Rightarrow> (r, (set_source i (\<lambda>s. s\<lparr>src_dispatcher := Some d\<rparr>) srv)\<lparr>outside := w\<rparr>)))"

text \<open>After the demuxer: the configuration is kept, the source registers with its first other packet.\<close>

definition publish_packet :: "(rtmp_packet, 'w) reader_cbs \<Rightarrow> nat \<Rightarrow> rtmp_packet \<Rightarrow> ('w rtmp_server, unit) eff" where
  "publish_packet cbs i pkt =
     ebind (elift (is_config_frame pkt)) (\<lambda>config.
     ebind (if config then emodify (set_source i (\<lambda>s. s\<lparr>config_frames :=
            AList.update (the (msg_type_id pkt)) pkt (config_frames s)\<rparr>)) else eret ()) (\<lambda>_.
     ebind (\<lambda>srv. (res_bind (the_source i srv) (\<lambda>s. Inr (is_registered s)), srv)) (\<lambda>registered.
     if config \<and> \<not> registered then eret ()
     else ebind (if registered then eret () else on_media (regist i)) (\<lambda>_.
       distribute_packet cbs i pkt))))"

text \<open>The guards of \<open>process_av_packet\<close>.\<close>

definition check_av_packet :: "nat \<Rightarrow> rtmp_packet \<Rightarrow> 'w rtmp_server \<Rightarrow> (u8 \<times> rtmp_source) res" where
  "check_av_packet i pkt srv = res_bind (initialised (msg_type_id pkt)) (\<lambda>t.
     res_bind (throw_if (t \<noteq> MSG_AUDIO \<and> t \<noteq> MSG_VIDEO) (Runtime_error ''rtmp packet must be either video or audio'')) (\<lambda>_.
     res_bind (the_source i srv) (\<lambda>s.
     res_bind (throw_if (src_dispatcher s = None)
        (Runtime_error ''Must initialize tracks with metadata before processing packets.'')) (\<lambda>_.
     Inr (t, s)))))"

definition process_av_packet :: "(rtmp_packet, 'w) reader_cbs \<Rightarrow> u64 \<Rightarrow> u64 \<Rightarrow> nat \<Rightarrow> rtmp_packet \<Rightarrow> ('w rtmp_server, unit) eff" where
  "process_av_packet cbs t1 t2 i pkt = (\<lambda>srv.
     case check_av_packet i pkt srv of
       Inl e \<Rightarrow> (Inl e, srv)
     | Inr (t, s) \<Rightarrow>
         (case demuxer_input_rtmp pkt (src_demuxer s) of
            (Inl e, (pkt, dm)) \<Rightarrow> (Inl e, set_source i (\<lambda>s. s\<lparr>src_demuxer := dm\<rparr>) srv)
          | (Inr _, (pkt, dm)) \<Rightarrow>
              let (n, pkt) = packet_size pkt;
                  srv = set_source i (\<lambda>s. s\<lparr>src_demuxer := dm\<rparr>) srv
              in case initialised (time_stamp pkt) of
                   Inl e \<Rightarrow> (Inl e, srv)
                 | Inr ts \<Rightarrow> publish_packet cbs i pkt (set_source i (update_track t1 t2 (t = MSG_VIDEO) n ts) srv)))"

text \<open>The destructor: the dispatcher goes before the base class unregisters the source.\<close>

definition destroy_source :: "(rtmp_packet, 'w) reader_cbs \<Rightarrow> nat \<Rightarrow> 'w rtmp_server \<Rightarrow> 'w rtmp_server" where
  "destroy_source cbs i srv = (case sources (media srv) i of None \<Rightarrow> srv
     | Some s \<Rightarrow> srv\<lparr>outside := drop_dispatcher cbs (src_dispatcher s) (outside srv), media := destroy i (media srv)\<rparr>)"

text \<open>Copying and dropping a \<open>shared_ptr\<close> to a source.\<close>

definition hold_source :: "nat \<Rightarrow> 'w rtmp_server \<Rightarrow> 'w rtmp_server" where
  "hold_source i srv = srv\<lparr>source_refs := (source_refs srv)(i := source_refs srv i + 1)\<rparr>"

definition drop_source :: "(rtmp_packet, 'w) reader_cbs \<Rightarrow> nat \<Rightarrow> 'w rtmp_server \<Rightarrow> 'w rtmp_server" where
  "drop_source cbs i srv = (let srv = srv\<lparr>source_refs := (source_refs srv)(i := source_refs srv i - 1)\<rparr>
     in if source_refs srv i = 0 then destroy_source cbs i srv else srv)"


section \<open>The invariant of the server\<close>

definition source_ok :: "rtmp_source \<Rightarrow> bool" where
  "source_ok s \<longleftrightarrow> (\<forall>d. src_dispatcher s = Some d \<longrightarrow> disp_ok d)
     \<and> distinct (map fst (config_frames s)) \<and> set (map fst (config_frames s)) \<subseteq> {MSG_AUDIO, MSG_VIDEO}"

text \<open>What the registry has under a key is gone or has that key.\<close>

definition entries_own :: "'a media_source_scheme media_world \<Rightarrow> bool" where
  "entries_own w \<longleftrightarrow> (\<forall>k i. look_up (registry w) k = Some i \<longrightarrow> live w i \<longrightarrow> key_of w i = Some k)"

lemma entries_ownD: "entries_own w \<Longrightarrow> look_up (registry w) k = Some i \<Longrightarrow> live w i \<Longrightarrow> key_of w i = Some k"
  unfolding entries_own_def by blast

definition server_ok :: "'w rtmp_server \<Rightarrow> bool" where
  "server_ok srv \<longleftrightarrow> world_ok (media srv) \<and> entries_own (media srv)
     \<and> (\<forall>i s. sources (media srv) i = Some s \<longrightarrow> source_ok s \<and> i < next_source srv)
     \<and> (\<forall>k i. look_up (registry (media srv)) k = Some i \<longrightarrow> i < next_source srv)
     \<and> (\<forall>a. infos (media srv) a \<noteq> None \<longrightarrow> a < next_info srv)"

text \<open>A change of a source that leaves its registration alone.\<close>

definition same_registration :: "('a media_source_scheme \<Rightarrow> 'a media_source_scheme) \<Rightarrow> bool" where
  "same_registration f \<longleftrightarrow> (\<forall>s. src_info (f s) = src_info s \<and> is_registered (f s) = is_registered s)"

lemma objs_same: "same_registration f \<Longrightarrow> objs_of (change_source i f w) = objs_of w"
  by (auto simp: objs_of_def change_source_def same_registration_def fun_eq_iff split: option.splits)

lemma world_same: "same_registration f \<Longrightarrow> world_ok w \<Longrightarrow> world_ok (change_source i f w)"
  using objs_same [of f i w]
  by (auto simp: world_ok_def simp del: not_None_eq) (fastforce simp: change_source_def same_registration_def split: if_splits)

lemma key_of_objs: "key_of w i = map_option fst (objs_of w i)"
  by (auto simp: key_of_def objs_of_def option.map_comp comp_def split: option.splits)

lemma entries_same: "same_registration f \<Longrightarrow> entries_own w \<Longrightarrow> entries_own (change_source i f w)"
  by (simp add: entries_own_def key_of_objs objs_same) (simp add: live_def change_source_def)

lemma live_change [simp]: "live (change_source i f w) j = live w j" "live (w\<lparr>registry := g\<rparr>) j = live w j"
  by (simp_all add: live_def change_source_def)

lemma key_change [simp]: "key_of (change_source i (\<lambda>s. s\<lparr>is_registered := b\<rparr>) w) j = key_of w j"
    "key_of (w\<lparr>registry := g\<rparr>) j = key_of w j"
  by (auto simp: key_of_def change_source_def split: option.splits)

lemma entries_regist: "entries_own w \<Longrightarrow> entries_own (snd (regist i w))"
  unfolding entries_own_def regist_keeps_keys by (auto simp: regist_def look_up_put split: option.splits)

lemma look_up_destroy: "look_up (registry (destroy i w)) k = Some j \<Longrightarrow> look_up (registry w) k = Some j"
  by (auto simp: destroy_def look_up_erase split: option.splits if_splits)

lemma destroy_other: "live (destroy i w) j \<Longrightarrow> live w j \<and> key_of (destroy i w) j = key_of w j"
  by (simp add: destroy_key_of) (auto simp: destroy_def live_def split: option.splits if_splits)

lemma entries_destroy: "entries_own w \<Longrightarrow> entries_own (destroy i w)"
  unfolding entries_own_def using look_up_destroy destroy_other by metis

lemma entries_create:
  assumes "entries_own w" "\<And>k. look_up (registry w) k \<noteq> Some i"
  shows "entries_own (w\<lparr>sources := (sources w)(i \<mapsto> s)\<rparr>)"
proof -
  have "key_of (w\<lparr>sources := (sources w)(i \<mapsto> s)\<rparr>) j = key_of w j \<and> live (w\<lparr>sources := (sources w)(i \<mapsto> s)\<rparr>) j = live w j"
    if "j \<noteq> i" for j
    using that by (simp add: key_of_def live_def split: option.split)
  then show ?thesis
    using assms unfolding entries_own_def by (metis media_world.select_convs(1) media_world.surjective media_world.update_convs(3))
qed

lemma set_source_ok:
  assumes "server_ok srv" "same_registration f" "\<And>s. sources (media srv) i = Some s \<Longrightarrow> source_ok s \<Longrightarrow> source_ok (f s)"
  shows "server_ok (set_source i f srv)"
  using assms world_same [OF assms(2)] entries_same [OF assms(2)]
  by (auto simp: server_ok_def set_source_def) (auto simp: change_source_def split: if_splits)

lemma outside_ok [simp]: "server_ok (srv\<lparr>outside := w\<rparr>) = server_ok srv"
  by (simp add: server_ok_def)

lemma change_infos_eq [simp]: "infos (change_source i f w) = infos w"
  by (simp add: change_source_def)

lemma infos_kept [simp]: "infos (snd (regist i w)) a = None \<longleftrightarrow> infos w a = None"
    "infos (destroy i w) a = None \<longleftrightarrow> infos w a = None"
  by (auto simp: regist_def destroy_def split: option.splits)

lemma regist_server_ok: "server_ok srv \<Longrightarrow> server_ok (snd (on_media (regist i) srv))"
proof -
  assume ok: "server_ok srv"
  have live: "key_of (media srv) i = Some k \<Longrightarrow> i < next_source srv" for k
    using ok by (auto simp: server_ok_def key_of_def split: option.splits)
  have c: "sources (change_source i (\<lambda>s. s\<lparr>is_registered := True\<rparr>) (w\<lparr>registry := g\<rparr>)) j = Some s \<Longrightarrow>
      \<exists>t. sources w j = Some t \<and> (source_ok t \<longrightarrow> source_ok s)" for w :: "rtmp_source media_world" and g j s
    by (auto simp: change_source_def source_ok_def split: if_splits)
  have w: "world_ok (snd (regist i (media srv)))"
    using ok by (simp add: server_ok_def regist_ok)
  have src: "\<forall>j s. sources (snd (regist i (media srv))) j = Some s \<longrightarrow> source_ok s \<and> j < next_source srv"
    using ok c [where w = "media srv"] unfolding server_ok_def
    by (auto simp: regist_def split: option.splits) (blast+)?
  have "\<forall>k j. look_up (registry (snd (regist i (media srv)))) k = Some j \<longrightarrow> j < next_source srv"
    using ok live by (auto simp: regist_def server_ok_def look_up_put split: option.splits if_splits)
  then show ?thesis
    using w src ok infos_kept(1) [of i "media srv"] entries_regist [of "media srv" i]
    by (cases "regist i (media srv)") (auto simp: on_media_def server_ok_def)
qed

lemma regist_keeps [keeps]: "keeps_inv server_ok (on_media (regist i))"
  by (rule keeps_invI, rule regist_server_ok)

lemma same_registration_rtmp [simp]:
  "same_registration (\<lambda>s. s\<lparr>src_demuxer := dm\<rparr>)" "same_registration (\<lambda>s. s\<lparr>src_dispatcher := d\<rparr>)"
  "same_registration (\<lambda>s. s\<lparr>config_frames := f s\<rparr>)" "same_registration (update_track t1 t2 b n ts)"
  "same_registration (\<lambda>s. s\<lparr>src_demuxer := dm, meta_data := m, src_dispatcher := d\<rparr>)"
  by (simp_all add: same_registration_def update_track_def)

lemma source_ok_changes [simp]:
  "source_ok (s\<lparr>src_demuxer := dm\<rparr>) = source_ok s" "source_ok (update_track t1 t2 b n ts s) = source_ok s"
  by (simp_all add: source_ok_def update_track_def)

lemma distribute_packet_keeps [keeps]: "keeps_inv server_ok (distribute_packet cbs i pkt)"
proof (rule keeps_invI)
  fix srv :: "'a rtmp_server"
  assume ok: "server_ok srv"
  show "server_ok (snd (distribute_packet cbs i pkt srv))"
  proof (cases "res_bind (get_dispatcher i srv) (\<lambda>d. res_bind (is_video_keyframe pkt) (\<lambda>key. Inr (d, key)))")
    case (Inr dk)
    obtain d key where dk: "dk = (d, key)" by (cases dk)
    obtain r d' w where e: "distribute cbs pkt key (d, outside srv) = (r, (d', w))"
      by (metis surj_pair)
    obtain s where s: "sources (media srv) i = Some s" "src_dispatcher s = Some d"
      using Inr dk by (auto simp: res_bind_eq_Inr get_dispatcher_def the_source_def split: option.splits)
    then have "disp_ok d'"
      using ok distribute_ok_aux [OF _ e] by (auto simp: server_ok_def source_ok_def)
    then have "server_ok (set_source i (\<lambda>s. s\<lparr>src_dispatcher := Some d'\<rparr>) srv)"
      using ok by (intro set_source_ok) (simp_all add: source_ok_def)
    then show ?thesis
      using Inr dk e by (simp add: distribute_packet_def)
  qed (use ok in \<open>simp add: distribute_packet_def\<close>)
qed

lemma publish_packet_keeps:
  assumes "msg_type_id pkt = Some t" "t = MSG_AUDIO \<or> t = MSG_VIDEO"
  shows "keeps_inv server_ok (publish_packet cbs i pkt)"
proof -
  have "server_ok (set_source i (\<lambda>s. s\<lparr>config_frames := AList.update t pkt (config_frames s)\<rparr>) srv)"
    if "server_ok srv" for srv :: "'a rtmp_server"
    using that assms(2)
    by (intro set_source_ok) (simp_all add: source_ok_def distinct_update update_keys)
  then show ?thesis
    unfolding publish_packet_def by (intro keeps) (simp_all add: assms(1))
qed

lemma demuxer_type: "demuxer_input_rtmp pkt d = (r, (pkt', d')) \<Longrightarrow> msg_type_id pkt' = msg_type_id pkt"
  by (auto simp: demuxer_input_rtmp_def Let_def split: sum.splits prod.splits if_splits)

lemma process_av_packet_keeps: "keeps_inv server_ok (process_av_packet cbs t1 t2 i pkt)"
proof (rule keeps_invI)
  fix srv :: "'a rtmp_server"
  assume ok: "server_ok srv"
  show "server_ok (snd (process_av_packet cbs t1 t2 i pkt srv))"
  proof (cases "check_av_packet i pkt srv")
    case (Inr ts)
    obtain t s where t: "msg_type_id pkt = Some t" "t = MSG_AUDIO \<or> t = MSG_VIDEO" "ts = (t, s)"
      using Inr by (cases ts) (auto simp: check_av_packet_def res_bind_eq_Inr)
    obtain r pkt' dm where e: "demuxer_input_rtmp pkt (src_demuxer s) = (r, (pkt', dm))"
      by (metis surj_pair)
    have ok1: "server_ok (set_source i (\<lambda>s. s\<lparr>src_demuxer := dm\<rparr>) srv)"
      by (rule set_source_ok [OF ok]) simp_all
    have ok2: "server_ok (set_source i (update_track t1 t2 b n ts) (set_source i (\<lambda>s. s\<lparr>src_demuxer := dm\<rparr>) srv))" for b n ts
      by (rule set_source_ok [OF ok1]) simp_all
    have ty: "msg_type_id (snd (packet_size pkt')) = Some t"
      using demuxer_type [OF e] t(1) by (simp add: packet_size_def Let_def)
    show ?thesis
    proof (cases r)
      case (Inr u)
      obtain n q where q: "packet_size pkt' = (n, q)"
        by (cases "packet_size pkt'")
      show ?thesis
        using \<open>check_av_packet i pkt srv = Inr ts\<close> t e ok1 ok2 q Inr publish_packet_keeps [of q t cbs i] ty
        by (cases "time_stamp q") (auto simp: process_av_packet_def keeps_inv_def)
    qed (use Inr t e ok1 in \<open>auto simp: process_av_packet_def\<close>)
  qed (use ok in \<open>simp add: process_av_packet_def\<close>)
qed

lemma init_tracks_keeps: "keeps_inv server_ok (init_tracks cbs i session)"
proof (rule keeps_invI)
  fix srv :: "'a rtmp_server"
  assume ok: "server_ok srv"
  show "server_ok (snd (init_tracks cbs i session srv))"
  proof (cases "the_source i srv")
    case (Inr s)
    obtain r md dm where e: "init_tracks_with_metadata (metas srv session) (src_demuxer s) = (r, (md, dm))"
      by (metis surj_pair)
    let ?srv = "srv\<lparr>metas := (metas srv)(session := md)\<rparr>"
    have ok: "server_ok ?srv"
      using ok by (simp add: server_ok_def)
    have "server_ok (set_source i (\<lambda>s. s\<lparr>src_demuxer := dm\<rparr>) ?srv)"
      by (rule set_source_ok [OF ok]) simp_all
    moreover have "server_ok (set_source i (\<lambda>s. s\<lparr>src_demuxer := dm, meta_data := Some session,
        src_dispatcher := Some (create_dispatcher kMaxPacketCacheSize)\<rparr>) ?srv)"
      by (rule set_source_ok [OF ok]) (simp_all add: source_ok_def)
    ultimately show ?thesis
      using Inr e by (cases r) (simp_all add: init_tracks_def Let_def)
  qed (use ok in \<open>simp add: init_tracks_def\<close>)
qed

lemma create_source_keeps: "keeps_inv server_ok (create_source t0 t1 m)"
proof (rule keeps_invI)
  fix srv :: "'a rtmp_server"
  assume ok: "server_ok srv"
  let ?i = "next_source srv" and ?s = "new_rtmp_source t0 t1 m"
  show "server_ok (snd (create_source t0 t1 m srv))"
  proof (cases "infos (media srv) m")
    case (Some mi)
    have "world_ok ((media srv)\<lparr>sources := (sources (media srv))(?i \<mapsto> ?s)\<rparr>)"
    proof (rule new_source_ok)
      show "look_up (registry (media srv)) k \<noteq> Some ?i" for k
        using ok unfolding server_ok_def by blast
    qed (use ok Some in \<open>simp_all add: server_ok_def new_rtmp_source_def\<close>)
    moreover have "source_ok ?s"
      by (simp add: source_ok_def new_rtmp_source_def)
    moreover have "entries_own ((media srv)\<lparr>sources := (sources (media srv))(?i \<mapsto> ?s)\<rparr>)"
    proof (rule entries_create)
      show "look_up (registry (media srv)) k \<noteq> Some ?i" for k
        using ok unfolding server_ok_def by blast
    qed (use ok in \<open>simp add: server_ok_def\<close>)
    ultimately show ?thesis
      using ok by (auto simp: create_source_def server_ok_def Let_def less_Suc_eq split: sum.splits)
  qed (use ok in \<open>simp add: create_source_def\<close>)
qed

lemma sources_destroy: "sources (destroy i w) j = Some s \<Longrightarrow> sources w j = Some s"
  by (auto simp: destroy_def split: option.splits if_splits)

lemma destroy_source_ok:
  assumes "server_ok srv"
  shows "server_ok (destroy_source cbs i srv)"
proof -
  let ?w = "destroy i (media srv)"
  have "world_ok ?w" "entries_own ?w" "\<forall>j s. sources ?w j = Some s \<longrightarrow> source_ok s \<and> j < next_source srv"
    "\<forall>k j. look_up (registry ?w) k = Some j \<longrightarrow> j < next_source srv"
    using assms destroy_ok entries_destroy sources_destroy look_up_destroy unfolding server_ok_def by blast+
  then show ?thesis
    using assms by (cases "sources (media srv) i") (simp_all add: destroy_source_def server_ok_def)
qed

section \<open>What a packet does\<close>

lemma sources_set [simp]: "sources (media (set_source i f srv)) i = map_option f (sources (media srv) i)"
  by (simp add: set_source_def change_source_def)

lemma set_source_fields [simp]:
  "outside (set_source i f srv) = outside srv" "registry (media (set_source i f srv)) = registry (media srv)"
  "infos (media (set_source i f srv)) = infos (media srv)" "metas (set_source i f srv) = metas srv"
  by (simp_all add: set_source_def change_source_def)

lemma set_source_twice [simp]: "set_source i f (set_source i g srv) = set_source i (f \<circ> g) srv"
  by (simp add: set_source_def change_source_def option.map_comp)

text \<open>The message after the demuxer and after its size was taken.\<close>

definition handled :: "rtmp_packet \<Rightarrow> rtmp_packet" where
  "handled p = snd (packet_size (p\<lparr>pkt_buf := capture_snapshot (pkt_buf p)\<rparr>))"

lemma handled_fields [simp]:
  "msg_type_id (handled p) = msg_type_id p" "time_stamp (handled p) = time_stamp p"
  "payload (handled p) = payload p" "pkt_ok (handled p) = pkt_ok p"
  by (simp_all add: handled_def packet_size_def payload_def pkt_ok_def Let_def)

lemma peek_capture [simp]: "peek_uint8 (capture_snapshot b) = peek_uint8 b"
  "require_length_or_fail n (capture_snapshot b) = require_length_or_fail n b"
  "data_bytes i n (capture_snapshot b) = data_bytes i n b"
  by (simp_all add: peek_uint8_def require_length_or_fail_def data_bytes_def unread_length_def capture_snapshot_def)

lemma handled_buf: "pkt_buf (handled p) = capture_snapshot (pkt_buf p)"
  by (simp add: handled_def packet_size_def Let_def)

lemma handled_classified [simp]:
  "is_video_keyframe (handled p) = is_video_keyframe p" "get_av_codec_id (handled p) = get_av_codec_id p"
  "is_config_frame (handled p) = is_config_frame p"
proof -
  show key: "is_video_keyframe (handled p) = is_video_keyframe p"
    unfolding is_video_keyframe_def handled_buf handled_fields peek_capture ..
  show codec: "get_av_codec_id (handled p) = get_av_codec_id p"
    unfolding get_av_codec_id_def handled_buf handled_fields peek_capture ..
  show "is_config_frame (handled p) = is_config_frame p"
    unfolding is_config_frame_def key codec handled_buf handled_fields peek_capture ..
qed

lemma process_av_packet_eq:
  assumes "pkt_ok pkt" "msg_type_id pkt = Some t" "t = MSG_AUDIO \<or> t = MSG_VIDEO" "time_stamp pkt = Some ts"
    and "sources (media srv) i = Some s" "src_dispatcher s \<noteq> None"
    and "demuxer_input_rtmp pkt (src_demuxer s) = (Inr (), (pkt', dm))"
  shows "\<exists>n. process_av_packet cbs t1 t2 i pkt srv = publish_packet cbs i (handled pkt)
    (set_source i (\<lambda>s. update_track t1 t2 (t = MSG_VIDEO) n ts (s\<lparr>src_demuxer := dm\<rparr>)) srv)"
proof -
  have "check_av_packet i pkt srv = Inr (t, s)"
    using assms(2,3,5,6) by (auto simp: check_av_packet_def the_source_def)
  moreover obtain n where "packet_size pkt' = (n, handled pkt)"
    using demuxer_restores [OF assms(1,7)] by (simp add: handled_def packet_size_def Let_def)
  ultimately show ?thesis
    using assms(4,7) by (auto simp: process_av_packet_def comp_def)
qed

lemma distribute_packet_eq:
  assumes "sources (media srv) i = Some s" "src_dispatcher s = Some d" "is_video_keyframe pkt = Inr key"
    and "distribute cbs pkt key (d, outside srv) = (r, (d', w))"
  shows "distribute_packet cbs i pkt srv = (r, (set_source i (\<lambda>s. s\<lparr>src_dispatcher := Some d'\<rparr>) srv)\<lparr>outside := w\<rparr>)"
  using assms by (simp add: distribute_packet_def get_dispatcher_def the_source_def)

lemma publish_registered:
  assumes "sources (media srv) i = Some s" "is_registered s" "is_config_frame pkt = Inr config"
  shows "publish_packet cbs i pkt srv = distribute_packet cbs i pkt
    (set_source i (\<lambda>s. if config then s\<lparr>config_frames := AList.update (the (msg_type_id pkt)) pkt (config_frames s)\<rparr> else s) srv)"
proof -
  have "set_source i (\<lambda>s. s) srv = srv"
    by (cases "sources (media srv) i") (simp_all add: set_source_def change_source_def fun_upd_idem)
  then show ?thesis
    using assms by (cases config) (simp_all add: publish_packet_def the_source_def ebind_def)
qed

lemma publish_unregistered:
  assumes "sources (media srv) i = Some s" "\<not> is_registered s" "is_config_frame pkt = Inr config"
  shows "publish_packet cbs i pkt srv =
    (if config then (Inr (), set_source i (\<lambda>s. s\<lparr>config_frames := AList.update (the (msg_type_id pkt)) pkt (config_frames s)\<rparr>) srv)
     else ebind (on_media (regist i)) (\<lambda>_. distribute_packet cbs i pkt) srv)"
  using assms by (cases config) (simp_all add: publish_packet_def the_source_def ebind_def)

section \<open>From the publisher to the clients\<close>

definition tags_for :: "flv_client \<Rightarrow> rtmp_packet list \<Rightarrow> send_call list" where
  "tags_for c ps = concat (map (\<lambda>p. if wants (fc_alive c) (fc_start_pts c) p then packet_calls p else []) ps)"

lemma handled_tag [simp]: "packet_tag (handled p) = packet_tag p" "wants a s (handled p) = wants a s p"
  "flv_packet (handled p) = flv_packet p"
  by (simp_all add: packet_tag_def wants_def flv_packet_def)

lemma tags_after_handled: "tags_for c (packet_list (after_packet (handled p) b d)) = tags_for c (packet_list (after_packet p b d))"
  by (simp add: tags_for_def after_packet_def merge_clients_def cache_packet_def)

lemma packet_emits:
  assumes "disp_ok d" "all_read d" "flv_packet pkt" "\<forall>q \<in> set (packet_list d). flv_packet q"
  shows "\<exists>cs'. distribute flv_cbs pkt b (d, cs) = (Inr (), (after_packet pkt b d, cs'))
    \<and> (\<forall>r. fc_calls (cs' r) = fc_calls (cs r) @ (if r \<in> set (old_clients d) then tags_for (cs r) [pkt] else [])
        @ (if r \<in> set (new_clients d) then tags_for (cs r) (packet_list (after_packet pkt b d)) else []))"
proof -
  let ?who = "\<lambda>r. (fc_alive (cs r), fc_start_pts (cs r))"
  obtain cs' where cs': "distribute flv_cbs pkt b (d, cs) = (Inr (), (after_packet pkt b d, cs'))"
    "(\<lambda>r. fc_calls (cs' r)) = (\<lambda>r. fc_calls (cs r) @ (if r \<in> set (old_clients d) then
          (if wants (fst (?who r)) (snd (?who r)) pkt then packet_calls pkt else []) else [])
        @ (if r \<in> set (new_clients d) then concat (map (\<lambda>p. if wants (fst (?who r)) (snd (?who r)) p
            then packet_calls p else []) (packet_list (after_packet pkt b d))) else []))"
    using flv.distribute_emits [where who = ?who and w = cs and b = b, OF assms] by blast
  have "fc_calls (cs' r) = fc_calls (cs r) @ (if r \<in> set (old_clients d) then tags_for (cs r) [pkt] else [])
        @ (if r \<in> set (new_clients d) then tags_for (cs r) (packet_list (after_packet pkt b d)) else [])" for r
    using fun_cong [OF cs'(2), of r] by (simp add: tags_for_def)
  then show ?thesis
    using cs'(1) by blast
qed

section \<open>Properties\<close>

lemma packet_reaches_clients_aux:
  assumes "server_ok srv" "sources (media srv) i = Some s" "is_registered s" "src_dispatcher s = Some d" "all_read d"
    and "flv_packet pkt" "\<forall>q \<in> set (packet_list d). flv_packet q" "fst (demuxer_input_rtmp pkt (src_demuxer s)) = Inr ()"
    and "is_config_frame pkt = Inr config" "is_video_keyframe pkt = Inr key"
    and "msg_type_id pkt = Some MSG_AUDIO \<or> msg_type_id pkt = Some MSG_VIDEO"
  shows "\<exists>srv' s'. process_av_packet flv_cbs t1 t2 i pkt srv = (Inr (), srv')
    \<and> (\<forall>r. fc_calls (outside srv' r) = fc_calls (outside srv r)
        @ (if r \<in> set (old_clients d) then tags_for (outside srv r) [pkt] else [])
        @ (if r \<in> set (new_clients d) then tags_for (outside srv r) (packet_list (after_packet pkt key d)) else []))
    \<and> sources (media srv') i = Some s' \<and> src_dispatcher s' = Some (after_packet (handled pkt) key d)
    \<and> (config \<longrightarrow> map_of (config_frames s') (the (msg_type_id pkt)) = Some (handled pkt))"
proof -
  obtain t ts pkt' dm where p: "pkt_ok pkt" "msg_type_id pkt = Some t" "t = MSG_AUDIO \<or> t = MSG_VIDEO" "time_stamp pkt = Some ts"
    "demuxer_input_rtmp pkt (src_demuxer s) = (Inr (), (pkt', dm))"
    using assms(6,8,11) by (cases "demuxer_input_rtmp pkt (src_demuxer s)") (auto simp: flv_packet_def)
  have sd: "src_dispatcher s \<noteq> None"
    using assms(4) by simp
  obtain n where eq: "process_av_packet flv_cbs t1 t2 i pkt srv = publish_packet flv_cbs i (handled pkt)
      (set_source i (\<lambda>s. update_track t1 t2 (t = MSG_VIDEO) n ts (s\<lparr>src_demuxer := dm\<rparr>)) srv)"
    using process_av_packet_eq [OF p(1-4) assms(2) sd p(5), of flv_cbs t1 t2] by blast
  let ?s1 = "update_track t1 t2 (t = MSG_VIDEO) n ts (s\<lparr>src_demuxer := dm\<rparr>)"
  let ?srv1 = "set_source i (\<lambda>s. update_track t1 t2 (t = MSG_VIDEO) n ts (s\<lparr>src_demuxer := dm\<rparr>)) srv"
  let ?f = "\<lambda>s :: rtmp_source. if config then s\<lparr>config_frames := AList.update (the (msg_type_id (handled pkt))) (handled pkt) (config_frames s)\<rparr> else s"
  have s1: "sources (media ?srv1) i = Some ?s1" "is_registered ?s1" "src_dispatcher (?f ?s1) = Some d"
    using assms(2-4) by (simp_all add: update_track_def)
  have d: "disp_ok d"
    using assms(1,2,4) by (auto simp: server_ok_def source_ok_def)
  obtain cs' where cs': "distribute flv_cbs (handled pkt) key (d, outside srv) = (Inr (), (after_packet (handled pkt) key d, cs'))"
    "\<forall>r. fc_calls (cs' r) = fc_calls (outside srv r) @ (if r \<in> set (old_clients d) then tags_for (outside srv r) [handled pkt] else [])
        @ (if r \<in> set (new_clients d) then tags_for (outside srv r) (packet_list (after_packet (handled pkt) key d)) else [])"
    using packet_emits [OF d assms(5) _ assms(7), of "handled pkt" key "outside srv"] assms(6) by auto
  let ?srv2 = "(set_source i (\<lambda>s. s\<lparr>src_dispatcher := Some (after_packet (handled pkt) key d)\<rparr>) (set_source i ?f ?srv1))\<lparr>outside := cs'\<rparr>"
  let ?s2 = "(?f ?s1)\<lparr>src_dispatcher := Some (after_packet (handled pkt) key d)\<rparr>"
  have run: "process_av_packet flv_cbs t1 t2 i pkt srv = (Inr (), ?srv2)"
    unfolding eq
    by (subst publish_registered [OF s1(1,2), of _ config], use assms(9) in simp,
        rule distribute_packet_eq [where d = d and s = "?f ?s1" and key = key])
      (use s1 assms(2,10) cs'(1) in simp_all)
  have src: "sources (media ?srv2) i = Some ?s2"
    using assms(2) by simp
  have conf: "config \<longrightarrow> map_of (config_frames ?s2) (the (msg_type_id pkt)) = Some (handled pkt)"
    by (simp add: update_conv')
  have outs: "\<forall>r. fc_calls (outside ?srv2 r) = fc_calls (outside srv r)
        @ (if r \<in> set (old_clients d) then tags_for (outside srv r) [pkt] else [])
        @ (if r \<in> set (new_clients d) then tags_for (outside srv r) (packet_list (after_packet pkt key d)) else [])"
    using cs'(2) by (simp add: tags_after_handled) (simp add: tags_for_def)
  show ?thesis
    by (rule exI [of _ ?srv2], rule exI [of _ ?s2]) (use run src conf outs in \<open>simp del: sources_set\<close>)
qed

text \<open>C32: a packet of a published stream is sent to every client. If the demuxer takes the packet and the source is
  registered, \<open>process_av_packet\<close> returns. On the connection of every client that was served before, the three calls of
  \<open>send\<close> for an FLV tag with the packet's type, full time and unchanged payload are made, for a client that has
  just registered those of the cache, which ends with this packet, and no other connection is touched.
  Packets before a client's start time are left out, and the cache is the old one with the packet put in.
  The statement is about the calls, in their order; whether the asynchronous writes deliver is not modelled.\<close>

theorem packet_reaches_clients:
  assumes "server_ok srv" "sources (media srv) i = Some s" "is_registered s" "src_dispatcher s = Some d" "all_read d"
    and "flv_packet pkt" "\<forall>q \<in> set (packet_list d). flv_packet q" "fst (demuxer_input_rtmp pkt (src_demuxer s)) = Inr ()"
    and "is_config_frame pkt = Inr config" "is_video_keyframe pkt = Inr key"
    and "msg_type_id pkt = Some MSG_AUDIO \<or> msg_type_id pkt = Some MSG_VIDEO"
  shows "\<exists>srv' s'. process_av_packet flv_cbs t1 t2 i pkt srv = (Inr (), srv')
    \<and> (\<forall>r. fc_calls (outside srv' r) = fc_calls (outside srv r)
        @ (if r \<in> set (old_clients d) then tags_for (outside srv r) [pkt] else [])
        @ (if r \<in> set (new_clients d) then tags_for (outside srv r) (packet_list (after_packet pkt key d)) else []))
    \<and> sources (media srv') i = Some s' \<and> src_dispatcher s' = Some (after_packet (handled pkt) key d)
    \<and> (config \<longrightarrow> map_of (config_frames s') (the (msg_type_id pkt)) = Some (handled pkt))"
  by (rule packet_reaches_clients_aux [OF assms])

lemma first_packet_registers_aux:
  assumes "sources (media srv) i = Some s" "\<not> is_registered s" "src_dispatcher s \<noteq> None"
    and "pkt_ok pkt" "msg_type_id pkt = Some t" "t = MSG_AUDIO \<or> t = MSG_VIDEO" "time_stamp pkt = Some ts"
    and "fst (demuxer_input_rtmp pkt (src_demuxer s)) = Inr ()" "is_config_frame pkt = Inr config"
    and "key_of (media srv) i = Some k" "process_av_packet cbs t1 t2 i pkt srv = (r, srv')"
  shows "if config then r = Inr () \<and> registry (media srv') = registry (media srv) \<and> outside srv' = outside srv
      \<and> (\<exists>s'. sources (media srv') i = Some s' \<and> \<not> is_registered s' \<and> map_of (config_frames s') t = Some (handled pkt))
    else if \<exists>j. look_up (registry (media srv)) k = Some j \<and> live (media srv) j \<and> j \<noteq> i
      then r = Inl (Runtime_error ''another client is trying to push source'') \<and> outside srv' = outside srv
        \<and> registry (media srv') = registry (media srv)
    else look_up (registry (media srv')) k = Some i"
proof -
  obtain pkt' dm where p: "demuxer_input_rtmp pkt (src_demuxer s) = (Inr (), (pkt', dm))"
    using assms(8) by (cases "demuxer_input_rtmp pkt (src_demuxer s)") auto
  obtain n where eq: "process_av_packet cbs t1 t2 i pkt srv = publish_packet cbs i (handled pkt)
      (set_source i (\<lambda>s. update_track t1 t2 (t = MSG_VIDEO) n ts (s\<lparr>src_demuxer := dm\<rparr>)) srv)"
    using process_av_packet_eq [OF assms(4-7,1,3) p, of cbs t1 t2] by blast
  let ?g = "\<lambda>s. update_track t1 t2 (t = MSG_VIDEO) n ts (s\<lparr>src_demuxer := dm\<rparr>)"
  let ?srv1 = "set_source i ?g srv"
  have s1: "sources (media ?srv1) i = Some (?g s)" "\<not> is_registered (?g s)"
    using assms(1,2) by (simp_all add: update_track_def)
  have k1: "key_of (media ?srv1) i = Some k"
    using assms(10) by (auto simp: key_of_def update_track_def split: option.splits)
  have l1: "live (media ?srv1) j = live (media srv) j" for j
    by (auto simp: live_def set_source_def change_source_def)
  have run: "(r, srv') = (if config then (Inr (), set_source i (\<lambda>s. s\<lparr>config_frames := AList.update t (handled pkt) (config_frames s)\<rparr>) ?srv1)
     else ebind (on_media (regist i)) (\<lambda>_. distribute_packet cbs i (handled pkt)) ?srv1)"
    using publish_unregistered [OF s1, of "handled pkt" config cbs] assms(5,9,11) unfolding eq by simp
  show ?thesis
  proof (cases config)
    case True
    then show ?thesis
      using run assms(1,2) by (auto simp: update_track_def update_conv')
  next
    case False
    show ?thesis
    proof (cases "\<exists>j. look_up (registry (media srv)) k = Some j \<and> live (media srv) j \<and> j \<noteq> i")
      case True
      then obtain j where j: "look_up (registry (media srv)) k = Some j" "live (media srv) j" "j \<noteq> i"
        by blast
      have "regist i (media ?srv1) = (Inl (Runtime_error ''another client is trying to push source''), cache_info i (media ?srv1))"
        using j l1 k1 by (simp add: regist_def)
      then show ?thesis
        using run False True by (simp add: ebind_def on_media_def)
    next
      case other: False
      have "look_up (registry (snd (regist i (media ?srv1)))) k = Some i" "fst (regist i (media ?srv1)) = Inr ()"
        using other l1 k1 assms(1)
        by (cases "look_up (registry (media srv)) k"; auto simp: regist_def look_up_put split: if_splits)+
      then obtain b where b: "regist i (media ?srv1) = (Inr (), b)" "look_up (registry b) k = Some i"
        by (cases "regist i (media ?srv1)") auto
      have "(r, srv') = distribute_packet cbs i (handled pkt) (?srv1\<lparr>media := b\<rparr>)"
        using run False b(1) by (simp add: ebind_def on_media_def)
      then have "registry (media srv') = registry b"
        by (auto simp: distribute_packet_def split: sum.splits prod.splits)
      then have "look_up (registry (media srv')) k = Some i"
        using b(2) by simp
      then show ?thesis
        using False other by auto
    qed
  qed
qed

text \<open>When a source registers. The first packets of a publisher that are configuration are only kept
  for clients to come; nothing is registered and nothing is sent. The first other packet registers the
  source, so that it is found under its stream from then on, whatever the callbacks do with the packet;
  if another live source holds the stream, the packet is refused and no client sees it.\<close>

theorem first_packet_registers:
  assumes "sources (media srv) i = Some s" "\<not> is_registered s" "src_dispatcher s \<noteq> None"
    and "pkt_ok pkt" "msg_type_id pkt = Some t" "t = MSG_AUDIO \<or> t = MSG_VIDEO" "time_stamp pkt = Some ts"
    and "fst (demuxer_input_rtmp pkt (src_demuxer s)) = Inr ()" "is_config_frame pkt = Inr config"
    and "key_of (media srv) i = Some k" "process_av_packet cbs t1 t2 i pkt srv = (r, srv')"
  shows "if config then r = Inr () \<and> registry (media srv') = registry (media srv) \<and> outside srv' = outside srv
      \<and> (\<exists>s'. sources (media srv') i = Some s' \<and> \<not> is_registered s' \<and> map_of (config_frames s') t = Some (handled pkt))
    else if \<exists>j. look_up (registry (media srv)) k = Some j \<and> live (media srv) j \<and> j \<noteq> i
      then r = Inl (Runtime_error ''another client is trying to push source'') \<and> outside srv' = outside srv
        \<and> registry (media srv') = registry (media srv)
    else look_up (registry (media srv')) k = Some i"
  using first_packet_registers_aux [OF assms] .

definition sample_reader :: client_reader where
  "sample_reader = \<lparr>cr_id = ''Client'', cr_registered = True, has_read_cb = True, has_detach_cb = True\<rparr>"

definition sample_dispatcher :: "rtmp_packet dispatcher" where
  "sample_dispatcher = merge_clients (regist_reader 7 sample_reader (create_dispatcher kMaxPacketCacheSize))"

definition sample_rtmp :: "bool \<Rightarrow> rtmp_source" where
  "sample_rtmp b = (new_rtmp_source 0 0 0)\<lparr>is_registered := b, src_dispatcher := Some sample_dispatcher\<rparr>"

definition sample_server :: "bool \<Rightarrow> flv_clients rtmp_server" where
  "sample_server b = \<lparr>media = \<lparr>registry = (if b then put_source sample_key 5 [] else []), infos = [0 \<mapsto> sample_info],
       sources = [5 \<mapsto> sample_rtmp b]\<rparr>, next_source = 6, next_info = 1, source_refs = (\<lambda>_. 1), clock_at = (\<lambda>_. 0), clock_reads = 0, metas = (\<lambda>_. None),
     outside = (\<lambda>_. \<lparr>fc_calls = [], fc_alive = True, fc_start_pts = 0, fc_shut_down = False\<rparr>)\<rparr>"

definition sample_audio :: rtmp_packet where
  "sample_audio = create_packet\<lparr>msg_type_id := Some 8, time_stamp := Some 40, pkt_buf := buf_write [0xAF, 1, 2] (create 8)\<rparr>"

lemma sample_dispatcher: "disp_ok sample_dispatcher" "all_read sample_dispatcher" "old_clients sample_dispatcher = [7]"
    "new_clients sample_dispatcher = []" "packet_list sample_dispatcher = []"
  by (simp_all add: sample_dispatcher_def)
    (simp_all add: all_read_def merge_clients_def regist_reader_def create_dispatcher_def insort_insert_key_def sample_reader_def)

lemma sample_server_ok: "server_ok (sample_server True)"
proof -
  have "world_ok (media (sample_server True))"
    by (auto simp: world_ok_def sample_server_def agrees_def objs_of_def look_up_put sample_rtmp_def new_rtmp_source_def
        sample_info_def media_key_def sample_key_def create_media_info_def split: if_splits option.splits intro!: no_empty_put)
      (simp_all add: no_empty_maps_def look_up_def at_key_def)
  moreover have "entries_own (media (sample_server True))"
    by (auto simp: entries_own_def sample_server_def look_up_put live_def key_of_def sample_rtmp_def new_rtmp_source_def
        sample_info_def media_key_def sample_key_def create_media_info_def split: if_splits)
      (simp_all add: look_up_def at_key_def)
  ultimately show ?thesis
    using sample_dispatcher
    by (auto simp: server_ok_def sample_server_def look_up_put source_ok_def sample_rtmp_def new_rtmp_source_def
        split: if_splits) (simp add: look_up_def at_key_def)
qed

lemma sample_audio: "flv_packet sample_audio" "pkt_ok sample_audio" "payload sample_audio = [0xAF, 1, 2]"
    "msg_type_id sample_audio = Some MSG_AUDIO" "time_stamp sample_audio = Some 40"
    "is_config_frame sample_audio = Inr False" "is_video_keyframe sample_audio = Inr False"
    "fst (demuxer_input_rtmp sample_audio (src_demuxer (sample_rtmp b))) = Inr ()"
proof -
  show p: "pkt_ok sample_audio" "payload sample_audio = [0xAF, 1, 2]" "msg_type_id sample_audio = Some MSG_AUDIO"
    "time_stamp sample_audio = Some 40"
    by (simp_all add: sample_audio_def pkt_ok_def payload_def msg_defs)
  then show "flv_packet sample_audio"
    by (simp add: flv_packet_def tag_fits_def packet_tag_def)
  show "is_config_frame sample_audio = Inr False"
    using is_config_frame_audio [OF p(1,3,2)] by (simp add: spec_audio_config_def)
  show "is_video_keyframe sample_audio = Inr False"
    using p(3) by (simp add: is_video_keyframe_def msg_defs)
  show "fst (demuxer_input_rtmp sample_audio (src_demuxer (sample_rtmp b))) = Inr ()"
    using p(3) by (simp add: demuxer_input_rtmp_def sample_rtmp_def new_rtmp_source_def set_muxer_def new_demuxer_def Let_def)
qed

theorem packet_reaches_clients_witness:
  "\<exists>srv'. process_av_packet flv_cbs 0 0 5 sample_audio (sample_server True) = (Inr (), srv')
    \<and> fc_calls (outside srv' 7) = tag_calls Packet_Buffer (8, 40, [0xAF, 1, 2])"
proof -
  have s: "sources (media (sample_server True)) 5 = Some (sample_rtmp True)" "is_registered (sample_rtmp True)"
    "src_dispatcher (sample_rtmp True) = Some sample_dispatcher"
    by (simp_all add: sample_server_def sample_rtmp_def)
  show ?thesis
    using packet_reaches_clients [OF sample_server_ok s sample_dispatcher(2) sample_audio(1) _ sample_audio(8,6,7), of 0 0]
      sample_audio(3-5) sample_dispatcher
    by (auto simp: tags_for_def packet_tag_def sample_server_def wants_def msg_defs)
qed

theorem first_packet_registers_witness:
  "look_up (registry (media (snd (process_av_packet flv_cbs 0 0 5 sample_audio (sample_server False))))) sample_key = Some 5"
proof -
  have s: "sources (media (sample_server False)) 5 = Some (sample_rtmp False)" "\<not> is_registered (sample_rtmp False)"
    "src_dispatcher (sample_rtmp False) \<noteq> None" "key_of (media (sample_server False)) 5 = Some sample_key"
    "look_up (registry (media (sample_server False))) sample_key = None"
    by (simp_all add: sample_server_def sample_rtmp_def key_of_def new_rtmp_source_def sample_info_def media_key_def
        sample_key_def create_media_info_def look_up_def at_key_def)
  obtain r srv' where "process_av_packet flv_cbs 0 0 5 sample_audio (sample_server False) = (r, srv')"
    by (metis surj_pair)
  then show ?thesis
    using first_packet_registers [OF s(1-3) sample_audio(2,4) _ sample_audio(5,8,6) s(4)] s(5) by simp
qed

text \<open>The server stays well formed under every operation of its sources, whether it returns or throws and
  whatever the callbacks do: registry and sources agree, every dispatcher is well formed, a source has
  at most one configuration per track, and no address is given out twice.\<close>

theorem source_operations_invariant:
  assumes "server_ok srv"
  shows "server_ok (snd (create_source t0 t1 m srv)) \<and> server_ok (snd (init_tracks cbs i session srv))
    \<and> server_ok (snd (process_av_packet cbs t1 t2 i pkt srv)) \<and> server_ok (destroy_source cbs i srv)"
  using assms
  by (intro conjI keeps_inv_snd [where P = server_ok] create_source_keeps init_tracks_keeps process_av_packet_keeps
      destroy_source_ok)

theorem source_operations_invariant_witness:
  "server_ok (snd (process_av_packet flv_cbs 0 0 5 sample_audio (sample_server True)))"
  using source_operations_invariant [OF sample_server_ok, where cbs = flv_cbs and i = 5 and pkt = sample_audio] by blast

end
