(* ===== verification/Rtmp_Protocol.thy ===== *)
theory Rtmp_Protocol
  imports Rtmp_Message Rtmp_Media_Source
begin

text \<open>
  The rest of \<open>src/protocol/rtmp/rtmp_protocol.cpp\<close>: the handshake, the commands of a
  publisher, its metadata and its audio and video messages. The state of an operation is the
  connection (\<open>rtmp_protocol\<close>, which extends the state of the chunk layer) and the server.
  Log output is left out, except that it makes \<open>info()\<close> compose its text.
\<close>

section \<open>State\<close>

datatype next_step = No_step | C0C1 | C2 | Split

text \<open>
  The shared pointers to the media information and to the source are addresses; the ownership
  token is the address of the source it was given out for. \<open>session\<close> is the address
  under which the server finds the session's metadata.
\<close>

record rtmp_protocol = chunk_state +
  next_step_func :: next_step
  transaction_id :: double
  proto_info :: "nat option"
  rtmp_source_ptr :: "nat option"
  src_ownership :: "nat option"
  session :: nat

type_synonym 'w rtmp_conn = "rtmp_protocol \<times> 'w rtmp_server"

definition new_rtmp_protocol :: "nat \<Rightarrow> rtmp_protocol" where
  "new_rtmp_protocol s = \<lparr>chunk_stream_id = 0, msg_stream_id = 0, chunk_size_in = kDefaultChunkLength,
     chunk_size_out = kDefaultChunkLength, chunked_data_map = (\<lambda>_. (None, None)), bytes_sent = 0, bytes_sent_last = 0,
     bytes_recv = 0, bytes_recv_last = 0, windows_size = 0, sent = [], next_step_func = C0C1, transaction_id = 0,
     proto_info = None, rtmp_source_ptr = None, src_ownership = None, session = s\<rparr>"

definition on_server :: "('w rtmp_server, 'a) eff \<Rightarrow> ('w rtmp_conn, 'a) eff" where
  "on_server m = (\<lambda>(p, srv). let (r, srv) = m srv in (r, (p, srv)))"

definition on_protocol :: "(rtmp_protocol \<Rightarrow> rtmp_protocol) \<Rightarrow> ('w rtmp_conn, unit) eff" where
  "on_protocol f = emodify (\<lambda>(p, srv). (f p, srv))"

definition reading :: "(rtmp_protocol \<Rightarrow> 'a) \<Rightarrow> ('w rtmp_conn, 'a) eff" where
  "reading f = (\<lambda>(p, srv). (Inr (f p), (p, srv)))"

text \<open>A setter of the media information at an address.\<close>

definition change_info :: "nat \<Rightarrow> (media_info \<Rightarrow> media_info res) \<Rightarrow> ('w rtmp_server, unit) eff" where
  "change_info a f = (\<lambda>srv. case infos (media srv) a of
     None \<Rightarrow> (Inl (Undefined ''no such media info''), srv)
   | Some m \<Rightarrow> (case f m of
       Inl e \<Rightarrow> (Inl e, srv)
     | Inr m \<Rightarrow> (Inr (), srv\<lparr>media := (media srv)\<lparr>infos := (infos (media srv))(a \<mapsto> m)\<rparr>\<rparr>)))"

section \<open>Commands\<close>

text \<open>A string value built from a literal, and an object with such values.\<close>

definition set_all :: "(string \<times> amf_value) list \<Rightarrow> amf_value \<Rightarrow> amf_value res" where
  "set_all kvs v = fold (\<lambda>(k, x) r. res_bind r (amf_set k x)) kvs (Inr v)"

definition send_cmd :: "bytes \<Rightarrow> ('w rtmp_conn, unit) eff" where
  "send_cmd data = on_chunk_state (\<lambda>c. send_rtmp MSG_CMD (msg_stream_id c) data 0 CHUNK_CLIENT_REQUEST_BEFORE c)"

definition connect_reply :: "double \<Rightarrow> bytes res" where
  "connect_reply tid =
     res_bind (set_all [(''fmsVer'', amf_of_cstr ''FMS/3,0,1,123''), (''capabilities'', amf_of_double (int_to_double 31))]
       (amf_of_type AMF_OBJECT)) (\<lambda>version.
     res_bind (set_all [(''level'', amf_of_cstr ''status''), (''code'', amf_of_cstr ''NetConnection.Connect.Success''),
         (''description'', amf_of_cstr ''Connection succeeded'')] (amf_of_type AMF_OBJECT)) (\<lambda>status.
     res_bind (put_value version (put_double tid (put_cstr ''_result'' []))) (\<lambda>b. put_value status b)))"

definition new_info :: "('w rtmp_conn, nat) eff" where
  "new_info = ebind (on_server tick) (\<lambda>now. \<lambda>(p, srv). let a = next_info srv in
     (Inr a, (p\<lparr>proto_info := Some a\<rparr>, srv\<lparr>next_info := a + 1,
        media := (media srv)\<lparr>infos := (infos (media srv))(a \<mapsto> create_media_info now kRTMP_SCHEMA)\<rparr>\<rparr>)))"

definition set_param :: "nat \<Rightarrow> amf_value \<Rightarrow> string \<Rightarrow> (string \<Rightarrow> media_info \<Rightarrow> media_info res) \<Rightarrow> ('w rtmp_server, unit) eff" where
  "set_param a params key setter = ebind (elift (res_bind (amf_index params key) as_string)) (\<lambda>s. change_info a (setter s))"

definition connect_info :: "amf_value \<Rightarrow> ('w rtmp_conn, unit) eff" where
  "connect_info params = ebind new_info (\<lambda>a.
     on_server (ebind (set_param a params ''app'' set_app) (\<lambda>_. set_param a params ''tcUrl'' set_tc_url)))"

definition on_amf_connect :: "decoder \<Rightarrow> ('w rtmp_conn, unit) eff" where
  "on_amf_connect dec =
     ebind (elift (load_object dec)) (\<lambda>(params, dec).
     ebind (connect_info params) (\<lambda>_.
     ebind (reading transaction_id) (\<lambda>tid.
     ebind (elift (connect_reply tid)) (\<lambda>data.
     ebind (send_cmd data) (\<lambda>_.
     send_cmd (put_null (put_double 0 (put_cstr ''onBWDone'' []))))))))"

definition on_amf_createStream :: "('w rtmp_conn, unit) eff" where
  "on_amf_createStream = ebind (reading transaction_id) (\<lambda>tid.
     send_cmd (put_double 0 (put_null (put_double tid (put_cstr ''_result'' [])))))"

subsection \<open>publish\<close>

definition info_of :: "nat \<Rightarrow> ('w rtmp_server, string) eff" where
  "info_of a = (\<lambda>srv. case infos (media srv) a of
     None \<Rightarrow> (Inl (Undefined ''no such media info''), srv)
   | Some m \<Rightarrow> let (s, m) = info m in (Inr s, srv\<lparr>media := (media srv)\<lparr>infos := (infos (media srv))(a \<mapsto> m)\<rparr>\<rparr>))"

definition find_stream :: "nat \<Rightarrow> ('w rtmp_server, nat option \<times> bool) eff" where
  "find_stream a = (\<lambda>srv. case infos (media srv) a of
     None \<Rightarrow> (Inl (Undefined ''no such media info''), srv)
   | Some m \<Rightarrow> (find_source (media_key m) (media srv), srv))"

text \<open>Assigning \<open>src_ownership_\<close> and \<open>rtmp_source_\<close>: what they held is given up afterwards.\<close>

definition assign_ownership :: "nat option \<Rightarrow> ('w rtmp_conn, unit) eff" where
  "assign_ownership token = emodify (\<lambda>(p, srv). (p\<lparr>src_ownership := token\<rparr>,
     case src_ownership p of None \<Rightarrow> srv | Some i \<Rightarrow> srv\<lparr>media := release_ownership i (media srv)\<rparr>))"

definition assign_source :: "(rtmp_packet, 'w) reader_cbs \<Rightarrow> nat \<Rightarrow> ('w rtmp_conn, unit) eff" where
  "assign_source cbs i = emodify (\<lambda>(p, srv). (p\<lparr>rtmp_source_ptr := Some i\<rparr>,
     let srv = hold_source i srv
     in case rtmp_source_ptr p of None \<Rightarrow> srv | Some j \<Rightarrow> drop_source cbs j srv))"

definition lost_ownership :: "nat \<Rightarrow> ('w rtmp_conn, unit) eff" where
  "lost_ownership a = ebind (on_server (info_of a)) (\<lambda>text. ethrow (Runtime_error (''cannot get ownership of '' @ text)))"

text \<open>The stream has no source: one is made, and destroyed again if it cannot be owned.\<close>

definition publish_new :: "(rtmp_packet, 'w) reader_cbs \<Rightarrow> nat \<Rightarrow> bool \<Rightarrow> ('w rtmp_conn, unit) eff" where
  "publish_new cbs a has_created =
     ebind (if has_created then ebind (on_server (info_of a)) (\<lambda>_. eret ()) else eret ()) (\<lambda>_.
     ebind (on_server tick) (\<lambda>t0.
     ebind (on_server tick) (\<lambda>t1.
     ebind (on_server (create_source t0 t1 a)) (\<lambda>i.
     ebind (on_server (on_media (get_ownership i))) (\<lambda>got.
     ebind (assign_ownership (if got then Some i else None)) (\<lambda>_.
     if got then assign_source cbs i
     else etry (lost_ownership a) (\<lambda>e. ebind (on_server (emodify (destroy_source cbs i))) (\<lambda>_. ethrow e))))))))"

text \<open>The stream has a source: the session gives up what it owns and asks for that source.\<close>

definition publish_again :: "(rtmp_packet, 'w) reader_cbs \<Rightarrow> nat \<Rightarrow> nat \<Rightarrow> ('w rtmp_conn, unit) eff" where
  "publish_again cbs a i =
     ebind (on_server (info_of a)) (\<lambda>_.
     ebind (assign_ownership None) (\<lambda>_.
     ebind (on_server (on_media (get_ownership i))) (\<lambda>got.
     ebind (assign_ownership (if got then Some i else None)) (\<lambda>_.
     if got then assign_source cbs i else lost_ownership a))))"

definition status_reply :: "double \<Rightarrow> (string \<times> amf_value) list \<Rightarrow> bytes res" where
  "status_reply tid kvs = res_bind (set_all kvs (amf_of_type AMF_OBJECT)) (\<lambda>status.
     put_value status (put_null (put_double tid (put_cstr ''onStatus'' []))))"

definition send_status :: "(string \<times> amf_value) list \<Rightarrow> ('w rtmp_conn, unit) eff" where
  "send_status kvs = ebind (reading transaction_id) (\<lambda>tid. ebind (elift (status_reply tid kvs)) send_cmd)"

text \<open>\<open>throw ex\<close> throws a copy of the base class.\<close>

definition publish_failed :: "exn \<Rightarrow> ('w rtmp_conn, unit) eff" where
  "publish_failed ex = ebind (send_status [(''level'', amf_of_cstr ''error''), (''code'', amf_of_cstr ''NetStream.Publish.BadName''),
       (''description'', amf_of_cstr (c_str (what ex))), (''clientid'', amf_of_cstr ''0'')])
     (\<lambda>_. ethrow Std_exception)"

definition publish_started :: "('w rtmp_conn, unit) eff" where
  "publish_started = send_status [(''level'', amf_of_cstr ''status''), (''code'', amf_of_cstr ''NetStream.Publish.Start''),
     (''description'', amf_of_cstr ''Start publishing''), (''clientid'', amf_of_cstr ''0'')]"

definition publish_stream :: "(rtmp_packet, 'w) reader_cbs \<Rightarrow> nat \<Rightarrow> string \<Rightarrow> ('w rtmp_conn, unit) eff" where
  "publish_stream cbs a name =
     ebind (on_server (change_info a (parse_stream name))) (\<lambda>_.
     ebind (on_server (find_stream a)) (\<lambda>(src, has_created).
     ebind (etry (case src of None \<Rightarrow> publish_new cbs a has_created | Some i \<Rightarrow> publish_again cbs a i) publish_failed) (\<lambda>_.
     publish_started)))"

definition on_amf_publish :: "(rtmp_packet, 'w) reader_cbs \<Rightarrow> decoder \<Rightarrow> ('w rtmp_conn, unit) eff" where
  "on_amf_publish cbs dec =
     ebind (elift (pop_front dec)) (\<lambda>(t, dec).
     if amf0_code AMF_NULL \<noteq> t then ethrow (Runtime_error ''publish cmd expects NULL'')
     else ebind (elift (load_string dec)) (\<lambda>(name, dec).
     ebind (reading proto_info) (\<lambda>info_ptr. case info_ptr of
       None \<Rightarrow> ethrow (Undefined ''null media info'')
     | Some a \<Rightarrow> publish_stream cbs a name)))"

text \<open>A command that is not in the table is ignored.\<close>

definition on_process_cmd :: "(rtmp_packet, 'w) reader_cbs \<Rightarrow> decoder \<Rightarrow> ('w rtmp_conn, unit) eff" where
  "on_process_cmd cbs dec =
     ebind (elift (load_string dec)) (\<lambda>(cmd, dec).
     if cmd \<notin> {''connect'', ''createStream'', ''publish''} then eret ()
     else ebind (elift (load_double dec)) (\<lambda>(tid, dec).
     ebind (on_protocol (\<lambda>p. p\<lparr>transaction_id := tid\<rparr>)) (\<lambda>_.
     if cmd = ''connect'' then on_amf_connect dec
     else if cmd = ''createStream'' then on_amf_createStream
     else on_amf_publish cbs dec)))"

section \<open>Metadata\<close>

text \<open>\<open>emplace\<close> keeps the value that is already there.\<close>

definition meta_emplace :: "string \<Rightarrow> any_value \<Rightarrow> metadata \<Rightarrow> metadata" where
  "meta_emplace k v m = (if map_of m k = None then m @ [(k, v)] else m)"

text \<open>A value of another type is left in the buffer, and the value of the round before is stored.\<close>

definition load_any :: "any_value \<Rightarrow> decoder \<Rightarrow> (any_value \<times> decoder) res" where
  "load_any value dec = res_bind (peek_front dec) (\<lambda>t.
     if amf0_code AMF_NUMBER = t then res_bind (load_double dec) (\<lambda>(x, dec). Inr (AnyDouble x, dec))
     else if amf0_code AMF_BOOLEAN = t then res_bind (load_bool dec) (\<lambda>(x, dec). Inr (AnyBool x, dec))
     else if amf0_code AMF_STRING = t then res_bind (load_string dec) (\<lambda>(x, dec). Inr (AnyString x, dec))
     else Inr (value, dec))"

lemma load_bool_length: "load_bool d = Inr (x, d') \<Longrightarrow> d_len d' + 2 = d_len d"
  by (auto simp: load_bool_def res_bind_eq_Inr dest!: pop_front_length split: if_splits)

lemma read_u64_length: "read_u64 d = Inr (x, d') \<Longrightarrow> d_len d' \<le> d_len d"
  by (auto simp: read_u64_def read_uint64_def peek_uint64_def unread_bytes_def d_len_def res_bind_eq_Inr
      consume_or_fail_def unread_length_def split: if_splits)

lemma load_double_length: "load_double d = Inr (x, d') \<Longrightarrow> d_len d' \<le> d_len d"
  by (auto simp: load_double_def res_bind_eq_Inr dest!: pop_front_length read_u64_length split: if_splits)

lemma load_any_length: "load_any v d = Inr (v', d') \<Longrightarrow> d_len d' \<le> d_len d"
  by (auto simp: load_any_def res_bind_eq_Inr dest!: load_double_length load_bool_length load_string_length split: if_splits)

function load_metadata :: "any_value \<Rightarrow> decoder \<Rightarrow> metadata \<Rightarrow> decoder res \<times> metadata" where
  "load_metadata value dec m =
     (case load_key dec of
        Inl e \<Rightarrow> (Inl e, m)
      | Inr (key, dec) \<Rightarrow>
          if key = [] then (Inr dec, m)
          else (case load_any value dec of
              Inl e \<Rightarrow> (Inl e, m)
            | Inr (value, dec) \<Rightarrow> load_metadata value dec (meta_emplace key value m)))"
  by pat_completeness auto
termination
  by (relation "measure (\<lambda>(v, d, m). d_len d)") (auto dest!: load_key_length load_any_length)

declare load_metadata.simps [simp del]

definition on_metas :: "(metadata \<Rightarrow> 'a res \<times> metadata) \<Rightarrow> ('w rtmp_conn, 'a) eff" where
  "on_metas f = (\<lambda>(p, srv). case metas srv (session p) of
     None \<Rightarrow> (Inl (Undefined ''metadata of a session that is gone''), (p, srv))
   | Some m \<Rightarrow> let (r, m) = f m in (r, (p, srv\<lparr>metas := (metas srv)(session p \<mapsto> m)\<rparr>)))"

definition skip_bytes :: "nat \<Rightarrow> decoder \<Rightarrow> decoder res" where
  "skip_bytes n dec = res_bind (consume_or_fail n (dec_buf dec)) (\<lambda>b. Inr (dec\<lparr>dec_buf := b\<rparr>))"

definition on_meta_data :: "decoder \<Rightarrow> ('w rtmp_conn, unit) eff" where
  "on_meta_data dec =
     ebind (elift (skip_bytes 5 dec)) (\<lambda>dec.
     ebind (on_metas (load_metadata AnyEmpty dec)) (\<lambda>dec.
     ebind (elift (pop_front dec)) (\<lambda>(t, dec).
     if amf0_code AMF_OBJECT_END \<noteq> t then ethrow (Runtime_error ''expected an object end'') else eret ())))"

definition on_process_metadata :: "(rtmp_packet, 'w) reader_cbs \<Rightarrow> decoder \<Rightarrow> ('w rtmp_conn, unit) eff" where
  "on_process_metadata cbs dec =
     ebind (elift (load_string dec)) (\<lambda>(ty, dec).
     ebind (if ty = ''@setDataFrame''
            then ebind (elift (load_string dec)) (\<lambda>(ty, dec). if ty = ''onMetaData'' then on_meta_data dec else eret ())
            else eret ()) (\<lambda>_.
     ebind (reading (\<lambda>p. (rtmp_source_ptr p, session p))) (\<lambda>(src, s). case src of
       None \<Rightarrow> ethrow (Runtime_error ''cannot send rtmp meta data before publish cmd'')
     | Some i \<Rightarrow> on_server (init_tracks cbs i s))))"

section \<open>Messages\<close>

definition on_set_chunk :: "rtmp_packet \<Rightarrow> ('w rtmp_conn, unit) eff" where
  "on_set_chunk pkt =
     (if unread_length (pkt_buf pkt) < 4 then ethrow (Runtime_error ''MSG_SET_CHUNK not enough data'')
      else ebind (elift (data_bytes 0 4 (pkt_buf pkt))) (\<lambda>d. on_protocol (\<lambda>p. p\<lparr>chunk_size_in := unat (load_be32 d)\<rparr>)))"

definition on_av :: "(rtmp_packet, 'w) reader_cbs \<Rightarrow> rtmp_packet \<Rightarrow> ('w rtmp_conn, unit) eff" where
  "on_av cbs pkt = ebind (reading (\<lambda>p. (rtmp_source_ptr p, src_ownership p))) (\<lambda>(src, token).
     case (src, token) of
       (Some i, Some _) \<Rightarrow> ebind (on_server tick) (\<lambda>t1. ebind (on_server tick) (\<lambda>t2.
          on_server (process_av_packet cbs t1 t2 i pkt)))
     | _ \<Rightarrow> ethrow (Runtime_error ''cannot push rtmp Audio/Video, must publish the media info first!''))"

definition handle_chunk :: "(rtmp_packet, 'w) reader_cbs \<Rightarrow> rtmp_packet \<Rightarrow> ('w rtmp_conn, unit) eff" where
  "handle_chunk cbs pkt = ebind (elift (initialised (msg_type_id pkt))) (\<lambda>t.
     if t = MSG_SET_CHUNK then on_set_chunk pkt
     else if t = MSG_ACK then
       (if unread_length (pkt_buf pkt) < 4 then ethrow (Runtime_error ''MSG_ACK not enough data'') else eret ())
     else if t = MSG_CMD \<or> t = MSG_CMD3 then
       on_process_cmd cbs \<lparr>dec_version = (if t = MSG_CMD then 0 else 3), dec_buf = pkt_buf pkt\<rparr>
     else if t = MSG_DATA \<or> t = MSG_DATA3 then
       on_process_metadata cbs \<lparr>dec_version = (if t = MSG_DATA then 0 else 3), dec_buf = pkt_buf pkt\<rparr>
     else if t = MSG_AUDIO \<or> t = MSG_VIDEO then on_av cbs pkt
     else eret ())"

section \<open>The handshake\<close>

definition kC1HandshakeSize :: nat where "kC1HandshakeSize = 1536"

definition sending_raw :: "bytes \<Rightarrow> ('w rtmp_conn, unit) eff" where
  "sending_raw data = on_protocol (send_bytes data)"

text \<open>\<open>rand\<close> gives the values of \<open>std::rand()\<close> for S1. The result is the number of bytes consumed.\<close>

definition handle_C0C1 :: "(nat \<Rightarrow> nat) \<Rightarrow> bytes \<Rightarrow> ('w rtmp_conn, nat) eff" where
  "handle_C0C1 rand data =
     (if length data < 1 + kC1HandshakeSize then eret 0
      else if hd data \<noteq> 0x03 then ethrow (Runtime_error ''only version 3 is supported!'')
      else ebind (sending_raw [0x03]) (\<lambda>_.
           ebind (sending_raw (rtmp_handshake rand)) (\<lambda>_.
           ebind (sending_raw (take kC1HandshakeSize (drop 1 data))) (\<lambda>_.
           ebind (on_protocol (\<lambda>p. p\<lparr>next_step_func := C2\<rparr>)) (\<lambda>_.
           eret (1 + kC1HandshakeSize))))))"

definition handle_C2 :: "(rtmp_packet, 'w) reader_cbs \<Rightarrow> bytes \<Rightarrow> ('w rtmp_conn, nat) eff" where
  "handle_C2 cbs data =
     (if length data < kC1HandshakeSize then eret 0
      else ebind (on_protocol (\<lambda>p. p\<lparr>next_step_func := Split\<rparr>)) (\<lambda>_.
           ebind (on_chunk_state (set_chunk_size (4 * 1024))) (\<lambda>_.
           ebind (on_chunk_state (send_acknowledgement (100 * 1024))) (\<lambda>_.
           ebind (on_chunk_state (set_peer_bandwidth (100 * 1024))) (\<lambda>_.
           ebind (split_rtmp (handle_chunk cbs) (drop kC1HandshakeSize data)) (\<lambda>n.
           eret (kC1HandshakeSize + n)))))))"

definition run_step :: "(rtmp_packet, 'w) reader_cbs \<Rightarrow> (nat \<Rightarrow> nat) \<Rightarrow> bytes \<Rightarrow> ('w rtmp_conn, nat) eff" where
  "run_step cbs rand data = ebind (reading next_step_func) (\<lambda>step. case step of
     No_step \<Rightarrow> ethrow (Runtime_error ''rtmp next_step_func is empty!'')
   | C0C1 \<Rightarrow> handle_C0C1 rand data
   | C2 \<Rightarrow> handle_C2 cbs data
   | Split \<Rightarrow> split_rtmp (handle_chunk cbs) data)"

definition on_parse_rtmp :: "(rtmp_packet, 'w) reader_cbs \<Rightarrow> (nat \<Rightarrow> nat) \<Rightarrow> flat_buffer \<Rightarrow> ('w rtmp_conn, flat_buffer) eff" where
  "on_parse_rtmp cbs rand buf =
     ebind (elift (data_bytes 0 (unread_length buf) buf)) (\<lambda>data.
     ebind (run_step cbs rand data) (\<lambda>n.
     eret (safe_consume n buf)))"

text \<open>The end of a connection: the members go in the reverse order of their declaration.\<close>

definition drop_protocol :: "(rtmp_packet, 'w) reader_cbs \<Rightarrow> 'w rtmp_conn \<Rightarrow> 'w rtmp_server" where
  "drop_protocol cbs = (\<lambda>(p, srv).
     let srv = srv\<lparr>metas := (metas srv)(session p := None)\<rparr>;
         srv = (case src_ownership p of None \<Rightarrow> srv | Some i \<Rightarrow> srv\<lparr>media := release_ownership i (media srv)\<rparr>)
     in case rtmp_source_ptr p of None \<Rightarrow> srv | Some i \<Rightarrow> drop_source cbs i srv)"

section \<open>What every operation keeps\<close>

lemma keeps_on_server [keeps]: "keeps_inv (\<lambda>(p, srv). Q p) (on_server m)"
  by (auto simp: keeps_inv_def on_server_def Let_def split: prod.splits)

lemma keeps_on_protocol [keeps]: "(\<And>p. Q p \<Longrightarrow> Q (f p)) \<Longrightarrow> keeps_inv (\<lambda>(p, srv). Q p) (on_protocol f)"
  by (auto simp: keeps_inv_def on_protocol_def)

lemma keeps_on_chunk_state [keeps]: "keeps_inv Q m \<Longrightarrow> keeps_inv (\<lambda>(p, srv). Q p) (on_chunk_state m)"
  by (auto simp: keeps_inv_def on_chunk_state_def Let_def split: prod.splits)

lemma keeps_reading [keeps]: "keeps_inv P (reading f)"
  by (auto simp: keeps_inv_def reading_def)

lemma keeps_on_metas [keeps]: "keeps_inv (\<lambda>(p, srv). Q p) (on_metas f)"
  by (auto simp: keeps_inv_def on_metas_def Let_def split: option.splits prod.splits)

lemma keeps_assign [keeps]:
  "(\<And>p x. Q p \<Longrightarrow> Q (p\<lparr>src_ownership := x\<rparr>)) \<Longrightarrow> keeps_inv (\<lambda>(p, srv). Q p) (assign_ownership t)"
  "(\<And>p x. Q p \<Longrightarrow> Q (p\<lparr>rtmp_source_ptr := x\<rparr>)) \<Longrightarrow> keeps_inv (\<lambda>(p, srv). Q p) (assign_source cbs i)"
  by (auto simp: keeps_inv_def assign_ownership_def assign_source_def)

text \<open>The loop of \<open>split_rtmp\<close> keeps what its handler and its own bookkeeping keep.\<close>

definition recv_stable :: "(('a, 'x) conn \<Rightarrow> bool) \<Rightarrow> bool" where
  "recv_stable P \<longleftrightarrow> (\<forall>c x. P (c, x) \<longrightarrow> (\<forall>n. P (c\<lparr>chunk_stream_id := n\<rparr>, x)) \<and> (\<forall>n. P (c\<lparr>msg_stream_id := n\<rparr>, x))
     \<and> (\<forall>m. P (c\<lparr>chunked_data_map := m\<rparr>, x))) \<and> (\<forall>n. keeps_inv P (on_chunk_state (count_received n)))"

lemma recv_stable_put: "recv_stable P \<Longrightarrow> P s \<Longrightarrow> P (put_packet cid e s)"
  by (cases s) (simp add: recv_stable_def put_packet_def)

lemma finish_message_keeps:
  assumes "recv_stable P" "\<And>p. keeps_inv P (h p)"
  shows "keeps_inv P (finish_message h cid ts)"
proof (rule keeps_invI)
  fix s assume s: "P s"
  obtain c x where cx: "s = (c, x)" by (cases s)
  have m: "P (c\<lparr>msg_stream_id := n\<rparr>, x)" for n
    using assms(1) s cx by (simp add: recv_stable_def)
  show "P (snd (finish_message h cid ts s))"
    using s recv_stable_put [OF assms(1) m] keeps_inv_snd [OF assms(2)]
    by (auto simp: finish_message_def cx Let_def split: prod.splits option.splits sum.splits)
qed

lemma store_chunk_keeps:
  assumes "recv_stable P" "\<And>p. keeps_inv P (h p)"
  shows "keeps_inv P (store_chunk h cid k room ts data p)"
proof (rule keeps_invI)
  fix s assume s: "P s"
  obtain c x n q where cx: "s = (c, x)" "packet_size (add_payload k room data p) = (n, q)"
    by (cases s; cases "packet_size (add_payload k room data p)")
  have "keeps_inv P (ebind (on_chunk_state (count_received n)) (\<lambda>_. ebind (finish_message h cid ts) (\<lambda>_. eret (Some (k + room)))))"
    using assms(1) finish_message_keeps [OF assms] by (intro keeps) (simp add: recv_stable_def)
  then have "P (snd (ebind (on_chunk_state (count_received n)) (\<lambda>_. ebind (finish_message h cid ts) (\<lambda>_. eret (Some (k + room))))
      (put_packet cid e s)))" for e
    by (rule keeps_inv_snd [where P = P]) (rule recv_stable_put [OF assms(1) s])
  then show "P (snd (store_chunk h cid k room ts data p s))"
    by (simp add: store_chunk_def cx)
qed

lemma chunk_body_keeps:
  assumes "recv_stable P" "\<And>p. keeps_inv P (h p)"
  shows "keeps_inv P (chunk_body h cid k data p)"
proof (rule keeps_invI)
  fix s assume s: "P s"
  obtain c x where cx: "s = (c, x)" by (cases s)
  show "P (snd (chunk_body h cid k data p s))"
    using recv_stable_put [OF assms(1) s] keeps_inv_snd [OF store_chunk_keeps [OF assms]] unfolding cx
    by (auto simp: chunk_body_def Let_def split: sum.splits)
qed

lemma split_step_keeps:
  assumes "recv_stable P" "\<And>p. keeps_inv P (h p)"
  shows "keeps_inv P (split_step h data)"
proof (rule keeps_invI)
  fix s assume s: "P s"
  obtain c x cid off where cx: "s = (c, x)" "chunk_basic data = (cid, off)"
    by (cases s; cases "chunk_basic data")
  have "P (c\<lparr>chunk_stream_id := cid\<rparr>, x)"
    using assms(1) s cx(1) by (simp add: recv_stable_def)
  then show "P (snd (split_step h data s))"
    using keeps_inv_snd [OF chunk_body_keeps [OF assms]] by (cases off) (simp_all add: split_step_def cx Let_def)
qed

lemma split_rtmp_keeps:
  assumes "recv_stable P" "\<And>p. keeps_inv P (h p)"
  shows "keeps_inv P (split_rtmp h data)"
proof (rule keeps_invI)
  fix s assume "P s"
  then show "P (snd (split_rtmp h data s))"
    using assms(2)
  proof (induction h data s rule: split_rtmp.induct)
    case (1 h data s)
    obtain r s' where st: "split_step h data s = (r, s')"
      by (cases "split_step h data s")
    have s': "P s'"
      using keeps_invD [OF split_step_keeps [OF assms(1) 1(3)] 1(2) st] .
    show ?case
    proof (cases "\<exists>n. data \<noteq> [] \<and> r = Inr (Some n)")
      case True
      then obtain n where n: "data \<noteq> []" "r = Inr (Some n)"
        by blast
      have "P (snd (split_rtmp h (drop n data) s'))"
        using 1(1) [OF n(1) st [symmetric] n(2) refl s' 1(3)] by simp
      then show ?thesis
        using n st by (cases "split_rtmp h (drop n data) s'"; cases "fst (split_rtmp h (drop n data) s')")
          (simp_all add: split_rtmp.simps [of h data])
    next
      case False
      then show ?thesis
        using 1(2) s' st by (auto simp: split_rtmp.simps [of h data] split: sum.splits option.splits)
    qed
  qed
qed


section \<open>Sending always works\<close>

text \<open>The window size is never set, and a chunk size of 0 is never sent.\<close>

definition can_send :: "'a chunk_state_scheme \<Rightarrow> bool" where
  "can_send c \<longleftrightarrow> windows_size c = 0 \<and> chunk_size_out c \<noteq> 0"

lemma send_rtmp_keeps:
  "keeps_inv can_send (send_rtmp t sid data ts cid)"
proof (rule keeps_invI)
  fix c :: "'a chunk_state_scheme"
  assume c: "can_send c"
  show "can_send (snd (send_rtmp t sid data ts cid c))"
  proof (cases "2 \<le> cid \<and> cid \<le> 63")
    case True
    then obtain b where "send_rtmp t sid data ts cid c
        = (Inr (), c\<lparr>bytes_sent := b, sent := sent c @ wire (chunk_size_out c) t sid data ts cid\<rparr>)"
      using send_rtmp_wire [of cid c t sid data ts] c by (auto simp: can_send_def)
    then show ?thesis
      using c by (simp add: can_send_def)
  next
    case False
    then show ?thesis
      using c by (auto simp: send_rtmp_def send_rtmp_depth.simps [of stack_depth])
  qed
qed

lemma keeps_send_to [keeps]: "keeps_inv can_send (\<lambda>c. send_rtmp t (f c) (data c) ts cid c)"
  by (rule keeps_invI, rule keeps_inv_snd [where P = can_send], rule send_rtmp_keeps)

lemma keeps_sending [keeps]: "keeps_inv can_send (send_acknowledgement n)" "keeps_inv can_send (set_peer_bandwidth m)"
  using keeps_send_to by (simp_all add: send_acknowledgement_def [abs_def] set_peer_bandwidth_def [abs_def])

lemma keeps_set_chunk_size [keeps]: "n \<noteq> 0 \<Longrightarrow> keeps_inv can_send (set_chunk_size n)"
  unfolding set_chunk_size_def
  by (rule keeps_invI) (rule keeps_inv_snd [where P = can_send], intro keeps send_rtmp_keeps, auto simp: can_send_def unat_gt_0)

lemma keeps_send_cmd [keeps]: "keeps_inv (\<lambda>(p, srv). can_send p) (send_cmd data)"
  unfolding send_cmd_def by (intro keeps)

lemma can_send_changes [simp]:
  "can_send (p\<lparr>src_ownership := x1\<rparr>) = can_send p" "can_send (p\<lparr>rtmp_source_ptr := x1\<rparr>) = can_send p"
  "can_send (p\<lparr>transaction_id := x2\<rparr>) = can_send p" "can_send (p\<lparr>proto_info := x1\<rparr>) = can_send p"
  "can_send (p\<lparr>next_step_func := x3\<rparr>) = can_send p"
  by (simp_all add: can_send_def)

lemma can_send_chunk_changes [simp]:
  "can_send (c\<lparr>chunk_size_in := n\<rparr>) = can_send c" "can_send (c\<lparr>chunk_stream_id := n\<rparr>) = can_send c"
  "can_send (c\<lparr>msg_stream_id := w\<rparr>) = can_send c" "can_send (c\<lparr>chunked_data_map := m\<rparr>) = can_send c"
  "can_send (c\<lparr>sent := b\<rparr>) = can_send c" "can_send (c\<lparr>bytes_recv := v\<rparr>) = can_send c"
  by (simp_all add: can_send_def)

lemma recv_stable_can_send: "recv_stable (\<lambda>(p, srv). can_send p)"
  unfolding recv_stable_def
  by (intro conjI allI impI keeps_on_chunk_state)
    (simp_all add: keeps_inv_def count_received_def window_reached_def can_send_def)

lemma keeps_elift_case [keeps]:
  "(\<And>a b. keeps_inv P (f a b)) \<Longrightarrow> keeps_inv P (case x of (a, b) \<Rightarrow> f a b)"
  "keeps_inv P m \<Longrightarrow> (\<And>a. keeps_inv P (g a)) \<Longrightarrow> keeps_inv P (case y of None \<Rightarrow> m | Some a \<Rightarrow> g a)"
  by (auto split: prod.splits option.splits)

lemma keeps_new_info [keeps]:
  "(\<And>p x. Q p \<Longrightarrow> Q (p\<lparr>proto_info := x\<rparr>)) \<Longrightarrow> keeps_inv (\<lambda>(p, srv). Q p) new_info"
  unfolding new_info_def by (intro keeps) (auto simp: keeps_inv_def Let_def)

lemma handle_chunk_can_send: "keeps_inv (\<lambda>(p, srv). can_send p) (handle_chunk cbs pkt)"
  unfolding handle_chunk_def on_set_chunk_def on_process_cmd_def on_process_metadata_def on_av_def on_amf_connect_def connect_info_def
    on_amf_createStream_def on_amf_publish_def publish_stream_def publish_new_def publish_again_def lost_ownership_def
    publish_failed_def publish_started_def send_status_def on_meta_data_def
  by (intro keeps) simp_all


lemma keeps_next_step [keeps]:
  "keeps_inv P m0 \<Longrightarrow> keeps_inv P m1 \<Longrightarrow> keeps_inv P m2 \<Longrightarrow> keeps_inv P m3 \<Longrightarrow>
     keeps_inv P (case x of No_step \<Rightarrow> m0 | C0C1 \<Rightarrow> m1 | C2 \<Rightarrow> m2 | Split \<Rightarrow> m3)"
  by (cases x) simp_all

lemma run_step_can_send: "keeps_inv (\<lambda>(p, srv). can_send p) (run_step cbs rand data)"
  unfolding run_step_def handle_C0C1_def handle_C2_def sending_raw_def send_bytes_def
  by (intro keeps split_rtmp_keeps recv_stable_can_send handle_chunk_can_send) simp_all

end
