(* ===== verification/Rtmp_Publish.thy ===== *)
theory Rtmp_Publish
  imports Rtmp_Protocol
begin

text \<open>
  What a publisher's connection does to the server and to itself: which invariants its messages
  keep, what it is answered, who may publish, and how its audio and video reach the clients.
\<close>

section \<open>The server stays well formed\<close>

lemma server_ok_fields [simp]:
  "server_ok (srv\<lparr>metas := m\<rparr>) = server_ok srv" "server_ok (srv\<lparr>source_refs := r\<rparr>) = server_ok srv"
  "server_ok (srv\<lparr>clock_reads := n\<rparr>) = server_ok srv"
  by (simp_all add: server_ok_def)

definition unused_info :: "nat \<Rightarrow> 'w rtmp_server \<Rightarrow> bool" where
  "unused_info a srv \<longleftrightarrow> (\<forall>i s. sources (media srv) i = Some s \<and> src_info s = a \<longrightarrow> \<not> is_registered s)"

text \<open>Changing media information that no registered source has.\<close>

lemma no_entry_unregistered:
  assumes "world_ok w" "entries_own w" "sources w i = Some s" "\<not> is_registered s"
  shows "look_up (registry w) k \<noteq> Some i"
proof
  assume l: "look_up (registry w) k = Some i"
  have key: "key_of w i = Some k"
    using entries_ownD [OF assms(2) l] assms(3) by (simp add: live_def)
  then have "objs_of w i = Some (k, False)"
    using assms(3,4) by (auto simp: objs_of_def key_of_def)
  then show False
    using l agrees_at [of "look_up (registry w)" "objs_of w" i k False] assms(1) unfolding world_ok_def by blast
qed

lemma objs_info:
  assumes "infos w a \<noteq> None"
  shows "objs_of (w\<lparr>infos := (infos w)(a \<mapsto> m)\<rparr>) i = (case sources w i of None \<Rightarrow> None
    | Some s \<Rightarrow> if src_info s = a then Some (media_key m, is_registered s) else objs_of w i)"
  by (auto simp: objs_of_def split: option.splits)

lemma world_info_ok:
  fixes w :: "'a media_source_scheme media_world"
  assumes "world_ok w" "entries_own w" "infos w a = Some m0"
    and "\<And>i s. sources w i = Some s \<Longrightarrow> src_info s = a \<Longrightarrow> \<not> is_registered s \<or> media_key m = media_key m0"
  shows "world_ok (w\<lparr>infos := (infos w)(a \<mapsto> m)\<rparr>) \<and> entries_own (w\<lparr>infos := (infos w)(a \<mapsto> m)\<rparr>)"
proof -
  let ?w = "w\<lparr>infos := (infos w)(a \<mapsto> m)\<rparr>"
  have i: "infos w a \<noteq> None"
    using assms(3) by simp
  have same: "objs_of ?w i = objs_of w i \<or> (\<exists>s. sources w i = Some s \<and> src_info s = a \<and> \<not> is_registered s)" for i
  proof (cases "sources w i")
    case (Some s)
    then show ?thesis
      using assms(4) [OF Some] assms(3) unfolding objs_info [OF i] by (auto simp: objs_of_def)
  qed (auto simp: objs_of_def)
  have "agrees (look_up (registry w)) (objs_of ?w)"
    unfolding agrees_def
  proof (intro allI impI)
    fix j k b
    assume o: "objs_of ?w j = Some (k, b)"
    consider "objs_of ?w j = objs_of w j" | s where "sources w j = Some s" "src_info s = a" "\<not> is_registered s"
      using same [of j] by blast
    then show "b \<longleftrightarrow> look_up (registry w) k = Some j"
    proof cases
      case 1
      then show ?thesis
        using o assms(1) agrees_at [of "look_up (registry w)" "objs_of w"] by (simp add: world_ok_def)
    next
      case 2
      then have "\<not> b"
        using o i by (simp add: objs_info)
      then show ?thesis
        using no_entry_unregistered [OF assms(1,2) 2(1,3)] by simp
    qed
  qed
  moreover have "\<forall>i s. sources ?w i = Some s \<longrightarrow> infos ?w (src_info s) \<noteq> None"
    using assms(1) by (simp add: world_ok_def)
  moreover have "entries_own ?w"
    unfolding entries_own_def
  proof (intro allI impI)
    fix k j
    assume "look_up (registry ?w) k = Some j" "live ?w j"
    then have l: "look_up (registry w) k = Some j" "live w j"
      by (simp_all add: live_def)
    then have "\<not> (\<exists>s. sources w j = Some s \<and> \<not> is_registered s)"
      using no_entry_unregistered [OF assms(1,2)] by blast
    then have "objs_of ?w j = objs_of w j"
      using same [of j] by blast
    then show "key_of ?w j = Some k"
      using entries_ownD [OF assms(2) l] by (simp add: key_of_objs)
  qed
  ultimately show ?thesis
    using assms(1) by (simp add: world_ok_def)
qed

lemma server_info_ok:
  assumes "server_ok srv" "infos (media srv) a = Some m0"
    and "unused_info a srv \<or> media_key m = media_key m0"
  shows "server_ok (srv\<lparr>media := (media srv)\<lparr>infos := (infos (media srv))(a \<mapsto> m)\<rparr>\<rparr>)"
proof -
  have "world_ok ((media srv)\<lparr>infos := (infos (media srv))(a \<mapsto> m)\<rparr>) \<and> entries_own ((media srv)\<lparr>infos := (infos (media srv))(a \<mapsto> m)\<rparr>)"
    using assms by (intro world_info_ok [where ?m0.0 = m0]) (auto simp: server_ok_def unused_info_def)
  moreover have "a < next_info srv"
    using assms(1,2) by (simp add: server_ok_def)
  ultimately show ?thesis
    using assms(1) by (simp add: server_ok_def)
qed

lemma change_info_ok: "server_ok srv \<Longrightarrow> unused_info a srv \<Longrightarrow> server_ok (snd (change_info a f srv))"
  by (auto simp: change_info_def server_info_ok split: option.splits sum.splits)

lemma info_of_keeps [keeps]: "keeps_inv server_ok (info_of a)"
proof (rule keeps_invI)
  fix srv :: "'a rtmp_server" assume "server_ok srv"
  then show "server_ok (snd (info_of a srv))"
    by (cases "infos (media srv) a") (simp_all add: info_of_def info_def Let_def server_info_ok media_key_def)
qed

lemma keeps_server [keeps]: "keeps_inv server_ok m \<Longrightarrow> keeps_inv (\<lambda>(p, srv). server_ok srv) (on_server m)"
  by (auto simp: keeps_inv_def on_server_def Let_def split: prod.splits)

lemma keeps_tick [keeps]: "keeps_inv server_ok tick"
  by (simp add: keeps_inv_def tick_def)

lemma keeps_own_part [keeps]:
  "keeps_inv (\<lambda>(p, srv). server_ok srv) (on_protocol f)" "keeps_inv (\<lambda>(p, srv). server_ok srv) (on_chunk_state m)"
  by (auto simp: keeps_inv_def on_protocol_def on_chunk_state_def Let_def split: prod.splits)

lemma keeps_metas [keeps]: "keeps_inv (\<lambda>(p, srv). server_ok srv) (on_metas f)"
  by (auto simp: keeps_inv_def on_metas_def Let_def split: option.splits prod.splits)

lemma ownership_ok:
  "server_ok srv \<Longrightarrow> server_ok (srv\<lparr>media := release_ownership i (media srv)\<rparr>)"
  "server_ok srv \<Longrightarrow> server_ok (srv\<lparr>media := change_source i (\<lambda>s. s\<lparr>owned := True\<rparr>) (media srv)\<rparr>)"
  using set_source_ok [of srv "\<lambda>s. s\<lparr>owned := False\<rparr>" i] set_source_ok [of srv "\<lambda>s. s\<lparr>owned := True\<rparr>" i]
  by (simp_all add: set_source_def release_ownership_def same_registration_def source_ok_def)

lemma keeps_get_ownership [keeps]: "keeps_inv server_ok (on_media (get_ownership i))"
proof (rule keeps_invI)
  fix srv :: "'a rtmp_server" assume "server_ok srv"
  then show "server_ok (snd (on_media (get_ownership i) srv))"
    using ownership_ok(2) [of srv i] by (auto simp: on_media_def get_ownership_def split: option.splits)
qed

lemma drop_source_ok: "server_ok srv \<Longrightarrow> server_ok (drop_source cbs i srv)"
  by (simp add: drop_source_def Let_def destroy_source_ok)

lemma keeps_assigning [keeps]:
  "keeps_inv (\<lambda>(p, srv). server_ok srv) (assign_ownership x)" "keeps_inv (\<lambda>(p, srv). server_ok srv) (assign_source cbs i)"
  by (auto simp: keeps_inv_def assign_ownership_def assign_source_def hold_source_def Let_def ownership_ok drop_source_ok
      split: option.splits)

lemmas source_keeps [keeps] = create_source_keeps init_tracks_keeps process_av_packet_keeps

lemma keeps_send_cmd_server [keeps]: "keeps_inv (\<lambda>(p, srv). server_ok srv) (send_cmd data)"
  unfolding send_cmd_def by (intro keeps)

lemma publish_rest_keeps: "keeps_inv (\<lambda>(p, srv). server_ok srv) (ebind (on_server (find_stream a)) (\<lambda>(src, has_created).
     ebind (etry (case src of None \<Rightarrow> publish_new cbs a has_created | Some i \<Rightarrow> publish_again cbs a i) publish_failed) (\<lambda>_.
     publish_started)))"
proof -
  have "keeps_inv server_ok (find_stream a)"
    by (simp add: keeps_inv_def find_stream_def split: option.splits)
  then show ?thesis
    unfolding publish_new_def publish_again_def lost_ownership_def publish_failed_def publish_started_def send_status_def
    by (intro keeps) (simp_all add: destroy_source_ok)
qed

lemma snd_ebind:
  assumes "P (snd (m s))" "\<And>a. keeps_inv P (f a)"
  shows "P (snd (ebind m f s))"
  using assms by (cases "m s"; cases "fst (m s)") (auto simp: ebind_def keeps_inv_def)

lemma publish_stream_ok:
  assumes "server_ok srv" "unused_info a srv"
  shows "server_ok (snd (snd (publish_stream cbs a name (p, srv))))"
proof -
  have "(\<lambda>(p, srv). server_ok srv) (snd (publish_stream cbs a name (p, srv)))"
    unfolding publish_stream_def
  proof (rule snd_ebind [where P = "\<lambda>(p, srv). server_ok srv"])
    show "case snd (on_server (change_info a (parse_stream name)) (p, srv)) of (p, srv) \<Rightarrow> server_ok srv"
      using change_info_ok [OF assms, of "parse_stream name"] by (auto simp: on_server_def Let_def split: prod.splits)
  qed (rule publish_rest_keeps)
  then show ?thesis
    by (simp add: case_prod_beta)
qed

text \<open>The information that \<open>connect\<close> makes is used by no source.\<close>

definition fresh_info :: "nat \<Rightarrow> 'w rtmp_server \<Rightarrow> bool" where
  "fresh_info a srv \<longleftrightarrow> server_ok srv \<and> (\<forall>i s. sources (media srv) i = Some s \<longrightarrow> src_info s \<noteq> a)"

lemma change_fresh: "keeps_inv (fresh_info a) (change_info a f)"
proof (rule keeps_invI)
  fix srv :: "'a rtmp_server" assume f: "fresh_info a srv"
  then have "server_ok (snd (change_info a f srv))"
    by (intro change_info_ok) (auto simp: fresh_info_def unused_info_def)
  moreover have "sources (media (snd (change_info a f srv))) = sources (media srv)"
    by (simp add: change_info_def split: option.splits sum.splits)
  ultimately show "fresh_info a (snd (change_info a f srv))"
    using f by (simp add: fresh_info_def)
qed

lemma new_info_fresh:
  assumes "server_ok srv"
  defines "a \<equiv> next_info srv"
  shows "fresh_info a (srv\<lparr>next_info := a + 1, media := (media srv)\<lparr>infos := (infos (media srv))(a \<mapsto> m)\<rparr>\<rparr>)"
proof -
  let ?w = "(media srv)\<lparr>infos := (infos (media srv))(a \<mapsto> m)\<rparr>"
  have no: "infos (media srv) a = None"
    using assms(1) unfolding server_ok_def a_def by (meson less_irrefl)
  then have s: "sources (media srv) i = Some s \<Longrightarrow> src_info s \<noteq> a" for i s
    using assms(1) unfolding server_ok_def world_ok_def by blast
  have o: "objs_of ?w = objs_of (media srv)"
    using s by (auto simp: objs_of_def fun_eq_iff split: option.splits)
  have "world_ok ?w" "entries_own ?w"
    using assms(1) s o unfolding server_ok_def world_ok_def entries_own_def key_of_objs live_def by simp_all
  then show ?thesis
    using assms(1) s no by (auto simp: fresh_info_def server_ok_def less_Suc_eq a_def)
qed

lemma set_param_fresh: "keeps_inv (fresh_info a) (set_param a params key setter)"
  unfolding set_param_def by (intro keeps change_fresh)

lemma connect_info_ok [keeps]: "keeps_inv (\<lambda>(p, srv). server_ok srv) (connect_info params)"
proof (rule keeps_invI)
  fix s :: "'a rtmp_conn" assume s: "(\<lambda>(p, srv). server_ok srv) s"
  obtain a p srv where new: "new_info s = (Inr a, (p, srv))" "fresh_info a srv"
    using s new_info_fresh [of "snd s\<lparr>clock_reads := clock_reads (snd s) + 1\<rparr>"]
    by (cases s) (simp add: new_info_def on_server_def tick_def ebind_def Let_def)
  have "fresh_info a (snd (ebind (set_param a params ''app'' set_app) (\<lambda>_. set_param a params ''tcUrl'' set_tc_url) srv))"
    by (rule keeps_inv_snd [where P = "fresh_info a"]) (intro keeps set_param_fresh, rule new(2))
  then show "(\<lambda>(p, srv). server_ok srv) (snd (connect_info params s))"
    using new(1) by (simp add: connect_info_def ebind_simps(2) [where m = new_info] on_server_def fresh_info_def case_prod_beta Let_def)
qed

lemma connect_ok: "keeps_inv (\<lambda>(p, srv). server_ok srv) (on_amf_connect dec)"
  unfolding on_amf_connect_def by (intro keeps)

text \<open>
  The one operation that can harm the registry is a \<open>publish\<close> on a connection whose source is
  registered: it changes the media information that the source is registered under.
\<close>

definition renames_source :: "rtmp_packet \<Rightarrow> 'w rtmp_conn \<Rightarrow> bool" where
  "renames_source pkt = (\<lambda>(p, srv). (msg_type_id pkt = Some MSG_CMD \<or> msg_type_id pkt = Some MSG_CMD3)
     \<and> (\<exists>a. proto_info p = Some a \<and> \<not> unused_info a srv))"

lemma on_amf_publish_ok:
  assumes "server_ok srv" "\<And>a. proto_info p = Some a \<Longrightarrow> unused_info a srv"
  shows "server_ok (snd (snd (on_amf_publish cbs dec (p, srv))))"
  using assms publish_stream_ok [OF assms(1), of _ cbs _ p]
  by (auto simp: on_amf_publish_def ebind_def reading_def split: prod.splits sum.splits option.splits)

lemma on_process_cmd_ok:
  assumes "server_ok srv" "\<And>a. proto_info p = Some a \<Longrightarrow> unused_info a srv"
  shows "server_ok (snd (snd (on_process_cmd cbs dec (p, srv))))"
proof (cases "load_string dec")
  case (Inr cd)
  obtain cmd d where cd: "cd = (cmd, d)" by (cases cd)
  show ?thesis
  proof (cases "load_double d")
    case (Inr td)
    obtain tid d' where td: "td = (tid, d')" by (cases td)
    have pub: "server_ok (snd (snd (on_amf_publish cbs d' (p\<lparr>transaction_id := tid\<rparr>, srv))))"
      by (rule on_amf_publish_ok) (use assms in simp_all)
    have "keeps_inv (\<lambda>(p, srv). server_ok srv) on_amf_createStream"
      unfolding on_amf_createStream_def by (intro keeps)
    then have "server_ok (snd (snd (on_amf_createStream (p\<lparr>transaction_id := tid\<rparr>, srv))))"
      using assms(1) by (auto simp: keeps_inv_def case_prod_beta)
    moreover have "server_ok (snd (snd (on_amf_connect d' (p\<lparr>transaction_id := tid\<rparr>, srv))))"
      using connect_ok [of d'] assms(1) by (auto simp: keeps_inv_def case_prod_beta)
    ultimately show ?thesis
      using assms(1) pub \<open>load_string dec = Inr cd\<close> Inr
      by (simp add: on_process_cmd_def cd td ebind_def on_protocol_def)
  qed (use assms(1) Inr in \<open>simp add: on_process_cmd_def cd ebind_def\<close>)
qed (use assms(1) in \<open>simp add: on_process_cmd_def ebind_def\<close>)

lemma on_process_metadata_ok: "keeps_inv (\<lambda>(p, srv). server_ok srv) (on_process_metadata cbs dec)"
  unfolding on_process_metadata_def on_meta_data_def by (intro keeps)

lemma on_av_ok: "keeps_inv (\<lambda>(p, srv). server_ok srv) (on_av cbs pkt)"
  unfolding on_av_def by (intro keeps)

lemma on_set_chunk_ok: "keeps_inv (\<lambda>(p, srv). server_ok srv) (on_set_chunk pkt)"
  unfolding on_set_chunk_def by (intro keeps)

lemma handle_chunk_ok:
  assumes "server_ok srv" "\<not> renames_source pkt (p, srv)"
  shows "server_ok (snd (snd (handle_chunk cbs pkt (p, srv))))"
proof (cases "msg_type_id pkt")
  case (Some t)
  have "keeps_inv (\<lambda>(p, srv). server_ok srv) m \<Longrightarrow> server_ok (snd (snd (m (p, srv))))" for m :: "('a rtmp_conn, unit) eff"
    using assms(1) by (auto simp: keeps_inv_def case_prod_beta)
  note k = this [OF on_process_metadata_ok] this [OF on_av_ok] this [OF on_set_chunk_ok]
  have "server_ok (snd (snd (on_process_cmd cbs dec (p, srv))))" if "t = MSG_CMD \<or> t = MSG_CMD3" for dec
    using assms that Some by (intro on_process_cmd_ok) (auto simp: renames_source_def)
  then show ?thesis
    using Some assms(1) k by (simp add: handle_chunk_def ebind_def)
qed (use assms(1) in \<open>simp add: handle_chunk_def ebind_def\<close>)

section \<open>Publishing\<close>

text \<open>The server after a source was made for the information at \<open>a\<close> and owned.\<close>

definition with_new_source :: "nat \<Rightarrow> 'w rtmp_server \<Rightarrow> 'w rtmp_server" where
  "with_new_source a srv = (let i = next_source srv; n = clock_reads srv in
     srv\<lparr>clock_reads := n + 2, next_source := i + 1, media := (media srv)\<lparr>sources := (sources (media srv))
       (i \<mapsto> (new_rtmp_source (clock_at srv n) (clock_at srv (n + 1)) a)\<lparr>owned := True\<rparr>)\<rparr>\<rparr>)"

definition give_up :: "(rtmp_packet, 'w) reader_cbs \<Rightarrow> nat \<Rightarrow> rtmp_protocol \<Rightarrow> 'w rtmp_server \<Rightarrow> 'w rtmp_server" where
  "give_up cbs i p srv =
     (let srv = (case src_ownership p of None \<Rightarrow> srv | Some j \<Rightarrow> srv\<lparr>media := release_ownership j (media srv)\<rparr>);
          srv = hold_source i srv
      in case rtmp_source_ptr p of None \<Rightarrow> srv | Some j \<Rightarrow> drop_source cbs j srv)"

lemma publish_new_exec:
  assumes "infos (media srv) a = Some m" "mi_schema m = ''RTMP''" "is_complete m"
  defines "i \<equiv> next_source srv"
  shows "publish_new cbs a False (p, srv)
    = (Inr (), (p\<lparr>src_ownership := Some i, rtmp_source_ptr := Some i\<rparr>, give_up cbs i p (with_new_source a srv)))"
proof -
  let ?n = "clock_reads srv"
  let ?srv2 = "srv\<lparr>clock_reads := Suc (Suc ?n)\<rparr>"
  let ?s = "new_rtmp_source (clock_at srv ?n) (clock_at srv (Suc ?n)) a"
  let ?srv3 = "?srv2\<lparr>next_source := Suc i, media := (media srv)\<lparr>sources := (sources (media srv))(i \<mapsto> ?s)\<rparr>\<rparr>"
  have t: "on_server tick (p, srv) = (Inr (clock_at srv ?n), (p, srv\<lparr>clock_reads := Suc ?n\<rparr>))"
    "on_server tick (p, srv\<lparr>clock_reads := Suc ?n\<rparr>) = (Inr (clock_at srv (Suc ?n)), (p, ?srv2))"
    by (simp_all add: on_server_def tick_def)
  have c: "on_server (create_source (clock_at srv ?n) (clock_at srv (Suc ?n)) a) (p, ?srv2) = (Inr i, (p, ?srv3))"
    using assms(1-3) by (simp add: on_server_def create_source_def check_info_def i_def Let_def)
  have g: "on_server (on_media (get_ownership i)) (p, ?srv3) = (Inr True, (p, with_new_source a srv))"
    by (simp add: on_server_def on_media_def get_ownership_def change_source_def with_new_source_def new_rtmp_source_def
        i_def Let_def)
  show ?thesis
    by (simp add: publish_new_def ebind_def t c g assign_ownership_def assign_source_def give_up_def Let_def)
qed

text \<open>The replies are written without an exception, and sending them only adds to what was sent.\<close>

definition status_object :: "(string \<times> amf_value) list \<Rightarrow> bool" where
  "status_object m \<longleftrightarrow> (\<forall>(k, v) \<in> set m. \<exists>s. v = AMFValue AMF_STRING (VString s))"

lemma status_object_simps [simp]:
  "status_object []" "status_object ((k, v) # m) \<longleftrightarrow> (\<exists>s. v = AMFValue AMF_STRING (VString s)) \<and> status_object m"
  by (auto simp: status_object_def)

lemma map_emplace_status: "status_object m \<Longrightarrow> v = AMFValue AMF_STRING (VString s) \<Longrightarrow> status_object (map_emplace k v m)"
  by (induction k v m rule: map_emplace.induct) auto

lemma set_all_status:
  assumes "status_object kvs"
  shows "\<exists>m. set_all kvs (amf_of_type AMF_OBJECT) = Inr (AMFValue AMF_OBJECT (VMap m)) \<and> status_object m"
proof -
  have "status_object m \<Longrightarrow> status_object kvs \<Longrightarrow>
      \<exists>n. fold (\<lambda>(k, x) r. res_bind r (amf_set k x)) kvs (Inr (AMFValue AMF_OBJECT (VMap m))) = Inr (AMFValue AMF_OBJECT (VMap n))
        \<and> status_object n" for m kvs
  proof (induction kvs arbitrary: m)
    case (Cons kv kvs)
    obtain k s where kv: "kv = (k, AMFValue AMF_STRING (VString s))"
      using Cons.prems(2) by (cases kv) auto
    have "status_object (map_emplace k (AMFValue AMF_STRING (VString s)) m)"
      using Cons.prems(1) map_emplace_status by blast
    then show ?case
      using Cons.IH [of "map_emplace k (AMFValue AMF_STRING (VString s)) m"] Cons.prems(2)
      by (simp add: kv amf_set_def)
  qed auto
  from this [of "[]" kvs] show ?thesis
    using assms by (simp add: set_all_def amf_of_type_def)
qed

lemma put_pairs_status: "status_object m \<Longrightarrow> \<exists>b. put_pairs m buf = Inr b"
proof (induction m arbitrary: buf)
  case (Cons kv m)
  obtain k s where "kv = (k, AMFValue AMF_STRING (VString s))"
    using Cons.prems by (cases kv) auto
  then show ?case
    using Cons.IH Cons.prems by (simp add: as_string_def)
qed simp

lemma status_reply_total:
  assumes "status_object kvs"
  shows "\<exists>b. status_reply tid kvs = Inr b"
proof -
  obtain m where m: "set_all kvs (amf_of_type AMF_OBJECT) = Inr (AMFValue AMF_OBJECT (VMap m))" "status_object m"
    using set_all_status [OF assms] by blast
  obtain b where "put_pairs m (put_null (put_double tid (put_cstr ''onStatus'' [])) @ [amf0_code AMF_OBJECT]) = Inr b"
    using put_pairs_status [OF m(2)] by blast
  then show ?thesis
    by (simp add: status_reply_def m(1))
qed

lemma send_cmd_exec:
  assumes "can_send p"
  obtains b where "send_cmd data (p, srv) = (Inr (), (p\<lparr>bytes_sent := b,
    sent := sent p @ wire (chunk_size_out p) MSG_CMD (msg_stream_id p) data 0 3\<rparr>, srv))"
proof (rule send_rtmp_wire [of 3 p MSG_CMD "msg_stream_id p" data 0])
  fix b
  assume s: "send_rtmp MSG_CMD (msg_stream_id p) data 0 3 p
    = (Inr (), p\<lparr>bytes_sent := b, sent := sent p @ wire (chunk_size_out p) MSG_CMD (msg_stream_id p) data 0 3\<rparr>)"
  show thesis
    by (rule that [of b]) (simp add: send_cmd_def on_chunk_state_def CHUNK_CLIENT_REQUEST_BEFORE_def s)
qed (use assms in \<open>simp_all add: can_send_def\<close>)

text \<open>The reply to \<open>publish\<close> with the given values, as it goes over the wire.\<close>

definition status_wire :: "(string \<times> amf_value) list \<Rightarrow> rtmp_protocol \<Rightarrow> bytes" where
  "status_wire kvs p = wire (chunk_size_out p) MSG_CMD (msg_stream_id p)
     (case status_reply (transaction_id p) kvs of Inr b \<Rightarrow> b | Inl _ \<Rightarrow> []) 0 3"

lemma send_status_exec:
  assumes "can_send p" "status_object kvs"
  obtains b where "send_status kvs (p, srv) = (Inr (), (p\<lparr>bytes_sent := b, sent := sent p @ status_wire kvs p\<rparr>, srv))"
proof -
  obtain d where d: "status_reply (transaction_id p) kvs = Inr d"
    using status_reply_total [OF assms(2)] by blast
  obtain b where "send_cmd d (p, srv) = (Inr (), (p\<lparr>bytes_sent := b,
    sent := sent p @ wire (chunk_size_out p) MSG_CMD (msg_stream_id p) d 0 3\<rparr>, srv))"
    by (rule send_cmd_exec [OF assms(1)])
  then show thesis
    using that d by (simp add: send_status_def ebind_def reading_def status_wire_def)
qed

lemma find_stream_exec:
  assumes "infos (media srv) a = Some m" "is_complete m"
  shows "on_server (find_stream a) (p, srv) = (Inr (case look_up (registry (media srv)) (media_key m) of
      None \<Rightarrow> (None, False) | Some i \<Rightarrow> (if live (media srv) i then Some i else None, True)), (p, srv))"
  using assms by (auto simp: on_server_def find_stream_def find_source_def media_key_def is_complete_def split: option.splits)

lemma change_info_exec:
  assumes "infos (media srv) a = Some m" "f m = Inr m'"
  shows "on_server (change_info a f) (p, srv)
    = (Inr (), (p, srv\<lparr>media := (media srv)\<lparr>infos := (infos (media srv))(a \<mapsto> m')\<rparr>\<rparr>))"
  using assms by (simp add: on_server_def change_info_def)

lemma info_of_exec:
  assumes "infos (media srv) a = Some m"
  shows "info_of a srv = (Inr (fst (info m)), srv\<lparr>media := (media srv)\<lparr>infos := (infos (media srv))(a \<mapsto> snd (info m))\<rparr>\<rparr>)"
  using assms by (simp add: info_of_def info_def Let_def)

lemma info_again: "info (snd (info m)) = info m"
  by (simp add: info_def Let_def)

definition refused_status :: "media_info \<Rightarrow> (string \<times> amf_value) list" where
  "refused_status m = [(''level'', amf_of_cstr ''error''), (''code'', amf_of_cstr ''NetStream.Publish.BadName''),
     (''description'', amf_of_cstr (c_str (''cannot get ownership of '' @ fst (info m)))), (''clientid'', amf_of_cstr ''0'')]"

definition started_status :: "(string \<times> amf_value) list" where
  "started_status = [(''level'', amf_of_cstr ''status''), (''code'', amf_of_cstr ''NetStream.Publish.Start''),
     (''description'', amf_of_cstr ''Start publishing''), (''clientid'', amf_of_cstr ''0'')]"

lemma statuses [simp]: "status_object (refused_status m)" "status_object started_status"
  by (simp_all add: refused_status_def started_status_def amf_of_cstr_def)

text \<open>What a connection gives back when it gives up the source it owns.\<close>

definition released :: "rtmp_protocol \<Rightarrow> 'w rtmp_server \<Rightarrow> 'w rtmp_server" where
  "released p srv = (case src_ownership p of None \<Rightarrow> srv | Some t \<Rightarrow> srv\<lparr>media := release_ownership t (media srv)\<rparr>)"

lemma released_simps [simp]:
  "infos (media (released p srv)) = infos (media srv)" "registry (media (released p srv)) = registry (media srv)"
  "outside (released p srv) = outside srv"
  "src_ownership p \<noteq> Some j \<Longrightarrow> sources (media (released p srv)) j = sources (media srv) j"
  by (auto simp: released_def release_ownership_def change_source_def split: option.splits)

lemma publish_again_refused:
  assumes "infos (media srv) a = Some m" "sources (media srv) j = Some s" "owned s" "src_ownership p \<noteq> Some j"
  defines "srv' \<equiv> released p (srv\<lparr>media := (media srv)\<lparr>infos := (infos (media srv))(a \<mapsto> snd (info m))\<rparr>\<rparr>)"
  shows "publish_again cbs a j (p, srv)
    = (Inl (Runtime_error (''cannot get ownership of '' @ fst (info m))), (p\<lparr>src_ownership := None\<rparr>, srv'))"
proof -
  let ?srv1 = "srv\<lparr>media := (media srv)\<lparr>infos := (infos (media srv))(a \<mapsto> snd (info m))\<rparr>\<rparr>"
  have o: "assign_ownership None (p, ?srv1) = (Inr (), (p\<lparr>src_ownership := None\<rparr>, srv'))"
    by (simp add: assign_ownership_def srv'_def released_def)
  have i: "infos (media srv') a = Some (snd (info m))" "sources (media srv') j = Some s"
    using assms(2,4) by (simp_all add: srv'_def)
  have s: "srv'\<lparr>media := (media srv')\<lparr>infos := (infos (media srv'))(a \<mapsto> snd (info m))\<rparr>\<rparr> = srv'"
    using i(1) by (simp add: fun_upd_idem)
  have g: "on_server (on_media (get_ownership j)) (p\<lparr>src_ownership := None\<rparr>, srv') = (Inr False, (p\<lparr>src_ownership := None\<rparr>, srv'))"
    using i(2) assms(3) by (simp add: on_server_def on_media_def get_ownership_def)
  have o2: "assign_ownership None (p\<lparr>src_ownership := None\<rparr>, srv') = (Inr (), (p\<lparr>src_ownership := None\<rparr>, srv'))"
    by (simp add: assign_ownership_def)
  have l: "lost_ownership a (p\<lparr>src_ownership := None\<rparr>, srv')
      = (Inl (Runtime_error (''cannot get ownership of '' @ fst (info m))), (p\<lparr>src_ownership := None\<rparr>, srv'))"
    using info_of_exec [OF i(1)] by (simp add: lost_ownership_def ebind_def on_server_def info_again s)
  have n: "on_server (info_of a) (p, srv) = (Inr (fst (info m)), (p, ?srv1))"
    using info_of_exec [OF assms(1)] by (simp add: on_server_def)
  show ?thesis
    by (simp add: publish_again_def ebind_def n o g o2 l)
qed

lemma publish_stream_eq:
  assumes "infos (media srv) a = Some m" "parse_stream name m = Inr m'" "is_complete m'"
  defines "srv1 \<equiv> srv\<lparr>media := (media srv)\<lparr>infos := (infos (media srv))(a \<mapsto> m')\<rparr>\<rparr>"
  shows "publish_stream cbs a name (p, srv) = ebind (etry (case look_up (registry (media srv)) (media_key m') of
      Some i \<Rightarrow> if live (media srv) i then publish_again cbs a i else publish_new cbs a True
    | None \<Rightarrow> publish_new cbs a False) publish_failed) (\<lambda>_. publish_started) (p, srv1)"
proof -
  have f: "on_server (find_stream a) (p, srv1) = (Inr (case look_up (registry (media srv)) (media_key m') of
      None \<Rightarrow> (None, False) | Some i \<Rightarrow> (if live (media srv) i then Some i else None, True)), (p, srv1))"
  proof -
    have lv: "live (media srv1) = live (media srv)" and r: "registry (media srv1) = registry (media srv)"
      by (simp_all add: srv1_def live_def fun_eq_iff)
    have "infos (media srv1) a = Some m'"
      by (simp add: srv1_def)
    from find_stream_exec [OF this assms(3), of p] show ?thesis
      unfolding lv r .
  qed
  have c: "on_server (change_info a (parse_stream name)) (p, srv) = (Inr (), (p, srv1))"
    using change_info_exec [of srv a m "parse_stream name" m' p] assms(1,2) by (simp add: srv1_def)
  show ?thesis
    by (simp add: publish_stream_def ebind_def c f split: option.splits)
qed

lemma drop_other [simp]: "j \<noteq> i \<Longrightarrow> sources (media (drop_source cbs j srv)) i = sources (media srv) i"
  by (simp add: drop_source_def destroy_source_def destroy_def Let_def split: option.splits)

lemma new_source_given_up:
  assumes "i = next_source srv" "next_source srv1 = i"
    and "\<forall>j. src_ownership p = Some j \<or> rtmp_source_ptr p = Some j \<longrightarrow> j < i"
  shows "\<exists>s. sources (media (give_up cbs i p (with_new_source a srv1))) i = Some s \<and> owned s \<and> \<not> is_registered s \<and> src_info s = a"
proof -
  have "sources (media (with_new_source a srv1)) i
      = Some ((new_rtmp_source (clock_at srv1 (clock_reads srv1)) (clock_at srv1 (clock_reads srv1 + 1)) a)\<lparr>owned := True\<rparr>)"
    using assms(2) by (simp add: with_new_source_def Let_def)
  then show ?thesis
    using assms(3) by (auto simp: give_up_def hold_source_def release_ownership_def change_source_def new_rtmp_source_def
        Let_def split: option.splits)
qed

definition sample_publisher :: rtmp_protocol where
  "sample_publisher = (new_rtmp_protocol 3)\<lparr>next_step_func := Split, proto_info := Some 1, chunk_size_out := 4096\<rparr>"

definition sample_room :: "flv_clients rtmp_server" where
  "sample_room = (let w = media (sample_server True) in (sample_server True)\<lparr>next_info := 2, media := w\<lparr>
     infos := (infos w)(1 \<mapsto> (create_media_info 0 ''RTMP'')\<lparr>mi_app := ''live''\<rparr>),
     sources := (sources w)(5 \<mapsto> (sample_rtmp True)\<lparr>owned := True\<rparr>)\<rparr>\<rparr>)"

definition room_info :: "string \<Rightarrow> media_info" where
  "room_info s = (create_media_info 0 ''RTMP'')\<lparr>mi_app := ''live'', mi_stream_id := s, mi_vhost := ''a'', mi_token := ''x''\<rparr>"

lemma sample_publisher: "can_send sample_publisher" "rtmp_source_ptr sample_publisher = None" "src_ownership sample_publisher = None"
  by (simp_all add: sample_publisher_def new_rtmp_protocol_def can_send_def)

lemma sample_room:
  "infos (media sample_room) 1 = Some ((create_media_info 0 ''RTMP'')\<lparr>mi_app := ''live''\<rparr>)"
  "parse_stream ''s?vhost=a&token=x'' ((create_media_info 0 ''RTMP'')\<lparr>mi_app := ''live''\<rparr>) = Inr (room_info ''s'')"
  "parse_stream ''t?vhost=a&token=x'' ((create_media_info 0 ''RTMP'')\<lparr>mi_app := ''live''\<rparr>) = Inr (room_info ''t'')"
  "look_up (registry (media sample_room)) (media_key (room_info ''s'')) = Some 5"
  "look_up (registry (media sample_room)) (media_key (room_info ''t'')) = None"
  "sources (media sample_room) 5 = Some ((sample_rtmp True)\<lparr>owned := True\<rparr>)" "next_source sample_room = 6"
proof -
  show "parse_stream ''s?vhost=a&token=x'' ((create_media_info 0 ''RTMP'')\<lparr>mi_app := ''live''\<rparr>) = Inr (room_info ''s'')"
    "parse_stream ''t?vhost=a&token=x'' ((create_media_info 0 ''RTMP'')\<lparr>mi_app := ''live''\<rparr>) = Inr (room_info ''t'')"
    using parse_stream_full_aux [of "[]" "''s''" "''a''" "''x''"] parse_stream_full_aux [of "[]" "''t''" "''a''" "''x''"]
    by (simp_all add: is_alpha_def room_info_def create_media_info_def)
  show "look_up (registry (media sample_room)) (media_key (room_info ''s'')) = Some 5"
    "look_up (registry (media sample_room)) (media_key (room_info ''t'')) = None"
    by (simp_all add: sample_room_def sample_server_def look_up_put media_key_def room_info_def create_media_info_def
        sample_key_def Let_def) (simp_all add: look_up_def at_key_def)
qed (simp_all add: sample_room_def sample_server_def Let_def)

lemma room_info: "is_complete (room_info s) \<longleftrightarrow> s \<noteq> []" "mi_schema (room_info s) = ''RTMP''"
  by (simp_all add: room_info_def is_complete_def create_media_info_def)

text \<open>C6: who may publish. A stream whose source another session owns cannot be published: the command is
  answered with the status \<open>NetStream.Publish.BadName\<close>, which carries the reason, and throws; the
  source, the registry and the clients are as they were, and the connection keeps the source it
  published before. But it has given up the ownership of that source before it asked for the new one.\<close>

theorem publish_refused:
  assumes "can_send p" "infos (media srv) a = Some m" "parse_stream name m = Inr m'" "is_complete m'"
    and "look_up (registry (media srv)) (media_key m') = Some j" "sources (media srv) j = Some s" "owned s"
    and "src_ownership p \<noteq> Some j"
  shows "\<exists>p' srv'. publish_stream cbs a name (p, srv) = (Inl Std_exception, (p', srv'))
    \<and> sent p' = sent p @ status_wire (refused_status m') p
    \<and> sources (media srv') j = Some s \<and> registry (media srv') = registry (media srv) \<and> outside srv' = outside srv
    \<and> rtmp_source_ptr p' = rtmp_source_ptr p \<and> src_ownership p' = None"
proof -
  let ?srv1 = "srv\<lparr>media := (media srv)\<lparr>infos := (infos (media srv))(a \<mapsto> m')\<rparr>\<rparr>"
  let ?p = "p\<lparr>src_ownership := None\<rparr>"
  obtain srv' where again: "publish_again cbs a j (p, ?srv1)
      = (Inl (Runtime_error (''cannot get ownership of '' @ fst (info m'))), (?p, srv'))"
    and srv': "sources (media srv') j = Some s" "registry (media srv') = registry (media srv)" "outside srv' = outside srv"
    using publish_again_refused [of ?srv1 a m' j s p cbs] assms(6-8) by auto
  obtain b where sent: "send_status (refused_status m') (?p, srv')
      = (Inr (), (?p\<lparr>bytes_sent := b, sent := sent ?p @ status_wire (refused_status m') ?p\<rparr>, srv'))"
    by (rule send_status_exec [of ?p "refused_status m'"]) (use assms(1) in simp_all)
  have "publish_failed (Runtime_error (''cannot get ownership of '' @ fst (info m'))) (?p, srv')
      = (Inl Std_exception, (?p\<lparr>bytes_sent := b, sent := sent ?p @ status_wire (refused_status m') ?p\<rparr>, srv'))"
    using sent by (simp add: publish_failed_def ebind_def refused_status_def)
  then have "publish_stream cbs a name (p, srv)
      = (Inl Std_exception, (?p\<lparr>bytes_sent := b, sent := sent ?p @ status_wire (refused_status m') ?p\<rparr>, srv'))"
    using assms(5,6) again by (simp add: publish_stream_eq [OF assms(2-4)] ebind_def etry_def live_def)
  then show ?thesis
    using srv' by (auto simp: status_wire_def)
qed

lemma publish_stream_new:
  assumes "can_send p" "infos (media srv) a = Some m" "parse_stream name m = Inr m'" "is_complete m'"
    and "mi_schema m' = ''RTMP''" "look_up (registry (media srv)) (media_key m') = None"
  defines "p' \<equiv> p\<lparr>src_ownership := Some (next_source srv), rtmp_source_ptr := Some (next_source srv)\<rparr>"
  obtains b where "publish_stream cbs a name (p, srv) = (Inr (), (p'\<lparr>bytes_sent := b, sent := sent p' @ status_wire started_status p'\<rparr>,
    give_up cbs (next_source srv) p (with_new_source a (srv\<lparr>media := (media srv)\<lparr>infos := (infos (media srv))(a \<mapsto> m')\<rparr>\<rparr>))))"
proof -
  let ?srv1 = "srv\<lparr>media := (media srv)\<lparr>infos := (infos (media srv))(a \<mapsto> m')\<rparr>\<rparr>"
  let ?srv2 = "give_up cbs (next_source srv) p (with_new_source a ?srv1)"
  have new: "publish_new cbs a False (p, ?srv1) = (Inr (), (p', ?srv2))"
    using publish_new_exec [of ?srv1 a m' cbs p] assms(4,5) by (simp add: p'_def)
  obtain b where sent: "send_status started_status (p', ?srv2)
      = (Inr (), (p'\<lparr>bytes_sent := b, sent := sent p' @ status_wire started_status p'\<rparr>, ?srv2))"
    by (rule send_status_exec [of p' started_status]) (use assms(1) in \<open>simp_all add: p'_def\<close>)
  show thesis
    by (rule that [of b]) (use new sent assms(6) in \<open>simp add: publish_stream_eq [OF assms(2-4)] ebind_def etry_def
        publish_started_def started_status_def\<close>)
qed

text \<open>A stream that has no entry in the registry can be published: a new source is made for it with the
  media information of the connection and is owned by the connection, which lets go of the source
  it published before; the command is answered with \<open>NetStream.Publish.Start\<close>. The source is not
  registered yet, so no client finds it before its first packet.\<close>

theorem publish_starts:
  assumes "can_send p" "infos (media srv) a = Some m" "parse_stream name m = Inr m'" "is_complete m'"
    and "mi_schema m' = ''RTMP''" "look_up (registry (media srv)) (media_key m') = None"
    and "\<forall>j. src_ownership p = Some j \<or> rtmp_source_ptr p = Some j \<longrightarrow> j < next_source srv"
  shows "\<exists>p' srv' s. publish_stream cbs a name (p, srv) = (Inr (), (p', srv'))
    \<and> sent p' = sent p @ status_wire started_status p
    \<and> src_ownership p' = Some (next_source srv) \<and> rtmp_source_ptr p' = Some (next_source srv)
    \<and> sources (media srv') (next_source srv) = Some s \<and> owned s \<and> \<not> is_registered s \<and> src_info s = a"
proof -
  let ?i = "next_source srv"
  let ?srv1 = "srv\<lparr>media := (media srv)\<lparr>infos := (infos (media srv))(a \<mapsto> m')\<rparr>\<rparr>"
  let ?p = "p\<lparr>src_ownership := Some ?i, rtmp_source_ptr := Some ?i\<rparr>"
  obtain b where run: "publish_stream cbs a name (p, srv) = (Inr (), (?p\<lparr>bytes_sent := b,
      sent := sent ?p @ status_wire started_status ?p\<rparr>, give_up cbs ?i p (with_new_source a ?srv1)))"
    by (rule publish_stream_new [OF assms(1-6)])
  show ?thesis
    using new_source_given_up [where i = "next_source srv" and srv = srv and ?srv1.0 = ?srv1 and p = p and cbs = cbs and a = a]
      assms(7) by (auto simp: run status_wire_def)
qed

theorem publish_refused_witness:
  "fst (publish_stream flv_cbs 1 ''s?vhost=a&token=x'' (sample_publisher, sample_room)) = Inl Std_exception"
  using publish_refused [OF sample_publisher(1) sample_room(1,2) _ sample_room(4,6), of flv_cbs] room_info [of "''s''"]
    sample_publisher(3) by auto

theorem publish_starts_witness:
  "src_ownership (fst (snd (publish_stream flv_cbs 1 ''t?vhost=a&token=x'' (sample_publisher, sample_room)))) = Some 6"
  using publish_starts [OF sample_publisher(1) sample_room(1,3) _ _ sample_room(5), of flv_cbs] room_info [of "''t''"]
    sample_publisher(2,3) sample_room(7) by auto

text \<open>A source is destroyed under the key its media information has at that time.\<close>

lemma drop_last_registry:
  assumes "source_refs srv j = 1" "key_of (media srv) j = Some k'" "k' \<noteq> k"
  shows "look_up (registry (media (drop_source cbs j srv))) k = look_up (registry (media srv)) k
    \<and> \<not> live (media (drop_source cbs j srv)) j"
  using assms by (auto simp: drop_source_def destroy_source_def destroy_def Let_def live_def look_up_erase key_of_def
      split: option.splits)

lemma renamed_source_dropped:
  assumes "source_refs srv1 j = 1" "sources (media srv1) j = Some s" "src_info s = a" "infos (media srv1) a = Some m'"
    and "src_ownership p = Some j" "rtmp_source_ptr p = Some j" "j \<noteq> next_source srv1" "media_key m' \<noteq> k"
  shows "look_up (registry (media (give_up cbs (next_source srv1) p (with_new_source a srv1)))) k = look_up (registry (media srv1)) k
    \<and> \<not> live (media (give_up cbs (next_source srv1) p (with_new_source a srv1))) j"
proof -
  let ?i = "next_source srv1"
  let ?w = "with_new_source a srv1"
  let ?srv = "hold_source ?i (?w\<lparr>media := release_ownership j (media ?w)\<rparr>)"
  have key: "key_of (media ?srv) j = Some (media_key m')"
    using assms(2-4,7) by (simp add: hold_source_def release_ownership_def change_source_def key_of_def with_new_source_def Let_def)
  have refs: "source_refs ?srv j = 1"
    using assms(1,7) by (simp add: hold_source_def with_new_source_def Let_def)
  have reg: "registry (media ?srv) = registry (media srv1)"
    by (simp add: hold_source_def release_ownership_def change_source_def with_new_source_def Let_def)
  show ?thesis
    using drop_last_registry [OF refs key assms(8), of cbs] assms(5,6) unfolding reg by (simp add: give_up_def)
qed

text \<open>C34: a connection that publishes a second stream without a new \<open>connect\<close> leaves an entry of the
  first one behind: \<open>parse_stream\<close> renames the media information that the source published before
  shares, so that the source is destroyed under the new name, and the entry under which it was
  registered stays in the registry although the source is gone.\<close>

theorem republish_orphans:
  assumes "can_send p" "infos (media srv) a = Some m" "parse_stream name m = Inr m'" "is_complete m'"
    and "mi_schema m' = ''RTMP''" "look_up (registry (media srv)) (media_key m') = None"
    and "src_ownership p = Some j" "rtmp_source_ptr p = Some j" "sources (media srv) j = Some s" "src_info s = a"
    and "source_refs srv j = 1" "j < next_source srv" "look_up (registry (media srv)) k = Some j"
  shows "\<exists>p' srv'. publish_stream cbs a name (p, srv) = (Inr (), (p', srv'))
    \<and> look_up (registry (media srv')) k = Some j \<and> \<not> live (media srv') j"
proof -
  let ?i = "next_source srv"
  let ?srv1 = "srv\<lparr>media := (media srv)\<lparr>infos := (infos (media srv))(a \<mapsto> m')\<rparr>\<rparr>"
  let ?p = "p\<lparr>src_ownership := Some ?i, rtmp_source_ptr := Some ?i\<rparr>"
  let ?srv2 = "give_up cbs ?i p (with_new_source a ?srv1)"
  obtain b where run: "publish_stream cbs a name (p, srv)
      = (Inr (), (?p\<lparr>bytes_sent := b, sent := sent ?p @ status_wire started_status ?p\<rparr>, ?srv2))"
    by (rule publish_stream_new [OF assms(1-6)])
  have "media_key m' \<noteq> k"
    using assms(6,13) by auto
  then show ?thesis
    using renamed_source_dropped [where ?srv1.0 = ?srv1 and j = j and s = s and a = a and m' = m' and p = p and k = k and cbs = cbs]
      assms(7-13) by (auto simp: run)
qed

definition renaming_publisher :: rtmp_protocol where
  "renaming_publisher = sample_publisher\<lparr>proto_info := Some 0, src_ownership := Some 5, rtmp_source_ptr := Some 5\<rparr>"

theorem republish_orphans_witness:
  "look_up (registry (media (snd (snd (publish_stream flv_cbs 0 ''t?vhost=a&token=x'' (renaming_publisher, sample_room)))))) sample_key = Some 5"
proof -
  have "infos (media sample_room) 0 = Some sample_info" "look_up (registry (media sample_room)) sample_key = Some 5"
    "source_refs sample_room 5 = 1"
    by (simp_all add: sample_room_def sample_server_def look_up_put Let_def)
  moreover have "parse_stream ''t?vhost=a&token=x'' sample_info = Inr (room_info ''t'')"
    using parse_stream_full_aux [of "[]" "''t''" "''a''" "''x''"]
    by (simp add: is_alpha_def sample_info_def room_info_def create_media_info_def)
  moreover have "can_send renaming_publisher" "src_ownership renaming_publisher = Some 5" "rtmp_source_ptr renaming_publisher = Some 5"
    using sample_publisher(1) by (simp_all add: renaming_publisher_def)
  moreover have "src_info ((sample_rtmp True)\<lparr>owned := True\<rparr>) = 0"
    by (simp add: sample_rtmp_def new_rtmp_source_def)
  ultimately show ?thesis
    using republish_orphans [where p = renaming_publisher and srv = sample_room and a = 0 and m = sample_info
        and name = "''t?vhost=a&token=x''" and m' = "room_info ''t''" and j = 5 and k = sample_key and cbs = flv_cbs]
      sample_room(5-7) room_info [of "''t''"] by auto
qed

text \<open>C7: a message of a publisher keeps the server well formed, whatever it holds and whether it is handled or
  throws, and so does the end of the connection: registry and sources agree, no address is given out
  twice, dispatchers and configurations are well formed. The exception are the commands of a
  connection whose media information a registered source has, which may rename it.\<close>

theorem message_keeps_server:
  assumes "server_ok srv" "\<not> renames_source pkt (p, srv)"
  shows "server_ok (snd (snd (handle_chunk cbs pkt (p, srv)))) \<and> server_ok (drop_protocol cbs (p, srv))"
proof
  let ?srv = "srv\<lparr>metas := (metas srv)(session p := None)\<rparr>"
  have "server_ok (released p ?srv)"
    using ownership_ok(1) [of ?srv] assms(1) by (simp add: released_def split: option.splits)
  then show "server_ok (drop_protocol cbs (p, srv))"
    by (simp add: drop_source_ok drop_protocol_def released_def [symmetric] Let_def split: option.splits)
qed (rule handle_chunk_ok [OF assms])

theorem message_keeps_server_witness:
  "server_ok (snd (snd (handle_chunk flv_cbs sample_audio (sample_publisher, sample_server True))))"
  using message_keeps_server [OF sample_server_ok, of sample_audio sample_publisher flv_cbs] sample_audio(4)
  by (simp add: renames_source_def msg_defs)

text \<open>The reads of a connection, one after the other; an exception of one ends the session, which the state
  behind it does not show.\<close>

fun run_steps :: "(rtmp_packet, 'w) reader_cbs \<Rightarrow> ((nat \<Rightarrow> nat) \<times> bytes) list \<Rightarrow> 'w rtmp_conn \<Rightarrow> 'w rtmp_conn" where
  "run_steps cbs [] s = s"
| "run_steps cbs ((rand, data) # inputs) s = run_steps cbs inputs (snd (run_step cbs rand data s))"

lemma run_steps_can_send: "case s of (p, srv) \<Rightarrow> can_send p \<Longrightarrow> case run_steps cbs inputs s of (p, srv) \<Rightarrow> can_send p"
proof (induction cbs inputs s rule: run_steps.induct)
  case (2 cbs rand data inputs s)
  have "case snd (run_step cbs rand data s) of (p, srv) \<Rightarrow> can_send p"
    using keeps_invD [OF run_step_can_send "2.prems", of cbs rand data] by (metis prod.collapse)
  from "2.IH" [OF this] show ?case by simp
qed simp

text \<open>C33: sending never gets stuck. Whatever a peer sends from the start of a connection, the member
  \<open>windows_size_\<close> stays 0, so that no acknowledgement of what was sent is due (one would acknowledge itself
  without end), and the chunk size for sending is not 0 (the loop over the chunks would not end): each call of
  \<open>send_rtmp\<close> on a chunk stream from 2 to 63 returns, with any type, payload and timestamp, and writes that one
  message in chunks of the size announced. After a read that threw, the session is shut down; the statement
  then is about the connection object only.\<close>

theorem replies_always_sent:
  assumes "2 \<le> cid" "cid \<le> 63" "run_steps cbs inputs (new_rtmp_protocol s, srv) = (p, srv')"
  shows "windows_size p = 0 \<and> chunk_size_out p \<noteq> 0 \<and> (\<exists>b. send_rtmp t sid data ts cid p
    = (Inr (), p\<lparr>bytes_sent := b, sent := sent p @ wire (chunk_size_out p) t sid data ts cid\<rparr>))"
proof -
  have "can_send (new_rtmp_protocol s)"
    by (simp add: can_send_def new_rtmp_protocol_def kDefaultChunkLength_def)
  then have "can_send p"
    using run_steps_can_send [of "(new_rtmp_protocol s, srv)" cbs inputs] assms(3) by simp
  then have p: "windows_size p = 0" "chunk_size_out p \<noteq> 0"
    by (simp_all add: can_send_def)
  obtain b where "send_rtmp t sid data ts cid p
      = (Inr (), p\<lparr>bytes_sent := b, sent := sent p @ wire (chunk_size_out p) t sid data ts cid\<rparr>)"
    by (rule send_rtmp_wire [OF assms(1,2) p])
  with p show ?thesis by blast
qed

theorem replies_always_sent_witness:
  "fst (send_rtmp MSG_CMD 0 [1] 0 3
     (fst (run_steps flv_cbs [(\<lambda>_. 0, [3, 4, 5]), (\<lambda>_. 0, [])] (new_rtmp_protocol 7, sample_room)))) = Inr ()"
proof -
  obtain p srv' where r: "run_steps flv_cbs [(\<lambda>_. 0, [3, 4, 5]), (\<lambda>_. 0, [])] (new_rtmp_protocol 7, sample_room) = (p, srv')"
    by fastforce
  show ?thesis
    using replies_always_sent [OF _ _ r, of 3 MSG_CMD 0 "[1]" 0] r by auto
qed

end
