(* ===== verification/Rtmp_Stream.thy ===== *)
theory Rtmp_Stream
  imports Rtmp_Publish
begin

text \<open>
  A publisher's connection from its first byte on: the handshake of
  \<open>src/protocol/rtmp/rtmp_protocol.cpp\<close>, and the way of an audio or video message from the
  bytes of the publisher to the bytes of the clients, through the chunk layer, the source, its dispatcher
  and the muxer.
\<close>

section \<open>The handshake\<close>

lemma set_chunk_size_exec:
  assumes "can_send p"
  obtains b where "on_chunk_state (set_chunk_size n) (p, srv) = (Inr (), (p\<lparr>bytes_sent := b,
    sent := sent p @ wire (chunk_size_out p) MSG_SET_CHUNK (msg_stream_id p) (set_be32 n) 0 CHUNK_NETWORK, chunk_size_out := unat n\<rparr>, srv))"
proof (rule send_rtmp_wire [of CHUNK_NETWORK p MSG_SET_CHUNK "msg_stream_id p" "set_be32 n" 0])
  fix b
  assume s: "send_rtmp MSG_SET_CHUNK (msg_stream_id p) (set_be32 n) 0 CHUNK_NETWORK p
    = (Inr (), p\<lparr>bytes_sent := b, sent := sent p @ wire (chunk_size_out p) MSG_SET_CHUNK (msg_stream_id p) (set_be32 n) 0 CHUNK_NETWORK\<rparr>)"
  show thesis
    by (rule that [of b], cases p) (use s in \<open>simp add: on_chunk_state_def set_chunk_size_def ebind_def\<close>)
qed (use assms in \<open>simp_all add: can_send_def CHUNK_NETWORK_def\<close>)

lemma network_message_exec:
  assumes "can_send p" "\<And>c :: rtmp_protocol. m c = send_rtmp t (msg_stream_id c) data 0 CHUNK_NETWORK c"
  obtains b where "on_chunk_state m (p, srv) = (Inr (), (p\<lparr>bytes_sent := b,
    sent := sent p @ wire (chunk_size_out p) t (msg_stream_id p) data 0 CHUNK_NETWORK\<rparr>, srv))"
proof (rule send_rtmp_wire [of CHUNK_NETWORK p t "msg_stream_id p" data 0])
  fix b
  assume "send_rtmp t (msg_stream_id p) data 0 CHUNK_NETWORK p
    = (Inr (), p\<lparr>bytes_sent := b, sent := sent p @ wire (chunk_size_out p) t (msg_stream_id p) data 0 CHUNK_NETWORK\<rparr>)"
  then show thesis
    by (intro that [of b]) (simp add: on_chunk_state_def assms(2))
qed (use assms in \<open>simp_all add: can_send_def CHUNK_NETWORK_def\<close>)

text \<open>What the server sends after C2: it will send chunks of 4096 bytes, has received 102400 bytes
  and limits the peer to as many.\<close>

definition control_messages :: "nat \<Rightarrow> u32 \<Rightarrow> bytes" where
  "control_messages n sid = wire n MSG_SET_CHUNK sid (set_be32 4096) 0 CHUNK_NETWORK
     @ wire 4096 MSG_ACK sid (set_be32 102400) 0 CHUNK_NETWORK
     @ wire 4096 MSG_SET_PEER_BW sid (set_be32 102400 @ [2]) 0 CHUNK_NETWORK"

lemma handle_C2_exec:
  assumes "can_send p" "length c2 = 1536"
  shows "\<exists>p'. handle_C2 cbs c2 (p, srv) = (Inr 1536, (p', srv)) \<and> next_step_func p' = Split \<and> can_send p'
    \<and> chunk_size_out p' = 4096 \<and> sent p' = sent p @ control_messages (chunk_size_out p) (msg_stream_id p)"
proof -
  let ?p1 = "p\<lparr>next_step_func := Split\<rparr>"
  have s1: "can_send ?p1"
    using assms(1) by simp
  obtain b where b: "on_chunk_state (set_chunk_size 4096) (?p1, srv) = (Inr (), (?p1\<lparr>bytes_sent := b,
    sent := sent ?p1 @ wire (chunk_size_out ?p1) MSG_SET_CHUNK (msg_stream_id ?p1) (set_be32 4096) 0 CHUNK_NETWORK,
    chunk_size_out := unat (4096 :: u32)\<rparr>, srv))" (is "_ = (_, (?p2, _))")
    by (rule set_chunk_size_exec [OF s1])
  have s2: "can_send ?p2"
    using assms(1) by (simp add: can_send_def)
  obtain b' where b': "on_chunk_state (send_acknowledgement 102400) (?p2, srv) = (Inr (), (?p2\<lparr>bytes_sent := b',
    sent := sent ?p2 @ wire (chunk_size_out ?p2) MSG_ACK (msg_stream_id ?p2) (set_be32 102400) 0 CHUNK_NETWORK\<rparr>, srv))"
    (is "_ = (_, (?p3, _))")
    by (rule network_message_exec [OF s2, of "send_acknowledgement 102400" MSG_ACK]) (rule send_acknowledgement_def)
  have s3: "can_send ?p3"
    using assms(1) by (simp add: can_send_def)
  obtain b'' where b'': "on_chunk_state (set_peer_bandwidth 102400) (?p3, srv) = (Inr (), (?p3\<lparr>bytes_sent := b'',
    sent := sent ?p3 @ wire (chunk_size_out ?p3) MSG_SET_PEER_BW (msg_stream_id ?p3) (set_be32 102400 @ [2]) 0 CHUNK_NETWORK\<rparr>, srv))"
    (is "_ = (_, (?p4, _))")
    by (rule network_message_exec [OF s3, of "set_peer_bandwidth 102400" MSG_SET_PEER_BW]) (rule set_peer_bandwidth_def)
  have st: "on_protocol (\<lambda>p. p\<lparr>next_step_func := Split\<rparr>) (p, srv) = (Inr (), (?p1, srv))"
    by (simp add: on_protocol_def)
  have "handle_C2 cbs c2 (p, srv) = (Inr 1536, (?p4, srv))"
    using assms(2) b b' b'' st by (simp add: handle_C2_def ebind_def kC1HandshakeSize_def split_rtmp.simps)
  then show ?thesis
    using assms(1) by (simp add: control_messages_def can_send_def)
qed

text \<open>C8: the handshake. Up to 1536 bytes C0 and C1 wait for more and nothing changes; another version than 3
  throws before anything is sent. Then S0, S1 and the peer's C1 as S2 are sent, C2 is waited for, and
  its 1536 bytes, whatever they are, are answered with the three control messages; the connection then
  reads chunks, and sends chunks of 4096 bytes. Nothing of the server changes.\<close>

theorem handshake:
  assumes "can_send p" "next_step_func p = C0C1" "length c1 = 1536" "length c2 = 1536" "0 < length junk" "length junk < 1536"
    and "v \<noteq> 3"
  shows "run_step cbs rand (3 # junk) (p, srv) = (Inr 0, (p, srv))
    \<and> run_step cbs rand (v # c1) (p, srv) = (Inl (Runtime_error ''only version 3 is supported!''), (p, srv))
    \<and> (\<exists>p1 p2. run_step cbs rand (3 # c1) (p, srv) = (Inr 1537, (p1, srv)) \<and> sent p1 = sent p @ 3 # rtmp_handshake rand @ c1
      \<and> run_step cbs rand junk (p1, srv) = (Inr 0, (p1, srv))
      \<and> run_step cbs rand c2 (p1, srv) = (Inr 1536, (p2, srv)) \<and> next_step_func p2 = Split \<and> can_send p2
      \<and> chunk_size_out p2 = 4096 \<and> sent p2 = sent p1 @ control_messages (chunk_size_out p) (msg_stream_id p))"
proof -
  let ?p1 = "p\<lparr>sent := sent p @ 3 # rtmp_handshake rand @ c1, next_step_func := C2\<rparr>"
  have first: "run_step cbs rand data (p, srv) = handle_C0C1 rand data (p, srv)" for data
    using assms(2) by (simp add: run_step_def reading_def ebind_def)
  have second: "run_step cbs rand data (?p1, srv) = handle_C2 cbs data (?p1, srv)" for data
    by (simp add: run_step_def reading_def ebind_def)
  have "handle_C0C1 rand (3 # c1) (p, srv) = (Inr 1537, (?p1, srv))"
    using assms(3) by (simp add: handle_C0C1_def kC1HandshakeSize_def ebind_def sending_raw_def on_protocol_def send_bytes_def)
  moreover have "handle_C0C1 rand (v # c1) (p, srv) = (Inl (Runtime_error ''only version 3 is supported!''), (p, srv))"
    "handle_C0C1 rand (3 # junk) (p, srv) = (Inr 0, (p, srv))" "handle_C2 cbs junk (?p1, srv) = (Inr 0, (?p1, srv))"
    using assms(3,6,7) by (simp_all add: handle_C0C1_def handle_C2_def kC1HandshakeSize_def)
  moreover obtain p2 where "handle_C2 cbs c2 (?p1, srv) = (Inr 1536, (p2, srv))" "next_step_func p2 = Split" "can_send p2"
    "chunk_size_out p2 = 4096" "sent p2 = sent ?p1 @ control_messages (chunk_size_out p) (msg_stream_id p)"
    using handle_C2_exec [of ?p1 c2 cbs srv] assms(1,4) by auto
  ultimately show ?thesis
    unfolding first by (intro conjI exI [of _ ?p1] exI [of _ p2]) (simp_all only: second, simp_all)
qed

theorem handshake_witness:
  "fst (run_step flv_cbs (\<lambda>_. 0) (3 # replicate 1536 7) (new_rtmp_protocol 3, sample_room)) = Inr 1537"
  using handshake [of "new_rtmp_protocol 3" "replicate 1536 7" "replicate 1536 7" "[1]" 4 flv_cbs "\<lambda>_. 0" sample_room]
  by (auto simp: new_rtmp_protocol_def can_send_def kDefaultChunkLength_def)

section \<open>From the publisher's bytes to the clients' bytes\<close>

lemma on_av_exec:
  assumes "rtmp_source_ptr p = Some i" "src_ownership p = Some o'" "msg_type_id pkt = Some t" "t = MSG_AUDIO \<or> t = MSG_VIDEO"
  shows "\<exists>t1 t2 n. handle_chunk cbs pkt (p, srv)
    = (case process_av_packet cbs t1 t2 i pkt (srv\<lparr>clock_reads := n\<rparr>) of (r, srv') \<Rightarrow> (r, (p, srv')))"
proof -
  have "handle_chunk cbs pkt (p, srv) = on_av cbs pkt (p, srv)"
    using assms(3,4) by (auto simp: handle_chunk_def ebind_def msg_defs)
  then have "handle_chunk cbs pkt (p, srv) = (case process_av_packet cbs (clock_at srv (clock_reads srv))
      (clock_at srv (Suc (clock_reads srv))) i pkt (srv\<lparr>clock_reads := Suc (Suc (clock_reads srv))\<rparr>) of (r, srv') \<Rightarrow> (r, (p, srv')))"
    using assms(1,2) by (simp add: on_av_def reading_def ebind_def on_server_def tick_def)
  then show ?thesis
    by blast
qed

definition accepts :: "demuxer \<Rightarrow> u8 \<Rightarrow> u32 \<Rightarrow> bytes \<Rightarrow> bool" where
  "accepts dm t ts data \<longleftrightarrow> (\<forall>pkt. pkt_ok pkt \<and> msg_type_id pkt = Some t \<and> time_stamp pkt = Some ts \<and> payload pkt = data
     \<longrightarrow> fst (demuxer_input_rtmp pkt dm) = Inr ())"

lemma av_classified:
  assumes "pkt_ok pkt" "msg_type_id pkt = Some t" "t = MSG_AUDIO \<or> t = MSG_VIDEO" "2 \<le> length (payload pkt)"
  obtains config key where "is_config_frame pkt = Inr config" "is_video_keyframe pkt = Inr key"
proof -
  obtain h x r where d: "payload pkt = h # x # r"
    using assms(4) by (cases "payload pkt" rule: remdups_adj.cases) auto
  show thesis
  proof (cases "t = MSG_VIDEO")
    case True
    then show thesis
      using that is_config_frame_video [OF assms(1) _ d] is_video_keyframe_eq [OF assms(1) _ d] assms(2) by blast
  next
    case False
    then have "is_video_keyframe pkt = Inr False" "t = MSG_AUDIO"
      using assms(2,3) by (simp_all add: is_video_keyframe_def)
    then show thesis
      using that is_config_frame_audio [OF assms(1) _ d] assms(2) by blast
  qed
qed


definition streaming_publisher :: rtmp_protocol where
  "streaming_publisher = sample_publisher\<lparr>src_ownership := Some 5, rtmp_source_ptr := Some 5\<rparr>"

lemma sample_accepts: "t = MSG_AUDIO \<or> t = MSG_VIDEO \<Longrightarrow> accepts (set_muxer new_demuxer) t ts data"
  by (auto simp: accepts_def demuxer_input_rtmp_def set_muxer_def new_demuxer_def Let_def msg_defs)


text \<open>C5: a publisher goes live. After \<open>publish\<close> of a free stream, metadata that initialises the tracks, and
  the first message that is no configuration, the stream is found in the registry with the new source,
  whatever the clients' callbacks do with the message; before that message it is not.\<close>

theorem publisher_goes_live:
  assumes "can_send p" "infos (media srv) a = Some m" "parse_stream name m = Inr m'" "is_complete m'"
    and "mi_schema m' = ''RTMP''" "look_up (registry (media srv)) (media_key m') = None"
    and "src_ownership p = None" "rtmp_source_ptr p = None" "metas srv (session p) = Some md"
    and "init_tracks_with_metadata (Some md) (set_muxer new_demuxer) = (Inr (), (md', dm))"
    and "pkt_ok pkt" "msg_type_id pkt = Some t" "t = MSG_AUDIO \<or> t = MSG_VIDEO" "time_stamp pkt = Some ts"
    and "fst (demuxer_input_rtmp pkt dm) = Inr ()" "is_config_frame pkt = Inr False"
  shows "\<exists>p1 srv1 srv2 srv3 r. publish_stream cbs a name (p, srv) = (Inr (), (p1, srv1))
    \<and> init_tracks cbs (next_source srv) (session p) srv1 = (Inr (), srv2) \<and> handle_chunk cbs pkt (p1, srv2) = (r, (p1, srv3))
    \<and> look_up (registry (media srv2)) (media_key m') = None
    \<and> look_up (registry (media srv3)) (media_key m') = Some (next_source srv)"
proof -
  let ?i = "next_source srv" and ?n = "clock_reads srv"
  let ?srv0 = "srv\<lparr>media := (media srv)\<lparr>infos := (infos (media srv))(a \<mapsto> m')\<rparr>\<rparr>"
  let ?p = "p\<lparr>src_ownership := Some ?i, rtmp_source_ptr := Some ?i\<rparr>"
  let ?s = "(new_rtmp_source (clock_at srv ?n) (clock_at srv (?n + 1)) a)\<lparr>owned := True\<rparr>"
  let ?srv1 = "hold_source ?i (with_new_source a ?srv0)"
  let ?s2 = "?s\<lparr>src_demuxer := dm, meta_data := Some (session p), src_dispatcher := Some (create_dispatcher kMaxPacketCacheSize)\<rparr>"
  obtain b where run: "publish_stream cbs a name (p, srv) = (Inr (), (?p\<lparr>bytes_sent := b, sent := sent ?p @ status_wire started_status ?p\<rparr>, ?srv1))"
    by (rule publish_stream_new [OF assms(1-6), of cbs]) (use assms(7,8) in \<open>simp add: give_up_def Let_def\<close>)
  have s1: "sources (media ?srv1) ?i = Some ?s" "metas ?srv1 (session p) = Some md" "infos (media ?srv1) a = Some m'"
    "registry (media ?srv1) = registry (media srv)"
    using assms(9) by (simp_all add: hold_source_def with_new_source_def Let_def)
  let ?srv2 = "snd (init_tracks cbs ?i (session p) ?srv1)"
  have init: "init_tracks cbs ?i (session p) ?srv1 = (Inr (), ?srv2)"
    and s2: "sources (media ?srv2) ?i = Some ?s2" "infos (media ?srv2) a = Some m'" "registry (media ?srv2) = registry (media srv)"
    using s1 assms(10) by (simp_all add: init_tracks_def the_source_def new_rtmp_source_def Let_def)
  let ?q = "?p\<lparr>bytes_sent := b, sent := sent ?p @ status_wire started_status ?p\<rparr>"
  have own: "rtmp_source_ptr ?q = Some ?i" "src_ownership ?q = Some ?i"
    by simp_all
  obtain t1 t2 n where av: "handle_chunk cbs pkt (?q, ?srv2)
      = (case process_av_packet cbs t1 t2 ?i pkt (?srv2\<lparr>clock_reads := n\<rparr>) of (r, srv') \<Rightarrow> (r, (?q, srv')))"
    using on_av_exec [OF own assms(12,13)] by blast
  obtain r srv3 where p3: "process_av_packet cbs t1 t2 ?i pkt (?srv2\<lparr>clock_reads := n\<rparr>) = (r, srv3)"
    by (metis surj_pair)
  have "sources (media (?srv2\<lparr>clock_reads := n\<rparr>)) ?i = Some ?s2" "\<not> is_registered ?s2" "src_dispatcher ?s2 \<noteq> None"
    "fst (demuxer_input_rtmp pkt (src_demuxer ?s2)) = Inr ()" "key_of (media (?srv2\<lparr>clock_reads := n\<rparr>)) ?i = Some (media_key m')"
    using s2 assms(15) by (simp_all add: new_rtmp_source_def key_of_def)
  note first_packet_registers_aux [OF this(1-3) assms(11-14) this(4) assms(16) this(5) p3]
  then have "look_up (registry (media srv3)) (media_key m') = Some ?i"
    using s2(3) assms(6) by simp
  moreover have "handle_chunk cbs pkt (?q, ?srv2) = (r, (?q, srv3))"
    using av p3 by simp
  moreover have "look_up (registry (media ?srv2)) (media_key m') = None"
    using s2(3) assms(6) by simp
  ultimately show ?thesis
    using run init by blast
qed

definition sample_metadata :: metadata where
  "sample_metadata = map (\<lambda>k. (k, if k = ''stereo'' then AnyBool False else AnyDouble (int_to_double 0)))
     [''duration'', ''audiosamplerate'', ''audiosamplesize'', ''stereo'', ''videocodecid'', ''audiocodecid'',
      ''audiodatarate'', ''videodatarate'']"

theorem publisher_goes_live_witness:
  "\<exists>p1 srv1 srv2 srv3. publish_stream flv_cbs 1 ''t?vhost=a&token=x'' (sample_publisher, sample_room\<lparr>metas := [3 \<mapsto> sample_metadata]\<rparr>)
      = (Inr (), (p1, srv1)) \<and> init_tracks flv_cbs 6 3 srv1 = (Inr (), srv2)
    \<and> snd (handle_chunk flv_cbs sample_audio (p1, srv2)) = (p1, srv3)
    \<and> look_up (registry (media srv3)) (media_key (room_info ''t'')) = Some 6"
proof -
  let ?srv = "sample_room\<lparr>metas := [3 \<mapsto> sample_metadata]\<rparr>"
  have "init_tracks_with_metadata (Some sample_metadata) (set_muxer new_demuxer) = (Inr (), (Some sample_metadata, set_muxer new_demuxer))"
    by (simp add: init_tracks_with_metadata_def sample_metadata_def any_double_def any_int_def any_bool_def meta_at_def ebind_def double_to_int_of_int
        set_muxer_def new_demuxer_def Let_def)
      (simp add: int_to_double_def)
  moreover have session: "session sample_publisher = 3"
    by (simp add: sample_publisher_def new_rtmp_protocol_def)
  moreover have sample_accept: "fst (demuxer_input_rtmp sample_audio (set_muxer new_demuxer)) = Inr ()"
    using sample_accepts [of MSG_AUDIO 40 "[0xAF, 1, 2]"] sample_audio by (simp add: accepts_def)
  ultimately show ?thesis
    using publisher_goes_live [of sample_publisher ?srv 1 _ "''t?vhost=a&token=x''" "room_info ''t''" sample_metadata _ _ sample_audio MSG_AUDIO 40 flv_cbs]
      sample_publisher sample_room room_info sample_audio session sample_accept by (simp) (metis snd_conv)
qed

end
