(* ===== verification/Http_Flv_Header.thy ===== *)
theory Http_Flv_Header
  imports Media_Info
begin

text \<open>
  \<open>include/protocol/http/http_flv_header.h\<close> and \<open>src/protocol/http/http_flv_header.cpp\<close>:
  what the request line of a client that pulls a stream says. The request is a string; an object that
  could not be built is an exception. \<open>pull_request\<close> is the request a player sends, the reference
  for the parser.
\<close>

section \<open>Numbers in text\<close>

text \<open>
  \<open>std::stoul\<close> in base 10: white space, a sign, digits; what follows is ignored. A minus sign
  negates in the arithmetic of \<open>unsigned long\<close>.
\<close>

definition is_space :: "char \<Rightarrow> bool" where
  "is_space c \<longleftrightarrow> c = CHR '' '' \<or> (let n = (of_char c :: nat) in 9 \<le> n \<and> n \<le> 13)"

definition stoul :: "string \<Rightarrow> u64 res" where
  "stoul s =
     (let s = dropWhile is_space s;
          negative = (s \<noteq> [] \<and> hd s = CHR ''-'');
          s = (if s \<noteq> [] \<and> (hd s = CHR ''-'' \<or> hd s = CHR ''+'') then tl s else s);
          ds = takeWhile is_digit s
      in if ds = [] then Inl (Invalid_argument ''stoul'')
         else if 2 ^ 64 \<le> digits_value ds then Inl (Out_of_range ''stoul'')
         else Inr (if negative then - word_of_nat (digits_value ds) else word_of_nat (digits_value ds)))"

section \<open>The header\<close>

datatype http_method = GET | POST | INVALID

record http_flv_header =
  hd_method :: http_method
  hd_app :: string
  hd_stream_id :: string
  hd_vhost :: string
  hd_token :: string
  hd_is_flv :: bool
  hd_start_pts :: u32
  hd_info :: string

definition kGET_Method :: string where "kGET_Method = ''GET''"
definition kFlv :: string where "kFlv = ''.flv''"
definition kStart_Pts :: string where "kStart_Pts = ''startpts=''"

definition header_info :: "http_flv_header \<Rightarrow> string \<times> http_flv_header" where
  "header_info h = (let i = (if hd_info h = [] then hd_app h @ ''|'' @ hd_vhost h @ ''|'' @ hd_stream_id h else hd_info h)
     in (i, h\<lparr>hd_info := i\<rparr>))"

text \<open>The result: whether the labels were found, where the end label starts, what lies between them.\<close>

definition extract_param :: "string \<Rightarrow> string \<Rightarrow> string \<Rightarrow> nat option \<Rightarrow> nat \<Rightarrow> string option \<Rightarrow> bool \<Rightarrow> (bool \<times> nat option \<times> string) res" where
  "extract_param str start_label end_label offset step_size optional_end_label fail =
     (if str = [] \<or> step_size = 0 then Inl (Runtime_error ''params cannot be empty in extract_param()'')
      else let
        failed = (if fail then Inl (Invalid_argument ''cannot find end_label'') else Inr (False, None, []))
      in case str_find start_label str offset of
        None \<Rightarrow> failed
      | Some label_index \<Rightarrow> let
          start_index = label_index + step_size;
          success = (\<lambda>end_index. Inr (True, Some end_index, str_between str start_index (Some end_index)))
        in case str_find end_label str (Some start_index) of
          Some end_index \<Rightarrow> success end_index
        | None \<Rightarrow> (case optional_end_label of
            None \<Rightarrow> failed
          | Some label2 \<Rightarrow> (case str_find label2 str (Some start_index) of
              Some end_index \<Rightarrow> success end_index
            | None \<Rightarrow> failed)))"

definition extract_streaming_info :: "string \<Rightarrow> http_flv_header res" where
  "extract_streaming_info temp =
     (if temp = [] then Inl (Runtime_error ''cannot extract streaming info from empty http header'')
      else case str_find '' '' temp (Some 0) of
        None \<Rightarrow> Inl (Invalid_argument ''cannot find http method'')
      | Some start_index \<Rightarrow> let
          the_method = (if str_between temp 0 (Some start_index) = kGET_Method then GET else INVALID)
        in res_bind (extract_param temp ''/'' ''/'' (Some start_index) 1 None True) (\<lambda>(_, offset, the_app).
           res_bind (extract_param temp ''/'' kFlv offset 1 None True) (\<lambda>(_, offset, the_stream).
           res_bind (extract_param temp kVhostParam ''&'' offset (length kVhostParam) None True) (\<lambda>(_, offset, the_vhost).
           res_bind (extract_param temp kTokenParam ''&'' offset (length kVhostParam) (Some '' '') True) (\<lambda>(_, offset, the_token).
           res_bind (extract_param temp kStart_Pts '' '' offset (length kStart_Pts) (Some ''&'') False) (\<lambda>(is_found, _, param).
           res_bind (if is_found then res_bind (stoul param) (\<lambda>n. Inr (ucast n)) else Inr 0) (\<lambda>pts.
           Inr \<lparr>hd_method = the_method, hd_app = the_app, hd_stream_id = the_stream, hd_vhost = the_vhost,
             hd_token = the_token, hd_is_flv = True, hd_start_pts = pts, hd_info = []\<rparr>)))))))"

definition header_build :: "bytes \<Rightarrow> http_flv_header res" where
  "header_build data = (if data = [] then Inl (Runtime_error ''http header is invalid'')
     else extract_streaming_info (str_of_bytes data))"

section \<open>Numbers read back\<close>

lemma digit_no_sign: "is_digit c \<Longrightarrow> \<not> is_space c \<and> c \<noteq> CHR ''-'' \<and> c \<noteq> CHR ''+'' \<and> c \<noteq> CHR '' '' \<and> c \<noteq> CHR ''&''"
  by (auto simp: is_digit_def is_space_def Let_def)

lemma stoul_to_string:
  assumes "n < 2 ^ 64"
  shows "stoul (to_string_nat n) = Inr (word_of_nat n)"
proof -
  obtain c r where s: "to_string_nat n = c # r"
    by (cases "to_string_nat n") auto
  have c: "is_digit c" and all: "takeWhile is_digit (c # r) = c # r"
    using to_string_digits [of n] unfolding s by (simp_all add: takeWhile_eq_all_conv)
  have v: "digits_value (c # r) = n"
    using digits_value_to_string [of n] s by simp
  show ?thesis
    using digit_no_sign [OF c] all v assms unfolding s by (simp add: stoul_def Let_def)
qed

section \<open>A request read back\<close>

text \<open>The label after what precedes it, and the end label after the value.\<close>

lemma extract_param_found:
  assumes "str = pre @ mid @ lab @ val @ fin @ post" "lab \<noteq> []"
    and "find_first lab (mid @ lab @ val @ fin @ post) = Some (length mid)"
    and "find_first fin (val @ fin @ post) = Some (length val)"
  shows "extract_param str lab fin (Some (length pre)) (length lab) opt fail = Inr (True, Some (length (pre @ mid @ lab @ val)), val)"
proof -
  have d: "drop (length pre) str = mid @ lab @ val @ fin @ post" "drop (length (pre @ mid @ lab)) str = val @ fin @ post"
    by (simp_all add: assms(1))
  have "str_find lab str (Some (length pre)) = Some (length pre + length mid)"
    using str_find_here [of "length pre" str lab "length mid"] assms(1,3) d(1) by simp
  moreover have "str_find fin str (Some (length (pre @ mid @ lab))) = Some (length (pre @ mid @ lab) + length val)"
    using str_find_here [of "length (pre @ mid @ lab)" str fin "length val"] assms(1,4) d(2) by simp
  moreover have "str_between str (length (pre @ mid @ lab)) (Some (length (pre @ mid @ lab) + length val)) = val"
    unfolding str_between_def option.case d(2) by simp
  ultimately show ?thesis
    using assms(1,2) by (simp add: extract_param_def Let_def add.assoc)
qed

text \<open>The request a player sends: application, stream, virtual host, token and maybe a time to start at.\<close>

fun pts_param :: "nat option \<Rightarrow> string" where
  "pts_param None = []"
| "pts_param (Some n) = ''&startpts='' @ to_string_nat n"

definition pull_request :: "string \<Rightarrow> string \<Rightarrow> string \<Rightarrow> string \<Rightarrow> nat option \<Rightarrow> string \<Rightarrow> string" where
  "pull_request app sid vhost token pts rest = ''GET /'' @ app @ ''/'' @ sid @ ''.flv?vhost='' @ vhost @ ''&token='' @ token
     @ pts_param pts @ '' '' @ rest"

fun pts_fits :: "nat option \<Rightarrow> string \<Rightarrow> string \<Rightarrow> bool" where
  "pts_fits None token rest \<longleftrightarrow> CHR '' '' \<notin> set token \<and> find_first kStart_Pts rest = None"
| "pts_fits (Some n) token rest \<longleftrightarrow> n < 2 ^ 32"

text \<open>
  The token that is read. Without a time to start at, the parser looks for the next ampersand in all of the request,
  the header lines included, before it is content with the blank behind the token.
\<close>

fun token_read :: "nat option \<Rightarrow> string \<Rightarrow> string \<Rightarrow> string" where
  "token_read (Some n) token rest = token"
| "token_read None token rest = (if CHR ''&'' \<in> set rest then token @ '' '' @ takeWhile (\<lambda>c. c \<noteq> CHR ''&'') rest else token)"

lemma find_first_suffix: "find_first pat (a @ s) = None \<Longrightarrow> find_first pat s = None"
  by (induction a) (auto split: if_splits)

lemma label_lengths: "length kVhostParam = length kTokenParam"
  by (simp add: kVhostParam_def kTokenParam_def)

text \<open>The token without a time to start at ends at the first blank, if no ampersand follows.\<close>

lemma extract_param_optional:
  assumes "str = pre @ mid @ lab @ val @ fin @ post" "lab \<noteq> []"
    and "find_first lab (mid @ lab @ val @ fin @ post) = Some (length mid)"
    and "find_first lab2 (val @ fin @ post) = None" "find_first fin (val @ fin @ post) = Some (length val)"
  shows "extract_param str lab lab2 (Some (length pre)) (length lab) (Some fin) fail = Inr (True, Some (length (pre @ mid @ lab @ val)), val)"
proof -
  have d: "drop (length pre) str = mid @ lab @ val @ fin @ post" "drop (length (pre @ mid @ lab)) str = val @ fin @ post"
    by (simp_all add: assms(1))
  have "str_find lab str (Some (length pre)) = Some (length pre + length mid)"
    using str_find_here [of "length pre" str lab "length mid"] assms(1,3) d(1) by simp
  moreover have "str_find fin str (Some (length (pre @ mid @ lab))) = Some (length (pre @ mid @ lab) + length val)"
    using str_find_here [of "length (pre @ mid @ lab)" str fin "length val"] assms(1,5) d(2) by simp
  moreover have "str_find lab2 str (Some (length (pre @ mid @ lab))) = None"
    unfolding str_find_def option.case d(2) using assms(4) by simp
  moreover have "str_between str (length (pre @ mid @ lab)) (Some (length (pre @ mid @ lab) + length val)) = val"
    unfolding str_between_def option.case d(2) by simp
  ultimately show ?thesis
    using assms(1,2) by (simp add: extract_param_def Let_def add.assoc)
qed

lemma extract_param_missing:
  assumes "str = pre @ post" "str \<noteq> []" "step \<noteq> 0" "find_first lab post = None"
  shows "extract_param str lab fin (Some (length pre)) step opt False = Inr (False, None, [])"
  using assms by (simp add: extract_param_def str_find_def Let_def)

text \<open>Everything up to the token.\<close>

lemma request_parts:
  assumes "CHR ''/'' \<notin> set app" "CHR ''.'' \<notin> set sid" "CHR ''&'' \<notin> set vhost"
    and "s = ''GET /'' @ app @ ''/'' @ sid @ ''.flv?vhost='' @ vhost @ ''&token='' @ r"
    and "p = ''GET /'' @ app @ ''/'' @ sid @ ''.flv?vhost='' @ vhost"
  shows "extract_streaming_info s =
    res_bind (extract_param s kTokenParam ''&'' (Some (length p)) (length kTokenParam) (Some '' '') True) (\<lambda>(_, offset, the_token).
    res_bind (extract_param s kStart_Pts '' '' offset (length kStart_Pts) (Some ''&'') False) (\<lambda>(is_found, _, param).
    res_bind (if is_found then res_bind (stoul param) (\<lambda>n. Inr (ucast n)) else Inr 0) (\<lambda>pts.
    Inr \<lparr>hd_method = GET, hd_app = app, hd_stream_id = sid, hd_vhost = vhost, hd_token = the_token, hd_is_flv = True,
      hd_start_pts = pts, hd_info = []\<rparr>)))"
proof -
  let ?v = "''.flv?vhost='' @ vhost @ ''&token='' @ r"
  let ?p1 = "''GET /'' @ app" and ?p2 = "''GET /'' @ app @ ''/'' @ sid"
  have ne: "s \<noteq> []"
    by (simp add: assms(4))
  have m: "str_find '' '' s (Some 0) = Some 3" "str_between s 0 (Some 3) = ''GET''"
    by (simp_all add: assms(4) str_find_def str_between_def)
  have a: "extract_param s ''/'' ''/'' (Some 3) 1 None True = Inr (True, Some (length ?p1), app)"
    using extract_param_found [where str = s and pre = "''GET''" and mid = "'' ''" and lab = "''/''" and val = app and fin = "''/''"
        and post = "sid @ ?v" and opt = None and fail = True] assms(1) find_first_char [OF assms(1)]
    by (simp add: assms(4) numeral_3_eq_3)
  have b: "extract_param s ''/'' kFlv (Some (length ?p1)) 1 None True = Inr (True, Some (length ?p2), sid)"
    using extract_param_found [where str = s and pre = ?p1 and mid = "[]" and lab = "''/''" and val = sid and fin = kFlv
        and post = "''?vhost='' @ vhost @ ''&token='' @ r" and opt = None and fail = True] assms(2)
      find_first_skip [of kFlv sid "''?vhost='' @ vhost @ ''&token='' @ r"]
    by (simp add: assms(4) kFlv_def)
  have c: "extract_param s kVhostParam ''&'' (Some (length ?p2)) (length kVhostParam) None True = Inr (True, Some (length p), vhost)"
    using extract_param_found [where str = s and pre = ?p2 and mid = "''.flv?''" and lab = kVhostParam and val = vhost and fin = "''&''"
        and post = "''token='' @ r" and opt = None and fail = True] find_first_char [OF assms(3)]
      find_first_here [of kVhostParam "vhost @ ''&token='' @ r"]
    by (simp add: assms(4,5) kVhostParam_def)
  show ?thesis
    using ne m a b c by (simp add: extract_streaming_info_def label_lengths kGET_Method_def Let_def)
qed

lemma token_label: "find_first kTokenParam (CHR ''&'' # kTokenParam @ r) = Some 1"
  using find_first_here [of kTokenParam r] by (simp add: kTokenParam_def find_first_next)

text \<open>Without a time to start at.\<close>

lemma no_start_pts:
  assumes "s = p @ post" "s \<noteq> []" "find_first kStart_Pts post = None"
  shows "extract_param s kStart_Pts '' '' (Some (length p)) (length kStart_Pts) (Some ''&'') False = Inr (False, None, [])"
  by (rule extract_param_missing [OF assms(1,2) _ assms(3)]) (simp add: kStart_Pts_def)

text \<open>The token and what follows it, without and with a time to start at.\<close>

definition token_taken :: "string \<Rightarrow> string \<Rightarrow> string \<Rightarrow> bool" where
  "token_taken s p val \<longleftrightarrow> extract_param s kTokenParam ''&'' (Some (length p)) (length kTokenParam) (Some '' '') True
     = Inr (True, Some (length (p @ ''&'' @ kTokenParam @ val)), val)"

lemma token_to_ampersand:
  assumes "s = p @ ''&'' @ kTokenParam @ val @ ''&'' @ post" "CHR ''&'' \<notin> set val"
  shows "token_taken s p val"
  using extract_param_found [where pre = p and mid = "''&''" and lab = kTokenParam and val = val and fin = "''&''"
      and post = post and str = s and opt = "Some '' ''" and fail = True] assms(1) token_label find_first_char [OF assms(2)]
  by (simp add: token_taken_def kTokenParam_def)

lemma token_to_blank:
  assumes "s = p @ ''&'' @ kTokenParam @ val @ '' '' @ rest" "CHR '' '' \<notin> set val" "CHR ''&'' \<notin> set (val @ '' '' @ rest)"
  shows "token_taken s p val"
proof -
  have "find_first ''&'' (val @ '' '' @ rest) = None"
    using assms(3) by (intro find_first_char_None)
  then show ?thesis
    using extract_param_optional [where pre = p and mid = "''&''" and lab = kTokenParam and val = val and fin = "'' ''" and post = rest
        and str = s and ?lab2.0 = "''&''" and fail = True] assms(1) token_label find_first_char [OF assms(2)]
    by (simp add: token_taken_def kTokenParam_def)
qed

lemma ampersand_split:
  assumes "CHR ''&'' \<in> set rest"
  obtains post where "rest = takeWhile (\<lambda>c. c \<noteq> CHR ''&'') rest @ ''&'' @ post"
proof -
  obtain c post where c: "dropWhile (\<lambda>c. c \<noteq> CHR ''&'') rest = c # post"
    using assms by (cases "dropWhile (\<lambda>c. c \<noteq> CHR ''&'') rest") (auto simp: dropWhile_eq_Nil_conv)
  then have "c = CHR ''&''"
    by (simp add: dropWhile_eq_Cons_conv)
  then have "rest = takeWhile (\<lambda>c. c \<noteq> CHR ''&'') rest @ ''&'' @ post"
    using c takeWhile_dropWhile_id [of "\<lambda>c. c \<noteq> CHR ''&''" rest] by simp
  then show thesis
    by (rule that)
qed

lemma request_without_pts:
  assumes "s = p @ ''&'' @ kTokenParam @ token @ '' '' @ rest" "CHR ''&'' \<notin> set token" "pts_fits None token rest"
  obtains post where "token_taken s p (token_read None token rest)"
    and "s = (p @ ''&'' @ kTokenParam @ token_read None token rest) @ post" "find_first kStart_Pts post = None"
proof (cases "CHR ''&'' \<in> set rest")
  case False
  have "find_first kStart_Pts ('' '' @ rest) = None"
    using assms(3) by (simp add: kStart_Pts_def)
  then show thesis
    using that [of "'' '' @ rest"] token_to_blank [OF assms(1)] assms False by simp
next
  case True
  let ?junk = "takeWhile (\<lambda>c. c \<noteq> CHR ''&'') rest"
  obtain post where "rest = ?junk @ ''&'' @ post"
    using ampersand_split [OF True] .
  then obtain junk where rest: "rest = junk @ ''&'' @ post" "junk = ?junk"
    by blast
  have amp: "CHR ''&'' \<notin> set (token @ '' '' @ junk)"
    using assms(2) set_takeWhileD [of _ "\<lambda>c. c \<noteq> CHR ''&''" rest] rest(2) by auto
  have val: "token_read None token rest = token @ '' '' @ junk"
    using True rest(2) by simp
  have "find_first kStart_Pts (''&'' @ post) = None"
    using assms(3) find_first_suffix [of kStart_Pts junk "''&'' @ post"] rest(1) by simp
  moreover have "s = p @ ''&'' @ kTokenParam @ (token @ '' '' @ junk) @ ''&'' @ post"
    using assms(1) by (simp add: rest(1))
  ultimately show thesis
    using that [of "''&'' @ post"] token_to_ampersand [OF _ amp] unfolding val by simp
qed

lemma pts_taken:
  assumes "s = p4 @ ''&'' @ kStart_Pts @ to_string_nat n @ '' '' @ rest"
  obtains off where "extract_param s kStart_Pts '' '' (Some (length p4)) (length kStart_Pts) (Some ''&'') False = Inr (True, off, to_string_nat n)"
proof -
  have blank: "CHR '' '' \<notin> set (to_string_nat n)"
    using to_string_digits digit_no_sign by blast
  have "find_first kStart_Pts (CHR ''&'' # kStart_Pts @ to_string_nat n @ '' '' @ rest) = Some 1"
    using find_first_here [of kStart_Pts "to_string_nat n @ '' '' @ rest"] by (simp add: kStart_Pts_def find_first_next)
  then show thesis
    using that extract_param_found [where pre = p4 and mid = "''&''" and lab = kStart_Pts and val = "to_string_nat n" and fin = "'' ''"
        and post = rest and str = s and opt = "Some ''&''" and fail = False] assms find_first_char [OF blank, of rest]
    by (auto simp: kStart_Pts_def)
qed

lemma request_parsed:
  assumes "CHR ''/'' \<notin> set app" "CHR ''.'' \<notin> set sid" "CHR ''&'' \<notin> set vhost" "CHR ''&'' \<notin> set token"
    and "pts_fits pts token rest"
  shows "extract_streaming_info (pull_request app sid vhost token pts rest) = Inr \<lparr>hd_method = GET, hd_app = app, hd_stream_id = sid,
    hd_vhost = vhost, hd_token = token_read pts token rest, hd_is_flv = True,
    hd_start_pts = (case pts of None \<Rightarrow> 0 | Some n \<Rightarrow> word_of_nat n), hd_info = []\<rparr>"
proof -
  let ?s = "pull_request app sid vhost token pts rest"
  let ?tl = "pts_param pts @ '' '' @ rest"
  let ?p = "''GET /'' @ app @ ''/'' @ sid @ ''.flv?vhost='' @ vhost"
  let ?p4 = "?p @ ''&'' @ kTokenParam @ token_read pts token rest"
  have s: "?s = ?p @ ''&'' @ kTokenParam @ token @ ?tl" "?s \<noteq> []"
    and parts: "?s = ''GET /'' @ app @ ''/'' @ sid @ ''.flv?vhost='' @ vhost @ ''&token='' @ token @ ?tl"
    by (simp_all add: pull_request_def kTokenParam_def)
  have "token_taken ?s ?p (token_read pts token rest)
    \<and> (\<exists>is_found off param. extract_param ?s kStart_Pts '' '' (Some (length ?p4)) (length kStart_Pts) (Some ''&'') False = Inr (is_found, off, param)
      \<and> (if is_found then res_bind (stoul param) (\<lambda>n. Inr (ucast n)) else Inr 0) = Inr (case pts of None \<Rightarrow> (0 :: u32) | Some n \<Rightarrow> word_of_nat n))"
  proof (cases pts)
    case None
    obtain post where post: "token_taken ?s ?p (token_read None token rest)"
      "?s = (?p @ ''&'' @ kTokenParam @ token_read None token rest) @ post" "find_first kStart_Pts post = None"
      using request_without_pts [of ?s ?p token rest] s(1) assms(4,5) None by auto
    show ?thesis
      using None post(1) no_start_pts [OF post(2) s(2) post(3)] by (intro conjI exI [of _ False] exI [of _ None] exI [of _ "[]"]) simp_all
  next
    case (Some n)
    have p4: "?s = ?p4 @ ''&'' @ kStart_Pts @ to_string_nat n @ '' '' @ rest"
      using s(1) by (simp add: Some kStart_Pts_def)
    obtain off where "extract_param ?s kStart_Pts '' '' (Some (length ?p4)) (length kStart_Pts) (Some ''&'') False = Inr (True, off, to_string_nat n)"
      using pts_taken [OF p4] .
    moreover have "token_taken ?s ?p token"
      using token_to_ampersand [of ?s ?p token "''startpts='' @ to_string_nat n @ '' '' @ rest"] s(1) Some assms(4) by simp
    moreover have "ucast (word_of_nat n :: u64) = (word_of_nat n :: u32)"
      by (rule bit_word_eqI) (simp add: bit_simps)
    ultimately show ?thesis
      using Some assms(5) stoul_to_string [of n]
      by (intro conjI exI [of _ True] exI [of _ off] exI [of _ "to_string_nat n"]) simp_all
  qed
  then show ?thesis
    unfolding request_parts [OF assms(1-3) parts refl] token_taken_def by auto
qed

section \<open>Properties\<close>

text \<open>C11: a request of the form \<open>GET /app/stream.flv?vhost=..&token=..\<close>, with or without \<open>&startpts=..\<close>,
  followed by anything, is read back: application, stream and virtual host are what the player wrote, the time to
  start at is the number it gave, or 0 if it gave none and \<open>startpts=\<close> is nowhere in the rest of the request. The token
  is what the player wrote if it gave a time to start at or no ampersand follows in the rest of the request; with an
  ampersand there, in a later header line too, what is read as the token runs on to it.\<close>

theorem request_round_trip:
  assumes "CHR ''/'' \<notin> set app" "CHR ''.'' \<notin> set sid" "CHR ''&'' \<notin> set vhost" "CHR ''&'' \<notin> set token"
    and "pts_fits pts token rest"
  shows "header_build (bytes_of_str (pull_request app sid vhost token pts rest)) = Inr \<lparr>hd_method = GET, hd_app = app,
    hd_stream_id = sid, hd_vhost = vhost, hd_token = token_read pts token rest, hd_is_flv = True,
    hd_start_pts = (case pts of None \<Rightarrow> 0 | Some n \<Rightarrow> word_of_nat n), hd_info = []\<rparr>"
proof -
  have "bytes_of_str (pull_request app sid vhost token pts rest) \<noteq> []"
    by (simp add: pull_request_def bytes_of_str_def)
  then show ?thesis
    using request_parsed [OF assms] by (simp add: header_build_def)
qed

theorem request_round_trip_witness:
  "header_build (bytes_of_str ''GET /live/cam.flv?vhost=a.com&token=t&startpts=90 HTTP/1.1'')
    = Inr \<lparr>hd_method = GET, hd_app = ''live'', hd_stream_id = ''cam'', hd_vhost = ''a.com'', hd_token = ''t'', hd_is_flv = True,
       hd_start_pts = 90, hd_info = []\<rparr>"
proof -
  have "to_string_nat 90 = ''90''"
    by code_simp
  then show ?thesis
    using request_round_trip [of "''live''" "''cam''" "''a.com''" "''t''" "Some 90" "''HTTP/1.1''"]
    by (simp add: pull_request_def)
qed

text \<open>The token is searched up to the next ampersand of the whole request before it is searched up to the
  blank that ends the request line; an ampersand in a later header line makes the token run on to it.\<close>

theorem token_runs_on:
  assumes "CHR ''/'' \<notin> set app" "CHR ''.'' \<notin> set sid" "CHR ''&'' \<notin> set vhost" "CHR ''&'' \<notin> set token" "CHR '' '' \<notin> set token"
    and "CHR ''&'' \<notin> set junk" "find_first kStart_Pts (junk @ ''&'' @ rest) = None"
  shows "\<exists>h. extract_streaming_info (pull_request app sid vhost token None (junk @ ''&'' @ rest)) = Inr h
    \<and> hd_token h = token @ '' '' @ junk"
proof -
  have "takeWhile (\<lambda>c. c \<noteq> CHR ''&'') (junk @ ''&'' @ rest) = junk"
    using assms(6) by (subst takeWhile_append2) auto
  then show ?thesis
    using request_parsed [OF assms(1-4), of None "junk @ ''&'' @ rest"] assms(5,7) by simp
qed

theorem token_runs_on_witness:
  "\<exists>h. extract_streaming_info ''GET /live/cam.flv?vhost=a&token=t HTTP/1.1 Referer: b?x&y'' = Inr h \<and> hd_token h = ''t HTTP/1.1 Referer: b?x''"
  using token_runs_on [of "''live''" "''cam''" "''a''" "''t''" "''HTTP/1.1 Referer: b?x''" "''y''"]
  by (simp add: pull_request_def kStart_Pts_def)

end
