(* ===== verification/Http_Protocol.thy ===== *)
theory Http_Protocol
  imports Http_Flv_Header Rtmp_Media_Source
begin

text \<open>
  \<open>src/protocol/http/meta.cpp\<close>, \<open>include/protocol/http/http_protocol.h\<close>,
  \<open>src/protocol/http/http_protocol.cpp\<close> and the rest of \<open>src/protocol/flv/flv_muxer.cpp\<close>:
  the answer to a client that pulls a stream over HTTP, and the muxer that joins it to the dispatcher of
  the source. Connections and muxers are named by addresses; a muxer makes at most one reader, which has
  the muxer's address. Of a connection the calls of \<open>send\<close> are kept, as in the theory of the muxer: all of
  them are asynchronous, and a call asks or does not ask for the connection to be shut down when its write is done.
  Log output is left out, except that it makes \<open>info()\<close> compose its text and that it reads a C string.
\<close>

section \<open>Status lines\<close>

datatype http_status = Status_OK | Bad_Request | Not_Found | Method_Not_Allowed | Unsupported_Media_Type | Internal_Server_Error

fun status_code :: "http_status \<Rightarrow> nat" where
  "status_code Status_OK = 200"
| "status_code Bad_Request = 400"
| "status_code Not_Found = 404"
| "status_code Method_Not_Allowed = 405"
| "status_code Unsupported_Media_Type = 415"
| "status_code Internal_Server_Error = 500"

fun code_to_msg :: "http_status \<Rightarrow> string" where
  "code_to_msg Status_OK = ''OK''"
| "code_to_msg Bad_Request = ''Bad Request''"
| "code_to_msg Not_Found = ''Not Found''"
| "code_to_msg Method_Not_Allowed = ''Method Not Allowed''"
| "code_to_msg Unsupported_Media_Type = ''Unsupported Media Type''"
| "code_to_msg Internal_Server_Error = ''Internal Server Error''"

text \<open>The source file is UTF-8, and so are the characters of the heading.\<close>

definition k404Body :: bytes where
  "k404Body = bytes_of_str ''<html><head><title>404 Not Found</title></head><body bgcolor=\"white\"><center><h1>''
     @ [0xE6, 0x82, 0xA8, 0xE8, 0xAE, 0xBF, 0xE9, 0x97, 0xAE, 0xE7, 0x9A, 0x84, 0xE8, 0xB5, 0x84, 0xE6, 0xBA, 0x90,
        0xE4, 0xB8, 0x8D, 0xE5, 0xAD, 0x98, 0xE5, 0x9C, 0xA8, 0xEF, 0xBC, 0x81]
     @ bytes_of_str ''</h1></center><hr><center>Not Found!</center></body></html>''"

section \<open>State\<close>

text \<open>
  A connection: its session (whether it still exists, its identifier, whether \<open>shutdown\<close> was
  called), the calls of \<open>send\<close> that were made on it, and the members of
  \<open>http_protocol\<close>. A muxer: its connection, whether it still exists, the time its client wants
  to start at, and the source whose dispatcher its reader was registered with.
\<close>

record http_conn =
  hc_alive :: bool
  hc_id :: string
  hc_shut_down :: bool
  hc_calls :: "send_call list"
  hc_header :: "http_flv_header option"
  hc_muxer :: "nat option"

record muxer =
  mx_conn :: nat
  mx_alive :: bool
  mx_start_pts :: u32
  mx_source :: "nat option"

text \<open>
  \<open>dates\<close> is what \<open>http_date\<close> gives when it is called for the n-th time;
  \<open>frame_order\<close> and \<open>meta_order\<close> are the orders in which the hash maps of
  configuration messages and of metadata are walked.
\<close>

record http_world =
  conns :: "nat \<Rightarrow> http_conn"
  muxers :: "nat \<Rightarrow> muxer option"
  next_muxer :: nat
  dates :: "nat \<Rightarrow> string"
  date_reads :: nat
  frame_order :: "(u8 \<times> rtmp_packet) list \<Rightarrow> (u8 \<times> rtmp_packet) list"
  meta_order :: "metadata \<Rightarrow> metadata"

type_synonym 'a http_eff = "(http_world rtmp_server, 'a) eff"

definition on_conn :: "nat \<Rightarrow> (http_conn \<Rightarrow> http_conn) \<Rightarrow> http_world \<Rightarrow> http_world" where
  "on_conn c f w = w\<lparr>conns := (conns w)(c := f (conns w c))\<rparr>"

definition on_outside :: "('w \<Rightarrow> 'w) \<Rightarrow> 'w rtmp_server \<Rightarrow> 'w rtmp_server" where
  "on_outside f srv = srv\<lparr>outside := f (outside srv)\<rparr>"

definition http_send :: "nat \<Rightarrow> send_buffer \<Rightarrow> bytes \<Rightarrow> bool \<Rightarrow> unit http_eff" where
  "http_send c k data is_close = emodify (on_outside (on_conn c (\<lambda>h. h\<lparr>hc_calls := hc_calls h
     @ [\<lparr>sc_data = data, sc_close = is_close, sc_buffer = k\<rparr>]\<rparr>)))"

text \<open>An operation of the muxer that writes on a connection.\<close>

definition writing :: "nat \<Rightarrow> (send_call list, 'a) eff \<Rightarrow> 'a http_eff" where
  "writing c m = (\<lambda>srv. case m (hc_calls (conns (outside srv) c)) of
     (r, calls) \<Rightarrow> (r, on_outside (on_conn c (\<lambda>h. h\<lparr>hc_calls := calls\<rparr>)) srv))"

section \<open>The callbacks of a muxer\<close>

text \<open>A muxer that is gone cannot be locked, so nothing is written for it.\<close>

definition client_of :: "http_world \<Rightarrow> muxer \<Rightarrow> flv_client" where
  "client_of w m = \<lparr>fc_calls = hc_calls (conns w (mx_conn m)), fc_alive = mx_alive m, fc_start_pts = mx_start_pts m,
     fc_shut_down = hc_shut_down (conns w (mx_conn m))\<rparr>"

text \<open>\<open>shutdown\<close> of the session of a connection, if there still is one.\<close>

definition shut_down :: "nat \<Rightarrow> http_world \<Rightarrow> http_world" where
  "shut_down c = on_conn c (\<lambda>h. if hc_alive h then h\<lparr>hc_shut_down := True\<rparr> else h)"

definition http_cbs :: "(rtmp_packet, http_world) reader_cbs" where
  "http_cbs = \<lparr>read_cb = (\<lambda>r pkt w. case muxers w r of
        None \<Rightarrow> (Inr (), w)
      | Some m \<Rightarrow> (case flv_read pkt (client_of w m) of
          (v, cl) \<Rightarrow> (v, on_conn (mx_conn m) (\<lambda>h. h\<lparr>hc_calls := fc_calls cl\<rparr>) w))),
     detach_cb = (\<lambda>r w. case muxers w r of None \<Rightarrow> w | Some m \<Rightarrow> shut_down (mx_conn m) w)\<rparr>"

section \<open>Muxing\<close>

text \<open>The destructor: the reader leaves the dispatcher it was registered with, if that still exists.\<close>

definition drop_muxer :: "nat \<Rightarrow> http_world rtmp_server \<Rightarrow> http_world rtmp_server" where
  "drop_muxer r srv = (case muxers (outside srv) r of
     None \<Rightarrow> srv
   | Some m \<Rightarrow>
       let srv = on_outside (\<lambda>w. w\<lparr>muxers := (muxers w)(r \<mapsto> m\<lparr>mx_alive := False\<rparr>)\<rparr>) srv
       in case mx_source m of
            None \<Rightarrow> srv
          | Some i \<Rightarrow> set_source i (\<lambda>s. s\<lparr>src_dispatcher := map_option (leave r) (src_dispatcher s)\<rparr>) srv)"

definition new_muxer :: "nat \<Rightarrow> nat http_eff" where
  "new_muxer c = (\<lambda>srv. let r = next_muxer (outside srv) in
     (Inr r, on_outside (\<lambda>w. w\<lparr>next_muxer := r + 1,
        muxers := (muxers w)(r \<mapsto> \<lparr>mx_conn = c, mx_alive = True, mx_start_pts = 0, mx_source = None\<rparr>)\<rparr>) srv))"

text \<open>\<open>flv_muxer_ = create()\<close>: the muxer before is destroyed after the new one is in place.\<close>

definition assign_muxer :: "nat \<Rightarrow> nat \<Rightarrow> unit http_eff" where
  "assign_muxer c r = (\<lambda>srv. let old = hc_muxer (conns (outside srv) c);
       srv = on_outside (on_conn c (\<lambda>h. h\<lparr>hc_muxer := Some r\<rparr>)) srv
     in (Inr (), case old of None \<Rightarrow> srv | Some q \<Rightarrow> drop_muxer q srv))"

definition write_config :: "rtmp_packet \<Rightarrow> (send_call list, unit) eff" where
  "write_config p = ebind (elift (initialised (msg_type_id p))) (\<lambda>t.
     if t \<noteq> MSG_AUDIO \<and> t \<noteq> MSG_VIDEO then eret ()
     else ebind (elift (data_bytes 0 (unread_length (pkt_buf p)) (pkt_buf p))) (\<lambda>data.
     ebind (elift (initialised (time_stamp p))) (\<lambda>ts.
     write_flv Packet_Buffer (if t = MSG_AUDIO then 8 else 9) data ts)))"

definition metadata_tag :: "metadata \<Rightarrow> bytes res" where
  "metadata_tag m = put_metadata m (put_cstr ''onMetaData'' [])"

definition create_client :: "nat \<Rightarrow> string \<Rightarrow> http_world \<Rightarrow> client_reader res" where
  "create_client c token w = create_reader (if hc_alive (conns w c) then Some (hc_id (conns w c)) else None) token"

text \<open>The reader of muxer \<open>r\<close> joins the dispatcher of source \<open>i\<close>.\<close>

definition join_dispatcher :: "nat \<Rightarrow> nat \<Rightarrow> client_reader \<Rightarrow> u32 \<Rightarrow> http_world rtmp_server \<Rightarrow> http_world rtmp_server" where
  "join_dispatcher r i rd pts srv = set_source i (\<lambda>s. s\<lparr>src_dispatcher :=
       map_option (regist_reader r (rd\<lparr>has_read_cb := True, has_detach_cb := True\<rparr>)) (src_dispatcher s)\<rparr>)
     (on_outside (\<lambda>w. w\<lparr>muxers := (muxers w)(r := map_option (\<lambda>m. m\<lparr>mx_start_pts := pts, mx_source := Some i\<rparr>) (muxers w r))\<rparr>) srv)"

definition start_muxing :: "nat \<Rightarrow> nat \<Rightarrow> nat option \<Rightarrow> http_flv_header \<Rightarrow> u32 \<Rightarrow> unit http_eff" where
  "start_muxing r c src header start_pts = (case src of
     None \<Rightarrow> ethrow (Runtime_error ''flv cannot mux with invalid sources'')
   | Some i \<Rightarrow>
       ebind (http_send c Pooled_Buffer prepare_flv_header False) (\<lambda>_.
       ebind (http_send c Local_Buffer [0, 0, 0, 0] False) (\<lambda>_.
       ebind (\<lambda>srv. (res_bind (get_metadata i srv) (\<lambda>m. metadata_tag (meta_order (outside srv) m)), srv)) (\<lambda>data.
       ebind (writing c (write_flv Local_Buffer 18 data 0)) (\<lambda>_.
       ebind (\<lambda>srv. (res_bind (the_source i srv) (\<lambda>s. Inr (s, frame_order (outside srv))), srv)) (\<lambda>(s, order).
       ebind (writing c (loop_config_frame order write_config s)) (\<lambda>_.
       ebind (\<lambda>srv. (get_dispatcher i srv, srv)) (\<lambda>_.
       ebind (\<lambda>srv. (create_client c (hd_token header) (outside srv), srv)) (\<lambda>rd.
       emodify (join_dispatcher r i rd start_pts))))))))))"

section \<open>Responses\<close>

definition kHttpLineBreak :: string where "kHttpLineBreak = [CHR 13, CHR 10]"
definition kHttpPacketTail :: string where "kHttpPacketTail = [CHR 13, CHR 10, CHR 13, CHR 10]"
definition kServerName :: string where "kServerName = ''OBS-Streaming''"

text \<open>\<open>emplace\<close> of a \<open>std::multimap\<close>: after the entries with the same key.\<close>

fun mm_emplace :: "string \<Rightarrow> string \<Rightarrow> (string \<times> string) list \<Rightarrow> (string \<times> string) list" where
  "mm_emplace k v [] = [(k, v)]"
| "mm_emplace k v ((k', v') # m) = (if k < k' then (k, v) # (k', v') # m else (k', v') # mm_emplace k v m)"

definition response_headers :: "bool \<Rightarrow> bytes \<Rightarrow> string option \<Rightarrow> (string \<times> string) list \<Rightarrow> string \<Rightarrow> (string \<times> string) list" where
  "response_headers is_close body content_type headers date =
     (let m = mm_emplace ''server'' kServerName headers;
          m = mm_emplace ''date'' date m;
          m = mm_emplace ''Connection'' (if is_close then ''close'' else ''keep-alive'') m;
          m = (if is_close then m else mm_emplace ''Keep-Alive'' ''timeout=20, max=100'' m);
          m = mm_emplace ''Access-Control-Allow-Origin'' ''*'' m;
          m = mm_emplace ''Access-Control-Allow-Credentials'' ''true'' m;
          m = (if body \<noteq> [] then mm_emplace ''Content-Length'' (to_string_nat (length body)) m else m)
      in mm_emplace ''Content-Type'' ((case content_type of None \<Rightarrow> ''text/plain'' | Some t \<Rightarrow> t) @ ''; charset=utf-8'') m)"

definition response_text :: "http_status \<Rightarrow> (string \<times> string) list \<Rightarrow> string" where
  "response_text status headers = ''HTTP/1.1 '' @ to_string_nat (status_code status) @ '' '' @ code_to_msg status @ kHttpLineBreak
     @ concat (map (\<lambda>(k, v). k @ '': '' @ v @ kHttpLineBreak) headers) @ kHttpLineBreak"

text \<open>
  No body is the empty one. The body is sent with the address of the function \<open>close\<close> as
  \<open>is_close\<close>, which converts to true.
\<close>

definition send_response :: "nat \<Rightarrow> http_status \<Rightarrow> bool \<Rightarrow> bytes \<Rightarrow> string option \<Rightarrow> (string \<times> string) list \<Rightarrow> unit http_eff" where
  "send_response c status is_close body content_type headers =
     ebind (\<lambda>srv. (Inr (dates (outside srv) (date_reads (outside srv))), on_outside (\<lambda>w. w\<lparr>date_reads := date_reads w + 1\<rparr>) srv)) (\<lambda>date.
     ebind (http_send c Local_Buffer (bytes_of_str (response_text status
       (response_headers is_close body content_type headers date))) is_close) (\<lambda>_.
     if body \<noteq> [] then http_send c Literal_Buffer body True else eret ()))"

section \<open>Requests\<close>

definition start_flv_muxing :: "nat \<Rightarrow> unit http_eff" where
  "start_flv_muxing c = (\<lambda>srv. case hc_header (conns (outside srv) c) of
     None \<Rightarrow> (Inl (Runtime_error ''cannot mux flv with invalid http_flv_header''), srv)
   | Some h \<Rightarrow>
       (let h = snd (header_info h) in
        ebind (emodify (on_outside (on_conn c (\<lambda>x. x\<lparr>hc_header := Some h\<rparr>)))) (\<lambda>_.
        ebind (\<lambda>srv. (find_source (kRTMP_SCHEMA, hd_vhost h, hd_app h, hd_stream_id h) (media srv), srv)) (\<lambda>(src, is_found).
        if \<not> is_found then send_response c Not_Found True k404Body (Some ''text/html'') []
        else ebind (send_response c Status_OK False [] (Some ''video/x-flv'') [(''Cache-Control'', ''no-store'')]) (\<lambda>_.
          ebind (new_muxer c) (\<lambda>r.
          ebind (assign_muxer c r) (\<lambda>_.
          start_muxing r c src h (hd_start_pts h))))))) srv)"

definition on_http_get :: "nat \<Rightarrow> unit http_eff" where
  "on_http_get c = (\<lambda>srv. case hc_header (conns (outside srv) c) of
     None \<Rightarrow> (Inl null_read, srv)
   | Some h \<Rightarrow> (if hd_is_flv h then start_flv_muxing c else send_response c Unsupported_Media_Type True [] None []) srv)"

text \<open>
  The log line about a request that cannot be parsed takes its first byte for the start of a C string, which
  goes on to the next zero byte. \<open>behind\<close> is the memory behind the request: what else was received,
  and then bytes that were never written or are left from before.
\<close>

fun c_string :: "u8 option list \<Rightarrow> bytes res" where
  "c_string [] = Inl (Undefined ''read past the end of the buffer'')"
| "c_string (None # m) = Inl (Undefined ''read of memory that was not written'')"
| "c_string (Some b # m) = (if b = 0 then Inr [] else res_bind (c_string m) (\<lambda>bs. Inr (b # bs)))"

definition on_search_http_handler :: "nat \<Rightarrow> bytes \<Rightarrow> u8 option list \<Rightarrow> unit http_eff" where
  "on_search_http_handler c data behind =
     (if data = [] then ethrow (Runtime_error ''http parser received invalid packet'')
      else case header_build data of
        Inl e \<Rightarrow> if is_undefined e then ethrow e
          else ebind (elift (c_string (map Some data @ behind))) (\<lambda>_. send_response c Bad_Request True [] None [])
      | Inr h \<Rightarrow>
          ebind (emodify (on_outside (on_conn c (\<lambda>x. x\<lparr>hc_header := Some h\<rparr>)))) (\<lambda>_.
          if hd_method h \<noteq> GET then send_response c Method_Not_Allowed True [] None []
          else etry (on_http_get c) (\<lambda>_. send_response c Internal_Server_Error True [] None [])))"

text \<open>
  \<open>strstr\<close> from the first unread byte: it stops at the first zero byte and knows nothing of the
  end of what was received, so it may read bytes that were never written or that lie past the block.
\<close>

fun begins_with :: "bytes \<Rightarrow> u8 option list \<Rightarrow> bool res" where
  "begins_with [] m = Inr True"
| "begins_with (p # ps) [] = Inl (Undefined ''read past the end of the buffer'')"
| "begins_with (p # ps) (None # m) = Inl (Undefined ''read of memory that was not written'')"
| "begins_with (p # ps) (Some b # m) = (if b = p then begins_with ps m else Inr False)"

fun strstr :: "bytes \<Rightarrow> u8 option list \<Rightarrow> nat option res" where
  "strstr pat [] = res_bind (begins_with pat []) (\<lambda>hit. Inr (if hit then Some 0 else None))"
| "strstr pat (x # m) = res_bind (begins_with pat (x # m)) (\<lambda>hit.
     if hit then Inr (Some 0)
     else if x = Some 0 then Inr None
     else res_bind (strstr pat m) (\<lambda>pos. Inr (map_option Suc pos)))"

definition on_search_packet_tail :: "flat_buffer \<Rightarrow> nat option res" where
  "on_search_packet_tail b =
     (if unread_length b < 4 then Inl (Runtime_error ''http parser received invalid packet'')
      else res_bind (strstr (bytes_of_str kHttpPacketTail) (map (fb_data b) [read_index b..<capacity b])) (\<lambda>pos.
        Inr (map_option (\<lambda>p. p + 4) pos)))"

definition on_parse_http :: "nat \<Rightarrow> flat_buffer \<Rightarrow> flat_buffer http_eff" where
  "on_parse_http c buf = ebind (elift (on_search_packet_tail buf)) (\<lambda>pos. case pos of
     None \<Rightarrow> eret buf
   | Some header_len \<Rightarrow>
       ebind (elift (data_bytes 0 header_len buf)) (\<lambda>data.
       ebind (on_search_http_handler c data (map (fb_data buf) [read_index buf + header_len..<capacity buf])) (\<lambda>_.
       eret (safe_consume header_len buf))))"

text \<open>The destructor logs the token of the header without asking whether there is one.\<close>

definition drop_http :: "nat \<Rightarrow> unit http_eff" where
  "drop_http c = (\<lambda>srv. case hc_header (conns (outside srv) c) of
     None \<Rightarrow> (Inl null_read, srv)
   | Some h \<Rightarrow>
       let old = hc_muxer (conns (outside srv) c);
           srv = on_outside (on_conn c (\<lambda>x. x\<lparr>hc_header := None, hc_muxer := None\<rparr>)) srv
       in (Inr (), case old of None \<Rightarrow> srv | Some r \<Rightarrow> drop_muxer r srv))"

section \<open>What the operations do to the world\<close>

lemma on_outside_simps [simp]:
  "media (on_outside f srv) = media srv" "outside (on_outside f srv) = f (outside srv)"
  "the_source i (on_outside f srv) = the_source i srv" "get_metadata i (on_outside f srv) = get_metadata i srv"
  "get_dispatcher i (on_outside f srv) = get_dispatcher i srv"
  by (simp_all add: on_outside_def the_source_def get_metadata_def get_dispatcher_def)

lemma on_conn_simps [simp]:
  "conns (on_conn c f w) = (conns w)(c := f (conns w c))" "muxers (on_conn c f w) = muxers w"
  "next_muxer (on_conn c f w) = next_muxer w" "dates (on_conn c f w) = dates w" "date_reads (on_conn c f w) = date_reads w"
  "frame_order (on_conn c f w) = frame_order w" "meta_order (on_conn c f w) = meta_order w"
  by (simp_all add: on_conn_def)

lemma on_outside_twice [simp]: "on_outside f (on_outside g srv) = on_outside (\<lambda>w. f (g w)) srv"
  by (simp add: on_outside_def)

lemma writing_exec:
  assumes "m (hc_calls (conns (outside srv) c)) = (v, calls)"
  shows "writing c m srv = (v, on_outside (on_conn c (\<lambda>h. h\<lparr>hc_calls := calls\<rparr>)) srv)"
  using assms by (simp add: writing_def)

text \<open>The tags of the configuration messages.\<close>

definition config_message :: "u8 \<times> rtmp_packet \<Rightarrow> bool" where
  "config_message = (\<lambda>(t, p). flv_packet p \<and> (msg_type_id p = Some MSG_AUDIO \<or> msg_type_id p = Some MSG_VIDEO))"

lemma write_config_eq:
  assumes "flv_packet p" "msg_type_id p = Some MSG_AUDIO \<or> msg_type_id p = Some MSG_VIDEO"
  shows "write_config p calls = (Inr (), calls @ packet_calls p)"
proof -
  have d: "data_bytes 0 (unread_length (pkt_buf p)) (pkt_buf p) = Inr (payload p)" "payload p \<noteq> []"
    using assms(1) data_bytes_front [of "pkt_buf p" "unread_length (pkt_buf p)"]
    by (simp_all add: flv_packet_def pkt_ok_def payload_def packet_tag_def tag_fits_def)
  then show ?thesis
    using assms by (auto simp: write_config_def ebind_def flv_packet_def write_flv_eq packet_tag_def msg_defs)
qed

lemma loop_config_eq:
  "\<forall>x \<in> set cs. config_message x \<Longrightarrow> each (\<lambda>(t, p). write_config p) cs calls
     = (Inr (), calls @ concat (map (tag_calls Packet_Buffer \<circ> packet_tag \<circ> snd) cs))"
  by (induction cs arbitrary: calls) (auto simp: config_message_def write_config_eq ebind_def)

text \<open>The metadata is written as the keys alone, with no exception.\<close>

lemma metadata_tag_total: "\<exists>d. metadata_tag m = Inr d \<and> d \<noteq> []"
  by (auto simp: metadata_tag_def put_metadata_def put_metadata_pairs_eq)

text \<open>The calls a muxer starts with: the header, the first size field, the metadata and the configuration messages.\<close>

definition muxing_calls :: "bytes \<Rightarrow> (u8 \<times> rtmp_packet) list \<Rightarrow> send_call list" where
  "muxing_calls data cs = [call_of Pooled_Buffer prepare_flv_header, call_of Local_Buffer [0, 0, 0, 0]]
     @ tag_calls Local_Buffer (18, 0, data) @ concat (map (tag_calls Packet_Buffer \<circ> packet_tag \<circ> snd) cs)"

lemma muxing_calls_simps [simp]:
  "call_bytes (muxing_calls data cs) = prepare_flv_header @ [0, 0, 0, 0]
     @ concat (map tag_bytes ((18, 0, data) # map (packet_tag \<circ> snd) cs))"
  "x \<in> set (muxing_calls data cs) \<Longrightarrow> \<not> sc_close x"
  using tag_calls_simps(3) by (auto simp: muxing_calls_def comp_def)

lemma start_muxing_exec:
  assumes "sources (media srv) i = Some s" "get_metadata i srv = Inr md" "src_dispatcher s = Some d"
    and "metadata_tag (meta_order (outside srv) md) = Inr data" "data \<noteq> []"
    and "\<forall>x \<in> set (frame_order (outside srv) (config_frames s)). config_message x" "hc_alive (conns (outside srv) c)"
    and "muxers (outside srv) r = Some m"
  shows "\<exists>srv' rd. start_muxing r c (Some i) h pts srv = (Inr (), srv') \<and> has_read_cb rd
    \<and> sources (media srv') i = Some (s\<lparr>src_dispatcher := Some (regist_reader r rd d)\<rparr>)
    \<and> muxers (outside srv') = (muxers (outside srv))(r \<mapsto> m\<lparr>mx_start_pts := pts, mx_source := Some i\<rparr>)
    \<and> conns (outside srv') = (conns (outside srv))(c := (conns (outside srv) c)\<lparr>hc_calls := hc_calls (conns (outside srv) c)
        @ muxing_calls data (frame_order (outside srv) (config_frames s))\<rparr>)
    \<and> registry (media srv') = registry (media srv) \<and> next_muxer (outside srv') = next_muxer (outside srv)"
proof -
  obtain rd where rd: "create_client c (hd_token h) (outside srv) = Inr rd"
    using assms(7) by (simp add: create_client_def create_reader_def)
  have rd': "create_client c tok (on_conn c f w) = create_client c tok w" if "hc_alive (f (conns w c)) = hc_alive (conns w c)"
      "hc_id (f (conns w c)) = hc_id (conns w c)" for tok f and w :: http_world
    using that by (simp add: create_client_def)
  have s: "the_source i srv = Inr s" "get_dispatcher i srv = Inr d"
    using assms(1,3) by (simp_all add: the_source_def get_dispatcher_def)
  show ?thesis
    using assms s rd
    by (simp add: start_muxing_def http_send_def ebind_def writing_def write_flv_eq loop_config_frame_def loop_config_eq rd' join_dispatcher_def
        muxing_calls_def call_of_def)
      (intro exI [of _ "rd\<lparr>has_read_cb := True, has_detach_cb := True\<rparr>"], simp)
qed

section \<open>One living muxer per connection\<close>

text \<open>
  A muxer that exists is the one its connection holds, so what a connection is sent by its reader goes
  to no other reader; muxer addresses are not used twice.
\<close>

definition http_ok :: "http_world \<Rightarrow> bool" where
  "http_ok w \<longleftrightarrow> (\<forall>r m. muxers w r = Some m \<longrightarrow> r < next_muxer w \<and> (mx_alive m \<longrightarrow> hc_muxer (conns w (mx_conn m)) = Some r))
     \<and> (\<forall>c r. hc_muxer (conns w c) = Some r \<longrightarrow> r < next_muxer w)"

text \<open>The calls of the connection of a living muxer, and what it makes of a packet.\<close>

definition muxer_out :: "http_world \<Rightarrow> nat \<Rightarrow> send_call list" where
  "muxer_out w r = (case muxers w r of None \<Rightarrow> [] | Some m \<Rightarrow> if mx_alive m then hc_calls (conns w (mx_conn m)) else [])"

definition muxer_wants :: "muxer option \<Rightarrow> rtmp_packet \<Rightarrow> bool" where
  "muxer_wants om p = (case om of None \<Rightarrow> False | Some m \<Rightarrow> wants (mx_alive m) (mx_start_pts m) p)"

lemma living_muxers:
  assumes "http_ok w" "muxers w r = Some m" "mx_alive m" "muxers w q = Some n" "mx_alive n" "mx_conn m = mx_conn n"
  shows "r = q"
  using assms unfolding http_ok_def by (metis option.inject)

lemma http_ok_sent:
  assumes "http_ok w" "\<And>h. hc_muxer (f h) = hc_muxer h"
  shows "http_ok (on_conn c f w)"
  using assms by (auto simp: http_ok_def)

lemma http_read:
  assumes "flv_packet p" "http_ok w"
  shows "\<exists>w'. read_cb http_cbs r p w = (Inr (), w') \<and> http_ok w' \<and> muxers w' = muxers w
    \<and> muxer_out w' = (muxer_out w)(r := muxer_out w r @ (if muxer_wants (muxers w r) p then packet_calls p else []))"
proof (cases "muxers w r")
  case (Some m)
  let ?e = "if wants (mx_alive m) (mx_start_pts m) p then packet_calls p else []"
  let ?w = "on_conn (mx_conn m) (\<lambda>h. h\<lparr>hc_calls := hc_calls (conns w (mx_conn m)) @ ?e\<rparr>) w"
  have "read_cb http_cbs r p w = (Inr (), ?w)"
    using flv_read_eq [OF assms(1), of "client_of w m"] Some by (simp add: http_cbs_def client_of_def)
  moreover have "http_ok ?w"
    by (rule http_ok_sent [OF assms(2)]) simp
  moreover have "muxer_out ?w q = ((muxer_out w)(r := muxer_out w r @ ?e)) q" for q
  proof (cases "q = r")
    case True
    then show ?thesis
      using Some by (auto simp: muxer_out_def wants_def)
  next
    case False
    have "?e = [] \<or> mx_alive m"
      by (auto simp: wants_def)
    then show ?thesis
      using living_muxers [OF assms(2) _ _ Some, of q] False by (auto simp: muxer_out_def split: option.splits)
  qed
  ultimately show ?thesis
    using Some by (intro exI [of _ ?w]) (auto simp: muxer_wants_def)
qed (use assms(2) in \<open>auto simp: http_cbs_def muxer_wants_def\<close>)

interpretation http: emitting_readers http_cbs muxer_out
    "\<lambda>r p. if muxer_wants (ms r) p then packet_calls p else []" flv_packet "\<lambda>w. http_ok w \<and> muxers w = ms"
  for ms :: "nat \<Rightarrow> muxer option"
  by unfold_locales (use http_read in fastforce)

subsection \<open>Every operation keeps it\<close>

lemma http_ok_conn [simp]:
  "(\<And>h. hc_muxer (f h) = hc_muxer h) \<Longrightarrow> http_ok (on_conn c f w) = http_ok w"
  by (auto simp: http_ok_def)

lemma http_ok_dates [simp]: "http_ok (w\<lparr>date_reads := n\<rparr>) = http_ok w"
  by (simp add: http_ok_def)

definition served :: "http_world rtmp_server \<Rightarrow> bool" where
  "served srv \<longleftrightarrow> http_ok (outside srv)"

lemma served_outside [simp]: "served (on_outside f srv) = http_ok (f (outside srv))"
  by (simp add: served_def)

lemma served_source [simp]: "served (set_source i f srv) = served srv"
  by (simp add: served_def)

lemma served_send [keeps]: "keeps_inv served (http_send c k data b)"
  unfolding http_send_def by (intro keeps) (simp add: served_def)

lemma served_writing [keeps]: "keeps_inv served (writing c m)"
  by (auto simp: keeps_inv_def writing_def served_def split: prod.splits)

lemma served_response [keeps]: "keeps_inv served (send_response c st b body ct hs)"
  unfolding send_response_def
proof (intro keeps)
  show "keeps_inv served (\<lambda>srv. (Inr (dates (outside srv) (date_reads (outside srv))), on_outside (\<lambda>w. w\<lparr>date_reads := date_reads w + 1\<rparr>) srv))"
    by (simp add: keeps_inv_def served_def)
qed

lemma served_keeps_case [keeps]:
  "(\<And>a b. keeps_inv P (f a b)) \<Longrightarrow> keeps_inv P (case x of (a, b) \<Rightarrow> f a b)"
  by (simp split: prod.splits)

lemma served_join: "served srv \<Longrightarrow> served (join_dispatcher r i rd pts srv)"
  by (auto simp: join_dispatcher_def served_def http_ok_def split: if_splits)

lemma served_muxing [keeps]: "keeps_inv served (start_muxing r c src h pts)"
proof (cases src)
  case (Some i)
  then show ?thesis
    unfolding start_muxing_def by (simp, intro keeps) (simp add: served_join)
qed (simp add: start_muxing_def keeps)

text \<open>The old muxer goes when the new one is in place.\<close>

lemma replaced_muxer_ok:
  assumes "http_ok w" "mx_conn n = c" "next_muxer w' = Suc (next_muxer w)"
    and "\<And>q. muxers w' q = (if q = next_muxer w then Some n else if hc_muxer (conns w c) = Some q
      then map_option (\<lambda>m. m\<lparr>mx_alive := False\<rparr>) (muxers w q) else muxers w q)"
    and "\<And>d. hc_muxer (conns w' d) = (if d = c then Some (next_muxer w) else hc_muxer (conns w d))"
  shows "http_ok w'"
  unfolding http_ok_def
proof (intro conjI allI impI)
  fix q m assume q: "muxers w' q = Some m"
  show "q < next_muxer w'"
    using q assms(1,3) unfolding assms(4) by (auto simp: http_ok_def less_Suc_eq split: if_splits)
  assume alive: "mx_alive m"
  show "hc_muxer (conns w' (mx_conn m)) = Some q"
  proof (cases "q = next_muxer w")
    case False
    then have old: "muxers w q = Some m" "hc_muxer (conns w c) \<noteq> Some q"
      using q alive unfolding assms(4) by (auto split: if_splits)
    then have "hc_muxer (conns w (mx_conn m)) = Some q"
      using assms(1) alive by (simp add: http_ok_def)
    then show ?thesis
      using old(2) assms(5) by auto
  qed (use q assms(2,4,5) in auto)
next
  fix d q assume "hc_muxer (conns w' d) = Some q"
  then show "q < next_muxer w'"
    using assms(1,3) unfolding assms(5) by (auto simp: http_ok_def less_Suc_eq split: if_splits)
qed

lemma new_muxer_replaces:
  fixes srv :: "http_world rtmp_server"
  assumes "http_ok (outside srv)"
  defines "w \<equiv> outside srv"
  shows "\<exists>srv'. ebind (new_muxer c) (\<lambda>r. ebind (assign_muxer c r) (\<lambda>_. k r)) srv = k (next_muxer w) srv' \<and> http_ok (outside srv')
    \<and> muxers (outside srv') (next_muxer w) = Some \<lparr>mx_conn = c, mx_alive = True, mx_start_pts = 0, mx_source = None\<rparr>
    \<and> conns (outside srv') = (conns w)(c := (conns w c)\<lparr>hc_muxer := Some (next_muxer w)\<rparr>)
    \<and> next_muxer (outside srv') = next_muxer w + 1 \<and> frame_order (outside srv') = frame_order w \<and> meta_order (outside srv') = meta_order w
    \<and> dates (outside srv') = dates w \<and> date_reads (outside srv') = date_reads w
    \<and> (hc_muxer (conns w c) = None \<longrightarrow> media srv' = media srv \<and> muxers (outside srv') = (muxers w)(next_muxer w \<mapsto>
        \<lparr>mx_conn = c, mx_alive = True, mx_start_pts = 0, mx_source = None\<rparr>)) \<and> metas srv' = metas srv"
proof -
  let ?n = "\<lparr>mx_conn = c, mx_alive = True, mx_start_pts = 0, mx_source = None\<rparr>"
  let ?srv1 = "on_outside (\<lambda>v. v\<lparr>next_muxer := Suc (next_muxer w), muxers := (muxers v)(next_muxer w \<mapsto> ?n)\<rparr>) srv"
  let ?srv2 = "on_outside (on_conn c (\<lambda>h. h\<lparr>hc_muxer := Some (next_muxer w)\<rparr>)) ?srv1"
  let ?srv3 = "case hc_muxer (conns w c) of None \<Rightarrow> ?srv2 | Some q \<Rightarrow> drop_muxer q ?srv2"
  have fresh: "hc_muxer (conns w c) \<noteq> Some (next_muxer w)"
    using assms(1) unfolding http_ok_def w_def by blast
  have run: "ebind (new_muxer c) (\<lambda>r. ebind (assign_muxer c r) (\<lambda>_. k r)) srv = k (next_muxer w) ?srv3"
    unfolding w_def by (simp add: ebind_def new_muxer_def assign_muxer_def Let_def)
  have conns: "conns (outside ?srv3) = (conns w)(c := (conns w c)\<lparr>hc_muxer := Some (next_muxer w)\<rparr>)"
    "next_muxer (outside ?srv3) = Suc (next_muxer w)" "frame_order (outside ?srv3) = frame_order w" "meta_order (outside ?srv3) = meta_order w"
    "metas ?srv3 = metas srv" "dates (outside ?srv3) = dates w" "date_reads (outside ?srv3) = date_reads w"
    by (auto simp: drop_muxer_def Let_def w_def on_outside_def split: option.splits)
  have mux: "muxers (outside ?srv3) q = (if q = next_muxer w then Some ?n else if hc_muxer (conns w c) = Some q
      then map_option (\<lambda>m. m\<lparr>mx_alive := False\<rparr>) (muxers w q) else muxers w q)" for q
    using fresh by (auto simp: drop_muxer_def Let_def w_def split: option.splits)
  have ok: "http_ok (outside ?srv3)"
    by (rule replaced_muxer_ok [where n = ?n and c = c, OF assms(1) [folded w_def] _ conns(2) mux]) (simp_all add: conns(1))
  have first: "hc_muxer (conns w c) = None \<longrightarrow> media ?srv3 = media srv \<and> muxers (outside ?srv3) = (muxers w)(next_muxer w \<mapsto> ?n)"
    by (simp add: w_def)
  show ?thesis
    by (rule exI [of _ ?srv3]) (use run conns mux ok first in simp)
qed

lemma served_new_muxer [keeps]:
  assumes "\<And>r. keeps_inv served (k r)"
  shows "keeps_inv served (ebind (new_muxer c) (\<lambda>r. ebind (assign_muxer c r) (\<lambda>_. k r)))"
proof (rule keeps_invI)
  fix srv assume "served srv"
  then obtain srv' where "ebind (new_muxer c) (\<lambda>r. ebind (assign_muxer c r) (\<lambda>_. k r)) srv = k (next_muxer (outside srv)) srv'" "served srv'"
    using new_muxer_replaces [of srv c k] by (auto simp: served_def)
  then show "served (snd (ebind (new_muxer c) (\<lambda>r. ebind (assign_muxer c r) (\<lambda>_. k r)) srv))"
    using assms by (simp add: keeps_inv_def)
qed

lemma served_start [keeps]: "keeps_inv served (start_flv_muxing c)"
proof (rule keeps_invI)
  fix srv assume s: "served srv"
  show "served (snd (start_flv_muxing c srv))"
  proof (cases "hc_header (conns (outside srv) c)")
    case (Some h)
    have "keeps_inv served (ebind (emodify (on_outside (on_conn c (\<lambda>x. x\<lparr>hc_header := Some h'\<rparr>)))) (\<lambda>_.
        ebind (\<lambda>srv. (find_source k (media srv), srv)) (\<lambda>(src, is_found).
        if \<not> is_found then send_response c Not_Found True k404Body (Some ''text/html'') []
        else ebind (send_response c Status_OK False [] (Some ''video/x-flv'') [(''Cache-Control'', ''no-store'')]) (\<lambda>_.
          ebind (new_muxer c) (\<lambda>r. ebind (assign_muxer c r) (\<lambda>_. start_muxing r c src h' pts))))))" for h' k pts
      by (intro keeps) (simp add: served_def)
    then show ?thesis
      using Some s by (simp add: start_flv_muxing_def keeps_inv_def Let_def)
  qed (use s in \<open>simp add: start_flv_muxing_def\<close>)
qed

lemma served_get [keeps]: "keeps_inv served (on_http_get c)"
proof (rule keeps_invI)
  fix srv assume s: "served srv"
  then show "served (snd (on_http_get c srv))"
    using keeps_inv_snd [OF served_start s] keeps_inv_snd [OF served_response s]
    by (simp add: on_http_get_def split: option.splits)
qed

lemma served_case [keeps]:
  "(\<And>e. keeps_inv P (f e)) \<Longrightarrow> (\<And>h. keeps_inv P (g h)) \<Longrightarrow> keeps_inv P (case x of Inl e \<Rightarrow> f e | Inr h \<Rightarrow> g h)"
  "keeps_inv P m \<Longrightarrow> (\<And>n. keeps_inv P (k n)) \<Longrightarrow> keeps_inv P (case y of None \<Rightarrow> m | Some n \<Rightarrow> k n)"
  by (simp_all split: sum.splits option.splits)

lemma served_handler [keeps]: "keeps_inv served (on_search_http_handler c data behind)"
  unfolding on_search_http_handler_def by (intro keeps) (simp add: served_def)

lemma served_parse [keeps]: "keeps_inv served (on_parse_http c buf)"
  unfolding on_parse_http_def by (intro keeps)

lemma served_drop: "keeps_inv served (drop_http c)"
  by (auto simp: keeps_inv_def drop_http_def drop_muxer_def served_def http_ok_def Let_def split: option.splits if_splits)

end
