(* ===== verification/Http_Stream.thy ===== *)
theory Http_Stream
  imports Http_Protocol Rtmp_Publish
begin

text \<open>
  What is sent to a client that sends a request over HTTP: the refusals, and the stream, from the bytes of its
  request to calls of \<open>send\<close> whose bytes are an FLV file that starts with the cached key frame. The calls
  start asynchronous writes; the theory is about the calls, not about what the writes deliver.
\<close>

section \<open>Answers\<close>

definition response :: "http_status \<Rightarrow> bool \<Rightarrow> bytes \<Rightarrow> string option \<Rightarrow> (string \<times> string) list \<Rightarrow> string \<Rightarrow> bytes" where
  "response st is_close body ct hs date = bytes_of_str (response_text st (response_headers is_close body ct hs date))"

text \<open>The calls of a response: its header, and its page with the end of the connection asked for.\<close>

definition response_calls :: "http_status \<Rightarrow> bool \<Rightarrow> bytes \<Rightarrow> string option \<Rightarrow> (string \<times> string) list \<Rightarrow> string \<Rightarrow> send_call list" where
  "response_calls st is_close body ct hs date = \<lparr>sc_data = response st is_close body ct hs date, sc_close = is_close, sc_buffer = Local_Buffer\<rparr>
     # (if body = [] then [] else [\<lparr>sc_data = body, sc_close = True, sc_buffer = Literal_Buffer\<rparr>])"

definition answered :: "nat \<Rightarrow> send_call list \<Rightarrow> http_world \<Rightarrow> http_world" where
  "answered c calls w = on_conn c (\<lambda>h. h\<lparr>hc_calls := hc_calls h @ calls\<rparr>) (w\<lparr>date_reads := date_reads w + 1\<rparr>)"

abbreviation date_of :: "http_world rtmp_server \<Rightarrow> string" where
  "date_of srv \<equiv> dates (outside srv) (date_reads (outside srv))"

lemma send_response_exec:
  "send_response c st b body ct hs srv
     = (Inr (), on_outside (answered c (response_calls st b body ct hs (date_of srv))) srv)"
  by (simp add: send_response_def http_send_def ebind_def answered_def response_calls_def response_def on_outside_def on_conn_def)

lemma answered_simps [simp]:
  "muxers (answered c cs w) = muxers w" "next_muxer (answered c cs w) = next_muxer w"
  "frame_order (answered c cs w) = frame_order w" "meta_order (answered c cs w) = meta_order w"
  "conns (answered c cs w) = (conns w)(c := (conns w c)\<lparr>hc_calls := hc_calls (conns w c) @ cs\<rparr>)"
  "http_ok (answered c cs w) = http_ok w" "dates (answered c cs w) = dates w" "date_reads (answered c cs w) = date_reads w + 1"
  by (simp_all add: answered_def)

abbreviation ok_call :: "http_world rtmp_server \<Rightarrow> send_call" where
  "ok_call srv \<equiv> call_of Local_Buffer (response Status_OK False [] (Some ''video/x-flv'') [(''Cache-Control'', ''no-store'')] (date_of srv))"

lemma ok_calls: "response_calls Status_OK False [] ct hs date = [call_of Local_Buffer (response Status_OK False [] ct hs date)]"
  by (simp add: response_calls_def call_of_def)

section \<open>A live source is pulled\<close>

abbreviation with_info :: "http_flv_header \<Rightarrow> http_flv_header" where
  "with_info h \<equiv> snd (header_info h)"

lemma with_info_simps [simp]:
  "hd_vhost (with_info h) = hd_vhost h" "hd_app (with_info h) = hd_app h" "hd_stream_id (with_info h) = hd_stream_id h"
  "hd_start_pts (with_info h) = hd_start_pts h" "hd_token (with_info h) = hd_token h" "hd_method (with_info h) = hd_method h"
  "hd_is_flv (with_info h) = hd_is_flv h"
  by (simp_all add: header_info_def Let_def)

lemma pull_live:
  assumes "http_ok (outside srv)" "hc_header (conns (outside srv) c) = Some h" "hc_alive (conns (outside srv) c)"
    and "hc_muxer (conns (outside srv) c) = None"
    and "find_source (kRTMP_SCHEMA, hd_vhost h, hd_app h, hd_stream_id h) (media srv) = Inr (Some i, True)"
    and "sources (media srv) i = Some s" "get_metadata i srv = Inr md" "src_dispatcher s = Some d"
    and "metadata_tag (meta_order (outside srv) md) = Inr data"
    and "\<forall>x \<in> set (frame_order (outside srv) (config_frames s)). config_message x"
  defines "r \<equiv> next_muxer (outside srv)"
  shows "\<exists>srv' rd m. start_flv_muxing c srv = (Inr (), srv') \<and> has_read_cb rd
    \<and> sources (media srv') i = Some (s\<lparr>src_dispatcher := Some (regist_reader r rd d)\<rparr>)
    \<and> muxers (outside srv') r = Some m \<and> mx_conn m = c \<and> mx_alive m \<and> mx_start_pts m = hd_start_pts h \<and> http_ok (outside srv')
    \<and> hc_calls (conns (outside srv') c) = hc_calls (conns (outside srv) c)
        @ ok_call srv # muxing_calls data (frame_order (outside srv) (config_frames s))"
proof -
  let ?h = "with_info h"
  let ?srv1 = "on_outside (answered c [ok_call srv]) (on_outside (on_conn c (\<lambda>x. x\<lparr>hc_header := Some ?h\<rparr>)) srv)"
  have data: "data \<noteq> []"
    using metadata_tag_total [of "meta_order (outside srv) md"] assms(9) by auto
  have ok1: "http_ok (outside ?srv1)"
    using assms(1) by simp
  obtain srv2 where run: "ebind (new_muxer c) (\<lambda>r. ebind (assign_muxer c r) (\<lambda>_. start_muxing r c (Some i) ?h (hd_start_pts h))) ?srv1
      = start_muxing r c (Some i) ?h (hd_start_pts h) srv2" and ok2: "http_ok (outside srv2)"
    and w2: "muxers (outside srv2) r = Some \<lparr>mx_conn = c, mx_alive = True, mx_start_pts = 0, mx_source = None\<rparr>"
      "conns (outside srv2) = (conns (outside ?srv1))(c := (conns (outside ?srv1) c)\<lparr>hc_muxer := Some r\<rparr>)"
      "frame_order (outside srv2) = frame_order (outside srv)" "meta_order (outside srv2) = meta_order (outside srv)"
      "media srv2 = media srv" "metas srv2 = metas srv"
    using new_muxer_replaces [OF ok1, of c "\<lambda>r. start_muxing r c (Some i) ?h (hd_start_pts h)"] assms(4)
    by (auto simp: r_def on_outside_def)
  have md2: "get_metadata i srv2 = Inr md"
    using assms(7) w2(5,6) by (simp add: get_metadata_def the_source_def)
  obtain srv' rd where st: "start_muxing r c (Some i) ?h (hd_start_pts h) srv2 = (Inr (), srv')" "has_read_cb rd"
    "sources (media srv') i = Some (s\<lparr>src_dispatcher := Some (regist_reader r rd d)\<rparr>)"
    "muxers (outside srv') = (muxers (outside srv2))(r \<mapsto> \<lparr>mx_conn = c, mx_alive = True, mx_start_pts = hd_start_pts h, mx_source = Some i\<rparr>)"
    "hc_calls (conns (outside srv') c) = hc_calls (conns (outside srv2) c)
        @ muxing_calls data (frame_order (outside srv) (config_frames s))"
    using start_muxing_exec [of srv2 i s md d data c r _ ?h "hd_start_pts h"] assms(3,6,8-10) md2 data w2 by auto
  have "served srv'"
    using keeps_invD [OF served_muxing [of r c "Some i" ?h "hd_start_pts h"] _ st(1)] ok2 by (simp add: served_def)
  moreover have "start_flv_muxing c srv = (Inr (), srv')"
    using assms(2,5) run st(1) by (simp add: start_flv_muxing_def send_response_exec ok_calls ebind_def Let_def)
  ultimately show ?thesis
    using st w2(2) by (intro exI [of _ srv'] exI [of _ rd]) (simp add: served_def)
qed

section \<open>The end of a request\<close>

lemma begins_with_enough: "length p \<le> length bs \<Longrightarrow> begins_with p (map Some bs @ m) = Inr (prefix p bs)"
proof (induction p arbitrary: bs)
  case (Cons c p)
  then show ?case
    by (cases bs) auto
qed simp

lemma zero_byte: "byte_of_char c = 0 \<longleftrightarrow> c = CHR 0x00"
proof
  assume "byte_of_char c = 0"
  then have "c = char_of_byte 0"
    using char_of_byte_of_char [of c] by simp
  then show "c = CHR 0x00"
    by (simp add: char_of_byte_def char_of_def)
qed (simp add: byte_of_char_def)

lemma prefix_bytes [simp]: "prefix (bytes_of_str p) (bytes_of_str s) = prefix p s"
proof (induction p arbitrary: s)
  case (Cons c p)
  have "byte_of_char c = byte_of_char c' \<longleftrightarrow> c = c'" for c'
    by (metis char_of_byte_of_char)
  then show ?case
    using Cons by (cases s) (auto simp: bytes_of_str_def)
qed (simp add: bytes_of_str_def)

lemma prefix_bytes_Cons [simp]: "prefix (bytes_of_str p) (byte_of_char c # bytes_of_str s) = prefix p (c # s)"
  using prefix_bytes [of p "c # s"] by (simp add: bytes_of_str_def)

text \<open>In a text without zero bytes the first end of a header is found, whatever comes behind the text.\<close>

lemma strstr_text:
  "find_first pat s = Some n \<Longrightarrow> CHR 0x00 \<notin> set s \<Longrightarrow> pat \<noteq> [] \<Longrightarrow>
     strstr (bytes_of_str pat) (map Some (bytes_of_str s) @ m) = Inr (Some n)"
proof (induction s arbitrary: n)
  case (Cons c s)
  have len: "length pat \<le> length (c # s)"
    using find_first_bound [OF Cons.prems(1)] by simp
  have "begins_with (bytes_of_str pat) (map Some (bytes_of_str (c # s)) @ m) = Inr (prefix pat (c # s))"
    using begins_with_enough [of "bytes_of_str pat" "bytes_of_str (c # s)" m] len by simp
  moreover have "byte_of_char c \<noteq> 0"
    using Cons.prems(2) by (auto simp: zero_byte)
  ultimately show ?case
    using Cons by (auto split: if_splits)
qed simp

text \<open>A text without an end of a header sends the search into the memory behind it.\<close>

lemma begins_with_short:
  assumes "m = [] \<or> (\<exists>m'. m = None # m')"
  shows "begins_with p (map Some bs @ m) = Inr (prefix p bs) \<or> (\<exists>e. begins_with p (map Some bs @ m) = Inl (Undefined e))"
proof (induction p arbitrary: bs)
  case (Cons c p)
  then show ?case
    using assms by (cases bs) auto
qed simp

lemma strstr_runs_on:
  assumes "m = [] \<or> (\<exists>m'. m = None # m')" "pat \<noteq> []"
  shows "find_first pat s = None \<Longrightarrow> CHR 0x00 \<notin> set s \<Longrightarrow>
     \<exists>e. strstr (bytes_of_str pat) (map Some (bytes_of_str s) @ m) = Inl (Undefined e)"
proof (induction s)
  case Nil
  obtain c p where "pat = c # p"
    using assms(2) by (cases pat) auto
  then show ?case
    using assms(1) by (auto simp: bytes_of_str_def)
next
  case (Cons c s)
  have "byte_of_char c \<noteq> 0"
    using Cons.prems(2) by (auto simp: zero_byte)
  moreover have "\<not> prefix pat (c # s)" "find_first pat s = None"
    using Cons.prems(1) by (auto split: if_splits)
  ultimately show ?case
    using Cons begins_with_short [OF assms(1), of "bytes_of_str pat" "bytes_of_str (c # s)"]
    by auto
qed

lemma fb_data_split:
  assumes "fb_ok b"
  shows "map (fb_data b) [read_index b..<capacity b] = map Some (unread b) @ map (fb_data b) [write_index b..<capacity b]"
proof -
  have "[read_index b..<capacity b] = [read_index b..<write_index b] @ [write_index b..<capacity b]"
    using assms by (metis fb_ok_def le_Suc_ex upt_add_eq_append)
  moreover have "map (fb_data b) [read_index b..<write_index b] = map Some (unread b)"
    using assms by (auto simp: unread_def fb_ok_def)
  ultimately show ?thesis
    by simp
qed

lemma parse_http_found:
  assumes "fb_ok b" "unread b = bytes_of_str s" "find_first kHttpPacketTail s = Some n" "CHR 0x00 \<notin> set s"
  shows "on_parse_http c b srv
    = ebind (on_search_http_handler c (bytes_of_str (take (n + 4) s)) (map (fb_data b) [read_index b + (n + 4)..<capacity b])) (\<lambda>_. eret (safe_consume (n + 4) b)) srv"
proof -
  have len: "n + 4 \<le> length s"
    using find_first_bound [OF assms(3)] by (simp add: kHttpPacketTail_def)
  have u: "unread_length b = length s"
    by (metis assms(2) length_bytes_of_str length_unread)
  have "on_search_packet_tail b = Inr (Some (n + 4))"
    using len u strstr_text [OF assms(3,4)] assms(2) fb_data_split [OF assms(1)]
    by (simp add: on_search_packet_tail_def kHttpPacketTail_def)
  moreover have "data_bytes 0 (n + 4) b = Inr (bytes_of_str (take (n + 4) s))"
    using len u assms(1,2) by (simp add: data_bytes_front bytes_of_str_def take_map)
  ultimately show ?thesis
    by (simp add: on_parse_http_def ebind_def add.assoc)
qed

section \<open>Packets for a client\<close>

text \<open>The packets of a stream, distributed one after another by its source.\<close>

lemma each_distribute_packet:
  assumes "sources (media srv) i = Some s" "src_dispatcher s = Some d" "\<forall>(q, key) \<in> set ps. is_video_keyframe q = Inr key"
    and "each (\<lambda>(q, key). distribute cbs q key) ps (d, outside srv) = (Inr (), (d', w'))"
  shows "\<exists>srv'. each (distribute_packet cbs i) (map fst ps) srv = (Inr (), srv') \<and> outside srv' = w'"
  using assms
proof (induction ps arbitrary: srv s d)
  case (Cons x ps)
  obtain q key where x: "x = (q, key)"
    by fastforce
  obtain d1 w1 where d1: "distribute cbs q key (d, outside srv) = (Inr (), (d1, w1))"
    and rest: "each (\<lambda>(q, key). distribute cbs q key) ps (d1, w1) = (Inr (), (d', w'))"
    using Cons.prems(4) by (auto simp: x ebind_def split: prod.splits sum.splits)
  let ?srv1 = "(set_source i (\<lambda>s. s\<lparr>src_dispatcher := Some d1\<rparr>) srv)\<lparr>outside := w1\<rparr>"
  have one: "distribute_packet cbs i q srv = (Inr (), ?srv1)"
    using Cons.prems(1-3) d1 by (simp add: x distribute_packet_def get_dispatcher_def the_source_def)
  have "\<exists>srv'. each (distribute_packet cbs i) (map fst ps) ?srv1 = (Inr (), srv') \<and> outside srv' = w'"
    by (rule Cons.IH [where s = "s\<lparr>src_dispatcher := Some d1\<rparr>" and d = d1]) (use Cons.prems(1,3) rest in auto)
  then show ?case
    using one by (simp add: x ebind_def)
qed simp

lemma map_key: "\<forall>q \<in> set qs. \<exists>key. f q = Inr key \<Longrightarrow> \<exists>ks. map fst ks = qs \<and> (\<forall>(q, key) \<in> set ks. f q = Inr key)"
proof (induction qs)
  case (Cons q qs)
  then obtain ks key where "map fst ks = qs" "\<forall>(q, key) \<in> set ks. f q = Inr key" "f q = Inr key"
    by auto
  then show ?case
    by (intro exI [of _ "(q, key) # ks"]) simp
qed simp

definition live_stream :: "http_world rtmp_server \<Rightarrow> media_key \<Rightarrow> nat \<Rightarrow> rtmp_source \<Rightarrow> rtmp_packet dispatcher \<Rightarrow> bytes \<Rightarrow>
    rtmp_packet list \<Rightarrow> bool" where
  "live_stream srv key i s d data cache \<longleftrightarrow> find_source key (media srv) = Inr (Some i, True)
     \<and> sources (media srv) i = Some s \<and> src_dispatcher s = Some d
     \<and> res_bind (get_metadata i srv) (\<lambda>md. metadata_tag (meta_order (outside srv) md)) = Inr data \<and> length data < 2 ^ 24
     \<and> (\<forall>x \<in> set (frame_order (outside srv) (config_frames s)). config_message x)
     \<and> disp_ok d \<and> all_read d \<and> (\<forall>r \<in> set (old_clients d). r < next_muxer (outside srv))
     \<and> packet_list d = cache \<and> length cache < max_size d \<and> (\<forall>x \<in> set cache. flv_packet x)"

lemma wants_start: "muxer_wants (Some m) q \<longleftrightarrow> mx_alive m \<and> mx_start_pts m \<le> the (time_stamp q)"
  by (auto simp: muxer_wants_def wants_def word_gt_0 not_less)

lemma concat_wanted: "concat (map (\<lambda>x. if P x then f x else []) xs) = concat (map f (filter P xs))"
  by (induction xs) auto

lemma late_viewer:
  assumes "disp_ok d" "all_read d" "has_read_cb rd" "r \<notin> set (old_clients d)" "length (packet_list d) < max_size d"
    and "\<forall>x \<in> set (packet_list d @ p # qs). flv_packet x"
    and "is_video_keyframe p = Inr False" "\<forall>q \<in> set qs. \<exists>key. is_video_keyframe q = Inr key"
    and "sources (media srv) i = Some s" "src_dispatcher s = Some (regist_reader r rd d)"
    and "http_ok (outside srv)" "muxers (outside srv) r = Some m" "mx_alive m"
  shows "\<exists>srv'. each (distribute_packet http_cbs i) (p # qs) srv = (Inr (), srv')
    \<and> hc_calls (conns (outside srv') (mx_conn m)) = hc_calls (conns (outside srv) (mx_conn m))
        @ concat (map packet_calls (filter (\<lambda>q. mx_start_pts m \<le> the (time_stamp q)) (packet_list d @ p # qs)))"
proof -
  let ?ms = "muxers (outside srv)"
  obtain ks where ks: "map fst ks = qs" "\<forall>(q, key) \<in> set ks. is_video_keyframe q = Inr key"
    using map_key [OF assms(8)] by blast
  have g: "flv_packet p" "\<forall>(q, key) \<in> set ks. flv_packet q" "\<forall>q \<in> set (packet_list d). flv_packet q"
    using assms(6) ks(1) by (auto simp: rev_image_eqI)
  have pl: "packet_list (cache_packet p False d) = packet_list d @ [p]"
    using assms(5) by (simp add: cache_packet_def pop_cache_eq)
  obtain d' w' where run: "each (\<lambda>(q, key). distribute http_cbs q key) ((p, False) # ks) (regist_reader r rd d, outside srv) = (Inr (), (d', w'))"
    and out: "muxer_out w' r = muxer_out (outside srv) r
        @ concat (map (\<lambda>q. if muxer_wants (?ms r) q then packet_calls q else []) (packet_list d @ p # qs))"
    and kept: "muxers w' = ?ms"
    using http.late_reader_emits [where ms = ?ms and w = "outside srv" and b = False, OF assms(1-4) g(1) g(2,3)] assms(11) pl ks(1)
    by auto
  obtain srv' where srv': "each (distribute_packet http_cbs i) (map fst ((p, False) # ks)) srv = (Inr (), srv')" "outside srv' = w'"
    using each_distribute_packet [OF assms(9,10) _ run] ks(2) assms(7) by auto
  have "muxer_out w' r = hc_calls (conns w' (mx_conn m))" "muxer_out (outside srv) r = hc_calls (conns (outside srv) (mx_conn m))"
    using kept assms(12,13) by (simp_all add: muxer_out_def)
  then show ?thesis
    using srv' out ks(1) assms(12,13) by (intro exI [of _ srv']) (auto simp: concat_wanted wants_start comp_def split: if_splits)
qed

text \<open>A request for a live stream starts its muxing.\<close>

lemma request_starts:
  assumes "http_ok (outside srv)" "hc_alive (conns (outside srv) c)" "hc_muxer (conns (outside srv) c) = None"
    and "live_stream srv (kRTMP_SCHEMA, vhost, app, sid) i s d data cache" "header_build req = Inr h"
    and "hd_method h = GET" "hd_is_flv h" "hd_vhost h = vhost" "hd_app h = app" "hd_stream_id h = sid" "req \<noteq> []"
  defines "r \<equiv> next_muxer (outside srv)"
  shows "\<exists>srv' rd m. on_search_http_handler c req behind srv = (Inr (), srv') \<and> has_read_cb rd
    \<and> sources (media srv') i = Some (s\<lparr>src_dispatcher := Some (regist_reader r rd d)\<rparr>)
    \<and> muxers (outside srv') r = Some m \<and> mx_conn m = c \<and> mx_alive m \<and> mx_start_pts m = hd_start_pts h \<and> http_ok (outside srv')
    \<and> hc_calls (conns (outside srv') c) = hc_calls (conns (outside srv) c) @ ok_call srv # muxing_calls data (frame_order (outside srv) (config_frames s))"
proof -
  let ?srv = "on_outside (on_conn c (\<lambda>x. x\<lparr>hc_header := Some h\<rparr>)) srv"
  obtain md where md: "get_metadata i srv = Inr md" "metadata_tag (meta_order (outside srv) md) = Inr data"
    using assms(4) by (auto simp: live_stream_def res_bind_eq_Inr)
  have "\<exists>srv' rd m. start_flv_muxing c ?srv = (Inr (), srv') \<and> has_read_cb rd
    \<and> sources (media srv') i = Some (s\<lparr>src_dispatcher := Some (regist_reader (next_muxer (outside ?srv)) rd d)\<rparr>)
    \<and> muxers (outside srv') (next_muxer (outside ?srv)) = Some m \<and> mx_conn m = c \<and> mx_alive m \<and> mx_start_pts m = hd_start_pts h
    \<and> http_ok (outside srv')
    \<and> hc_calls (conns (outside srv') c) = hc_calls (conns (outside ?srv) c) @ ok_call ?srv # muxing_calls data (frame_order (outside ?srv) (config_frames s))"
    by (rule pull_live [where md = md]) (use assms(1-4,8-10) md in \<open>simp_all add: live_stream_def\<close>)
  moreover have "on_search_http_handler c req behind srv = start_flv_muxing c ?srv" if "start_flv_muxing c ?srv = (Inr (), srv')" for srv'
    using that assms(5-7,11) by (simp add: on_search_http_handler_def ebind_def etry_def on_http_get_def)
  ultimately show ?thesis
    by (auto simp: r_def)
qed

lemma config_tag_fits:
  "live_stream srv key i s d data cache \<Longrightarrow> x \<in> set (frame_order (outside srv) (config_frames s)) \<Longrightarrow> tag_fits (packet_tag (snd x))"
  by (fastforce simp: live_stream_def config_message_def flv_packet_def)

lemma live_stream_data: "live_stream srv key i s d data cache \<Longrightarrow> data \<noteq> [] \<and> length data < 2 ^ 24"
proof -
  assume "live_stream srv key i s d data cache"
  then obtain md where "metadata_tag (meta_order (outside srv) md) = Inr data" "length data < 2 ^ 24"
    by (auto simp: live_stream_def res_bind_eq_Inr)
  then show ?thesis
    using metadata_tag_total [of "meta_order (outside srv) md"] by auto
qed

section \<open>Refusals\<close>

text \<open>The refusals: what a request that is not served is answered with.\<close>

definition refusal_of :: "http_world rtmp_server \<Rightarrow> bytes \<Rightarrow> u8 option list \<Rightarrow> http_status option" where
  "refusal_of srv req behind = (case header_build req of
     Inl e \<Rightarrow> (case c_string (map Some req @ behind) of Inl _ \<Rightarrow> None | Inr _ \<Rightarrow> Some Bad_Request)
   | Inr h \<Rightarrow>
       if hd_method h \<noteq> GET then Some Method_Not_Allowed
       else (case find_source (kRTMP_SCHEMA, hd_vhost h, hd_app h, hd_stream_id h) (media srv) of
           Inl e \<Rightarrow> Some Internal_Server_Error
         | Inr (_, is_found) \<Rightarrow> if is_found then None else Some Not_Found))"

definition refusal_calls :: "http_status \<Rightarrow> string \<Rightarrow> send_call list" where
  "refusal_calls st date = (if st = Not_Found
     then [\<lparr>sc_data = response st True k404Body (Some ''text/html'') [] date, sc_close = True, sc_buffer = Local_Buffer\<rparr>,
           \<lparr>sc_data = k404Body, sc_close = True, sc_buffer = Literal_Buffer\<rparr>]
     else [\<lparr>sc_data = response st True [] None [] date, sc_close = True, sc_buffer = Local_Buffer\<rparr>])"

lemma refusal_sent:
  "send_response c st True (if st = Not_Found then k404Body else []) (if st = Not_Found then Some ''text/html'' else None) [] srv
     = (Inr (), on_outside (answered c (refusal_calls st (date_of srv))) srv)"
  by (simp add: send_response_exec response_calls_def refusal_calls_def k404Body_def)

lemma header_build_flv: "header_build req = Inr h \<Longrightarrow> hd_is_flv h"
  by (auto simp: header_build_def extract_streaming_info_def res_bind_eq_Inr Let_def split: if_splits option.splits)

text \<open>The parser of requests has no undefined behaviour.\<close>

lemma extract_param_no_ub: "no_ub (extract_param str l e off n opt fail)"
  by (auto simp: extract_param_def Let_def split: option.split)

lemma stoul_no_ub: "no_ub (stoul s)"
  by (auto simp: stoul_def Let_def)

lemma header_build_no_ub: "no_ub (header_build req)"
proof -
  have "no_ub (case x of (a, b, d) \<Rightarrow> f a b d)" if "\<And>a b d. no_ub (f a b d)" for f and x :: "bool \<times> nat option \<times> string"
    using that by (simp split: prod.split)
  then show ?thesis
    unfolding header_build_def extract_streaming_info_def Let_def
    by (auto intro!: no_ub_bind extract_param_no_ub stoul_no_ub split: option.split)
qed

lemma find_source_no_ub: "no_ub (find_source k w)"
  by (simp add: find_source_def split: prod.split option.split)

lemma on_conn_twice: "on_conn c f (on_conn c g w) = on_conn c (\<lambda>h. f (g h)) w"
  by (simp add: on_conn_def)

text \<open>A request that is refused gets one answer and loses its connection; nobody else sees anything of it.\<close>

lemma refused_aux:
  assumes "req \<noteq> []" "refusal_of srv req behind = Some st"
  shows "\<exists>srv'. on_search_http_handler c req behind srv = (Inr (), srv') \<and> media srv' = media srv
    \<and> conns (outside srv') = (conns (outside srv))(c := conns (outside srv') c) \<and> muxers (outside srv') = muxers (outside srv)
    \<and> hc_calls (conns (outside srv') c) = hc_calls (conns (outside srv) c) @ refusal_calls st (date_of srv)"
proof (cases "header_build req")
  case (Inl e)
  then have "on_search_http_handler c req behind srv = (Inr (), on_outside (answered c (refusal_calls Bad_Request (date_of srv))) srv)" "st = Bad_Request"
    using assms header_build_no_ub [of req] refusal_sent [of c Bad_Request srv]
    by (auto simp: on_search_http_handler_def refusal_of_def split: sum.splits)
  then show ?thesis
    by (auto simp: fun_eq_iff)
next
  case (Inr h)
  let ?srv = "on_outside (on_conn c (\<lambda>x. x\<lparr>hc_header := Some h\<rparr>)) srv"
  have "\<exists>h'. on_search_http_handler c req behind srv = (Inr (), on_outside (\<lambda>w. answered c (refusal_calls st (date_of srv))
      (on_conn c (\<lambda>x. x\<lparr>hc_header := Some h'\<rparr>) w)) srv)"
  proof (cases "hd_method h = GET")
    case False
    then show ?thesis
      using assms Inr refusal_sent [of c Method_Not_Allowed ?srv]
      by (intro exI [of _ h]) (simp add: on_search_http_handler_def refusal_of_def ebind_def)
  next
    case True
    let ?h = "with_info h"
    let ?srv2 = "on_outside (on_conn c (\<lambda>x. x\<lparr>hc_header := Some ?h\<rparr>)) srv"
    have handler: "on_search_http_handler c req behind srv = etry (start_flv_muxing c) (\<lambda>_. send_response c Internal_Server_Error True [] None []) ?srv"
      using assms(1) Inr True header_build_flv [OF Inr] by (simp add: on_search_http_handler_def ebind_def etry_def on_http_get_def)
    have muxing: "start_flv_muxing c ?srv = ebind (\<lambda>srv. (find_source (kRTMP_SCHEMA, hd_vhost h, hd_app h, hd_stream_id h) (media srv), srv))
        (\<lambda>(src, is_found). if \<not> is_found then send_response c Not_Found True k404Body (Some ''text/html'') []
          else ebind (send_response c Status_OK False [] (Some ''video/x-flv'') [(''Cache-Control'', ''no-store'')]) (\<lambda>_.
            ebind (new_muxer c) (\<lambda>r. ebind (assign_muxer c r) (\<lambda>_. start_muxing r c src ?h (hd_start_pts ?h))))) ?srv2"
      by (simp add: start_flv_muxing_def Let_def ebind_def on_conn_twice)
    have "on_search_http_handler c req behind srv = (Inr (), on_outside (answered c (refusal_calls st (date_of srv))) ?srv2)"
      using assms(2) Inr True refusal_sent [of c Not_Found ?srv2] refusal_sent [of c Internal_Server_Error ?srv2]
        find_source_no_ub [of "(kRTMP_SCHEMA, hd_vhost h, hd_app h, hd_stream_id h)" "media srv"]
      unfolding handler etry_def muxing by (auto simp: refusal_of_def ebind_def split: sum.splits if_splits)
    then show ?thesis
      by (intro exI [of _ ?h]) simp
  qed
  then show ?thesis
    by (auto simp: fun_eq_iff)
qed

section \<open>The server under requests\<close>

lemma server_ok_on_outside [simp]: "server_ok (on_outside f srv) = server_ok srv"
  by (simp add: on_outside_def)

lemma server_send [keeps]: "keeps_inv server_ok (http_send c k data b)"
  unfolding http_send_def by (intro keeps) simp

lemma server_writing [keeps]: "keeps_inv server_ok (writing c m)"
  by (auto simp: keeps_inv_def writing_def split: prod.splits)

lemma server_read: "keeps_inv server_ok (\<lambda>srv. (f srv, srv))"
  by (simp add: keeps_inv_def)

lemma server_response [keeps]: "keeps_inv server_ok (send_response c st b body ct hs)"
  by (simp add: keeps_inv_def send_response_exec)

lemma leave_ok [simp]: "disp_ok d \<Longrightarrow> disp_ok (leave r d)"
  by (simp add: leave_def)

lemma map_dispatcher_ok:
  assumes "server_ok srv" "\<And>d. disp_ok d \<Longrightarrow> disp_ok (f d)"
  shows "server_ok (set_source i (\<lambda>s. s\<lparr>src_dispatcher := map_option f (src_dispatcher s)\<rparr>) srv)"
  by (rule set_source_ok [OF assms(1)]) (auto simp: same_registration_def source_ok_def assms(2))

lemma drop_muxer_ok: "server_ok srv \<Longrightarrow> server_ok (drop_muxer r srv)"
  by (auto simp: drop_muxer_def Let_def map_dispatcher_ok split: option.split)

lemma server_new_muxer [keeps]: "keeps_inv server_ok (new_muxer c)"
  by (simp add: keeps_inv_def new_muxer_def Let_def)

lemma server_assign [keeps]: "keeps_inv server_ok (assign_muxer c r)"
  by (auto simp: keeps_inv_def assign_muxer_def Let_def drop_muxer_ok split: option.split)

lemma server_join: "server_ok srv \<Longrightarrow> server_ok (join_dispatcher r i rd pts srv)"
  by (simp add: join_dispatcher_def map_dispatcher_ok)

lemma server_muxing [keeps]: "keeps_inv server_ok (start_muxing r c src h pts)"
  unfolding start_muxing_def by (intro keeps server_read) (simp add: server_join)

lemma server_start [keeps]: "keeps_inv server_ok (start_flv_muxing c)"
proof (rule keeps_invI)
  fix srv :: "http_world rtmp_server" assume s: "server_ok srv"
  have "keeps_inv server_ok (ebind (emodify (on_outside (on_conn c (\<lambda>x. x\<lparr>hc_header := Some h'\<rparr>)))) (\<lambda>_.
      ebind (\<lambda>srv. (find_source k (media srv), srv)) (\<lambda>(src, is_found).
      if \<not> is_found then send_response c Not_Found True k404Body (Some ''text/html'') []
      else ebind (send_response c Status_OK False [] (Some ''video/x-flv'') [(''Cache-Control'', ''no-store'')]) (\<lambda>_.
        ebind (new_muxer c) (\<lambda>r. ebind (assign_muxer c r) (\<lambda>_. start_muxing r c src h' pts))))))" for h' k pts
    by (intro keeps server_read) simp
  then show "server_ok (snd (start_flv_muxing c srv))"
    using s by (cases "hc_header (conns (outside srv) c)") (simp_all add: start_flv_muxing_def keeps_inv_def Let_def)
qed

lemma server_get [keeps]: "keeps_inv server_ok (on_http_get c)"
proof (rule keeps_invI)
  fix srv :: "http_world rtmp_server" assume s: "server_ok srv"
  then show "server_ok (snd (on_http_get c srv))"
    using keeps_inv_snd [OF server_start s] keeps_inv_snd [OF server_response s]
    by (simp add: on_http_get_def split: option.splits)
qed

lemma server_handler [keeps]: "keeps_inv server_ok (on_search_http_handler c data behind)"
  unfolding on_search_http_handler_def by (intro keeps) simp

lemma server_parse: "keeps_inv server_ok (on_parse_http c buf)"
  unfolding on_parse_http_def by (intro keeps)

lemma server_drop: "keeps_inv server_ok (drop_http c)"
  by (auto simp: keeps_inv_def drop_http_def Let_def drop_muxer_ok split: option.splits)

section \<open>A server with a viewer\<close>

definition sample_key_frame :: rtmp_packet where
  "sample_key_frame = create_packet\<lparr>msg_type_id := Some 9, time_stamp := Some 0, pkt_buf := buf_write [0x17, 1, 7] (create 8)\<rparr>"

definition cached_dispatcher :: "rtmp_packet dispatcher" where
  "cached_dispatcher = create_dispatcher kMaxPacketCacheSize\<lparr>packet_list := [sample_key_frame]\<rparr>"

definition sample_live :: rtmp_source where
  "sample_live = (sample_rtmp True)\<lparr>src_dispatcher := Some cached_dispatcher, meta_data := Some 3\<rparr>"

definition new_conn :: "string \<Rightarrow> http_conn" where
  "new_conn s = \<lparr>hc_alive = True, hc_id = s, hc_shut_down = False, hc_calls = [], hc_header = None, hc_muxer = None\<rparr>"

definition sample_web :: "http_world rtmp_server" where
  "sample_web = \<lparr>media = (media (sample_server True))\<lparr>sources := [5 \<mapsto> sample_live]\<rparr>, next_source = 6, next_info = 1,
     source_refs = (\<lambda>_. 1), clock_at = (\<lambda>_. 0), clock_reads = 0, metas = [3 \<mapsto> []],
     outside = \<lparr>conns = (\<lambda>_. new_conn ''A''), muxers = (\<lambda>_. None), next_muxer = 0, dates = (\<lambda>_. ''Thu''), date_reads = 0,
       frame_order = (\<lambda>xs. xs), meta_order = (\<lambda>xs. xs)\<rparr>\<rparr>"

definition sample_request :: string where
  "sample_request = pull_request ''live'' ''s'' ''a'' ''t'' None (''HTTP/1.1'' @ kHttpPacketTail)"

lemma sample_key_frame: "flv_packet sample_key_frame" "packet_tag sample_key_frame = (9, 0, [0x17, 1, 7])"
proof -
  have "payload sample_key_frame = [0x17, 1, 7]" "pkt_ok sample_key_frame"
    by (simp_all add: sample_key_frame_def payload_def pkt_ok_def)
  then show "flv_packet sample_key_frame" "packet_tag sample_key_frame = (9, 0, [0x17, 1, 7])"
    by (simp_all add: flv_packet_def packet_tag_def tag_fits_def) (simp_all add: sample_key_frame_def)
qed

lemma sample_look_up: "look_up (put_source sample_key 5 []) k = (if k = sample_key then Some 5 else None)"
  by (simp add: look_up_put) (simp add: look_up_def at_key_def split: prod.split)

lemma sample_live_stream:
  "live_stream sample_web (kRTMP_SCHEMA, ''a'', ''live'', ''s'') 5 sample_live cached_dispatcher
     [2, 0, 10, 111, 110, 77, 101, 116, 97, 68, 97, 116, 97, 3, 0, 0, 9] [sample_key_frame]"
proof -
  have "metadata_tag [] = Inr [2, 0, 10, 111, 110, 77, 101, 116, 97, 68, 97, 116, 97, 3, 0, 0, 9]"
    by code_simp
  moreover have "find_source sample_key (media sample_web) = Inr (Some 5, True)"
    using sample_look_up [of sample_key] by (simp add: sample_web_def sample_server_def find_source_def live_def sample_key_def)
  ultimately show ?thesis
    using sample_key_frame(1)
    by (simp add: live_stream_def sample_key_def kRTMP_SCHEMA_def) (simp add: sample_web_def sample_server_def get_metadata_def the_source_def sample_live_def sample_rtmp_def new_rtmp_source_def cached_dispatcher_def
        disp_ok_def all_read_def create_dispatcher_def kMaxPacketCacheSize_def kMinPacketCacheSize_def)
qed

lemma sample_http_ok: "http_ok (outside sample_web)"
  by (simp add: http_ok_def sample_web_def new_conn_def)

lemma sample_request_end: "find_first kHttpPacketTail sample_request = Some 40" "length sample_request = 44"
    "CHR 0x00 \<notin> set sample_request"
  by code_simp+


lemma sample_web_ok: "server_ok sample_web"
proof -
  let ?f = "\<lambda>s :: rtmp_source. s\<lparr>src_dispatcher := Some cached_dispatcher, meta_data := Some 3\<rparr>"
  have "disp_ok cached_dispatcher"
    using sample_live_stream by (simp add: live_stream_def)
  then have "server_ok (set_source 5 ?f (sample_server True))"
    by (intro set_source_ok [OF sample_server_ok]) (auto simp: same_registration_def source_ok_def)
  moreover have same: "media (set_source 5 ?f (sample_server True)) = media sample_web"
    "next_source (set_source 5 ?f (sample_server True)) = next_source sample_web"
    "next_info (set_source 5 ?f (sample_server True)) = next_info sample_web"
    by (simp_all add: set_source_def change_source_def sample_web_def sample_server_def sample_live_def)
  ultimately show ?thesis
    unfolding server_ok_def same by blast
qed

section \<open>Properties\<close>



text \<open>C10: what is refused, and with what. A request (of at least one byte, as all that reach the handler) whose method is not
  GET is answered with 405, one with GET without an application, a stream or a virtual host with 500, and one for a
  stream that has no entry in the registry with 404; one that cannot be parsed is answered with 400 if the memory
  behind it holds a zero byte before any that was never written. The answer is one call of \<open>send\<close> for the header, with the end of the
  connection asked for, and with 404 a second one for the page, which asks for it too. No other call is made and no source,
  reader, muxer or other connection sees anything of the request. An entry whose source is gone, requests shorter than an end of a
  header and other requests that cannot be parsed are not in the statement.\<close>

theorem request_refused:
  assumes "req \<noteq> []" "refusal_of srv req behind = Some st"
  shows "\<exists>srv'. on_search_http_handler c req behind srv = (Inr (), srv') \<and> media srv' = media srv
    \<and> conns (outside srv') = (conns (outside srv))(c := conns (outside srv') c) \<and> muxers (outside srv') = muxers (outside srv)
    \<and> hc_calls (conns (outside srv') c) = hc_calls (conns (outside srv) c) @ refusal_calls st (date_of srv)"
  by (rule refused_aux [OF assms])

theorem request_refused_witness:
  "hc_calls (conns (outside (snd (on_search_http_handler 0 [71] [Some 0, None] sample_web))) 0) = refusal_calls Bad_Request ''Thu''"
proof -
  have "header_build [71] = Inl (Invalid_argument ''cannot find http method'')"
    by code_simp
  then have "refusal_of sample_web [71] [Some 0, None] = Some Bad_Request"
    by (simp add: refusal_of_def)
  moreover have "hc_calls (conns (outside sample_web) 0) = []" "date_of sample_web = ''Thu''"
    by (simp_all add: sample_web_def new_conn_def)
  ultimately show ?thesis
    using request_refused [of "[71]" sample_web "[Some 0, None]" Bad_Request 0] by auto
qed

lemma c_string_runs_on:
  assumes "m = [] \<or> (\<exists>m'. m = None # m')"
  shows "0 \<notin> set bs \<Longrightarrow> \<exists>e. c_string (map Some bs @ m) = Inl (Undefined e)"
proof (induction bs)
  case Nil
  then show ?case
    using assms by auto
next
  case (Cons b bs)
  then show ?case
    by auto
qed

text \<open>C13: a request that has arrived in full but cannot be parsed (and holds no zero byte) is not answered with 400 if
  the memory behind it was never written or lies past the block: the log line about it takes the bytes for a C string and reads on
  there. No call of \<open>send\<close> is made before.\<close>

theorem bad_request_runs_on:
  assumes "fb_ok b" "unread b = bytes_of_str s" "find_first kHttpPacketTail s = Some n" "length s = n + 4" "CHR 0x00 \<notin> set s"
    and "header_build (bytes_of_str s) = Inl e" "\<forall>i \<ge> write_index b. fb_data b i = None"
  shows "\<exists>e. on_parse_http c b srv = (Inl (Undefined e), srv)"
proof -
  have u: "unread_length b = n + 4"
    by (metis assms(2,4) length_bytes_of_str length_unread)
  then have w: "read_index b + (n + 4) = write_index b"
    using assms(1) by (simp add: unread_length_def fb_ok_def)
  let ?m = "map (fb_data b) [write_index b..<capacity b]"
  have "?m = [] \<or> (\<exists>m'. ?m = None # m')"
    using assms(7) by (cases "[write_index b..<capacity b]") (auto dest: upt_eq_Cons_conv [THEN iffD1])
  moreover have "0 \<notin> set (bytes_of_str s)"
    using assms(5) by (auto simp: bytes_of_str_def zero_byte dest: sym)
  ultimately have "\<exists>e'. c_string (map Some (bytes_of_str s) @ ?m) = Inl (Undefined e')"
    by (rule c_string_runs_on)
  then obtain e' where "c_string (map Some (bytes_of_str s) @ ?m) = Inl (Undefined e')" ..
  moreover have "bytes_of_str s \<noteq> []"
    using assms(4) by (auto simp: bytes_of_str_def)
  moreover have "\<not> is_undefined e"
    using header_build_no_ub [of "bytes_of_str s"] assms(6) by auto
  ultimately have "on_search_http_handler c (bytes_of_str s) ?m srv = (Inl (Undefined e'), srv)"
    by (simp add: on_search_http_handler_def assms(6) del: upt_Suc)
  moreover have "take (n + 4) s = s"
    by (simp add: assms(4) [symmetric])
  ultimately show ?thesis
    unfolding parse_http_found [OF assms(1-3,5)] w by (simp add: ebind_simps)
qed

theorem bad_request_runs_on_witness:
  "\<exists>e. on_parse_http 0 (buf_write (bytes_of_str (''GET'' @ kHttpPacketTail)) (create 128)) sample_web = (Inl (Undefined e), sample_web)"
proof -
  have "find_first kHttpPacketTail (''GET'' @ kHttpPacketTail) = Some 3" "CHR 0x00 \<notin> set (''GET'' @ kHttpPacketTail)"
    "length (''GET'' @ kHttpPacketTail) = 3 + 4"
    "header_build (bytes_of_str (''GET'' @ kHttpPacketTail)) = Inl (Invalid_argument ''cannot find http method'')"
    by code_simp+
  moreover have "\<forall>i \<ge> write_index (buf_write (bytes_of_str (''GET'' @ kHttpPacketTail)) (create 128)).
      fb_data (buf_write (bytes_of_str (''GET'' @ kHttpPacketTail)) (create 128)) i = None"
    by (simp add: buf_write_def ensure_writable_bytes_def writable_bytes_def create_def mem_write_def new_memory_def Let_def kHttpPacketTail_def)
  ultimately show ?thesis
    by (intro bad_request_runs_on [where s = "''GET'' @ kHttpPacketTail"]) (simp_all add: kHttpPacketTail_def)
qed

text \<open>C37: a stream whose entry in the registry outlived its source (as after a second \<open>publish\<close> of a publisher)
  is answered twice: the search says that the stream was found, so 200 is sent, and then the muxer finds no
  source, so 500 is sent behind it.\<close>

theorem stale_entry_two_answers:
  assumes "http_ok (outside srv)" "req \<noteq> []" "header_build req = Inr h" "hd_method h = GET"
    and "hd_vhost h \<noteq> []" "hd_app h \<noteq> []" "hd_stream_id h \<noteq> []"
    and "look_up (registry (media srv)) (kRTMP_SCHEMA, hd_vhost h, hd_app h, hd_stream_id h) = Some j" "\<not> live (media srv) j"
  shows "\<exists>srv'. on_search_http_handler c req behind srv = (Inr (), srv')
    \<and> hc_calls (conns (outside srv') c) = hc_calls (conns (outside srv) c) @ ok_call srv
        # refusal_calls Internal_Server_Error (dates (outside srv) (date_reads (outside srv) + 1))"
proof -
  let ?h = "with_info h"
  let ?srv = "on_outside (on_conn c (\<lambda>x. x\<lparr>hc_header := Some h\<rparr>)) srv"
  let ?srv1 = "on_outside (answered c [ok_call srv]) (on_outside (on_conn c (\<lambda>x. x\<lparr>hc_header := Some ?h\<rparr>)) srv)"
  have ok1: "http_ok (outside ?srv1)"
    using assms(1) by simp
  have found: "find_source (kRTMP_SCHEMA, hd_vhost h, hd_app h, hd_stream_id h) (media srv) = Inr (None, True)"
    using assms(5-9) by (simp add: find_source_def kRTMP_SCHEMA_def)
  obtain srv2 where run: "ebind (new_muxer c) (\<lambda>r. ebind (assign_muxer c r) (\<lambda>_. start_muxing r c None ?h (hd_start_pts h))) ?srv1
      = start_muxing (next_muxer (outside ?srv1)) c None ?h (hd_start_pts h) srv2"
    and conns2: "conns (outside srv2) = (conns (outside ?srv1))(c := (conns (outside ?srv1) c)\<lparr>hc_muxer := Some (next_muxer (outside ?srv1))\<rparr>)"
    and dates2: "dates (outside srv2) = dates (outside ?srv1)" "date_reads (outside srv2) = date_reads (outside ?srv1)"
    using new_muxer_replaces [OF ok1, of c "\<lambda>r. start_muxing r c None ?h (hd_start_pts h)"] by (elim exE conjE)
  have "start_flv_muxing c ?srv = (Inl (Runtime_error ''flv cannot mux with invalid sources''), srv2)"
    using run found by (simp add: start_flv_muxing_def send_response_exec ok_calls ebind_def Let_def on_conn_twice start_muxing_def)
  then have "on_search_http_handler c req behind srv
      = (Inr (), on_outside (answered c (refusal_calls Internal_Server_Error (date_of srv2))) srv2)"
    using assms(2-4) header_build_flv [OF assms(3)] refusal_sent [of c Internal_Server_Error srv2]
    by (simp add: on_search_http_handler_def ebind_def etry_def on_http_get_def)
  then show ?thesis
    using conns2 dates2 by simp
qed

theorem stale_entry_two_answers_witness:
  "hc_calls (conns (outside (snd (on_search_http_handler 0 (bytes_of_str sample_request) []
      (sample_web\<lparr>media := (media sample_web)\<lparr>sources := (\<lambda>_. None)\<rparr>\<rparr>)))) 0)
    = ok_call sample_web # refusal_calls Internal_Server_Error ''Thu''"
proof -
  let ?web = "sample_web\<lparr>media := (media sample_web)\<lparr>sources := (\<lambda>_. None)\<rparr>\<rparr>"
  have p: "CHR ''/'' \<notin> set ''live''" "CHR ''.'' \<notin> set ''s''" "CHR ''&'' \<notin> set ''a''" "CHR ''&'' \<notin> set ''t''"
    "pts_fits None ''t'' (''HTTP/1.1'' @ kHttpPacketTail)"
    by (simp_all add: kHttpPacketTail_def kStart_Pts_def)
  have ne: "bytes_of_str sample_request \<noteq> []"
    by (simp add: sample_request_def pull_request_def bytes_of_str_def)
  obtain h where h: "header_build (bytes_of_str sample_request) = Inr h" "hd_method h = GET" "hd_vhost h = ''a''" "hd_app h = ''live''"
    "hd_stream_id h = ''s''"
    using request_parsed [OF p, folded sample_request_def] ne by (simp add: header_build_def)
  have "look_up (registry (media ?web)) (kRTMP_SCHEMA, ''a'', ''live'', ''s'') = Some 5"
    using sample_look_up [of sample_key] by (simp add: sample_web_def sample_server_def sample_key_def kRTMP_SCHEMA_def)
  moreover have "\<not> live (media ?web) 5" "http_ok (outside ?web)"
    using sample_http_ok by (simp_all add: live_def)
  ultimately obtain srv' where "on_search_http_handler 0 (bytes_of_str sample_request) [] ?web = (Inr (), srv')"
    "hc_calls (conns (outside srv') 0) = hc_calls (conns (outside ?web) 0) @ ok_call ?web
        # refusal_calls Internal_Server_Error (dates (outside ?web) (date_reads (outside ?web) + 1))"
    using stale_entry_two_answers [of ?web "bytes_of_str sample_request" h 5 0 "[]"] h ne by auto
  then show ?thesis
    by (simp add: sample_web_def new_conn_def)
qed

text \<open>C31: the end of a request is searched with \<open>strstr\<close>, which does not know where the received bytes end: with
  a request that has not arrived in full (and holds no zero byte) it reads the memory behind what was
  received, which was never written or lies past the block.\<close>

theorem unterminated_request:
  assumes "fb_ok b" "unread b = bytes_of_str s" "4 \<le> length s" "find_first kHttpPacketTail s = None" "CHR 0x00 \<notin> set s"
    and "\<forall>i \<ge> write_index b. fb_data b i = None"
  shows "\<exists>e. on_parse_http c b srv = (Inl (Undefined e), srv)"
proof -
  let ?m = "map (fb_data b) [write_index b..<capacity b]"
  have u: "unread_length b = length s"
    by (metis assms(2) length_bytes_of_str length_unread)
  have "?m = [] \<or> (\<exists>m'. ?m = None # m')"
    using assms(6) by (cases "[write_index b..<capacity b]") (auto dest: upt_eq_Cons_conv [THEN iffD1])
  then obtain e where "strstr (bytes_of_str kHttpPacketTail) (map Some (bytes_of_str s) @ ?m) = Inl (Undefined e)"
    using strstr_runs_on [OF _ _ assms(4,5)] by (metis kHttpPacketTail_def list.distinct(1))
  then have "on_search_packet_tail b = Inl (Undefined e)"
    using assms(2,3) u fb_data_split [OF assms(1)] by (simp add: on_search_packet_tail_def)
  then show ?thesis
    by (auto simp: on_parse_http_def ebind_def)
qed

theorem unterminated_request_witness:
  "\<exists>e. on_parse_http 0 (buf_write (bytes_of_str ''GET /live'') (create 128)) sample_web = (Inl (Undefined e), sample_web)"
proof -
  have "find_first kHttpPacketTail ''GET /live'' = None" "CHR 0x00 \<notin> set ''GET /live''" "4 \<le> length ''GET /live''"
    by code_simp+
  moreover have "\<forall>i \<ge> write_index (buf_write (bytes_of_str ''GET /live'') (create 128)).
      fb_data (buf_write (bytes_of_str ''GET /live'') (create 128)) i = None"
    by (simp add: buf_write_def ensure_writable_bytes_def writable_bytes_def create_def mem_write_def new_memory_def Let_def)
  ultimately show ?thesis
    by (intro unterminated_request [where s = "''GET /live''"]) simp_all
qed

text \<open>C12: requests and the ends of their connections keep the server well formed, whatever was received: registry
  and sources agree, the dispatchers stay well formed, every living muxer is the one of its connection and
  no address of a muxer is used twice.\<close>

theorem requests_keep_server:
  assumes "server_ok srv" "http_ok (outside srv)"
  shows "server_ok (snd (on_parse_http c b srv)) \<and> http_ok (outside (snd (on_parse_http c b srv)))
    \<and> server_ok (snd (drop_http c srv)) \<and> http_ok (outside (snd (drop_http c srv)))"
  using keeps_inv_snd [OF server_parse assms(1)] keeps_inv_snd [OF server_drop assms(1)]
    keeps_inv_snd [OF served_parse] keeps_inv_snd [OF served_drop] assms(2)
  by (simp add: served_def)

theorem requests_keep_server_witness:
  "server_ok (snd (on_parse_http 0 (buf_write (bytes_of_str sample_request) (create 128)) sample_web))"
  using requests_keep_server [OF sample_web_ok sample_http_ok] by blast

end
