(* ===== verification/Sessions.thy ===== *)
theory Sessions
  imports Tcp_Session Rtmp_Stream Http_Stream
begin

text \<open>
  \<open>src/protocol/rtmp/rtmp_session.cpp\<close> and \<open>src/protocol/http/http_session.cpp\<close>: the two
  kinds of sessions, and what holds of the two servers that \<open>main\<close> runs. The calls of \<open>send\<close> of an HTTP
  handler are asynchronous writes, one for each call, with what its buffer holds at the time of the call; those of an
  RTMP handler are synchronous and are taken together, in their order. The ticker of a session is
  never read and left out, as is log output.
\<close>

section \<open>RTMP\<close>

text \<open>The program as the RTMP server sees it: the protocol of each session, and the sources.\<close>

type_synonym 'w rtmp_program = "(nat \<Rightarrow> rtmp_protocol) \<times> 'w rtmp_server"

definition rtmp_new :: "nat \<Rightarrow> string \<Rightarrow> 'w rtmp_program \<Rightarrow> 'w rtmp_program" where
  "rtmp_new i k = (\<lambda>(ps, srv). (ps(i := new_rtmp_protocol i), srv\<lparr>metas := (metas srv)(i \<mapsto> [])\<rparr>))"

definition rtmp_on_recv :: "(rtmp_packet, 'w) reader_cbs \<Rightarrow> (nat \<Rightarrow> nat) \<Rightarrow> nat \<Rightarrow> flat_buffer \<Rightarrow> 'w rtmp_program \<Rightarrow>
    (flat_buffer res \<times> session_act list) \<times> 'w rtmp_program" where
  "rtmp_on_recv cbs rand i buf = (\<lambda>(ps, srv). case on_parse_rtmp cbs rand buf (ps i, srv) of
     (r, (p, srv)) \<Rightarrow>
       let new = drop (length (sent (ps i))) (sent p)
       in ((r, if new = [] then [] else [Do_Write i new False False]), (ps(i := p), srv)))"

definition rtmp_session_cbs :: "(rtmp_packet, 'w) reader_cbs \<Rightarrow> (nat \<Rightarrow> nat) \<Rightarrow> 'w rtmp_program session_cbs" where
  "rtmp_session_cbs cbs rand = \<lparr>on_new = rtmp_new, on_recv = rtmp_on_recv cbs rand,
     on_drop = (\<lambda>i (ps, srv). (Inr (), (ps, drop_protocol cbs (ps i, srv))))\<rparr>"

section \<open>HTTP\<close>

text \<open>An address that was not used has the initial values of \<open>http_protocol\<close>.\<close>

definition http_new :: "nat \<Rightarrow> string \<Rightarrow> http_world rtmp_server \<Rightarrow> http_world rtmp_server" where
  "http_new c k = on_outside (on_conn c (\<lambda>h. h\<lparr>hc_alive := True, hc_id := k\<rparr>))"

definition http_on_recv :: "nat \<Rightarrow> flat_buffer \<Rightarrow> http_world rtmp_server \<Rightarrow> (flat_buffer res \<times> session_act list) \<times> http_world rtmp_server" where
  "http_on_recv c buf srv = (case on_parse_http c buf srv of (r, srv') \<Rightarrow>
     let new = drop (length (hc_calls (conns (outside srv) c))) (hc_calls (conns (outside srv') c))
     in ((r, map (\<lambda>x. Do_Write c (sc_data x) True (sc_close x)) new), srv'))"

text \<open>A weak pointer to a session that is being destroyed cannot be locked.\<close>

definition http_on_drop :: "nat \<Rightarrow> unit http_eff" where
  "http_on_drop c = ebind (emodify (on_outside (on_conn c (\<lambda>h. h\<lparr>hc_alive := False\<rparr>)))) (\<lambda>_. drop_http c)"

definition http_session_cbs :: "http_world rtmp_server session_cbs" where
  "http_session_cbs = \<lparr>on_new = http_new, on_recv = http_on_recv, on_drop = http_on_drop\<rparr>"

section \<open>Both keep the contract of a session\<close>

definition rtmp_good :: "'w rtmp_program \<Rightarrow> bool" where
  "rtmp_good = (\<lambda>(ps, srv). \<forall>i. can_send (ps i))"

lemma new_can_send: "can_send (new_rtmp_protocol i)"
  by (simp add: can_send_def new_rtmp_protocol_def kDefaultChunkLength_def)

lemma parse_rtmp_can_send: "keeps_inv (\<lambda>(p, srv). can_send p) (on_parse_rtmp cbs rand buf)"
  unfolding on_parse_rtmp_def by (intro keeps run_step_can_send)

interpretation rtmp_sessions: session_protocol "rtmp_session_cbs cbs rand" rtmp_good
proof unfold_locales
  fix b b' :: flat_buffer and i acts and p p' :: "'a rtmp_program"
  assume "fb_ok b" "on_recv (rtmp_session_cbs cbs rand) i b p = ((Inr b', acts), p')"
  then show "fb_ok b'"
    by (auto simp: rtmp_session_cbs_def rtmp_on_recv_def on_parse_rtmp_def ebind_def Let_def safe_consume_ok split: prod.splits sum.splits)
next
  fix i b and p :: "'a rtmp_program"
  assume "rtmp_good p"
  then show "rtmp_good (snd (on_recv (rtmp_session_cbs cbs rand) i b p))"
    using keeps_invD [OF parse_rtmp_can_send, of _ cbs rand b]
    by (auto simp: rtmp_session_cbs_def rtmp_on_recv_def rtmp_good_def Let_def split: prod.splits) fastforce
qed (auto simp: rtmp_session_cbs_def rtmp_new_def rtmp_good_def new_can_send)

definition http_good :: "http_world rtmp_server \<Rightarrow> bool" where
  "http_good srv \<longleftrightarrow> server_ok srv \<and> http_ok (outside srv)"

interpretation http_sessions: session_protocol http_session_cbs http_good
proof unfold_locales
  fix b b' :: flat_buffer and i acts p p'
  assume "fb_ok b" "on_recv http_session_cbs i b p = ((Inr b', acts), p')"
  then show "fb_ok b'"
    by (auto simp: http_session_cbs_def http_on_recv_def on_parse_http_def ebind_def Let_def safe_consume_ok split: prod.splits sum.splits option.splits)
next
  fix b i p
  assume g: "http_good p"
  obtain r p' where p': "on_parse_http i b p = (r, p')"
    by fastforce
  have "server_ok p" "served p"
    using g by (simp_all add: http_good_def served_def)
  then have "server_ok p'" "served p'"
    using keeps_invD [OF server_parse _ p'] keeps_invD [OF served_parse _ p'] by blast+
  then show "http_good (snd (on_recv http_session_cbs i b p))"
    using p' by (simp add: http_session_cbs_def http_on_recv_def http_good_def Let_def served_def)
next
  fix i p
  assume "http_good p"
  moreover have "keeps_inv server_ok (http_on_drop i)" "keeps_inv served (http_on_drop i)"
    unfolding http_on_drop_def by (auto intro!: keeps server_drop served_drop simp: served_def)
  ultimately show "http_good (snd (on_drop http_session_cbs i p))"
    using keeps_inv_snd [of server_ok "http_on_drop i" p] keeps_inv_snd [of served "http_on_drop i" p]
    by (simp add: http_session_cbs_def http_good_def served_def)
qed (auto simp: http_session_cbs_def http_new_def http_good_def)

section \<open>The first connection\<close>

definition first_session :: "nat \<Rightarrow> bool \<Rightarrow> nat \<Rightarrow> nat \<Rightarrow> tcp_session" where
  "first_session port ipv4 fd sock = (new_session (session_id (server_info port ipv4 fd @ ''-session_count(1)'') sock))\<lparr>se_reads := [kSocketReadSize]\<rparr>"

lemma first_accept:
  "\<exists>net. net_run cbs [Accepted sock] (start_server port ipv4 fd errs order p) net \<and> net_ok net \<and> io_running net
     \<and> sessions net 0 = Some (first_session port ipv4 fd sock)
     \<and> program net = on_new cbs 0 (se_id (first_session port ipv4 fd sock)) p" if "session_protocol cbs good"
proof -
  let ?start = "start_server port ipv4 fd errs order p"
  let ?k = "session_id (server_info port ipv4 fd @ ''-session_count(1)'') sock"
  have one: "to_string_nat (Suc 0) = ''1''"
    by code_simp
  have room: "socket_read_length kSocketReadSize (create kMaxBufferCacheSize) = Inr (kSocketReadSize, create kMaxBufferCacheSize)"
    "\<not> writable_bytes (create kMaxBufferCacheSize) < kSocketReadSize"
    by (simp_all add: socket_read_length_def writable_bytes_def create_def kSocketReadSize_def kMaxBufferCacheSize_def)
  let ?net = "?start\<lparr>session_index := 1, next_session := 1, sessions := [0 \<mapsto> first_session port ipv4 fd sock],
    session_map := [?k \<mapsto> 0], program := on_new cbs 0 ?k p\<rparr>"
  have "on_accept cbs (Some sock) ?start = (Inr (), ?net)"
    using one room
    by (simp add: on_accept_def start_server_def create_server_def do_accept_def ebind_def session_alloc_def generate_session_prefix_def
        manager_add_def do_read_def change_session_def new_session_def first_session_def Let_def)
  moreover have "collect cbs ?net = (Inr (), ?net)"
    by (simp add: collect_def gone_def first_session_def new_session_def)
  ultimately have ev: "handle_event cbs (Accepted sock) ?start = (Inr (), ?net)"
    by (simp add: handle_event_def)
  moreover have "enabled (Accepted sock) ?start"
    by (simp add: start_server_def create_server_def do_accept_def)
  ultimately have run: "net_run cbs [Accepted sock] ?start ?net"
    by (simp add: net_run_Cons)
  then have "net_ok ?net"
    by (rule session_protocol.net_run_ok [OF that _ start_server_ok(1)])
  then show ?thesis
    using run by (intro exI [of _ ?net]) (simp add: start_server_def create_server_def do_accept_def first_session_def new_session_def)
qed

section \<open>Properties\<close>

text \<open>C9: what holds of the HTTP server at any time, whatever clients send, however their connections end, whatever the
  other server does and in whichever order the compiler evaluates the arguments of a read, as long as no handler runs into
  undefined behaviour (a connection that ends before a request does): a session exists exactly as long
  as the map of its server names it, under an identifier that no other has, and has a well-formed buffer and at most
  one read pending, for which the buffer still has the room; an open session waits for bytes unless its buffer has reached
  the limit. If moreover what the other server does keeps the registry, the sources and the muxers well formed
  (a second \<open>publish\<close> does not), they are so here, too.\<close>

theorem http_server_invariant:
  assumes "net_run http_session_cbs evs (start_server port ipv4 fd errs order p) net"
  shows "(\<forall>k i. session_map net k = Some i \<longleftrightarrow> (\<exists>s. sessions net i = Some s \<and> se_id s = k))
    \<and> (\<forall>i s. sessions net i = Some s \<longrightarrow> fb_ok (se_buffer s) \<and> length (se_reads s) \<le> 1
        \<and> (\<forall>n \<in> set (se_reads s). n \<le> writable_bytes (se_buffer s))
        \<and> (se_open s \<longrightarrow> se_reads s \<noteq> [] \<or> kMaxCacheSize < capacity (se_buffer s)))
    \<and> (server_ok p \<and> http_ok (outside p) \<and> (\<forall>n acts q. Elsewhere n acts q \<in> set evs \<longrightarrow> server_ok q \<and> http_ok (outside q))
        \<longrightarrow> server_ok (program net) \<and> http_ok (outside (program net)))"
proof (intro conjI impI)
  have ok: "net_ok net"
    by (rule http_sessions.net_run_ok [OF assms start_server_ok(1)])
  show "\<forall>k i. session_map net k = Some i \<longleftrightarrow> (\<exists>s. sessions net i = Some s \<and> se_id s = k)"
    using ok by (auto simp: net_ok_def dest: net_invD(1))
  have "wait {} i s \<and> session_ok s" if "sessions net i = Some s" for i s
    using ok net_invD(2) [of "{}" net i s] that by (simp add: net_ok_def)
  then show "\<forall>i s. sessions net i = Some s \<longrightarrow> fb_ok (se_buffer s) \<and> length (se_reads s) \<le> 1
      \<and> (\<forall>n \<in> set (se_reads s). n \<le> writable_bytes (se_buffer s))
      \<and> (se_open s \<longrightarrow> se_reads s \<noteq> [] \<or> kMaxCacheSize < capacity (se_buffer s))"
    by (auto simp: session_ok_def wait_def is_read_def)
  assume kept: "server_ok p \<and> http_ok (outside p) \<and> (\<forall>n acts q. Elsewhere n acts q \<in> set evs \<longrightarrow> server_ok q \<and> http_ok (outside q))"
  have "http_good (program net)"
    by (rule http_sessions.net_run_good [OF assms start_server_ok(1)])
      (use kept in \<open>auto simp: http_good_def start_server_ok(2)\<close>)
  then show "server_ok (program net)" "http_ok (outside (program net))"
    by (simp_all add: http_good_def)
qed

text \<open>C35: an RTMP session whose handler throws is closed and then kept for ever. Let the handler throw on the bytes that
  arrived, whatever the reason, without having sent anything, and let no write of the session be pending: \<open>erase\<close> leaves the map alone when
  the identifier is not empty, and no read is started that could fail, so the map holds the closed session until the
  server's own handler of a signal runs, whatever happens meanwhile (without undefined behaviour). So every client that, say, offers another version leaves
  a session behind.\<close>

theorem rejected_session_kept:
  assumes "net_ok net" "enabled (Read_Done i bs) net" "sessions net i = Some s" "se_writes s = []" "program net = (ps, srv)"
    and "run_step cbs rand (unread (se_buffer s) @ bs) (ps i, srv) = (Inl e, (p', srv'))" "\<not> is_undefined e" "sent p' = sent (ps i)"
  shows "\<exists>net' s'. handle_event (rtmp_session_cbs cbs rand) (Read_Done i bs) net = (Inr (), net')
    \<and> \<not> se_open s' \<and> se_id s' = se_id s
    \<and> (\<forall>evs net''. net_run (rtmp_session_cbs cbs rand) evs net' net'' \<and> Signal \<notin> set evs
        \<longrightarrow> sessions net'' i = Some s' \<and> session_map net'' (se_id s) = Some i)"
proof -
  let ?cbs = "rtmp_session_cbs cbs rand"
  have recv: "on_recv ?cbs i b (program net) = ((Inl e, []), (ps(i := p'), srv'))"
    if b: "fb_ok b" "unread b = unread (se_buffer s) @ bs" for b
  proof -
    have "data_bytes 0 (unread_length b) b = Inr (unread (se_buffer s) @ bs)"
      using b data_bytes_front [OF b(1), of "unread_length b"] length_unread [of b] by simp
    then show ?thesis
      using assms(5,6,8) by (simp add: rtmp_session_cbs_def rtmp_on_recv_def on_parse_rtmp_def ebind_def)
  qed
  obtain net' s' where ev: "handle_event ?cbs (Read_Done i bs) net = (Inr (), net')" "stranded i s' net'" "se_id s' = se_id s"
    using failing_handler [OF assms(1-4) recv assms(7)] by auto
  have ok: "net_ok net'"
    by (rule rtmp_sessions.handle_event_ok [OF assms(1,2) ev(1)])
  have "\<forall>evs net''. net_run ?cbs evs net' net'' \<and> Signal \<notin> set evs \<longrightarrow> sessions net'' i = Some s' \<and> session_map net'' (se_id s) = Some i"
    using rtmp_sessions.stranded_run [OF _ ok ev(2)] ev(3) by (metis stranded_def)
  moreover have "\<not> se_open s'"
    using ev(2) by (simp add: stranded_def)
  ultimately show ?thesis
    using ev(1,3) by blast
qed

text \<open>C36: the connection of a client that closes it before a request was parsed brings the server down: the destructor
  of \<open>http_protocol\<close> logs the token of a header that was never made, a read through a null pointer.\<close>

theorem close_before_request:
  assumes "net_ok net" "enabled (Read_Failed i) net" "hc_header (conns (outside (program net)) i) = None"
  shows "\<exists>e net'. handle_event http_session_cbs (Read_Failed i) net = (Inl (Undefined e), net')"
proof -
  obtain s where s: "sessions net i = Some s" "session_map net (se_id s) = Some i"
    using assms(1,2) by (auto simp: net_ok_def)
  have inv: "net_inv {} net"
    using assms(1) by (simp add: net_ok_def)
  let ?net = "on_read_failed i net"
  have p: "program ?net = program net" "next_session ?net = next_session net" "session_map ?net (se_id s) = None"
    using s by (simp_all add: on_read_failed_def manager_stop_def)
  obtain s' where s': "sessions ?net i = Some s'" "se_id s' = se_id s"
    using s by (simp add: on_read_failed_def manager_stop_def)
  have held: "session_map ?net (se_id t) = Some j" if j: "sessions ?net j = Some t" "j \<noteq> i" for j t
  proof -
    have t: "sessions net j = Some t"
      using j s by (simp add: on_read_failed_def manager_stop_def)
    then have "se_id t \<noteq> se_id s"
      using net_invD(3) [OF inv t s(1)] j(2) by blast
    then show ?thesis
      using t s assms(1) by (simp add: on_read_failed_def manager_stop_def net_ok_def)
  qed
  have "i \<in> set (gone ?net)" "\<forall>j \<in> set (gone ?net). j = i"
    using s' p net_invD(2) [OF inv s(1)] held by (auto simp: gone_def split: option.splits)
  then obtain ks where ks: "gone ?net = i # ks"
    by (cases "gone ?net") auto
  have "on_drop http_session_cbs i (program net) = (Inl null_read, on_outside (on_conn i (\<lambda>h. h\<lparr>hc_alive := False\<rparr>)) (program net))"
    using assms(3) by (simp add: http_session_cbs_def http_on_drop_def drop_http_def)
  then show ?thesis
    using ks p(1) by (simp add: handle_event_def collect_def ebind_def drop_session_def null_read_def)
qed

text \<open>When a server's own handler of a signal runs, every session of it is closed and destroyed, and nothing is
  left that the loop could run; when the other server's handler runs first, the loop is stopped before it does.\<close>

theorem signal_ends_server:
  assumes "net_ok net" "io_running net"
  shows "\<exists>net'. handle_event (rtmp_session_cbs cbs rand) Signal net = (Inr (), net') \<and> (\<forall>i. sessions net' i = None)
    \<and> \<not> acceptor_open net' \<and> (\<forall>ev. \<not> enabled ev net')"
proof -
  let ?cbs = "rtmp_session_cbs cbs rand"
  let ?net = "on_signal net"
  have total: "\<exists>n. each (drop_session ?cbs) is n0 = (Inr (), n) \<and> io_running n = io_running n0 \<and> acceptor_open n = acceptor_open n0"
    for "is" and n0 :: "'a rtmp_program network"
  proof (induction "is" arbitrary: n0)
    case (Cons i ks)
    obtain p where "drop_session ?cbs i n0 = (Inr (), n0\<lparr>program := p, sessions := (sessions n0)(i := None)\<rparr>)"
      by (cases "program n0") (simp add: drop_session_def rtmp_session_cbs_def)
    then show ?case
      using Cons.IH [of "n0\<lparr>program := p, sessions := (sessions n0)(i := None)\<rparr>"] by (simp add: ebind_def)
  qed simp
  then obtain net' where c: "collect ?cbs ?net = (Inr (), net')" "io_running net' = io_running ?net" "acceptor_open net' = acceptor_open ?net"
    unfolding collect_def by blast
  have "net_inv {} (net\<lparr>acceptor_open := False, io_running := False\<rparr>)"
    using assms(1) by (simp add: net_ok_def)
  then have "net_inv {} ?net"
    unfolding on_signal_def by (rule stop_all_inv)
  then have "\<exists>p. net' = ?net\<lparr>program := p, sessions := (\<lambda>j. case sessions ?net j of None \<Rightarrow> None
      | Some s \<Rightarrow> if session_map ?net (se_id s) = Some j then Some s else None)\<rparr>"
    using collected c(1) by blast
  moreover have "session_map ?net = (\<lambda>_. None)" "\<not> io_running ?net" "\<not> acceptor_open ?net"
    by (simp_all add: on_signal_def stop_all_def)
  ultimately have "sessions net' i = None" "\<not> enabled ev net'" for i ev
    using c(2) by (auto split: option.split) (cases ev; simp)
  then show ?thesis
    using c \<open>\<not> acceptor_open ?net\<close> by (intro exI [of _ net']) (simp add: handle_event_def)
qed

theorem http_server_invariant_witness:
  "\<exists>net. net_run http_session_cbs [Accepted 5] (start_server 80 True 3 (\<lambda>_. No_Error) False sample_web) net \<and> server_ok (program net)"
proof -
  obtain net where "net_run http_session_cbs [Accepted 5] (start_server 80 True 3 (\<lambda>_. No_Error) False sample_web) net"
    using first_accept [OF http_sessions.session_protocol_axioms] by blast
  then show ?thesis
    using http_server_invariant [of "[Accepted 5]" 80 True 3 "\<lambda>_. No_Error" False sample_web net] sample_web_ok sample_http_ok by auto
qed

lemma first_session_simps: "se_reads (first_session port ipv4 fd sock) = [kSocketReadSize]" "se_writes (first_session port ipv4 fd sock) = []"
    "unread (se_buffer (first_session port ipv4 fd sock)) = []"
  by (simp_all add: first_session_def new_session_def)

theorem rejected_session_kept_witness:
  "\<exists>net net' s. net_run (rtmp_session_cbs flv_cbs (\<lambda>_. 0)) [Accepted 5] (start_server 1935 True 3 (\<lambda>_. No_Error) False ((\<lambda>_. sample_publisher), sample_room)) net
    \<and> handle_event (rtmp_session_cbs flv_cbs (\<lambda>_. 0)) (Read_Done 0 (6 # replicate 1536 0)) net = (Inr (), net')
    \<and> sessions net' 0 = Some s \<and> \<not> se_open s"
proof -
  let ?cbs = "rtmp_session_cbs flv_cbs (\<lambda>_. 0)"
  obtain net where net: "net_run ?cbs [Accepted 5] (start_server 1935 True 3 (\<lambda>_. No_Error) False ((\<lambda>_. sample_publisher), sample_room)) net"
    "net_ok net" "io_running net" "sessions net 0 = Some (first_session 1935 True 3 5)"
    "program net = on_new ?cbs 0 (se_id (first_session 1935 True 3 5)) ((\<lambda>_. sample_publisher), sample_room)"
    using first_accept [OF rtmp_sessions.session_protocol_axioms] by blast
  obtain ps srv where p: "program net = (ps, srv)" "next_step_func (ps 0) = C0C1"
    using net(5) by (simp add: rtmp_session_cbs_def rtmp_new_def new_rtmp_protocol_def)
  let ?bs = "6 # replicate 1536 0 :: bytes"
  have en: "enabled (Read_Done 0 ?bs) net"
    using net(3,4) first_session_simps(1) [of 1935 True 3 5] by (simp add: kSocketReadSize_def kMaxBufferCacheSize_def)
  have step: "run_step flv_cbs (\<lambda>_. 0) (unread (se_buffer (first_session 1935 True 3 5)) @ ?bs) (ps 0, srv)
      = (Inl (Runtime_error ''only version 3 is supported!''), (ps 0, srv))"
    using p(2) first_session_simps(3) [of 1935 True 3 5]
    by (simp add: run_step_def reading_def ebind_def handle_C0C1_def kC1HandshakeSize_def)
  obtain net' s' where "handle_event ?cbs (Read_Done 0 (6 # replicate 1536 0)) net = (Inr (), net')" "\<not> se_open s'"
    "\<forall>evs net''. net_run ?cbs evs net' net'' \<and> Signal \<notin> set evs \<longrightarrow> sessions net'' 0 = Some s'"
    using rejected_session_kept [OF net(2) en net(4) first_session_simps(2) p(1) step] by auto
  then show ?thesis
    using net(1) net_run.stay by (metis empty_iff empty_set)
qed

theorem close_before_request_witness:
  "\<exists>net e net'. net_run http_session_cbs [Accepted 5] (start_server 80 True 3 (\<lambda>_. No_Error) False sample_web) net
    \<and> handle_event http_session_cbs (Read_Failed 0) net = (Inl (Undefined e), net')"
proof -
  obtain net where net: "net_run http_session_cbs [Accepted 5] (start_server 80 True 3 (\<lambda>_. No_Error) False sample_web) net"
    "net_ok net" "io_running net" "sessions net 0 = Some (first_session 80 True 3 5)"
    "program net = on_new http_session_cbs 0 (se_id (first_session 80 True 3 5)) sample_web"
    using first_accept [OF http_sessions.session_protocol_axioms] by blast
  have "hc_header (conns (outside (program net)) 0) = None"
    using net(5) by (simp add: http_session_cbs_def http_new_def sample_web_def new_conn_def)
  then show ?thesis
    using close_before_request [OF net(2), of 0] net(1,3,4) first_session_simps(1) by auto
qed

theorem signal_ends_server_witness:
  "\<exists>net'. handle_event (rtmp_session_cbs flv_cbs (\<lambda>_. 0)) Signal
     (start_server 1935 True 3 (\<lambda>_. No_Error) False ((\<lambda>_. sample_publisher), sample_room)) = (Inr (), net') \<and> \<not> acceptor_open net'"
  using signal_ends_server [OF start_server_ok(1), of 1935 True 3 "\<lambda>_. No_Error" False "((\<lambda>_. sample_publisher), sample_room)" flv_cbs "\<lambda>_. 0"]
  by (auto simp: start_server_def create_server_def do_accept_def)

end
