(* ===== verification/Raw_Buffer.thy ===== *)
theory Raw_Buffer
  imports Flat_Buffer
begin

text \<open>
  \<open>include/network/buffer.h\<close>: the owned block of bytes that headers are built in, and the view
  of a string. The heap is explicit here, since what matters of the class is which block it owns: a block
  is named by an address that is not used again, and has a size and its content. Deleting a block that does
  not exist and writing past the end of one are \<open>Undefined\<close>. A \<open>size_t\<close> is a natural
  number; \<open>2 * capacity\<close> only wraps for blocks no machine has.
\<close>

section \<open>The heap\<close>

record heap =
  blocks :: "nat \<Rightarrow> (nat \<times> memory) option"
  next_block :: nat

definition heap_ok :: "heap \<Rightarrow> bool" where
  "heap_ok h \<longleftrightarrow> (\<forall>a. blocks h a \<noteq> None \<longrightarrow> a < next_block h)"

definition new_block :: "nat \<Rightarrow> heap \<Rightarrow> heap" where
  "new_block n h = h\<lparr>blocks := (blocks h)(next_block h \<mapsto> (n, new_memory)), next_block := next_block h + 1\<rparr>"

definition delete_block :: "nat option \<Rightarrow> heap \<Rightarrow> heap res" where
  "delete_block p h = (case p of None \<Rightarrow> Inr h | Some a \<Rightarrow>
     if blocks h a = None then Inl (Undefined ''delete of a block that does not exist'')
     else Inr (h\<lparr>blocks := (blocks h)(a := None)\<rparr>))"

text \<open>What changes the first \<open>n\<close> bytes behind a pointer.\<close>

definition change_block :: "nat option \<Rightarrow> nat \<Rightarrow> (memory \<Rightarrow> memory) \<Rightarrow> heap \<Rightarrow> heap res" where
  "change_block p n f h = (case p of
     None \<Rightarrow> if n = 0 then Inr h else Inl (Undefined ''write through a null pointer'')
   | Some a \<Rightarrow> (case blocks h a of
       None \<Rightarrow> Inl (Undefined ''write to a block that does not exist'')
     | Some (c, m) \<Rightarrow> if n \<le> c then Inr (h\<lparr>blocks := (blocks h)(a \<mapsto> (c, f m))\<rparr>)
         else Inl (Undefined ''write past the end of a block'')))"

section \<open>The raw buffer\<close>

record raw_buffer =
  rb_size :: nat
  rb_capacity :: nat
  rb_data :: "nat option"

definition empty_raw :: raw_buffer where
  "empty_raw = \<lparr>rb_size = 0, rb_capacity = 0, rb_data = None\<rparr>"

type_synonym raw_op = "(raw_buffer \<times> heap, unit) eff"

definition set_size :: "nat \<Rightarrow> raw_op" where
  "set_size n = (\<lambda>(b, h).
     if n > rb_capacity b then (Inl (Invalid_argument ''buffer cannot set size bigger than capacity''), (b, h))
     else (Inr (), (b\<lparr>rb_size := n\<rparr>, h)))"

definition delete_data :: raw_op where
  "delete_data = (\<lambda>(b, h). case delete_block (rb_data b) h of
     Inl e \<Rightarrow> (Inl e, (b, h)) | Inr h \<Rightarrow> (Inr (), (b\<lparr>rb_data := None\<rparr>, h)))"

definition clean_raw :: raw_op where
  "clean_raw = ebind (\<lambda>(b, h). if rb_data b \<noteq> None then delete_data (b, h) else (Inr (), (b, h)))
     (\<lambda>_. emodify (\<lambda>(b, h). (b\<lparr>rb_size := 0, rb_capacity := 0\<rparr>, h)))"

text \<open>The statements behind the label \<open>alloc\<close>.\<close>

definition alloc_raw :: "nat \<Rightarrow> raw_op" where
  "alloc_raw n = emodify (\<lambda>(b, h). (b\<lparr>rb_data := Some (next_block h), rb_capacity := n\<rparr>, new_block n h))"

definition set_capacity :: "nat \<Rightarrow> raw_op" where
  "set_capacity n = (\<lambda>(b, h).
     if rb_data b = None \<and> n \<noteq> 0 then ebind (set_size 0) (\<lambda>_. alloc_raw n) (b, h)
     else if rb_data b \<noteq> None \<and> n = 0 then clean_raw (b, h)
     else if n > rb_capacity b then
       ebind delete_data (\<lambda>_. ebind (set_size 0) (\<lambda>_. alloc_raw n)) (b, h)
     else if n < 2 * 1024 \<or> 2 * n > rb_capacity b then (Inr (), (b, h))
     else alloc_raw n (b, h))"

definition fill_raw :: "nat \<Rightarrow> (memory \<Rightarrow> memory) \<Rightarrow> raw_op" where
  "fill_raw n f = (\<lambda>(b, h). case change_block (rb_data b) n f h of
     Inl e \<Rightarrow> (Inl e, (b, h)) | Inr h \<Rightarrow> (Inr (), (b, h)))"

text \<open>
  \<open>assign\<close>: the argument is the memory behind the pointer, \<open>None\<close> for a null pointer.
\<close>

definition assign_raw :: "bytes option \<Rightarrow> nat \<Rightarrow> raw_op" where
  "assign_raw p n = (case p of
     None \<Rightarrow> clean_raw
   | Some bs \<Rightarrow> if n = 0 then clean_raw
       else ebind (set_capacity n) (\<lambda>_.
         ebind (if n \<le> length bs then fill_raw n (mem_write 0 (take n bs))
                else ethrow (Undefined ''read past the end of the source'')) (\<lambda>_.
         set_size n)))"

text \<open>The bytes a caller sees, \<open>data()\<close> up to \<open>size()\<close>.\<close>

definition raw_content :: "raw_buffer \<Rightarrow> heap \<Rightarrow> bytes res" where
  "raw_content b h = (case rb_data b of
     None \<Rightarrow> if rb_size b = 0 then Inr [] else Inl (Undefined ''read through a null pointer'')
   | Some a \<Rightarrow> (case blocks h a of
       None \<Rightarrow> Inl (Undefined ''read of a block that does not exist'')
     | Some (c, m) \<Rightarrow> if rb_size b \<le> c then mem_read m 0 (rb_size b)
         else Inl (Undefined ''read past the end of a block'')))"

subsection \<open>Constructors and assignment\<close>

definition create_raw :: "nat \<Rightarrow> heap \<Rightarrow> unit res \<times> raw_buffer \<times> heap" where
  "create_raw n h = set_capacity n (empty_raw, h)"

definition construct_raw :: "bytes option \<Rightarrow> nat \<Rightarrow> heap \<Rightarrow> unit res \<times> raw_buffer \<times> heap" where
  "construct_raw p n h = assign_raw p n (empty_raw, h)"

text \<open>
  The copy constructor delegates, so that the object counts as constructed when its body throws and is
  destroyed then.
\<close>

definition copy_raw :: "raw_buffer \<Rightarrow> heap \<Rightarrow> unit res \<times> raw_buffer \<times> heap" where
  "copy_raw other h =
     ebind (set_capacity (rb_capacity other)) (\<lambda>_.
       if rb_data other \<noteq> None \<and> rb_size other \<noteq> 0 then
         (\<lambda>s. case ebind (set_size (rb_size other)) (\<lambda>_ (b, h). case blocks h (the (rb_data other)) of
            None \<Rightarrow> (Inl (Undefined ''read of a block that does not exist''), (b, h))
          | Some (c, m) \<Rightarrow> fill_raw (rb_size b) (mem_copy 0 m 0 (rb_size b)) (b, h)) s of
            (Inl e, s) \<Rightarrow> ebind clean_raw (\<lambda>_. ethrow e) s
          | (Inr _, s) \<Rightarrow> (Inr (), s))
       else eret ()) (empty_raw, h)"

definition move_raw :: "raw_buffer \<Rightarrow> raw_buffer \<times> raw_buffer" where
  "move_raw other = (other, other\<lparr>rb_data := None\<rparr>)"

definition move_assign_raw :: "raw_buffer \<Rightarrow> raw_buffer \<Rightarrow> raw_buffer \<times> raw_buffer" where
  "move_assign_raw b other = (other, b)"

text \<open>The temporary takes the old block and is destroyed.\<close>

definition copy_assign_raw :: "raw_buffer \<Rightarrow> raw_op" where
  "copy_assign_raw other = (\<lambda>(b, h). case copy_raw other h of
     (Inl e, (_, h)) \<Rightarrow> (Inl e, (b, h))
   | (Inr _, (t, h)) \<Rightarrow> (case move_assign_raw b t of (b, t) \<Rightarrow> (case clean_raw (t, h) of
       (r, (_, h)) \<Rightarrow> (r, (b, h)))))"

section \<open>The view of a string\<close>

record buffer_string =
  bs_data :: string
  bs_offset :: nat
  bs_len :: nat

text \<open>The assertion of \<open>setup\<close> is the guard; without it the view runs past the string.\<close>

definition create_buffer_string :: "string \<Rightarrow> nat \<Rightarrow> nat \<Rightarrow> buffer_string res" where
  "create_buffer_string s off len =
     (if length s < off + len then Inl (Undefined ''assertion'')
      else Inr \<lparr>bs_data = s, bs_offset = off, bs_len = (if len = 0 then length s - off else len)\<rparr>)"

definition view_string :: "buffer_string \<Rightarrow> string" where
  "view_string v = take (bs_len v) (drop (bs_offset v) (bs_data v))"

section \<open>What a buffer owns\<close>

text \<open>The block of a buffer has the size the buffer believes, and what is in use lies inside it.\<close>

definition raw_ok :: "raw_buffer \<Rightarrow> heap \<Rightarrow> bool" where
  "raw_ok b h \<longleftrightarrow> heap_ok h \<and> rb_size b \<le> rb_capacity b \<and> (case rb_data b of
     None \<Rightarrow> rb_capacity b = 0
   | Some a \<Rightarrow> \<exists>m. blocks h a = Some (rb_capacity b, m))"

text \<open>The blocks of the heap that are not the one of the buffer.\<close>

definition others :: "raw_buffer \<Rightarrow> heap \<Rightarrow> nat \<Rightarrow> (nat \<times> memory) option" where
  "others b h = (blocks h) |` {a. rb_data b \<noteq> Some a}"

named_theorems raw_simps \<open>the operations of a raw buffer, unfolded\<close>

lemmas [raw_simps] = set_size_def delete_data_def clean_raw_def alloc_raw_def set_capacity_def fill_raw_def
  delete_block_def new_block_def change_block_def ebind_def

lemma raw_ok_empty: "heap_ok h \<Longrightarrow> raw_ok empty_raw h" "others empty_raw h = blocks h"
  by (auto simp: raw_ok_def empty_raw_def others_def)

lemma raw_ok_cases:
  assumes "raw_ok b h"
  obtains (none) "rb_data b = None" "rb_size b = 0" "rb_capacity b = 0" "heap_ok h"
    | (block) a m where "rb_data b = Some a" "blocks h a = Some (rb_capacity b, m)" "rb_size b \<le> rb_capacity b"
        "heap_ok h" "a \<noteq> next_block h" "blocks h (next_block h) = None"
proof (cases "rb_data b")
  case None
  then show thesis using assms none by (simp add: raw_ok_def)
next
  case (Some a)
  moreover have "blocks h (next_block h) = None" if "heap_ok h"
    using that unfolding heap_ok_def by (metis less_irrefl)
  ultimately show thesis using assms block by (fastforce simp: raw_ok_def)
qed

lemma raw_ok_set_size: "raw_ok b h \<Longrightarrow> n \<le> rb_capacity b \<Longrightarrow> raw_ok (b\<lparr>rb_size := n\<rparr>) h"
  by (simp add: raw_ok_def split: option.splits)

lemma heap_ok_changes:
  assumes "heap_ok h"
  shows "heap_ok (h\<lparr>blocks := (blocks h)(a := None)\<rparr>)" "heap_ok (new_block n h)"
    "blocks h a \<noteq> None \<Longrightarrow> heap_ok (h\<lparr>blocks := (blocks h)(a \<mapsto> v)\<rparr>)"
  using assms by (auto simp: heap_ok_def new_block_def less_Suc_eq)

lemma others_upd [simp]: "others (b\<lparr>rb_size := n\<rparr>) h = others b h"
  by (simp add: others_def)

text \<open>Cleaning gives the block back and nothing else.\<close>

lemma clean_raw_exec:
  assumes "raw_ok b h"
  obtains h' where "clean_raw (b, h) = (Inr (), (empty_raw, h'))" "heap_ok h'" "blocks h' = others b h"
  using assms
proof (cases rule: raw_ok_cases)
  case none
  then have "clean_raw (b, h) = (Inr (), (empty_raw, h))"
    by (cases b) (simp add: raw_simps empty_raw_def)
  then show thesis
    by (rule that) (use none in \<open>simp_all add: others_def restrict_map_def\<close>)
next
  case (block a m)
  let ?h = "h\<lparr>blocks := (blocks h)(a := None)\<rparr>"
  have "clean_raw (b, h) = (Inr (), (empty_raw, ?h))"
    using block by (cases b) (simp add: raw_simps empty_raw_def)
  then show thesis
    by (rule that) (use block heap_ok_changes(1) [of h a] in \<open>auto simp: others_def restrict_map_def\<close>)
qed

text \<open>
  A request that does not shrink the buffer: there is room afterwards, and the heap differs in the block
  of the buffer only.
\<close>

definition shrinks :: "nat \<Rightarrow> raw_buffer \<Rightarrow> bool" where
  "shrinks n b \<longleftrightarrow> rb_data b \<noteq> None \<and> 2048 \<le> n \<and> 2 * n \<le> rb_capacity b"

lemma set_capacity_exec:
  assumes ok: "raw_ok b h" and n: "n \<noteq> 0" and s: "\<not> shrinks n b"
  obtains b' h' where "set_capacity n (b, h) = (Inr (), (b', h'))" "raw_ok b' h'" "n \<le> rb_capacity b'"
    "rb_data b' \<noteq> None" "others b' h' = others b h"
proof (cases "rb_data b \<noteq> None \<and> n \<le> rb_capacity b")
  case True
  then have "set_capacity n (b, h) = (Inr (), (b, h))"
    using n s by (auto simp: set_capacity_def shrinks_def)
  then show thesis
    using True ok by (intro that) auto
next
  case False
  let ?b = "\<lparr>rb_size = 0, rb_capacity = n, rb_data = Some (next_block h)\<rparr>"
  from ok show thesis
  proof (cases rule: raw_ok_cases)
    case none
    have e: "set_capacity n (b, h) = (Inr (), (?b, new_block n h))"
      using none n by (cases b) (simp add: raw_simps)
    have "blocks h (next_block h) = None"
      using none(4) unfolding heap_ok_def by (metis less_irrefl)
    then show thesis
      by (intro that [OF e])
        (use none heap_ok_changes(2) [of h n] in \<open>auto simp: raw_ok_def new_block_def others_def restrict_map_def fun_eq_iff\<close>)
  next
    case (block a m)
    let ?h = "new_block n (h\<lparr>blocks := (blocks h)(a := None)\<rparr>)"
    have e: "set_capacity n (b, h) = (Inr (), (?b, ?h))"
      using block n False by (cases b) (simp add: raw_simps)
    have "heap_ok ?h"
      by (intro heap_ok_changes block)
    then show thesis
      by (intro that [OF e])
        (use block in \<open>auto simp: raw_ok_def new_block_def others_def restrict_map_def fun_eq_iff\<close>)
  qed
qed

text \<open>
  A request that does shrink it: the old block stays without an owner, and what is in use may reach
  past the new one.
\<close>

lemma shrinking_leaks:
  assumes ok: "raw_ok b h" and s: "shrinks n b"
  obtains a m b' h' where "rb_data b = Some a" "blocks h a = Some (rb_capacity b, m)"
    "set_capacity n (b, h) = (Inr (), (b', h'))" "rb_capacity b' = n" "rb_size b' = rb_size b"
    "rb_data b' \<noteq> Some a" "blocks h' a = Some (rb_capacity b, m)" "rb_data b' = Some (next_block h)"
    "blocks h' (next_block h) = Some (n, new_memory)"
proof -
  from ok obtain a m where a: "rb_data b = Some a" "blocks h a = Some (rb_capacity b, m)" "a \<noteq> next_block h"
    by (rule raw_ok_cases) (use s in \<open>auto simp: shrinks_def\<close>)
  have e: "set_capacity n (b, h) = (Inr (), (b\<lparr>rb_data := Some (next_block h), rb_capacity := n\<rparr>, new_block n h))"
    using s a by (simp add: raw_simps shrinks_def)
  show thesis
    by (rule that [OF a(1,2) e]) (use a in \<open>simp_all add: new_block_def\<close>)
qed

lemma shrunken_content:
  assumes ok: "raw_ok b h" and s: "shrinks n b" and n: "n < rb_size b"
    and c: "set_capacity n (b, h) = (r, (b', h'))"
  shows "raw_content b' h' = Inl (Undefined ''read past the end of a block'')"
  by (rule shrinking_leaks [OF ok s]) (use c n in \<open>auto simp: raw_content_def\<close>)

section \<open>Storing bytes\<close>

lemma those_map_Some: "those (map Some xs) = Some xs"
  by (induction xs) simp_all

lemma mem_read_written: "mem_read (mem_write 0 bs m) 0 (length bs) = Inr bs"
proof -
  have "map (mem_write 0 bs m) [0..<length bs] = map Some bs"
    by (rule nth_equalityI) (simp_all add: mem_write_def)
  then have "those (map (mem_write 0 bs m) [0..<0 + length bs]) = Some bs"
    using those_map_Some by simp
  then show ?thesis
    by (simp add: mem_read_def)
qed

text \<open>The first bytes of a block are written, and the size is set to them.\<close>

lemma fill_raw_exec:
  assumes ok: "raw_ok b h" and d: "rb_data b \<noteq> None" and n: "length bs \<le> rb_capacity b"
  obtains h' where "fill_raw (length bs) (mem_write 0 bs) (b, h) = (Inr (), (b, h'))" "raw_ok b h'"
    "others b h' = others b h" "raw_content (b\<lparr>rb_size := length bs\<rparr>) h' = Inr bs"
proof -
  obtain a m where a: "rb_data b = Some a" "blocks h a = Some (rb_capacity b, m)"
    using ok d by (auto simp: raw_ok_def)
  let ?h = "h\<lparr>blocks := (blocks h)(a \<mapsto> (rb_capacity b, mem_write 0 bs m))\<rparr>"
  have "fill_raw (length bs) (mem_write 0 bs) (b, h) = (Inr (), (b, ?h))"
    using a n by (simp add: raw_simps)
  then show thesis
    by (rule that)
      (use ok a n in \<open>auto simp: raw_ok_def heap_ok_def others_def restrict_map_def fun_eq_iff raw_content_def mem_read_written\<close>)
qed

text \<open>\<open>assign\<close> of a buffer that is not shrunk by it.\<close>

lemma assign_raw_exec:
  assumes ok: "raw_ok b h" and n: "n \<noteq> 0" "n \<le> length bs" and s: "\<not> shrinks n b"
  obtains b' h' where "assign_raw (Some bs) n (b, h) = (Inr (), (b', h'))" "raw_ok b' h'"
    "raw_content b' h' = Inr (take n bs)" "others b' h' = others b h"
proof -
  obtain b1 h1 where c: "set_capacity n (b, h) = (Inr (), (b1, h1))" "raw_ok b1 h1" "n \<le> rb_capacity b1"
    "rb_data b1 \<noteq> None" "others b1 h1 = others b h"
    by (rule set_capacity_exec [OF ok n(1) s])
  have l: "length (take n bs) = n" using n by simp
  obtain h2 where f: "fill_raw n (mem_write 0 (take n bs)) (b1, h1) = (Inr (), (b1, h2))" "raw_ok b1 h2"
    "others b1 h2 = others b1 h1" "raw_content (b1\<lparr>rb_size := n\<rparr>) h2 = Inr (take n bs)"
    by (rule fill_raw_exec [OF c(2,4), of "take n bs"]) (use l c(3) in simp_all)
  have "assign_raw (Some bs) n (b, h) = (Inr (), (b1\<lparr>rb_size := n\<rparr>, h2))"
    using c(1,3) f(1) n by (simp add: assign_raw_def ebind_def set_size_def)
  moreover note raw_ok_set_size [OF f(2) c(3)]
  ultimately show thesis
    by (rule that) (use f(3,4) c(5) in simp_all)
qed

lemma assign_raw_nothing: "assign_raw None n = clean_raw" "assign_raw p 0 = clean_raw"
  by (simp_all add: assign_raw_def split: option.splits)

section \<open>Copies\<close>

text \<open>A copy has the content of the original in a block of its own; the original is untouched.\<close>

lemma copy_raw_exec:
  assumes ok: "raw_ok b h" and d: "rb_size b \<noteq> 0" "raw_content b h = Inr bs"
  obtains b' h' where "copy_raw b h = (Inr (), (b', h'))" "raw_ok b' h'" "raw_content b' h' = Inr bs"
    "rb_data b' \<noteq> None" "others b' h' = blocks h"
proof -
  from ok obtain a m where a: "rb_data b = Some a" "blocks h a = Some (rb_capacity b, m)"
    and cap: "rb_size b \<le> rb_capacity b" "heap_ok h" "a \<noteq> next_block h" "blocks h (next_block h) = None"
    by (rule raw_ok_cases) (use d in auto)
  let ?h = "h\<lparr>blocks := (blocks h)(next_block h \<mapsto> (rb_capacity b, mem_copy 0 m 0 (rb_size b) new_memory)),
    next_block := next_block h + 1\<rparr>"
  let ?b = "\<lparr>rb_size = rb_size b, rb_capacity = rb_capacity b, rb_data = Some (next_block h)\<rparr>"
  have "copy_raw b h = (Inr (), (?b, ?h))"
    using a cap d by (simp add: copy_raw_def raw_simps empty_raw_def)
  moreover have "raw_ok ?b ?h"
    using cap by (auto simp: raw_ok_def heap_ok_def less_Suc_eq)
  moreover have "raw_content ?b ?h = Inr bs"
  proof -
    have "map (mem_copy 0 m 0 (rb_size b) new_memory) [0..<0 + rb_size b] = map m [0..<0 + rb_size b]"
      by (auto simp: mem_copy_def)
    then have "mem_read (mem_copy 0 m 0 (rb_size b) new_memory) 0 (rb_size b) = mem_read m 0 (rb_size b)"
      unfolding mem_read_def by (rule arg_cong)
    then show ?thesis
      using d a cap by (simp add: raw_content_def)
  qed
  moreover have "others ?b ?h = blocks h"
    using cap by (auto simp: others_def restrict_map_def fun_eq_iff)
  ultimately show thesis
    by (intro that) auto
qed

text \<open>
  A buffer that was moved from keeps its size and capacity without a block: it accepts a size, and
  what is read of it then is behind a null pointer.
\<close>

lemma moved_from_raw:
  assumes "raw_ok b h" "n \<le> rb_capacity b" "n \<noteq> 0"
  shows "set_size n (snd (move_raw b), h) = (Inr (), ((snd (move_raw b))\<lparr>rb_size := n\<rparr>, h))"
    and "raw_content ((snd (move_raw b))\<lparr>rb_size := n\<rparr>) h = Inl (Undefined ''read through a null pointer'')"
  using assms by (simp_all add: move_raw_def set_size_def raw_content_def)

text \<open>Assigning a copy gives the old block back.\<close>

lemma copy_assign_raw_exec:
  assumes ok: "raw_ok b h" and o: "raw_ok x h" "rb_size x \<noteq> 0" "raw_content x h = Inr bs"
  obtains b' h' where "copy_assign_raw x (b, h) = (Inr (), (b', h'))" "raw_ok b' h'" "raw_content b' h' = Inr bs"
    "others b' h' = others b h"
proof -
  obtain t h1 where c: "copy_raw x h = (Inr (), (t, h1))" "raw_ok t h1" "raw_content t h1 = Inr bs"
    "rb_data t \<noteq> None" "others t h1 = blocks h"
    by (rule copy_raw_exec [OF o])
  obtain p where p: "rb_data t = Some p"
    using c(4) by auto
  have fresh: "blocks h p = None" and same: "a \<noteq> p \<Longrightarrow> blocks h1 a = blocks h a" for a
    using fun_cong [OF c(5), of p] fun_cong [OF c(5), of a] p by (auto simp: others_def restrict_map_def)
  have b: "raw_ok b h1" "rb_data b \<noteq> Some p"
    using ok fresh same c(2) unfolding raw_ok_def by (auto split: option.splits) (metis option.distinct(1))+
  obtain h2 where h2: "clean_raw (b, h1) = (Inr (), (empty_raw, h2))" "heap_ok h2" "blocks h2 = others b h1"
    by (rule clean_raw_exec [OF b(1)])
  have e: "copy_assign_raw x (b, h) = (Inr (), (t, h2))"
    using c(1) h2(1) by (simp add: copy_assign_raw_def move_assign_raw_def)
  have keep: "blocks h2 p = blocks h1 p"
    using h2(3) b(2) by (simp add: others_def restrict_map_def)
  show thesis
  proof (rule that [OF e])
    show "raw_ok t h2" "raw_content t h2 = Inr bs"
      using c(2,3) h2(2) keep p by (simp_all add: raw_ok_def raw_content_def)
    show "others t h2 = others b h"
      using h2(3) p fresh same b(2) by (auto simp: others_def restrict_map_def fun_eq_iff)
  qed
qed

end
