(* ===== verification/Pooled_Header.thy ===== *)
theory Pooled_Header
  imports Raw_Buffer Flv_Muxer Rtmp_Chunk
begin

text \<open>
  The headers that \<open>flv_muxer.cpp\<close> and \<open>rtmp_protocol.cpp\<close> build in an object of their pool,
  field by field over the packed structures. The pool gives an object that was just made (the theory of
  the pool shows that none comes back), so they start from an empty buffer. What they leave in it are the
  bytes that the theories of the muxer and of the chunk layer send.
\<close>

text \<open>Assignments to fields: how far they reach, and what they do to the memory.\<close>

type_synonym field = "nat \<times> (memory \<Rightarrow> memory)"

definition put_field :: "nat \<Rightarrow> bytes \<Rightarrow> field" where
  "put_field off bs = (off + length bs, mem_write off bs)"

definition set_bits :: "nat \<Rightarrow> u8 \<Rightarrow> field" where
  "set_bits off w = (off + 1, \<lambda>m. m(off := map_option (\<lambda>b. b OR w) (m off)))"

definition fill_all :: "field list \<Rightarrow> raw_op" where
  "fill_all fs = each (\<lambda>(n, f). fill_raw n f) fs"

definition header_object :: "nat \<Rightarrow> field list \<Rightarrow> raw_op" where
  "header_object n fs = ebind (set_capacity n) (\<lambda>_. ebind (set_size n) (\<lambda>_. fill_all fs))"

definition flv_header_object :: raw_op where
  "flv_header_object = header_object 9
     [put_field 0 (replicate 9 0),
      put_field 0 (bytes_of_str ''F''), put_field 1 (bytes_of_str ''L''), put_field 2 (bytes_of_str ''V''),
      put_field 3 [kFlvVersion],
      put_field 5 (htonl kFlvHeaderLength),
      set_bits 4 0b100, set_bits 4 0b1]"

definition flv_tag_header_object :: "u8 \<Rightarrow> nat \<Rightarrow> u32 \<Rightarrow> raw_op" where
  "flv_tag_header_object t body_size ts = header_object 11
     [put_field 0 (replicate 11 0),
      put_field 0 [t],
      put_field 1 (set_be24 (word_of_nat body_size)),
      put_field 7 [ucast (drop_bit 24 ts AND 0xFF)],
      put_field 4 (set_be24 (ts AND 0xFFFFFF))]"

text \<open>The two bit fields of the first byte are set one after the other; together they are the byte.\<close>

definition rtmp_header_object :: "u8 \<Rightarrow> u32 \<Rightarrow> nat \<Rightarrow> u32 \<Rightarrow> nat \<Rightarrow> raw_op" where
  "rtmp_header_object msg_type sid len ts csid = header_object 12
     [put_field 0 [word_of_nat csid],
      put_field 7 [msg_type],
      put_field 1 (set_be24 (if ts \<ge> 0xFFFFFF then 0xFFFFFF else ts)),
      put_field 4 (set_be24 (word_of_nat len)),
      put_field 8 (set_le32 sid)]"

section \<open>What the objects hold\<close>

lemma fill_all_exec:
  assumes "rb_data b = Some a" "blocks h a = Some (c, m)" "\<forall>f \<in> set fs. fst f \<le> c"
  shows "fill_all fs (b, h) = (Inr (), (b, h\<lparr>blocks := (blocks h)(a \<mapsto> (c, fold snd fs m))\<rparr>))"
  using assms
proof (induction fs arbitrary: h m)
  case Nil
  then show ?case by (cases h) (simp add: fill_all_def fun_upd_idem)
next
  case (Cons f fs)
  let ?h = "h\<lparr>blocks := (blocks h)(a \<mapsto> (c, snd f m))\<rparr>"
  have "fill_raw (fst f) (snd f) (b, h) = (Inr (), (b, ?h))"
    using Cons.prems by (simp add: fill_raw_def change_block_def)
  moreover have "fill_all fs (b, ?h) = (Inr (), (b, ?h\<lparr>blocks := (blocks ?h)(a \<mapsto> (c, fold snd fs (snd f m)))\<rparr>))"
    using Cons.prems by (intro Cons.IH) simp_all
  ultimately show ?case
    by (simp add: fill_all_def ebind_def case_prod_unfold) (simp add: fun_upd_def)
qed

lemma mem_readI:
  assumes "\<And>i. i < length bs \<Longrightarrow> m i = Some (bs ! i)"
  shows "mem_read m 0 (length bs) = Inr bs"
proof -
  have "map m [0..<0 + length bs] = map Some bs"
    by (rule nth_equalityI) (simp_all add: assms)
  then show ?thesis
    by (simp add: mem_read_def those_map_Some)
qed

lemma header_object_exec:
  assumes h: "heap_ok h" and n: "n \<noteq> 0" "length bs = n" "\<forall>f \<in> set fs. fst f \<le> n"
    and m: "\<And>i. i < n \<Longrightarrow> fold snd fs new_memory i = Some (bs ! i)"
  shows "\<exists>b' h'. header_object n fs (empty_raw, h) = (Inr (), (b', h')) \<and> raw_content b' h' = Inr bs
    \<and> raw_ok b' h' \<and> others b' h' = blocks h"
proof -
  let ?b = "\<lparr>rb_size = n, rb_capacity = n, rb_data = Some (next_block h)\<rparr>"
  let ?h = "new_block n h"
  let ?h' = "?h\<lparr>blocks := (blocks ?h)(next_block h \<mapsto> (n, fold snd fs new_memory))\<rparr>"
  have "fill_all fs (?b, ?h) = (Inr (), (?b, ?h'))"
    by (rule fill_all_exec) (simp_all add: new_block_def n)
  then have e: "header_object n fs (empty_raw, h) = (Inr (), (?b, ?h'))"
    using n(1) by (simp add: header_object_def ebind_def set_capacity_def set_size_def alloc_raw_def empty_raw_def)
  have f: "blocks h (next_block h) = None"
    using h unfolding heap_ok_def by (metis less_irrefl)
  have "raw_ok ?b ?h'"
    using h by (auto simp: raw_ok_def new_block_def heap_ok_def less_Suc_eq)
  moreover have "raw_content ?b ?h' = Inr bs"
    using mem_readI [of bs "fold snd fs new_memory"] m n by (simp add: raw_content_def)
  moreover have "others ?b ?h' = blocks h"
    using f by (auto simp: others_def restrict_map_def new_block_def fun_eq_iff)
  ultimately show ?thesis
    using e by blast
qed

lemmas field_simps' = put_field_def set_bits_def mem_write_def new_memory_def

lemma header_objects:
  assumes "heap_ok h"
  shows "\<exists>b' h'. flv_header_object (empty_raw, h) = (Inr (), (b', h')) \<and> raw_content b' h' = Inr prepare_flv_header
      \<and> raw_ok b' h' \<and> others b' h' = blocks h"
    and "\<exists>b' h'. flv_tag_header_object t n ts (empty_raw, h) = (Inr (), (b', h'))
      \<and> raw_content b' h' = Inr (prepare_flv_tag_header t n ts) \<and> raw_ok b' h' \<and> others b' h' = blocks h"
    and "\<exists>b' h'. rtmp_header_object t sid n ts cid (empty_raw, h) = (Inr (), (b', h'))
      \<and> raw_content b' h' = Inr (rtmp_header_bytes t sid n ts cid) \<and> raw_ok b' h' \<and> others b' h' = blocks h"
proof -
  have l: "i < 9 \<longleftrightarrow> i \<in> set [0,1,2,3,4,5,6,7,8]" "i < 11 \<longleftrightarrow> i \<in> set [0,1,2,3,4,5,6,7,8,9,10]"
    "i < 12 \<longleftrightarrow> i \<in> set [0,1,2,3,4,5,6,7,8,9,10,11]" for i :: nat
    by (simp, presburger)+
  show "\<exists>b' h'. flv_header_object (empty_raw, h) = (Inr (), (b', h')) \<and> raw_content b' h' = Inr prepare_flv_header
      \<and> raw_ok b' h' \<and> others b' h' = blocks h"
    unfolding flv_header_object_def
    by (rule header_object_exec [OF assms, of 9 prepare_flv_header])
      (auto simp: l field_simps' prepare_flv_header_def htonl_def bytes_of_str_def)
  show "\<exists>b' h'. flv_tag_header_object t n ts (empty_raw, h) = (Inr (), (b', h'))
      \<and> raw_content b' h' = Inr (prepare_flv_tag_header t n ts) \<and> raw_ok b' h' \<and> others b' h' = blocks h"
    unfolding flv_tag_header_object_def
    by (rule header_object_exec [OF assms, of 11 "prepare_flv_tag_header t n ts"])
      (auto simp: l field_simps' prepare_flv_tag_header_def set_be24_def)
  show "\<exists>b' h'. rtmp_header_object t sid n ts cid (empty_raw, h) = (Inr (), (b', h'))
      \<and> raw_content b' h' = Inr (rtmp_header_bytes t sid n ts cid) \<and> raw_ok b' h' \<and> others b' h' = blocks h"
    unfolding rtmp_header_object_def
    by (rule header_object_exec [OF assms, of 12 "rtmp_header_bytes t sid n ts cid"])
      (auto simp: l field_simps' rtmp_header_bytes_def set_be24_def set_le32_def)
qed

end
