(* ===== verification/Resource_Pool.thy ===== *)
theory Resource_Pool
  imports Prelude "HOL-Library.Multiset"
begin

text \<open>
  \<open>include/util/resource_pool.h\<close>: the pool that hands out objects to several threads, guarded by a
  flag that a thread tests and never waits for. The statements between two accesses to shared state are one
  step; the threads interleave in any order. An object is named by an address that is not used again, and is
  live between \<open>new\<close> and \<open>delete\<close>; deleting an object that is not live is \<open>Undefined\<close>.
  A thread is the position of its program counter in \<open>pcs\<close>.
\<close>

section \<open>State and steps\<close>

datatype pool_pc = Outside_pool | Taking | Taken nat | Returning nat | Returned

record resource_pool =
  pool_size :: nat
  objs :: "nat list"
  busy :: bool
  pool_alive :: bool
  live_objects :: "nat list"
  next_object :: nat
  handed_out :: "nat list"
  pcs :: "pool_pc list"

definition kDefaultPoolSize :: nat where "kDefaultPoolSize = 64"

text \<open>The constructor never assigns \<open>pool_size_\<close>, which keeps its initial value.\<close>

definition create_pool :: "nat \<Rightarrow> nat \<Rightarrow> resource_pool" where
  "create_pool n threads =
     (let n = (if n = 0 then kDefaultPoolSize else n) in
      \<lparr>pool_size = 0, objs = [0..<n], busy = False, pool_alive = True, live_objects = [0..<n],
       next_object = n, handed_out = [], pcs = replicate threads Outside_pool\<rparr>)"

definition alloc_object :: "resource_pool \<Rightarrow> nat \<times> resource_pool" where
  "alloc_object s = (next_object s,
     s\<lparr>live_objects := next_object s # live_objects s, next_object := next_object s + 1\<rparr>)"

definition delete_object :: "nat \<Rightarrow> resource_pool \<Rightarrow> resource_pool res" where
  "delete_object p s = (if p \<in> set (live_objects s) then Inr (s\<lparr>live_objects := remove1 p (live_objects s)\<rparr>)
     else Inl (Undefined ''delete of an object that is not live''))"

definition goto :: "nat \<Rightarrow> pool_pc \<Rightarrow> resource_pool \<Rightarrow> resource_pool" where
  "goto t c s = s\<lparr>pcs := (pcs s)[t := c]\<rparr>"

definition hand_out :: "nat \<Rightarrow> resource_pool \<Rightarrow> resource_pool" where
  "hand_out p s = s\<lparr>handed_out := p # handed_out s\<rparr>"

text \<open>\<open>get_obj_ptr\<close>: up to the test of the flag, the choice of an object, the release of the flag.\<close>

definition begin_get :: "nat \<Rightarrow> resource_pool \<Rightarrow> resource_pool res" where
  "begin_get t s =
     (if busy s then (let (p, s) = alloc_object s in Inr (hand_out p s))
      else Inr (goto t Taking (s\<lparr>busy := True\<rparr>)))"

definition take_object :: "nat \<Rightarrow> resource_pool \<Rightarrow> resource_pool res" where
  "take_object t s =
     (if length (objs s) = 0 then (let (p, s) = alloc_object s in Inr (goto t (Taken p) s))
      else Inr (goto t (Taken (List.last (objs s))) (s\<lparr>objs := butlast (objs s)\<rparr>)))"

definition end_get :: "nat \<Rightarrow> nat \<Rightarrow> resource_pool \<Rightarrow> resource_pool res" where
  "end_get t p s = Inr (hand_out p (goto t Outside_pool (s\<lparr>busy := False\<rparr>)))"

text \<open>The deleter of a handed out pointer, which calls \<open>recycle\<close> while the pool exists.\<close>

definition drop_pointer :: "nat \<Rightarrow> nat \<Rightarrow> resource_pool \<Rightarrow> resource_pool res" where
  "drop_pointer t p s =
     (let s = s\<lparr>handed_out := remove1 p (handed_out s)\<rparr> in
      if pool_alive s then
        if busy s then delete_object p s
        else Inr (goto t (Returning p) (s\<lparr>busy := True\<rparr>))
      else delete_object p s)"

definition put_object :: "nat \<Rightarrow> nat \<Rightarrow> resource_pool \<Rightarrow> resource_pool res" where
  "put_object t p s =
     (if length (objs s) \<ge> pool_size s
      then res_bind (delete_object p s) (\<lambda>s. Inr (goto t Returned s))
      else Inr (goto t Returned (s\<lparr>objs := objs s @ [p]\<rparr>)))"

definition end_recycle :: "nat \<Rightarrow> resource_pool \<Rightarrow> resource_pool res" where
  "end_recycle t s = Inr (goto t Outside_pool (s\<lparr>busy := False\<rparr>))"

text \<open>The destructor; nobody is inside an operation then, since the caller of one holds the pool.\<close>

fun delete_all :: "nat list \<Rightarrow> resource_pool \<Rightarrow> resource_pool res" where
  "delete_all [] s = Inr s"
| "delete_all (p # ps) s = res_bind (delete_object p s) (delete_all ps)"

definition destroy_pool :: "resource_pool \<Rightarrow> resource_pool res" where
  "destroy_pool s = res_bind (delete_all (objs s) s) (\<lambda>s. Inr (s\<lparr>objs := [], pool_alive := False\<rparr>))"

text \<open>
  What the threads do next: ask for an object, drop a pointer they were handed, go on inside an operation,
  or drop the pool. \<open>None\<close> is a step that cannot be taken in the state.
\<close>

datatype pool_event = Obtain nat | Drop_pointer nat nat | Proceed nat | Drop_pool

fun pool_step :: "pool_event \<Rightarrow> resource_pool \<Rightarrow> resource_pool res option" where
  "pool_step (Obtain t) s =
     (if t < length (pcs s) \<and> pcs s ! t = Outside_pool \<and> pool_alive s then Some (begin_get t s) else None)"
| "pool_step (Drop_pointer t p) s =
     (if t < length (pcs s) \<and> pcs s ! t = Outside_pool \<and> p \<in> set (handed_out s) then Some (drop_pointer t p s) else None)"
| "pool_step (Proceed t) s =
     (if t < length (pcs s) then (case pcs s ! t of
        Outside_pool \<Rightarrow> None
      | Taking \<Rightarrow> Some (take_object t s)
      | Taken p \<Rightarrow> Some (end_get t p s)
      | Returning p \<Rightarrow> Some (put_object t p s)
      | Returned \<Rightarrow> Some (end_recycle t s)) else None)"
| "pool_step Drop_pool s =
     (if pool_alive s \<and> list_all (\<lambda>c. c = Outside_pool) (pcs s) then Some (destroy_pool s) else None)"

inductive pool_run :: "pool_event list \<Rightarrow> resource_pool \<Rightarrow> resource_pool \<Rightarrow> bool" where
  pool_start: "pool_run [] s s"
| pool_go: "pool_run es s s' \<Longrightarrow> pool_step e s' = Some (Inr s'') \<Longrightarrow> pool_run (es @ [e]) s s''"

inductive_cases pool_run_snocE: "pool_run (es @ [e]) s s'"

section \<open>Who owns an object\<close>

fun in_transit :: "pool_pc \<Rightarrow> nat list" where
  "in_transit (Taken p) = [p]"
| "in_transit (Returning p) = [p]"
| "in_transit c = []"

definition owned :: "resource_pool \<Rightarrow> nat multiset" where
  "owned s = mset (objs s) + mset (handed_out s) + mset (concat (map in_transit (pcs s)))"

definition inside :: "pool_pc list \<Rightarrow> nat" where
  "inside cs = length (filter (\<lambda>c. c \<noteq> Outside_pool) cs)"

text \<open>
  Every live object has exactly one owner: the pool, the holder of a pointer, or a thread inside an
  operation. At most one thread is inside, and exactly when the flag is set.
\<close>

definition pool_ok :: "resource_pool \<Rightarrow> bool" where
  "pool_ok s \<longleftrightarrow> mset (live_objects s) = owned s \<and> distinct (live_objects s)
     \<and> (\<forall>p \<in> set (live_objects s). p < next_object s) \<and> inside (pcs s) = (if busy s then 1 else 0)
     \<and> (\<not> pool_alive s \<longrightarrow> \<not> busy s \<and> objs s = [])"

lemma concat_update:
  "t < length cs \<Longrightarrow> mset (concat (map f (cs[t := c]))) + mset (f (cs ! t)) = mset (concat (map f cs)) + mset (f c)"
  by (induction cs arbitrary: t) (auto simp: nth_Cons' Suc_pred split: nat.splits)

lemma inside_update:
  "t < length cs \<Longrightarrow> inside (cs[t := c]) + (if cs ! t = Outside_pool then 0 else 1) = inside cs + (if c = Outside_pool then 0 else 1)"
proof (induction cs arbitrary: t)
  case (Cons x cs)
  show ?case
    using Cons.prems Cons.IH [of "t - 1"] by (cases t; cases "x = Outside_pool") (simp_all add: inside_def)
qed (simp add: inside_def)

lemma goto_fields [simp]:
  "objs (goto t c s) = objs s" "live_objects (goto t c s) = live_objects s" "busy (goto t c s) = busy s"
  "pool_alive (goto t c s) = pool_alive s" "next_object (goto t c s) = next_object s"
  "pool_size (goto t c s) = pool_size s" "handed_out (goto t c s) = handed_out s"
  "pcs (goto t c s) = (pcs s)[t := c]"
  by (simp_all add: goto_def)

lemma owned_goto:
  "t < length (pcs s) \<Longrightarrow> owned (goto t c s) + mset (in_transit (pcs s ! t)) = owned s + mset (in_transit c)"
  using concat_update [of t "pcs s" in_transit c] by (simp add: owned_def)

lemma pool_okD:
  assumes "pool_ok s"
  shows "mset (live_objects s) = owned s" "distinct (live_objects s)" "p \<in> set (live_objects s) \<Longrightarrow> p < next_object s"
    "inside (pcs s) = (if busy s then 1 else 0)" "\<not> pool_alive s \<Longrightarrow> \<not> busy s \<and> objs s = []"
  using assms by (auto simp: pool_ok_def)

lemma owned_live: "pool_ok s \<Longrightarrow> p \<in># owned s \<Longrightarrow> p \<in> set (live_objects s)"
  using pool_okD(1) [of s] by (metis set_mset_mset)

lemma inside_busy:
  assumes "pool_ok s" "t < length (pcs s)" "pcs s ! t \<noteq> Outside_pool"
  shows "busy s" "pool_alive s"
  using inside_update [of t "pcs s" Outside_pool] pool_okD(4,5) [OF assms(1)] assms(2,3)
  by (auto split: if_splits)

text \<open>The invariant behind a step, from what the step does to the owners, the flag and the counter.\<close>

lemma pool_okI:
  assumes "pool_ok s" "live_objects s' = live_objects s" "owned s' = owned s" "next_object s' = next_object s"
    "inside (pcs s') = (if busy s' then 1 else 0)" "\<not> pool_alive s' \<longrightarrow> \<not> busy s' \<and> objs s' = []"
  shows "pool_ok s'"
  using assms by (simp add: pool_ok_def)

lemma pool_ok_alloc:
  assumes "pool_ok s" "live_objects s' = next_object s # live_objects s" "owned s' = add_mset (next_object s) (owned s)"
    "next_object s' = next_object s + 1" "inside (pcs s') = (if busy s' then 1 else 0)"
    "\<not> pool_alive s' \<longrightarrow> \<not> busy s' \<and> objs s' = []"
  shows "pool_ok s'"
  using assms pool_okD(3) [OF assms(1)] by (auto simp: pool_ok_def less_Suc_eq)

lemma pool_ok_delete:
  assumes "pool_ok s" "live_objects s' = remove1 p (live_objects s)" "add_mset p (owned s') = owned s"
    "next_object s' = next_object s" "inside (pcs s') = (if busy s' then 1 else 0)"
    "\<not> pool_alive s' \<longrightarrow> \<not> busy s' \<and> objs s' = []"
  shows "pool_ok s'"
proof -
  have "owned s' = owned s - {#p#}"
    using assms(3) by (metis add_mset_remove_trivial)
  then show ?thesis
    using assms by (auto simp: pool_ok_def dest: notin_set_remove1)
qed

section \<open>Every step\<close>

text \<open>
  What every step gives: a state, the invariant, and, as nothing is ever put back, a pool that is an
  initial part of the one before.
\<close>

definition step_good :: "resource_pool \<Rightarrow> resource_pool res \<Rightarrow> bool" where
  "step_good s r \<longleftrightarrow> (\<exists>s'. r = Inr s' \<and> pool_ok s' \<and> pool_size s' = pool_size s
     \<and> (pool_size s = 0 \<longrightarrow> (\<exists>k. objs s' = take k (objs s))))"

lemma step_goodI:
  "pool_ok s' \<Longrightarrow> pool_size s' = pool_size s \<Longrightarrow> objs s' = take k (objs s) \<Longrightarrow> step_good s (Inr s')"
  by (auto simp: step_good_def)

lemma step_good_same:
  "pool_ok s' \<Longrightarrow> pool_size s' = pool_size s \<Longrightarrow> objs s' = objs s \<Longrightarrow> step_good s (Inr s')"
  by (rule step_goodI [of _ _ "length (objs s)"]) simp_all

lemma begin_get_good:
  assumes ok: "pool_ok s" and t: "t < length (pcs s)" "pcs s ! t = Outside_pool" and a: "pool_alive s"
  shows "step_good s (begin_get t s)"
proof (cases "busy s")
  case True
  show ?thesis
    using True a pool_okD(4) [OF ok]
    by (auto simp: begin_get_def alloc_object_def hand_out_def owned_def intro!: step_good_same pool_ok_alloc [OF ok])
next
  case False
  show ?thesis
    using False a t pool_okD(4) [OF ok] inside_update [OF t(1), of Taking] concat_update [OF t(1), of in_transit Taking]
    by (auto simp: begin_get_def owned_def intro!: step_good_same pool_okI [OF ok])
qed

lemma take_object_good:
  assumes ok: "pool_ok s" and t: "t < length (pcs s)" "pcs s ! t = Taking"
  shows "step_good s (take_object t s)"
proof -
  note busy = inside_busy [OF ok t(1)]
  have i: "inside ((pcs s)[t := Taken p]) = 1" for p
    using inside_update [OF t(1), of "Taken p"] pool_okD(4) [OF ok] busy t(2) by simp
  have c: "mset (concat (map in_transit ((pcs s)[t := Taken p]))) = add_mset p (mset (concat (map in_transit (pcs s))))" for p
    using concat_update [OF t(1), of in_transit "Taken p"] t(2) by simp
  show ?thesis
  proof (cases "objs s" rule: rev_cases)
    case Nil
    show ?thesis
      unfolding take_object_def
      using Nil i c busy t(2) by (auto simp: alloc_object_def owned_def intro!: step_good_same pool_ok_alloc [OF ok])
  next
    case (snoc ps p)
    have "step_good s (Inr (goto t (Taken p) (s\<lparr>objs := ps\<rparr>)))"
      by (rule step_goodI [of _ _ "length ps"], rule pool_okI [OF ok]) (use snoc i c busy t(2) in \<open>simp_all add: owned_def\<close>)
    then show ?thesis
      using snoc by (simp add: take_object_def)
  qed
qed

lemma end_get_good:
  assumes ok: "pool_ok s" and t: "t < length (pcs s)" "pcs s ! t = Taken p"
  shows "step_good s (end_get t p s)"
  using inside_busy [OF ok t(1)] inside_update [OF t(1), of Outside_pool] pool_okD(4) [OF ok] t(2)
    concat_update [OF t(1), of in_transit Outside_pool]
  by (auto simp: end_get_def hand_out_def owned_def intro!: step_good_same pool_okI [OF ok])

lemma drop_pointer_good:
  assumes ok: "pool_ok s" and t: "t < length (pcs s)" "pcs s ! t = Outside_pool" and p: "p \<in> set (handed_out s)"
  shows "step_good s (drop_pointer t p s)"
proof -
  have live: "p \<in> set (live_objects s)"
    using p by (intro owned_live [OF ok]) (simp add: owned_def)
  have h: "mset (handed_out s) = add_mset p (mset (remove1 p (handed_out s)))"
    using p by simp
  show ?thesis
  proof (cases "pool_alive s \<and> \<not> busy s")
    case True
    have "pool_ok (goto t (Returning p) (s\<lparr>handed_out := remove1 p (handed_out s), busy := True\<rparr>))"
      by (rule pool_okI [OF ok])
        (use True t pool_okD(4) [OF ok] inside_update [OF t(1), of "Returning p"]
          concat_update [OF t(1), of in_transit "Returning p"] in \<open>simp_all add: owned_def h del: mset_remove1\<close>)
    then show ?thesis
      using True by (simp add: drop_pointer_def step_good_same)
  next
    case False
    have "pool_ok (s\<lparr>handed_out := remove1 p (handed_out s), live_objects := remove1 p (live_objects s)\<rparr>)"
      by (rule pool_ok_delete [OF ok, of _ p]) (use pool_okD(4,5) [OF ok] in \<open>simp_all add: owned_def h del: mset_remove1\<close>)
    moreover have "drop_pointer t p s = Inr (s\<lparr>handed_out := remove1 p (handed_out s), live_objects := remove1 p (live_objects s)\<rparr>)"
      using False live by (auto simp: drop_pointer_def delete_object_def Let_def)
    ultimately show ?thesis
      by (simp add: step_good_same)
  qed
qed

lemma put_object_good:
  assumes ok: "pool_ok s" and t: "t < length (pcs s)" "pcs s ! t = Returning p"
  shows "step_good s (put_object t p s)"
proof -
  note busy = inside_busy [OF ok t(1)]
  have i: "inside ((pcs s)[t := Returned]) = 1"
    using inside_update [OF t(1), of Returned] pool_okD(4) [OF ok] busy t(2) by simp
  have c: "mset (concat (map in_transit (pcs s))) = add_mset p (mset (concat (map in_transit ((pcs s)[t := Returned]))))"
    using concat_update [OF t(1), of in_transit Returned] t(2) by simp
  have live: "p \<in> set (live_objects s)"
    using c by (intro owned_live [OF ok]) (simp add: owned_def)
  show ?thesis
  proof (cases "length (objs s) \<ge> pool_size s")
    case True
    have "pool_ok (goto t Returned (s\<lparr>live_objects := remove1 p (live_objects s)\<rparr>))"
      by (rule pool_ok_delete [OF ok, of _ p]) (use c i busy t(2) in \<open>simp_all add: owned_def\<close>)
    then show ?thesis
      using True live by (simp add: put_object_def delete_object_def step_good_same)
  next
    case False
    have "pool_ok (goto t Returned (s\<lparr>objs := objs s @ [p]\<rparr>))"
      by (rule pool_okI [OF ok]) (use c i busy t(2) in \<open>simp_all add: owned_def\<close>)
    then show ?thesis
      using False by (auto simp: put_object_def step_good_def)
  qed
qed

lemma end_recycle_good:
  assumes ok: "pool_ok s" and t: "t < length (pcs s)" "pcs s ! t = Returned"
  shows "step_good s (end_recycle t s)"
  using inside_busy [OF ok t(1)] inside_update [OF t(1), of Outside_pool] pool_okD(4) [OF ok] t(2)
    concat_update [OF t(1), of in_transit Outside_pool]
  by (auto simp: end_recycle_def owned_def intro!: step_good_same pool_okI [OF ok])

text \<open>The destructor.\<close>

lemma delete_all_exec:
  "mset ps \<subseteq># mset (live_objects s) \<Longrightarrow> distinct (live_objects s) \<Longrightarrow>
   \<exists>l. delete_all ps s = Inr (s\<lparr>live_objects := l\<rparr>) \<and> mset l = mset (live_objects s) - mset ps
     \<and> distinct l \<and> set l \<subseteq> set (live_objects s)"
proof (induction ps arbitrary: s)
  case Nil
  then show ?case by (cases s) auto
next
  case (Cons p ps)
  let ?s = "s\<lparr>live_objects := remove1 p (live_objects s)\<rparr>"
  have p: "p \<in> set (live_objects s)" and sub: "mset ps \<subseteq># mset (live_objects ?s)" and d: "distinct (live_objects ?s)"
    using Cons.prems by (auto simp: insert_subset_eq_iff)
  obtain l where l: "delete_all ps ?s = Inr (?s\<lparr>live_objects := l\<rparr>)" "mset l = mset (live_objects ?s) - mset ps"
    "distinct l" "set l \<subseteq> set (live_objects ?s)"
    using Cons.IH [OF sub d] by auto
  have "set l \<subseteq> set (live_objects s)"
    using l(4) set_remove1_subset [of p "live_objects s"] by auto
  then show ?case
    using p l by (intro exI [of _ l]) (simp add: delete_object_def)
qed

lemma destroy_pool_good:
  assumes ok: "pool_ok s" and out: "list_all (\<lambda>c. c = Outside_pool) (pcs s)"
  shows "step_good s (destroy_pool s)"
proof -
  have "filter (\<lambda>c. c \<noteq> Outside_pool) (pcs s) = []"
    using out by (auto simp: list_all_iff filter_empty_conv)
  then have b: "\<not> busy s"
    using pool_okD(4) [OF ok] by (auto simp: inside_def split: if_splits)
  have sub: "mset (objs s) \<subseteq># mset (live_objects s)"
    using pool_okD(1) [OF ok] by (simp add: owned_def)
  obtain l where l: "delete_all (objs s) s = Inr (s\<lparr>live_objects := l\<rparr>)" "mset l = mset (live_objects s) - mset (objs s)"
    "distinct l" "set l \<subseteq> set (live_objects s)"
    using delete_all_exec [OF sub pool_okD(2) [OF ok]] by auto
  have "pool_ok (s\<lparr>live_objects := l, objs := [], pool_alive := False\<rparr>)"
    using pool_okD [OF ok] b l(2-4) by (auto simp: pool_ok_def owned_def)
  then show ?thesis
    using l(1) by (auto simp: destroy_pool_def intro!: step_goodI [of _ _ 0])
qed

lemma pool_step_good:
  assumes "pool_ok s" "pool_step e s = Some r"
  shows "step_good s r"
  using assms
  by (cases e) (auto split: if_splits pool_pc.splits intro: begin_get_good take_object_good end_get_good
      drop_pointer_good put_object_good end_recycle_good destroy_pool_good)

section \<open>Every interleaving\<close>

lemma create_pool_ok: "pool_ok (create_pool n threads)"
  by (auto simp: pool_ok_def create_pool_def owned_def inside_def Let_def)

lemma pool_run_good:
  assumes "pool_run es s s'" "pool_ok s" "pool_size s = 0"
  shows "pool_ok s' \<and> pool_size s' = 0 \<and> (\<exists>k. objs s' = take k (objs s))"
  using assms
proof (induction rule: pool_run.induct)
  case (pool_start s)
  then show ?case by (auto intro: exI [of _ "length (objs s)"])
next
  case (pool_go es s s' e s'')
  then have i: "pool_ok s'" "pool_size s' = 0" and "\<exists>k. objs s' = take k (objs s)"
    by simp_all
  then obtain k where "objs s' = take k (objs s)" by blast
  with pool_step_good [OF i(1) pool_go.hyps(2)] i(2) show ?case
    by (auto simp: step_good_def)
qed

definition owners :: "resource_pool \<Rightarrow> nat list" where
  "owners s = objs s @ handed_out s @ concat (map in_transit (pcs s))"

lemma mset_owners: "mset (owners s) = owned s"
  by (simp add: owners_def owned_def)

text \<open>C40: However the threads that share a pool interleave, an object is in one place only (the pool,
  one holder, or one thread that is taking or returning it), the live objects are exactly those, so that
  nothing is lost and nothing is handed out twice, the next step of no thread deletes an object twice,
  and the flag keeps the threads apart. What was handed out never goes back: the objects in the pool are
  the first of those it was made with.\<close>

theorem pool_interleavings_safe:
  assumes "pool_run es (create_pool n threads) s"
  shows "distinct (owners s) \<and> set (owners s) = set (live_objects s)
    \<and> length (filter (\<lambda>c. c \<noteq> Outside_pool) (pcs s)) = (if busy s then 1 else 0)
    \<and> pool_step e s \<noteq> Some (Inl x)
    \<and> (\<exists>k. objs s = take k [0..<if n = 0 then kDefaultPoolSize else n])"
proof -
  have s: "pool_ok s" "\<exists>k. objs s = take k (objs (create_pool n threads))"
    using pool_run_good [OF assms create_pool_ok] by (simp_all add: create_pool_def Let_def)
  have "mset (owners s) = mset (live_objects s)"
    using pool_okD(1) [OF s(1)] by (simp add: mset_owners)
  then have "distinct (owners s)" "set (owners s) = set (live_objects s)"
    using pool_okD(2) [OF s(1)] mset_eq_imp_distinct_iff mset_eq_setD by blast+
  moreover have "pool_step e s \<noteq> Some (Inl x)"
    using pool_step_good [OF s(1), of e] by (auto simp: step_good_def)
  ultimately show ?thesis
    using s(2) pool_okD(4) [OF s(1)] by (simp add: inside_def create_pool_def Let_def)
qed

lemma pool_run_steps:
  "pool_step e s = Some (Inr s1) \<Longrightarrow> pool_run es s1 s2 \<Longrightarrow> pool_run (e # es) s s2"
proof (rotate_tac 1, induction rule: pool_run.induct)
  case (pool_start s1)
  then show ?case using pool_go [OF pool_run.pool_start, of e s s1] by simp
next
  case (pool_go es s1 s' e' s'')
  then show ?case using pool_run.pool_go [of "e # es" s s' e' s''] by simp
qed

fun pool_exec :: "pool_event list \<Rightarrow> resource_pool \<Rightarrow> resource_pool option" where
  "pool_exec [] s = Some s"
| "pool_exec (e # es) s = (case pool_step e s of Some (Inr s') \<Rightarrow> pool_exec es s' | _ \<Rightarrow> None)"

lemma pool_exec_run: "pool_exec es s = Some s' \<Longrightarrow> pool_run es s s'"
  by (induction es arbitrary: s) (auto intro: pool_start pool_run_steps split: option.splits sum.splits)

text \<open>Two threads meet: the second finds the flag set and gets an object of its own.\<close>

theorem pool_interleavings_safe_witness:
  "pool_exec [Obtain 0, Obtain 1, Proceed 0, Proceed 0, Drop_pointer 0 1, Proceed 0] (create_pool 2 2)
     = Some \<lparr>pool_size = 0, objs = [0], busy = True, pool_alive = True, live_objects = [2, 0],
         next_object = 3, handed_out = [2], pcs = [Returned, Outside_pool]\<rparr>
   \<and> pool_step (Proceed 0) \<lparr>pool_size = 0, objs = [0], busy = True, pool_alive = True, live_objects = [2, 0],
         next_object = 3, handed_out = [2], pcs = [Returned, Outside_pool]\<rparr>
       \<noteq> Some (Inl (Undefined ''delete of an object that is not live''))"
    (is "pool_exec ?es _ = Some ?s \<and> _")
proof -
  have e: "pool_exec ?es (create_pool 2 2) = Some ?s" by code_simp
  show ?thesis
    using e pool_interleavings_safe [OF pool_exec_run [OF e], of "Proceed 0" "Undefined ''delete of an object that is not live''"]
    by blast
qed

end
