(* ===== verification/Hevc_Sets.thy ===== *)
theory Hevc_Sets
  imports Bit_Parser
begin

text \<open>
  \<open>src/codec/h264/SPSParser.c\<close>, lines 1124 to 1530, with the structures of
  \<open>include/codec/h264/SPSParser.h\<close>: the parts of the H.265 parameter sets, that is profile and level,
  scaling lists, short-term reference picture sets and the hypothetical reference decoder. Each function
  works on the structure it is given a pointer to. An array of the structures is a list of its size;
  an index that the code computes is checked with \<open>in_array\<close>, so that one outside shows up as
  \<open>Undefined\<close>. The sum of two \<open>int\<close>s wraps.
\<close>

section \<open>Profile, tier and level\<close>

record T_PTLCommon =
  u8ProfileSpace :: u8
  u8TierFlag :: u8
  u8ProfileIdc :: u8
  au8ProfileCompatibilityFlag :: "u8 list"
  u8LevelIdc :: u8
  u8ProgressiveSourceFlag :: u8
  u8InterlacedSourceFlag :: u8
  u8NonPackedConstraintFlag :: u8
  u8FrameOnlyConstraintFlag :: u8

record T_PTL =
  tGeneralPtl :: T_PTLCommon
  atSubLayerPtl :: "T_PTLCommon list"
  au8SubLayerProfilePresentFlag :: "u8 list"
  au8SubLayerLevelPresentFlag :: "u8 list"

definition HEVC_MAX_SUB_LAYERS :: nat where "HEVC_MAX_SUB_LAYERS = 7"

definition zero_ptl_common :: T_PTLCommon where
  "zero_ptl_common = \<lparr>u8ProfileSpace = 0, u8TierFlag = 0, u8ProfileIdc = 0,
     au8ProfileCompatibilityFlag = replicate 32 0, u8LevelIdc = 0, u8ProgressiveSourceFlag = 0,
     u8InterlacedSourceFlag = 0, u8NonPackedConstraintFlag = 0, u8FrameOnlyConstraintFlag = 0\<rparr>"

definition zero_ptl :: T_PTL where
  "zero_ptl = \<lparr>tGeneralPtl = zero_ptl_common, atSubLayerPtl = replicate HEVC_MAX_SUB_LAYERS zero_ptl_common,
     au8SubLayerProfilePresentFlag = replicate HEVC_MAX_SUB_LAYERS 0,
     au8SubLayerLevelPresentFlag = replicate HEVC_MAX_SUB_LAYERS 0\<rparr>"

definition compatibility_flag :: "nat \<Rightarrow> (T_PTLCommon, unit) parse_m" where
  "compatibility_flag i = into bit1 (\<lambda>b p.
     let p = p\<lparr>au8ProfileCompatibilityFlag := (au8ProfileCompatibilityFlag p)[i := ucast b]\<rparr>
     in if u8ProfileIdc p = 0 \<and> i > 0 \<and> (ucast b :: u8) \<noteq> 0 then p\<lparr>u8ProfileIdc := word_of_nat i\<rparr> else p)"

definition decodeProfileTierLevel :: "(T_PTLCommon, i32) parse_m" where
  "decodeProfileTierLevel =
     ebind bits_left_m (\<lambda>l. if l < 2 + 1 + 5 + 32 + 4 + 16 + 16 + 12 then eret (- 1)
     else andthen (steps ([
         into (bits 2) (\<lambda>v p. p\<lparr>u8ProfileSpace := ucast v\<rparr>),
         into bit1 (\<lambda>v p. p\<lparr>u8TierFlag := ucast v\<rparr>),
         into (bits 5) (\<lambda>v p. p\<lparr>u8ProfileIdc := ucast v\<rparr>)]
       @ map compatibility_flag [0..<32]
       @ [into bit1 (\<lambda>v p. p\<lparr>u8ProgressiveSourceFlag := ucast v\<rparr>),
         into bit1 (\<lambda>v p. p\<lparr>u8InterlacedSourceFlag := ucast v\<rparr>),
         into bit1 (\<lambda>v p. p\<lparr>u8NonPackedConstraintFlag := ucast v\<rparr>),
         into bit1 (\<lambda>v p. p\<lparr>u8FrameOnlyConstraintFlag := ucast v\<rparr>),
         skip (bits 16), skip (bits 16), skip (bits 12)]))
       (eret 0))"

definition sub_layer_flags :: "nat \<Rightarrow> (T_PTL, unit) parse_m" where
  "sub_layer_flags i = steps [
     in_array i HEVC_MAX_SUB_LAYERS,
     into bit1 (\<lambda>v p. p\<lparr>au8SubLayerProfilePresentFlag := (au8SubLayerProfilePresentFlag p)[i := ucast v]\<rparr>),
     into bit1 (\<lambda>v p. p\<lparr>au8SubLayerLevelPresentFlag := (au8SubLayerLevelPresentFlag p)[i := ucast v]\<rparr>)]"

definition sub_layer_ptl :: "nat \<Rightarrow> (T_PTLCommon, 'a) parse_m \<Rightarrow> (T_PTL, 'a) parse_m" where
  "sub_layer_ptl i = zoom (\<lambda>p. atSubLayerPtl p ! i) (\<lambda>c p. p\<lparr>atSubLayerPtl := (atSubLayerPtl p)[i := c]\<rparr>)"

definition sub_layer :: "nat \<Rightarrow> (T_PTL, i32 option) parse_m" where
  "sub_layer i = stages [
     go [in_array i HEVC_MAX_SUB_LAYERS],
     reading (\<lambda>p. if au8SubLayerProfilePresentFlag p ! i \<noteq> 0
       then ebind (sub_layer_ptl i decodeProfileTierLevel)
         (\<lambda>r. eret (if sint r < 0 then Some (- 1) else None))
       else eret None),
     reading (\<lambda>p. if au8SubLayerLevelPresentFlag p ! i \<noteq> 0
       then ebind bits_left_m (\<lambda>l. if l < 8 then eret (Some (- 1))
         else go [sub_layer_ptl i (into (bits 8) (\<lambda>v c. c\<lparr>u8LevelIdc := ucast v\<rparr>))])
       else eret None)]"

definition parsePtl :: "i32 \<Rightarrow> (T_PTL, i32) parse_m" where
  "parsePtl max_num_sub_layers =
     (let n = nat (sint max_num_sub_layers - 1) in
      ebind (stages ([
        ebind (zoom tGeneralPtl (\<lambda>c p. p\<lparr>tGeneralPtl := c\<rparr>) decodeProfileTierLevel) (\<lambda>r.
          if sint r < 0 then eret (Some (- 1))
          else ebind bits_left_m (\<lambda>l. eret (if l < 8 + (if n > 0 then 16 else 0) then Some (- 1) else None))),
        go ([zoom tGeneralPtl (\<lambda>c p. p\<lparr>tGeneralPtl := c\<rparr>) (into (bits 8) (\<lambda>v c. c\<lparr>u8LevelIdc := ucast v\<rparr>))]
          @ map sub_layer_flags [0..<n]
          @ (if n > 0 then map (\<lambda>_. skip (bits 2)) [n..<8] else []))]
        @ map sub_layer [0..<n]))
      (\<lambda>r. eret (case r of None \<Rightarrow> 0 | Some x \<Rightarrow> x)))"

section \<open>Scaling lists\<close>

definition sg_au8DefaultScalingListIntra :: bytes where
  "sg_au8DefaultScalingListIntra = [
     16, 16, 16, 16, 17, 18, 21, 24, 16, 16, 16, 16, 17, 19, 22, 25,
     16, 16, 17, 18, 20, 22, 25, 29, 16, 16, 18, 21, 24, 27, 31, 36,
     17, 17, 20, 24, 30, 35, 41, 47, 18, 19, 22, 27, 35, 44, 54, 65,
     21, 22, 25, 31, 41, 54, 70, 88, 24, 25, 29, 36, 47, 65, 88, 115]"

definition sg_au8DefaultScalingListInter :: bytes where
  "sg_au8DefaultScalingListInter = [
     16, 16, 16, 16, 17, 18, 20, 24, 16, 16, 16, 17, 18, 20, 24, 25,
     16, 16, 17, 18, 20, 24, 25, 28, 16, 17, 18, 20, 24, 25, 28, 33,
     17, 18, 20, 24, 25, 28, 33, 41, 18, 20, 24, 25, 28, 33, 41, 54,
     20, 24, 25, 28, 33, 41, 54, 71, 24, 25, 28, 33, 41, 54, 71, 91]"

definition g_au8HevcDiagScan4x4X :: "nat list" where
  "g_au8HevcDiagScan4x4X = [0, 0, 1, 0, 1, 2, 0, 1, 2, 3, 1, 2, 3, 2, 3, 3]"

definition g_au8HevcDiagScan4x4Y :: "nat list" where
  "g_au8HevcDiagScan4x4Y = [0, 1, 0, 2, 1, 0, 3, 2, 1, 0, 3, 2, 1, 3, 2, 3]"

definition g_au8HevcDiagScan8x8X :: "nat list" where
  "g_au8HevcDiagScan8x8X = [
     0, 0, 1, 0, 1, 2, 0, 1, 2, 3, 0, 1, 2, 3, 4, 0, 1, 2, 3, 4, 5, 0, 1, 2, 3, 4, 5, 6, 0, 1, 2, 3,
     4, 5, 6, 7, 1, 2, 3, 4, 5, 6, 7, 2, 3, 4, 5, 6, 7, 3, 4, 5, 6, 7, 4, 5, 6, 7, 5, 6, 7, 6, 7, 7]"

definition g_au8HevcDiagScan8x8Y :: "nat list" where
  "g_au8HevcDiagScan8x8Y = [
     0, 1, 0, 2, 1, 0, 3, 2, 1, 0, 4, 3, 2, 1, 0, 5, 4, 3, 2, 1, 0, 6, 5, 4, 3, 2, 1, 0, 7, 6, 5, 4,
     3, 2, 1, 0, 7, 6, 5, 4, 3, 2, 1, 7, 6, 5, 4, 3, 2, 7, 6, 5, 4, 3, 7, 6, 5, 4, 7, 6, 5, 7, 6, 7]"

record T_ScalingList =
  aaau8Sl :: "bytes list list"
  aau8SlDc :: "bytes list"

definition zero_scaling_list :: T_ScalingList where
  "zero_scaling_list = \<lparr>aaau8Sl = replicate 4 (replicate 6 (replicate 64 0)), aau8SlDc = replicate 2 (replicate 6 0)\<rparr>"

definition set_matrix :: "nat \<Rightarrow> nat \<Rightarrow> bytes \<Rightarrow> T_ScalingList \<Rightarrow> T_ScalingList" where
  "set_matrix sz m bs sl = sl\<lparr>aaau8Sl := (aaau8Sl sl)[sz := (aaau8Sl sl ! sz)[m := bs]]\<rparr>"

definition set_dc :: "nat \<Rightarrow> nat \<Rightarrow> u8 \<Rightarrow> T_ScalingList \<Rightarrow> T_ScalingList" where
  "set_dc k m v sl = sl\<lparr>aau8SlDc := (aau8SlDc sl)[k := (aau8SlDc sl ! k)[m := v]]\<rparr>"

text \<open>\<open>memcpy\<close> of the first \<open>n\<close> elements of one row to another.\<close>

definition copy_row :: "nat \<Rightarrow> bytes \<Rightarrow> bytes \<Rightarrow> bytes" where
  "copy_row n src dst = take n src @ drop n dst"

definition setDefaultScalingListData :: "T_ScalingList \<Rightarrow> T_ScalingList" where
  "setDefaultScalingListData sl =
     fold (\<lambda>(sz, m). set_matrix sz m (if m < 3 then sg_au8DefaultScalingListIntra else sg_au8DefaultScalingListInter))
       (List.product [1, 2, 3] [0..<6])
     (fold (\<lambda>m sl. set_dc 1 m 16 (set_dc 0 m 16
        (set_matrix 0 m (copy_row 16 (replicate 16 16) (aaau8Sl sl ! 0 ! m)) sl))) [0..<6] sl)"

definition scan_position :: "nat \<Rightarrow> nat \<Rightarrow> nat" where
  "scan_position sz i = (if sz = 0 then 4 * (g_au8HevcDiagScan4x4Y ! i) + g_au8HevcDiagScan4x4X ! i
     else 8 * (g_au8HevcDiagScan8x8Y ! i) + g_au8HevcDiagScan8x8X ! i)"

fun read_coefs :: "nat \<Rightarrow> nat \<Rightarrow> i32 \<Rightarrow> nat list \<Rightarrow> (T_ScalingList, unit) parse_m" where
  "read_coefs sz m next_coef [] = eret ()"
| "read_coefs sz m next_coef (i # is) =
     ebind se (\<lambda>delta_coef. let next_coef = (next_coef + 256 + delta_coef) mod 256 in
     andthen (put (\<lambda>sl. set_matrix sz m ((aaau8Sl sl ! sz ! m)[scan_position sz i := ucast next_coef]) sl))
       (read_coefs sz m next_coef is))"

text \<open>The body of the loop over the matrices; the difference of the indices is unsigned.\<close>

definition scaling_matrix :: "nat \<Rightarrow> nat \<Rightarrow> (T_ScalingList, i32 option) parse_m" where
  "scaling_matrix sz m =
     ebind bit1 (\<lambda>pred_mode. if (ucast pred_mode :: u8) = 0 then
       ebind ue (\<lambda>delta. if delta = 0 then eret None
       else let delta = delta * (if sz = 3 then 3 else 1) in
         if word_of_nat m < delta then eret (Some (- 1))
         else let src = unat (word_of_nat m - delta) in go [in_array src 6,
           put (\<lambda>sl. let sl = set_matrix sz m (copy_row (if sz > 0 then 64 else 16)
                 (aaau8Sl sl ! sz ! src) (aaau8Sl sl ! sz ! m)) sl
               in if sz > 1 then set_dc (sz - 2) m (aau8SlDc sl ! (sz - 2) ! src) sl else sl)])
     else
       ebind (if sz > 1 then ebind se (\<lambda>v. andthen (put (set_dc (sz - 2) m (ucast (v + 8)))) (eret (v + 8)))
         else eret 8) (\<lambda>next_coef.
       go [read_coefs sz m next_coef [0..<min 64 (2 ^ (4 + 2 * sz))]]))"

definition scaling_indices :: "(nat \<times> nat) list" where
  "scaling_indices = List.product [0, 1, 2] [0..<6] @ [(3, 0), (3, 3)]"

definition copy_chroma_rows :: "T_ScalingList \<Rightarrow> T_ScalingList" where
  "copy_chroma_rows sl = fold (\<lambda>m sl. set_dc 1 m (aau8SlDc sl ! 0 ! m) (set_matrix 3 m (aaau8Sl sl ! 2 ! m) sl)) [1, 2, 4, 5] sl"

definition scalingListData :: "i32 \<Rightarrow> (T_ScalingList, i32 option) parse_m" where
  "scalingListData chroma_format_idc =
     stages (map (\<lambda>(sz, m). scaling_matrix sz m) scaling_indices
       @ [go [if chroma_format_idc = 3 then put copy_chroma_rows else eret ()]])"

section \<open>Short-term reference picture sets\<close>

record T_ShortTermRPS =
  uiNumNegativePics :: u32
  iNumDeltaPocs :: i32
  iRpsIdxNumDeltaPocs :: i32
  au32DeltaPoc :: "i32 list"
  au8Used :: "u8 list"

definition HEVC_MAX_REFS :: u32 where "HEVC_MAX_REFS = 16"
definition HEVC_MAX_SHORT_TERM_RPS_COUNT :: nat where "HEVC_MAX_SHORT_TERM_RPS_COUNT = 64"
definition rps_array :: nat where "rps_array = 32"

definition zero_rps :: T_ShortTermRPS where
  "zero_rps = \<lparr>uiNumNegativePics = 0, iNumDeltaPocs = 0, iRpsIdxNumDeltaPocs = 0,
     au32DeltaPoc = replicate rps_array 0, au8Used = replicate rps_array 0\<rparr>"

definition set_poc :: "nat \<Rightarrow> i32 \<Rightarrow> T_ShortTermRPS \<Rightarrow> T_ShortTermRPS" where
  "set_poc k v r = r\<lparr>au32DeltaPoc := (au32DeltaPoc r)[k := v]\<rparr>"

definition set_used :: "nat \<Rightarrow> u8 \<Rightarrow> T_ShortTermRPS \<Rightarrow> T_ShortTermRPS" where
  "set_used k v r = r\<lparr>au8Used := (au8Used r)[k := v]\<rparr>"

text \<open>
  The loop that predicts the set from \<open>ref\<close>, from its variables \<open>k\<close>, \<open>k0\<close> and
  \<open>u8UseDeltaFlag\<close> on; it gives \<open>k\<close> and \<open>k0\<close>. Its body gives the value it stored, if it
  did.
\<close>

definition predict_entry :: "T_ShortTermRPS \<Rightarrow> i32 \<Rightarrow> nat \<Rightarrow> nat \<Rightarrow> u8 \<Rightarrow> (T_ShortTermRPS, i32 option \<times> u8) parse_m" where
  "predict_entry ref delta i k use =
     ebind bit1 (\<lambda>b. let used = (ucast b :: u8) in
     andthen (steps [in_array k rps_array, put (set_used k used)]) (
     ebind (if used = 0 then ebind bit1 (\<lambda>u. eret (ucast u)) else eret use) (\<lambda>use.
     if used \<noteq> 0 \<or> use \<noteq> 0 then
       ebind (if int i < sint (iNumDeltaPocs ref)
         then andthen (in_array i rps_array) (eret (delta + au32DeltaPoc ref ! i)) else eret delta) (\<lambda>poc.
       andthen (steps [in_array k rps_array, put (set_poc k poc)]) (eret (Some poc, use)))
     else eret (None, use))))"

fun predict_entries :: "T_ShortTermRPS \<Rightarrow> i32 \<Rightarrow> nat list \<Rightarrow> nat \<Rightarrow> nat \<Rightarrow> u8 \<Rightarrow> (T_ShortTermRPS, nat \<times> nat) parse_m" where
  "predict_entries ref delta [] k k0 use = eret (k, k0)"
| "predict_entries ref delta (i # is) k k0 use =
     ebind (predict_entry ref delta i k use) (\<lambda>(stored, use). case stored of
       None \<Rightarrow> predict_entries ref delta is k k0 use
     | Some poc \<Rightarrow> predict_entries ref delta is (k + 1) (if sint poc < 0 then k0 + 1 else k0) use)"

text \<open>
  The two loops that sort the set: \<open>insert_back\<close> is the inner loop of the first, with its counter
  one ahead; the second turns the negative values round.
\<close>

fun insert_back :: "nat \<Rightarrow> i32 \<Rightarrow> u8 \<Rightarrow> T_ShortTermRPS \<Rightarrow> T_ShortTermRPS" where
  "insert_back 0 poc used r = r"
| "insert_back (Suc k) poc used r =
     (let tmp = au32DeltaPoc r ! k in
      insert_back k poc used (if sint poc < sint tmp
        then set_used k used (set_poc k poc (set_used (k + 1) (au8Used r ! k) (set_poc (k + 1) tmp r)))
        else r))"

definition sort_rps :: "nat \<Rightarrow> T_ShortTermRPS \<Rightarrow> T_ShortTermRPS" where
  "sort_rps n r = fold (\<lambda>i r. insert_back i (au32DeltaPoc r ! i) (au8Used r ! i) r) [1..<n] r"

definition swap_entries :: "nat \<Rightarrow> nat \<Rightarrow> T_ShortTermRPS \<Rightarrow> T_ShortTermRPS" where
  "swap_entries i k r = set_used k (au8Used r ! i) (set_poc k (au32DeltaPoc r ! i)
     (set_used i (au8Used r ! k) (set_poc i (au32DeltaPoc r ! k) r)))"

definition flip_negative :: "nat \<Rightarrow> T_ShortTermRPS \<Rightarrow> T_ShortTermRPS" where
  "flip_negative n r = fold (\<lambda>i. swap_entries i (n - 1 - i)) [0..<n div 2] r"

text \<open>
  The set is element \<open>idx\<close> of the array of the sequence parameter set, or an object of a slice
  header (\<open>None\<close>). In a slice header the element one behind the last is taken, since the index that
  was read is not used. \<open>1 - (u8DeltaRpsSign << 1)\<close> is multiplied as unsigned.
\<close>

definition rps_reference :: "nat option \<Rightarrow> u32 \<Rightarrow> T_ShortTermRPS list \<Rightarrow> bool \<Rightarrow> (T_ShortTermRPS, T_ShortTermRPS) parse_m" where
  "rps_reference idx nb sets in_slice =
     (if in_slice then
        ebind ue (\<lambda>_. andthen (in_array (unat nb) HEVC_MAX_SHORT_TERM_RPS_COUNT)
          (andthen (put (\<lambda>r. r\<lparr>iRpsIdxNumDeltaPocs := iNumDeltaPocs (sets ! unat nb)\<rparr>)) (eret (sets ! unat nb))))
      else (case idx of
          Some (Suc i) \<Rightarrow> andthen (in_array i HEVC_MAX_SHORT_TERM_RPS_COUNT) (eret (sets ! i))
        | _ \<Rightarrow> ethrow (Undefined ''index outside an array'')))"

definition rps_predicted :: "T_ShortTermRPS \<Rightarrow> (T_ShortTermRPS, i32) parse_m" where
  "rps_predicted ref =
     ebind bit1 (\<lambda>b. let sign = (ucast b :: u8) in
     ebind ue (\<lambda>v. let abs_delta = v + 1 in
     if abs_delta < 1 \<or> abs_delta > 32768 then eret (- 1)
     else let delta = (1 - push_bit 1 (ucast sign)) * abs_delta in
       ebind (predict_entries ref delta [0..<nat (sint (iNumDeltaPocs ref) + 1)] 0 0 0) (\<lambda>(k, k0).
       if k \<ge> rps_array then eret (- 1)
       else andthen (put (\<lambda>r. flip_negative k0 (sort_rps k
           (r\<lparr>iNumDeltaPocs := word_of_nat k, uiNumNegativePics := word_of_nat k0\<rparr>)))) (eret 0))))"

fun explicit_pics :: "(u32 \<Rightarrow> u32 \<Rightarrow> u32) \<Rightarrow> nat list \<Rightarrow> u32 \<Rightarrow> (T_ShortTermRPS, i32 option) parse_m" where
  "explicit_pics f [] prev = eret None"
| "explicit_pics f (i # is) prev =
     ebind ue (\<lambda>v. let d = v + 1 in
     if sint d < 1 \<or> sint d > 32768 then eret (Some (- 1))
     else let prev = f prev d in
       andthen (steps [in_array i rps_array, put (set_poc i prev), into bit1 (\<lambda>b. set_used i (ucast b))])
         (explicit_pics f is prev))"

definition rps_explicit :: "(T_ShortTermRPS, i32) parse_m" where
  "rps_explicit =
     ebind ue (\<lambda>neg. andthen (put (\<lambda>r. r\<lparr>uiNumNegativePics := neg\<rparr>)) (
     ebind ue (\<lambda>pos. if neg \<ge> HEVC_MAX_REFS \<or> pos \<ge> HEVC_MAX_REFS then eret (- 1)
     else andthen (put (\<lambda>r. r\<lparr>iNumDeltaPocs := neg + pos\<rparr>)) (
       ebind (stages [explicit_pics (\<lambda>p d. p - d) [0..<unat neg] 0,
           explicit_pics (\<lambda>p d. p + d) [unat neg..<unat neg + unat pos] 0]) (\<lambda>r.
       eret (case r of None \<Rightarrow> 0 | Some x \<Rightarrow> x))))))"

definition hevcDecodeShortTermRps :: "nat option \<Rightarrow> u32 \<Rightarrow> T_ShortTermRPS list \<Rightarrow> bool \<Rightarrow> (T_ShortTermRPS, i32) parse_m" where
  "hevcDecodeShortTermRps idx nb sets in_slice =
     ebind (if idx \<noteq> Some 0 \<and> nb \<noteq> 0 then bit1 else eret 0) (\<lambda>p.
     if (ucast p :: u8) \<noteq> 0 then ebind (rps_reference idx nb sets in_slice) rps_predicted
     else rps_explicit)"

section \<open>Hypothetical reference decoder\<close>

definition skips :: "('t, 'a) parse_m list \<Rightarrow> ('t, unit) parse_m" where
  "skips ms = steps (map skip ms)"

definition decodeSublayerHrd :: "nat \<Rightarrow> bool \<Rightarrow> ('t, unit) parse_m" where
  "decodeSublayerHrd nb_cpb sub_pic = steps (map (\<lambda>_.
     skips ([ue, ue] @ (if sub_pic then [ue, ue] else []) @ [bit1])) [0..<nb_cpb])"

definition hrd_common :: "('t, bool \<times> bool \<times> bool) parse_m" where
  "hrd_common =
     ebind bit1 (\<lambda>nal. ebind bit1 (\<lambda>vcl.
     if nal \<noteq> 0 \<or> vcl \<noteq> 0 then
       ebind bit1 (\<lambda>sub.
       andthen (skips ((if sub \<noteq> 0 then [bits 8, bits 5, bits 1, bits 5] else []) @ [bits 4, bits 4]
         @ (if sub \<noteq> 0 then [bits 4] else []) @ [bits 5, bits 5, bits 5]))
       (eret (nal \<noteq> 0, vcl \<noteq> 0, sub \<noteq> 0)))
     else eret (False, False, False)))"

definition hrd_sublayer :: "bool \<Rightarrow> bool \<Rightarrow> bool \<Rightarrow> ('t, i32 option) parse_m" where
  "hrd_sublayer nal vcl sub =
     ebind (ebind bit1 (\<lambda>f. if f = 0 then bit1 else eret f)) (\<lambda>fixed_rate.
     ebind (if fixed_rate \<noteq> 0 then andthen ue (eret 0) else bit1) (\<lambda>low_delay.
     ebind (if low_delay = 0 then ebind ue (\<lambda>v. eret (v + 1)) else eret 1) (\<lambda>nb_cpb.
     if nb_cpb < 1 \<or> nb_cpb > 32 then eret (Some (- 1))
     else go ((if nal then [decodeSublayerHrd (unat nb_cpb) sub] else [])
       @ (if vcl then [decodeSublayerHrd (unat nb_cpb) sub] else [])))))"

definition decodeHrd :: "bool \<Rightarrow> i32 \<Rightarrow> ('t, i32) parse_m" where
  "decodeHrd common_inf_present max_sublayers =
     ebind (if common_inf_present then hrd_common else eret (False, False, False)) (\<lambda>(nal, vcl, sub).
     ebind (stages (map (\<lambda>_. hrd_sublayer nal vcl sub) [0..<nat (sint max_sublayers)]))
       (\<lambda>r. eret (case r of None \<Rightarrow> 0 | Some x \<Rightarrow> x)))"

end
