(* ===== verification/Hevc_Parser.thy ===== *)
theory Hevc_Parser
  imports Hevc_Sets
begin

text \<open>
  \<open>src/codec/h264/SPSParser.c\<close>, lines 1532 to 2153 and 2250 to 2288: the H.265 video usability
  information, sequence parameter set and video parameter set. No caller in the program uses them yet.
  Arithmetic of \<open>int\<close> wraps; a comparison with an unsigned operand is one of \<open>word\<close>, a
  signed one uses \<open>sint\<close>. Null arguments are left out.
\<close>

section \<open>Structures\<close>

record T_HEVCWindow =
  uiLeftOffset :: u32
  uiRightOffset :: u32
  uiTopOffset :: u32
  uiBottomOffset :: u32

definition zero_window :: T_HEVCWindow where
  "zero_window = \<lparr>uiLeftOffset = 0, uiRightOffset = 0, uiTopOffset = 0, uiBottomOffset = 0\<rparr>"

record T_VUI =
  tSar :: "i32 \<times> i32"
  iOverscanInfoPresentFlag :: i32
  iOverscanAppropriateFlag :: i32
  iVideoSignalTypePresentFlag :: i32
  iVideoFormat :: i32
  iVideoFullRangeFlag :: i32
  iColourDescriptionPresentFlag :: i32
  u8ColourPrimaries :: u8
  u8TransferCharacteristic :: u8
  u8MatrixCoeffs :: u8
  iChromaLocInfoPresentFlag :: i32
  iChromaSampleLocTypeTopField :: i32
  iChromaSampleLocTypeBottomField :: i32
  iNeutraChromaIndicationFlag :: i32
  iFieldSeqFlag :: i32
  iFrameFieldInfoPresentFlag :: i32
  iDefaultDisplayWindowFlag :: i32
  tDefDispWin :: T_HEVCWindow
  iVuiTimingInfoPresentFlag :: i32
  u32VuiNumUnitsInTick :: u32
  u32VuiTimeScale :: u32
  iVuiPocProportionalToTimingFlag :: i32
  iVuiNumTicksPocDiffOneMinus1 :: i32
  iVuiHrdParametersPresentFlag :: i32
  iBitstreamRestrictionFlag :: i32
  iTilesFixedStructureFlag :: i32
  iMotionVectorsOverPicBoundariesFlag :: i32
  iRestrictedRefPicListsFlag :: i32
  iMinSpatialSegmentationIdc :: i32
  iMaxBytesPerPicDenom :: i32
  iMaxBitsPerMinCuDenom :: i32
  iLog2MaxMvLengthHorizontal :: i32
  iLog2MaxMvLengthVertical :: i32

definition zero_vui :: T_VUI where
  "zero_vui = \<lparr>tSar = (0, 0), iOverscanInfoPresentFlag = 0, iOverscanAppropriateFlag = 0,
     iVideoSignalTypePresentFlag = 0, iVideoFormat = 0, iVideoFullRangeFlag = 0,
     iColourDescriptionPresentFlag = 0, u8ColourPrimaries = 0, u8TransferCharacteristic = 0,
     u8MatrixCoeffs = 0, iChromaLocInfoPresentFlag = 0, iChromaSampleLocTypeTopField = 0,
     iChromaSampleLocTypeBottomField = 0, iNeutraChromaIndicationFlag = 0, iFieldSeqFlag = 0,
     iFrameFieldInfoPresentFlag = 0, iDefaultDisplayWindowFlag = 0, tDefDispWin = zero_window,
     iVuiTimingInfoPresentFlag = 0, u32VuiNumUnitsInTick = 0, u32VuiTimeScale = 0,
     iVuiPocProportionalToTimingFlag = 0, iVuiNumTicksPocDiffOneMinus1 = 0, iVuiHrdParametersPresentFlag = 0,
     iBitstreamRestrictionFlag = 0, iTilesFixedStructureFlag = 0, iMotionVectorsOverPicBoundariesFlag = 0,
     iRestrictedRefPicListsFlag = 0, iMinSpatialSegmentationIdc = 0, iMaxBytesPerPicDenom = 0,
     iMaxBitsPerMinCuDenom = 0, iLog2MaxMvLengthHorizontal = 0, iLog2MaxMvLengthVertical = 0\<rparr>"

record temporal_layer =
  iMaxDecPicBuffering :: i32
  iNumReorderPics :: i32
  iMaxLatencyIncrease :: i32

record pcm_params =
  u8BitDepth :: u8
  u8BitDepthChroma :: u8
  uiLog2MinPcmCbSize :: u32
  uiLog2MaxPcmCbSize :: u32
  u8LoopFilterDisableFlag :: u8

text \<open>
  \<open>iIutputWidth\<close>, \<open>iOutputHeight\<close>, \<open>iPixelShift\<close>, \<open>aiHshift\<close> and \<open>aiVshift\<close> are
  never used and left out.
\<close>

record T_HEVCSPS =
  uiVpsId :: u32
  iChromaFormatIdc :: i32
  u8SeparateColourPlaneFlag :: u8
  tOutputWindow :: T_HEVCWindow
  tPicConfWin :: T_HEVCWindow
  iBitDepth :: i32
  iBitDepthChroma :: i32
  uiLog2MaxPocLsb :: u32
  iPcmEnabledFlag :: i32
  iMaxSubLayers :: i32
  stTemporalLayer :: "temporal_layer list"
  u8temporalIdNestingFlag :: u8
  tVui :: T_VUI
  tPtl :: T_PTL
  u8ScalingListEnableFlag :: u8
  tScalingList :: T_ScalingList
  uiNbStRps :: u32
  atStRps :: "T_ShortTermRPS list"
  u8AmpEnabledFlag :: u8
  u8SaoEnabled :: u8
  u8LongTermRefPicsPresentFlag :: u8
  au16LtRefPicPocLsbSps :: "u16 list"
  au8UsedByCurrPicLtSpsFlag :: "u8 list"
  u8NumLongTermRefPicsSps :: u8
  pcm :: pcm_params
  u8SpsTemporalMvpEnabledFlag :: u8
  u8SpsStrongIntraMmoothingEnableFlag :: u8
  uiLog2MinCbSize :: u32
  uiLog2DiffMaxMinCodingBlockSize :: u32
  uiLog2MinTbSize :: u32
  uiLog2MaxTrafoSize :: u32
  uiLog2CtbSize :: u32
  uiLog2MinPuSize :: u32
  iMaxTransformHierarchyDepthInter :: i32
  iMaxTransformHierarchyDepthIntra :: i32
  iTransformSkipRotationEnabledFlag :: i32
  iTransformSkipContextEnabledFlag :: i32
  iImplicitRdpcmEnabledFlag :: i32
  iExplicitRdpcmEnabledFlag :: i32
  iIntraSmoothingDisabledFlag :: i32
  iHighPrecisionOffsetsEnabledFlag :: i32
  iPersistentRiceAdaptationEnabledFlag :: i32
  iWidth :: i32
  iHeight :: i32
  iCtbWidth :: i32
  iCtbHeight :: i32
  iCtbSize :: i32
  iMinCbWidth :: i32
  iMinCbHeight :: i32
  iMinTbWidth :: i32
  iMinTbHeight :: i32
  iMinPuWidth :: i32
  iMinPuHeight :: i32
  iTbMask :: i32
  iQpBdOffset :: i32
  iVuiPresent :: i32

definition zero_hevc_sps :: T_HEVCSPS where
  "zero_hevc_sps = \<lparr>uiVpsId = 0, iChromaFormatIdc = 0, u8SeparateColourPlaneFlag = 0,
     tOutputWindow = zero_window, tPicConfWin = zero_window, iBitDepth = 0, iBitDepthChroma = 0,
     uiLog2MaxPocLsb = 0, iPcmEnabledFlag = 0, iMaxSubLayers = 0,
     stTemporalLayer = replicate HEVC_MAX_SUB_LAYERS
       \<lparr>iMaxDecPicBuffering = 0, iNumReorderPics = 0, iMaxLatencyIncrease = 0\<rparr>,
     u8temporalIdNestingFlag = 0, tVui = zero_vui, tPtl = zero_ptl, u8ScalingListEnableFlag = 0,
     tScalingList = zero_scaling_list, uiNbStRps = 0, atStRps = replicate HEVC_MAX_SHORT_TERM_RPS_COUNT zero_rps,
     u8AmpEnabledFlag = 0, u8SaoEnabled = 0, u8LongTermRefPicsPresentFlag = 0,
     au16LtRefPicPocLsbSps = replicate 32 0, au8UsedByCurrPicLtSpsFlag = replicate 32 0,
     u8NumLongTermRefPicsSps = 0,
     pcm = \<lparr>u8BitDepth = 0, u8BitDepthChroma = 0, uiLog2MinPcmCbSize = 0, uiLog2MaxPcmCbSize = 0,
       u8LoopFilterDisableFlag = 0\<rparr>,
     u8SpsTemporalMvpEnabledFlag = 0, u8SpsStrongIntraMmoothingEnableFlag = 0, uiLog2MinCbSize = 0,
     uiLog2DiffMaxMinCodingBlockSize = 0, uiLog2MinTbSize = 0, uiLog2MaxTrafoSize = 0, uiLog2CtbSize = 0,
     uiLog2MinPuSize = 0, iMaxTransformHierarchyDepthInter = 0, iMaxTransformHierarchyDepthIntra = 0,
     iTransformSkipRotationEnabledFlag = 0, iTransformSkipContextEnabledFlag = 0,
     iImplicitRdpcmEnabledFlag = 0, iExplicitRdpcmEnabledFlag = 0, iIntraSmoothingDisabledFlag = 0,
     iHighPrecisionOffsetsEnabledFlag = 0, iPersistentRiceAdaptationEnabledFlag = 0, iWidth = 0,
     iHeight = 0, iCtbWidth = 0, iCtbHeight = 0, iCtbSize = 0, iMinCbWidth = 0, iMinCbHeight = 0,
     iMinTbWidth = 0, iMinTbHeight = 0, iMinPuWidth = 0, iMinPuHeight = 0, iTbMask = 0, iQpBdOffset = 0,
     iVuiPresent = 0\<rparr>"

definition sg_au8HevcSubWidthC :: "i32 list" where "sg_au8HevcSubWidthC = [1, 2, 2, 1]"
definition sg_au8HevcSubHeightC :: "i32 list" where "sg_au8HevcSubHeightC = [1, 2, 1, 1]"

definition sg_atVuiSar :: "(i32 \<times> i32) list" where
  "sg_atVuiSar = [(0, 1), (1, 1), (12, 11), (10, 11), (16, 11), (40, 33), (24, 11), (20, 11), (32, 11),
     (80, 33), (18, 11), (15, 11), (64, 33), (160, 99), (4, 3), (3, 2), (2, 1)]"

text \<open>The four offsets of a window, in units of chroma samples.\<close>

definition read_window :: "i32 \<Rightarrow> (T_HEVCWindow, unit) parse_m" where
  "read_window chroma_format_idc =
     (let k = unat chroma_format_idc; vert_mult = sg_au8HevcSubHeightC ! k; horiz_mult = sg_au8HevcSubWidthC ! k in
      steps [in_array k 4,
        into ue (\<lambda>v w. w\<lparr>uiLeftOffset := v * horiz_mult\<rparr>),
        into ue (\<lambda>v w. w\<lparr>uiRightOffset := v * horiz_mult\<rparr>),
        into ue (\<lambda>v w. w\<lparr>uiTopOffset := v * vert_mult\<rparr>),
        into ue (\<lambda>v w. w\<lparr>uiBottomOffset := v * vert_mult\<rparr>)])"

section \<open>Video usability information\<close>

definition hevc_vui_head :: "(T_VUI, unit) parse_m" where
  "hevc_vui_head = steps [
     ebind bit1 (\<lambda>sar_present. if sar_present \<noteq> 0 then
       ebind (bits 8) (\<lambda>v. let sar_idx = unat (ucast v :: u8) in
       if sar_idx < length sg_atVuiSar then
         andthen (in_array sar_idx (length sg_atVuiSar)) (put (\<lambda>t. t\<lparr>tSar := sg_atVuiSar ! sar_idx\<rparr>))
       else if sar_idx = 255 then steps [
         into (bits 16) (\<lambda>n t. t\<lparr>tSar := (n, snd (tSar t))\<rparr>),
         into (bits 16) (\<lambda>d t. t\<lparr>tSar := (fst (tSar t), d)\<rparr>)]
       else eret ())
     else eret ()),
     into bit1 (\<lambda>v t. t\<lparr>iOverscanInfoPresentFlag := v\<rparr>),
     if_set (\<lambda>t. iOverscanInfoPresentFlag t \<noteq> 0) [into bit1 (\<lambda>v t. t\<lparr>iOverscanAppropriateFlag := v\<rparr>)],
     into bit1 (\<lambda>v t. t\<lparr>iVideoSignalTypePresentFlag := v\<rparr>),
     if_set (\<lambda>t. iVideoSignalTypePresentFlag t \<noteq> 0) [
       into (bits 3) (\<lambda>v t. t\<lparr>iVideoFormat := v\<rparr>),
       into bit1 (\<lambda>v t. t\<lparr>iVideoFullRangeFlag := v\<rparr>),
       into bit1 (\<lambda>v t. t\<lparr>iColourDescriptionPresentFlag := v\<rparr>),
       if_set (\<lambda>t. iColourDescriptionPresentFlag t \<noteq> 0) [
         into (bits 8) (\<lambda>v t. t\<lparr>u8ColourPrimaries := ucast v\<rparr>),
         into (bits 8) (\<lambda>v t. t\<lparr>u8TransferCharacteristic := ucast v\<rparr>),
         into (bits 8) (\<lambda>v t. t\<lparr>u8MatrixCoeffs := ucast v\<rparr>)]],
     into bit1 (\<lambda>v t. t\<lparr>iChromaLocInfoPresentFlag := v\<rparr>),
     if_set (\<lambda>t. iChromaLocInfoPresentFlag t \<noteq> 0) [
       into ue (\<lambda>v t. t\<lparr>iChromaSampleLocTypeTopField := v\<rparr>),
       into ue (\<lambda>v t. t\<lparr>iChromaSampleLocTypeBottomField := v\<rparr>)],
     into bit1 (\<lambda>v t. t\<lparr>iNeutraChromaIndicationFlag := v\<rparr>),
     into bit1 (\<lambda>v t. t\<lparr>iFieldSeqFlag := v\<rparr>),
     into bit1 (\<lambda>v t. t\<lparr>iFrameFieldInfoPresentFlag := v\<rparr>)]"

definition show_long :: "nat \<Rightarrow> ('t, u32) parse_m" where
  "show_long n s = (Inr (showBitsLong n (ss_ctx s)), s)"

definition hevc_vui_window :: "i32 \<Rightarrow> (T_VUI, unit) parse_m" where
  "hevc_vui_window chroma_format_idc = steps [
     ebind bits_left_m (\<lambda>l. ebind (show_long 21) (\<lambda>w.
       if l \<ge> 68 \<and> w = 0x100000 then put (\<lambda>t. t\<lparr>iDefaultDisplayWindowFlag := 0\<rparr>)
       else into bit1 (\<lambda>v t. t\<lparr>iDefaultDisplayWindowFlag := v\<rparr>))),
     if_set (\<lambda>t. iDefaultDisplayWindowFlag t \<noteq> 0)
       [zoom tDefDispWin (\<lambda>w t. t\<lparr>tDefDispWin := w\<rparr>) (read_window chroma_format_idc)]]"

text \<open>
  From the label \<open>timing_info\<close> on. \<open>retry\<close> is the jump back with the copies restored, which
  happens only while \<open>alt\<close> is not set.
\<close>

definition hevc_vui_timing :: "bool \<Rightarrow> (T_VUI, unit) parse_m \<Rightarrow> i32 \<Rightarrow> (T_VUI, unit) parse_m" where
  "hevc_vui_timing alt retry max_sub_layers =
     andthen (into bit1 (\<lambda>v t. t\<lparr>iVuiTimingInfoPresentFlag := v\<rparr>)) (
     reading (\<lambda>t. ebind bits_left_m (\<lambda>l.
     if iVuiTimingInfoPresentFlag t \<noteq> 0 \<and> l < 66 \<and> \<not> alt then retry
     else andthen (if_set (\<lambda>t. iVuiTimingInfoPresentFlag t \<noteq> 0) [
         into (bits 32) (\<lambda>v t. t\<lparr>u32VuiNumUnitsInTick := v\<rparr>),
         into (bits 32) (\<lambda>v t. t\<lparr>u32VuiTimeScale := v\<rparr>),
         into bit1 (\<lambda>v t. t\<lparr>iVuiPocProportionalToTimingFlag := v\<rparr>),
         if_set (\<lambda>t. iVuiPocProportionalToTimingFlag t \<noteq> 0) [into ue (\<lambda>v t. t\<lparr>iVuiNumTicksPocDiffOneMinus1 := v\<rparr>)],
         into bit1 (\<lambda>v t. t\<lparr>iVuiHrdParametersPresentFlag := v\<rparr>),
         if_set (\<lambda>t. iVuiHrdParametersPresentFlag t \<noteq> 0) [skip (decodeHrd True max_sub_layers)]]) (
     andthen (into bit1 (\<lambda>v t. t\<lparr>iBitstreamRestrictionFlag := v\<rparr>)) (
     reading (\<lambda>t. ebind bits_left_m (\<lambda>l.
     if iBitstreamRestrictionFlag t \<noteq> 0 \<and> l < 8 \<and> \<not> alt then retry
     else andthen (if_set (\<lambda>t. iBitstreamRestrictionFlag t \<noteq> 0) [
         into bit1 (\<lambda>v t. t\<lparr>iTilesFixedStructureFlag := v\<rparr>),
         into bit1 (\<lambda>v t. t\<lparr>iMotionVectorsOverPicBoundariesFlag := v\<rparr>),
         into bit1 (\<lambda>v t. t\<lparr>iRestrictedRefPicListsFlag := v\<rparr>),
         into ue (\<lambda>v t. t\<lparr>iMinSpatialSegmentationIdc := v\<rparr>),
         into ue (\<lambda>v t. t\<lparr>iMaxBytesPerPicDenom := v\<rparr>),
         into ue (\<lambda>v t. t\<lparr>iMaxBitsPerMinCuDenom := v\<rparr>),
         into ue (\<lambda>v t. t\<lparr>iLog2MaxMvLengthHorizontal := v\<rparr>),
         into ue (\<lambda>v t. t\<lparr>iLog2MaxMvLengthVertical := v\<rparr>)]) (
     ebind bits_left_m (\<lambda>l. if l < 1 \<and> \<not> alt then retry else eret ()))))))))) "

definition restore :: "'t parse_state \<Rightarrow> ('t, unit) parse_m" where
  "restore backup s = (Inr (), backup)"

definition decodeVui :: "i32 \<Rightarrow> i32 \<Rightarrow> (T_VUI, unit) parse_m" where
  "decodeVui chroma_format_idc max_sub_layers =
     andthen hevc_vui_head (\<lambda>backup.
       andthen (hevc_vui_window chroma_format_idc)
         (hevc_vui_timing False (andthen (restore backup) (hevc_vui_timing True (eret ()) max_sub_layers))
            max_sub_layers) backup)"

section \<open>Sequence parameter set\<close>

definition HEVC_MAX_VPS_COUNT :: u32 where "HEVC_MAX_VPS_COUNT = 16"
definition HEVC_MAX_SPS_COUNT :: int where "HEVC_MAX_SPS_COUNT = 16"
definition HEVC_MAX_DPB_SIZE :: u32 where "HEVC_MAX_DPB_SIZE = 16"
definition HEVC_MAX_LONG_TERM_REF_PICS :: nat where "HEVC_MAX_LONG_TERM_REF_PICS = 32"

text \<open>A call that returns a negative value jumps to the end with it.\<close>

definition or_exit :: "('t, i32) parse_m \<Rightarrow> ('t, i32 option) parse_m" where
  "or_exit m = ebind m (\<lambda>r. eret (if sint r < 0 then Some r else None))"

definition hevc_head :: "(T_HEVCSPS, i32 option) parse_m" where
  "hevc_head = stages [
     go [into (bits 4) (\<lambda>v s. s\<lparr>uiVpsId := v\<rparr>)],
     fail_if (\<lambda>s. uiVpsId s \<ge> HEVC_MAX_VPS_COUNT),
     go [into (bits 3) (\<lambda>v s. s\<lparr>iMaxSubLayers := v + 1\<rparr>)],
     fail_if (\<lambda>s. sint (iMaxSubLayers s) > int HEVC_MAX_SUB_LAYERS),
     go [into (bits 1) (\<lambda>v s. s\<lparr>u8temporalIdNestingFlag := ucast v\<rparr>)],
     reading (\<lambda>s. or_exit (zoom tPtl (\<lambda>p s. s\<lparr>tPtl := p\<rparr>) (parsePtl (iMaxSubLayers s)))),
     ebind ue (\<lambda>sps_id. eret (if sint sps_id \<ge> HEVC_MAX_SPS_COUNT then Some (- 1) else None))]"

definition hevc_picture :: "(T_HEVCSPS, i32 option) parse_m" where
  "hevc_picture = stages [
     go [into ue (\<lambda>v s. s\<lparr>iChromaFormatIdc := v\<rparr>)],
     fail_if (\<lambda>s. iChromaFormatIdc s > 3),
     go [if_set (\<lambda>s. iChromaFormatIdc s = 3) [into bit1 (\<lambda>v s. s\<lparr>u8SeparateColourPlaneFlag := ucast v\<rparr>)],
       if_set (\<lambda>s. u8SeparateColourPlaneFlag s \<noteq> 0) [put (\<lambda>s. s\<lparr>iChromaFormatIdc := 0\<rparr>)],
       into ue (\<lambda>v s. s\<lparr>iWidth := v\<rparr>),
       into ue (\<lambda>v s. s\<lparr>iHeight := v\<rparr>),
       ebind bit1 (\<lambda>conformance. if conformance \<noteq> 0 then steps [
         reading (\<lambda>s. zoom tPicConfWin (\<lambda>w s. s\<lparr>tPicConfWin := w\<rparr>) (read_window (iChromaFormatIdc s))),
         put (\<lambda>s. s\<lparr>tOutputWindow := tPicConfWin s\<rparr>)]
       else eret ()),
       into ue (\<lambda>v s. s\<lparr>iBitDepth := v + 8\<rparr>)],
     ebind ue (\<lambda>v. stages [
       fail_if (\<lambda>s. iChromaFormatIdc s \<noteq> 0 \<and> v + 8 \<noteq> iBitDepth s),
       go [put (\<lambda>s. s\<lparr>iBitDepthChroma := v + 8\<rparr>)]]),
     go [into ue (\<lambda>v s. s\<lparr>uiLog2MaxPocLsb := v + 4\<rparr>)],
     fail_if (\<lambda>s. uiLog2MaxPocLsb s > 16)]"

definition layer_at :: "T_HEVCSPS \<Rightarrow> nat \<Rightarrow> temporal_layer" where
  "layer_at s i = stTemporalLayer s ! i"

definition set_layer :: "nat \<Rightarrow> (temporal_layer \<Rightarrow> temporal_layer) \<Rightarrow> T_HEVCSPS \<Rightarrow> T_HEVCSPS" where
  "set_layer i f s = s\<lparr>stTemporalLayer := (stTemporalLayer s)[i := f (layer_at s i)]\<rparr>"

text \<open>\<open>HEVC_MAX_DPB_SIZE\<close> is cast to unsigned in the first check, and an \<open>int\<close> in the other.\<close>

definition read_layer :: "nat \<Rightarrow> (T_HEVCSPS, i32 option) parse_m" where
  "read_layer i = stages [
     go [in_array i HEVC_MAX_SUB_LAYERS,
       into ue (\<lambda>v. set_layer i (\<lambda>t. t\<lparr>iMaxDecPicBuffering := v + 1\<rparr>)),
       into ue (\<lambda>v. set_layer i (\<lambda>t. t\<lparr>iNumReorderPics := v\<rparr>)),
       into ue (\<lambda>v. set_layer i (\<lambda>t. t\<lparr>iMaxLatencyIncrease := v - 1\<rparr>))],
     fail_if (\<lambda>s. iMaxDecPicBuffering (layer_at s i) > HEVC_MAX_DPB_SIZE),
     reading (\<lambda>s. if sint (iNumReorderPics (layer_at s i)) > sint (iMaxDecPicBuffering (layer_at s i) - 1) then
       if sint (iNumReorderPics (layer_at s i)) > sint (HEVC_MAX_DPB_SIZE - 1) then eret (Some (- 1))
       else go [put (set_layer i (\<lambda>t. t\<lparr>iMaxDecPicBuffering := iNumReorderPics t + 1\<rparr>))]
     else eret None)]"

definition hevc_layers :: "(T_HEVCSPS, i32 option) parse_m" where
  "hevc_layers =
     ebind bit1 (\<lambda>info. reading (\<lambda>s.
     let n = nat (sint (iMaxSubLayers s)); start = (if info \<noteq> 0 then 0 else n - 1) in
     stages (map read_layer [start..<n]
       @ [go (if info = 0 then in_array start HEVC_MAX_SUB_LAYERS
            # map (\<lambda>i. put (\<lambda>s. set_layer i (\<lambda>_. layer_at s start) s)) [0..<start] else [])])))"

definition hevc_blocks :: "(T_HEVCSPS, i32 option) parse_m" where
  "hevc_blocks = stages [
     go [into ue (\<lambda>v s. s\<lparr>uiLog2MinCbSize := v + 3\<rparr>),
       into ue (\<lambda>v s. s\<lparr>uiLog2DiffMaxMinCodingBlockSize := v\<rparr>),
       into ue (\<lambda>v s. s\<lparr>uiLog2MinTbSize := v + 2\<rparr>)],
     ebind ue (\<lambda>diff. stages [
       go [put (\<lambda>s. s\<lparr>uiLog2MaxTrafoSize := diff + uiLog2MinTbSize s\<rparr>)],
       fail_if (\<lambda>s. uiLog2MinCbSize s < 3 \<or> uiLog2MinCbSize s > 30),
       fail_if (\<lambda>s. uiLog2DiffMaxMinCodingBlockSize s > 30),
       fail_if (\<lambda>s. uiLog2MinTbSize s \<ge> uiLog2MinCbSize s \<or> uiLog2MinTbSize s < 2),
       fail_if (\<lambda>s. sint diff < 0 \<or> sint diff > 30)]),
     go [into ue (\<lambda>v s. s\<lparr>iMaxTransformHierarchyDepthInter := v\<rparr>),
       into ue (\<lambda>v s. s\<lparr>iMaxTransformHierarchyDepthIntra := v\<rparr>),
       into bit1 (\<lambda>v s. s\<lparr>u8ScalingListEnableFlag := ucast v\<rparr>)],
     reading (\<lambda>s. if u8ScalingListEnableFlag s \<noteq> 0 then
       andthen (put (\<lambda>s. s\<lparr>tScalingList := setDefaultScalingListData (tScalingList s)\<rparr>))
       (ebind bit1 (\<lambda>b. if b \<noteq> 0
         then zoom tScalingList (\<lambda>l s. s\<lparr>tScalingList := l\<rparr>) (scalingListData (iChromaFormatIdc s))
         else eret None))
     else eret None)]"

definition set_pcm :: "(pcm_params \<Rightarrow> pcm_params) \<Rightarrow> T_HEVCSPS \<Rightarrow> T_HEVCSPS" where
  "set_pcm f s = s\<lparr>pcm := f (pcm s)\<rparr>"

definition hevc_pcm :: "(T_HEVCSPS, i32 option) parse_m" where
  "hevc_pcm = stages [
     go [into bit1 (\<lambda>v s. s\<lparr>u8AmpEnabledFlag := ucast v\<rparr>),
       into bit1 (\<lambda>v s. s\<lparr>u8SaoEnabled := ucast v\<rparr>),
       into bit1 (\<lambda>v s. s\<lparr>iPcmEnabledFlag := v\<rparr>)],
     reading (\<lambda>s. if iPcmEnabledFlag s \<noteq> 0 then stages [
       go [into (bits 4) (\<lambda>v. set_pcm (\<lambda>p. p\<lparr>u8BitDepth := ucast (v + 1)\<rparr>)),
         into (bits 4) (\<lambda>v. set_pcm (\<lambda>p. p\<lparr>u8BitDepthChroma := ucast (v + 1)\<rparr>)),
         into ue (\<lambda>v. set_pcm (\<lambda>p. p\<lparr>uiLog2MinPcmCbSize := v + 3\<rparr>)),
         into ue (\<lambda>v. set_pcm (\<lambda>p. p\<lparr>uiLog2MaxPcmCbSize := uiLog2MinPcmCbSize p + v\<rparr>))],
       fail_if (\<lambda>s. uint (max (u8BitDepth (pcm s)) (u8BitDepthChroma (pcm s))) > sint (iBitDepth s)),
       go [into bit1 (\<lambda>v. set_pcm (\<lambda>p. p\<lparr>u8LoopFilterDisableFlag := ucast v\<rparr>))]]
     else eret None)]"

definition read_rps :: "nat \<Rightarrow> (T_HEVCSPS, i32 option) parse_m" where
  "read_rps i = andthen (in_array i HEVC_MAX_SHORT_TERM_RPS_COUNT) (reading (\<lambda>s.
     or_exit (zoom (\<lambda>s. atStRps s ! i) (\<lambda>r s. s\<lparr>atStRps := (atStRps s)[i := r]\<rparr>)
       (hevcDecodeShortTermRps (Some i) (uiNbStRps s) (atStRps s) False))))"

definition read_long_term :: "nat \<Rightarrow> (T_HEVCSPS, unit) parse_m" where
  "read_long_term i = steps [
     in_array i HEVC_MAX_LONG_TERM_REF_PICS,
     reading (\<lambda>s. into (bits (unat (uiLog2MaxPocLsb s)))
       (\<lambda>v s. s\<lparr>au16LtRefPicPocLsbSps := (au16LtRefPicPocLsbSps s)[i := ucast v]\<rparr>)),
     into bit1 (\<lambda>v s. s\<lparr>au8UsedByCurrPicLtSpsFlag := (au8UsedByCurrPicLtSpsFlag s)[i := ucast v]\<rparr>)]"

definition hevc_references :: "(T_HEVCSPS, i32 option) parse_m" where
  "hevc_references = stages [
     go [into ue (\<lambda>v s. s\<lparr>uiNbStRps := v\<rparr>)],
     fail_if (\<lambda>s. uiNbStRps s > word_of_nat HEVC_MAX_SHORT_TERM_RPS_COUNT),
     reading (\<lambda>s. stages (map read_rps [0..<unat (uiNbStRps s)])),
     go [into bit1 (\<lambda>v s. s\<lparr>u8LongTermRefPicsPresentFlag := ucast v\<rparr>)],
     reading (\<lambda>s. if u8LongTermRefPicsPresentFlag s \<noteq> 0 then stages [
       go [into ue (\<lambda>v s. s\<lparr>u8NumLongTermRefPicsSps := ucast v\<rparr>)],
       fail_if (\<lambda>s. unat (u8NumLongTermRefPicsSps s) > HEVC_MAX_LONG_TERM_REF_PICS),
       reading (\<lambda>s. go (map read_long_term [0..<unat (u8NumLongTermRefPicsSps s)]))]
     else eret None)]"

definition hevc_extensions :: "(T_HEVCSPS, unit) parse_m" where
  "hevc_extensions = steps [
     into bit1 (\<lambda>v s. s\<lparr>u8SpsTemporalMvpEnabledFlag := ucast v\<rparr>),
     into bit1 (\<lambda>v s. s\<lparr>u8SpsStrongIntraMmoothingEnableFlag := ucast v\<rparr>),
     put (\<lambda>s. s\<lparr>tVui := (tVui s)\<lparr>tSar := (0, 1)\<rparr>\<rparr>),
     into bit1 (\<lambda>v s. s\<lparr>iVuiPresent := v\<rparr>),
     if_set (\<lambda>s. iVuiPresent s \<noteq> 0) [reading (\<lambda>s.
       zoom tVui (\<lambda>t s. s\<lparr>tVui := t\<rparr>) (decodeVui (iChromaFormatIdc s) (iMaxSubLayers s)))],
     ebind bit1 (\<lambda>ext. if ext \<noteq> 0 then
       ebind bit1 (\<lambda>range_ext. andthen (bits 7) (if range_ext \<noteq> 0 then steps [
         into bit1 (\<lambda>v s. s\<lparr>iTransformSkipRotationEnabledFlag := v\<rparr>),
         into bit1 (\<lambda>v s. s\<lparr>iTransformSkipContextEnabledFlag := v\<rparr>),
         into bit1 (\<lambda>v s. s\<lparr>iImplicitRdpcmEnabledFlag := v\<rparr>),
         into bit1 (\<lambda>v s. s\<lparr>iExplicitRdpcmEnabledFlag := v\<rparr>),
         skip bit1,
         into bit1 (\<lambda>v s. s\<lparr>iIntraSmoothingDisabledFlag := v\<rparr>),
         into bit1 (\<lambda>v s. s\<lparr>iHighPrecisionOffsetsEnabledFlag := v\<rparr>),
         into bit1 (\<lambda>v s. s\<lparr>iPersistentRiceAdaptationEnabledFlag := v\<rparr>),
         skip bit1] else eret ()))
     else eret ())]"

text \<open>The crop is dropped when it leaves nothing of the picture; \<open>INT_MAX\<close> is 65535 here.\<close>

definition bad_window :: "T_HEVCWindow \<Rightarrow> i32 \<Rightarrow> i32 \<Rightarrow> bool" where
  "bad_window ow w h \<longleftrightarrow> uiLeftOffset ow \<ge> INT_MAX - uiRightOffset ow \<or> uiTopOffset ow \<ge> INT_MAX - uiBottomOffset ow
     \<or> uiLeftOffset ow + uiRightOffset ow \<ge> w \<or> uiTopOffset ow + uiBottomOffset ow \<ge> h"

definition check_window :: "T_HEVCSPS \<Rightarrow> T_HEVCSPS" where
  "check_window s = (if bad_window (tOutputWindow s) (iWidth s) (iHeight s)
     then s\<lparr>tOutputWindow := zero_window, tPicConfWin := zero_window\<rparr> else s)"

definition avModUintp2c :: "u32 \<Rightarrow> u32 \<Rightarrow> u32" where
  "avModUintp2c a p = a AND (push_bit (unat p) 1 - 1)"

definition HEVC_MAX_LOG2_CTB_SIZE :: u32 where "HEVC_MAX_LOG2_CTB_SIZE = 6"

text \<open>The checks before the shifts keep their distances below 32.\<close>

definition infer_sizes :: "T_HEVCSPS \<Rightarrow> T_HEVCSPS" where
  "infer_sizes s =
     (let ctb = unat (uiLog2CtbSize s); cb = unat (uiLog2MinCbSize s); tb = unat (uiLog2MinTbSize s);
          pu = unat (uiLog2MinPuSize s);
          cw = signed_drop_bit ctb (iWidth s + push_bit ctb 1 - 1);
          ch = signed_drop_bit ctb (iHeight s + push_bit ctb 1 - 1)
      in s\<lparr>iCtbWidth := cw, iCtbHeight := ch, iCtbSize := cw * ch,
        iMinCbWidth := signed_drop_bit cb (iWidth s), iMinCbHeight := signed_drop_bit cb (iHeight s),
        iMinTbWidth := signed_drop_bit tb (iWidth s), iMinTbHeight := signed_drop_bit tb (iHeight s),
        iMinPuWidth := signed_drop_bit pu (iWidth s), iMinPuHeight := signed_drop_bit pu (iHeight s),
        iTbMask := push_bit (unat (uiLog2CtbSize s - uiLog2MinTbSize s)) 1 - 1,
        iQpBdOffset := 6 * (iBitDepth s - 8)\<rparr>)"

definition hevc_inferred :: "(T_HEVCSPS, i32 option) parse_m" where
  "hevc_inferred = stages [
     go [put check_window,
       put (\<lambda>s. s\<lparr>uiLog2CtbSize := uiLog2MinCbSize s + uiLog2DiffMaxMinCodingBlockSize s,
         uiLog2MinPuSize := uiLog2MinCbSize s - 1\<rparr>)],
     fail_if (\<lambda>s. uiLog2CtbSize s > HEVC_MAX_LOG2_CTB_SIZE),
     fail_if (\<lambda>s. uiLog2CtbSize s < 4),
     go [put infer_sizes],
     fail_if (\<lambda>s. avModUintp2c (iWidth s) (uiLog2MinCbSize s) \<noteq> 0 \<or> avModUintp2c (iHeight s) (uiLog2MinCbSize s) \<noteq> 0),
     fail_if (\<lambda>s. iMaxTransformHierarchyDepthInter s > uiLog2CtbSize s - uiLog2MinTbSize s),
     fail_if (\<lambda>s. iMaxTransformHierarchyDepthIntra s > uiLog2CtbSize s - uiLog2MinTbSize s),
     fail_if (\<lambda>s. uiLog2MaxTrafoSize s > min (uiLog2CtbSize s) 5),
     ebind bits_left_m (\<lambda>l. eret (if l < 0 then Some (- 1) else None))]"

definition hevc_sps_stages :: "(T_HEVCSPS, i32 option) parse_m" where
  "hevc_sps_stages = stages [hevc_head, hevc_picture, hevc_layers, hevc_blocks, hevc_pcm, hevc_references,
     go [hevc_extensions], hevc_inferred]"

definition h265DecSeqParameterSet :: "bit_ctx \<Rightarrow> i32 res \<times> T_HEVCSPS" where
  "h265DecSeqParameterSet src =
     (let (r, s') = hevc_sps_stages \<lparr>ss_ctx = deEmulationPrevention src, ss_sps = zero_hevc_sps\<rparr>
      in (res_bind r (\<lambda>x. Inr (case x of None \<Rightarrow> 0 | Some ret \<Rightarrow> ret)), ss_sps s'))"

definition h265GetWidthHeight :: "T_HEVCSPS \<Rightarrow> i32 \<times> i32" where
  "h265GetWidthHeight s =
     (iWidth s - uiLeftOffset (tOutputWindow s) - uiRightOffset (tOutputWindow s),
      iHeight s - uiTopOffset (tOutputWindow s) - uiBottomOffset (tOutputWindow s))"

section \<open>Video parameter set\<close>

record T_HEVCVPS =
  u8VpsTemporalIdNestingFlag :: u8
  iVpsMaxLayers :: i32
  iVpsMaxSubLayers :: i32
  vps_tPtl :: T_PTL
  iVpsSubLayerOrderingInfoPresentFlag :: i32
  uiVpsMaxDecPicBuffering :: "u32 list"
  auiVpsNumReorderPics :: "u32 list"
  auiVpsMaxLatencyIncrease :: "u32 list"
  iVpsMaxLayerId :: i32
  iVpsNumLayerSets :: i32
  u8VpsTimingInfoPresentFlag :: u8
  u32VpsNumUnitsInTick :: u32
  u32VpsTimeScale :: u32
  u8VpsPocProportionalToTimingFlag :: u8
  iVpsNumTicksPocDiffOne :: i32
  iVpsNumHrdParameters :: i32

definition zero_hevc_vps :: T_HEVCVPS where
  "zero_hevc_vps = \<lparr>u8VpsTemporalIdNestingFlag = 0, iVpsMaxLayers = 0, iVpsMaxSubLayers = 0, vps_tPtl = zero_ptl,
     iVpsSubLayerOrderingInfoPresentFlag = 0, uiVpsMaxDecPicBuffering = replicate HEVC_MAX_SUB_LAYERS 0,
     auiVpsNumReorderPics = replicate HEVC_MAX_SUB_LAYERS 0, auiVpsMaxLatencyIncrease = replicate HEVC_MAX_SUB_LAYERS 0,
     iVpsMaxLayerId = 0, iVpsNumLayerSets = 0, u8VpsTimingInfoPresentFlag = 0, u32VpsNumUnitsInTick = 0,
     u32VpsTimeScale = 0, u8VpsPocProportionalToTimingFlag = 0, iVpsNumTicksPocDiffOne = 0,
     iVpsNumHrdParameters = 0\<rparr>"

definition vps_head :: "(T_HEVCVPS, i32 option) parse_m" where
  "vps_head = stages [
     ebind (bits 4) (\<lambda>id. eret (if sint id \<ge> sint HEVC_MAX_VPS_COUNT then Some (- 1) else None)),
     ebind (bits 2) (\<lambda>v. eret (if v \<noteq> 3 then Some (- 1) else None)),
     go [into (bits 6) (\<lambda>v p. p\<lparr>iVpsMaxLayers := v + 1\<rparr>),
       into (bits 3) (\<lambda>v p. p\<lparr>iVpsMaxSubLayers := v + 1\<rparr>),
       into bit1 (\<lambda>v p. p\<lparr>u8VpsTemporalIdNestingFlag := ucast v\<rparr>)],
     ebind (bits 16) (\<lambda>v. eret (if v \<noteq> 0xffff then Some (- 1) else None)),
     fail_if (\<lambda>p. sint (iVpsMaxSubLayers p) > int HEVC_MAX_SUB_LAYERS),
     reading (\<lambda>p. ebind (zoom vps_tPtl (\<lambda>t p. p\<lparr>vps_tPtl := t\<rparr>) (parsePtl (iVpsMaxSubLayers p)))
       (\<lambda>r. eret (if sint r < 0 then Some (- 1) else None))),
     go [into bit1 (\<lambda>v p. p\<lparr>iVpsSubLayerOrderingInfoPresentFlag := v\<rparr>)]]"

definition vps_layer :: "nat \<Rightarrow> (T_HEVCVPS, i32 option) parse_m" where
  "vps_layer i = stages [
     go [in_array i HEVC_MAX_SUB_LAYERS,
       into ue (\<lambda>v p. p\<lparr>uiVpsMaxDecPicBuffering := (uiVpsMaxDecPicBuffering p)[i := v + 1]\<rparr>),
       into ue (\<lambda>v p. p\<lparr>auiVpsNumReorderPics := (auiVpsNumReorderPics p)[i := v]\<rparr>),
       into ue (\<lambda>v p. p\<lparr>auiVpsMaxLatencyIncrease := (auiVpsMaxLatencyIncrease p)[i := v - 1]\<rparr>)],
     fail_if (\<lambda>p. uiVpsMaxDecPicBuffering p ! i > HEVC_MAX_DPB_SIZE \<or> uiVpsMaxDecPicBuffering p ! i = 0)]"

definition vps_layers :: "(T_HEVCVPS, i32 option) parse_m" where
  "vps_layers = reading (\<lambda>p. let n = nat (sint (iVpsMaxSubLayers p)) in
     stages (map vps_layer [if iVpsSubLayerOrderingInfoPresentFlag p \<noteq> 0 then 0 else n - 1..<n]))"

definition vps_layer_sets :: "(T_HEVCVPS, i32 option) parse_m" where
  "vps_layer_sets = stages [
     go [into (bits 6) (\<lambda>v p. p\<lparr>iVpsMaxLayerId := v\<rparr>),
       into ue (\<lambda>v p. p\<lparr>iVpsNumLayerSets := v + 1\<rparr>)],
     ebind bits_left_m (\<lambda>l. fail_if (\<lambda>p. sint (iVpsNumLayerSets p) < 1 \<or> sint (iVpsNumLayerSets p) > 1024
       \<or> (sint (iVpsNumLayerSets p) - 1) * (sint (iVpsMaxLayerId p) + 1) > l)),
     reading (\<lambda>p. go (map (\<lambda>_. steps (map (\<lambda>_. skip (bits 1)) [0..<nat (sint (iVpsMaxLayerId p) + 1)]))
       [1..<nat (sint (iVpsNumLayerSets p))]))]"

definition vps_hrd :: "nat \<Rightarrow> (T_HEVCVPS, unit) parse_m" where
  "vps_hrd i = andthen ue (ebind (if i \<noteq> 0 then bit1 else eret 1) (\<lambda>common.
     reading (\<lambda>p. skip (decodeHrd (common \<noteq> 0) (iVpsMaxSubLayers p)))))"

definition vps_timing :: "(T_HEVCVPS, i32 option) parse_m" where
  "vps_timing = stages [
     go [into bit1 (\<lambda>v p. p\<lparr>u8VpsTimingInfoPresentFlag := ucast v\<rparr>)],
     reading (\<lambda>p. if u8VpsTimingInfoPresentFlag p \<noteq> 0 then stages [
       go [into (bits 32) (\<lambda>v p. p\<lparr>u32VpsNumUnitsInTick := v\<rparr>),
         into (bits 32) (\<lambda>v p. p\<lparr>u32VpsTimeScale := v\<rparr>),
         into bit1 (\<lambda>v p. p\<lparr>u8VpsPocProportionalToTimingFlag := ucast v\<rparr>),
         if_set (\<lambda>p. u8VpsPocProportionalToTimingFlag p \<noteq> 0) [into ue (\<lambda>v p. p\<lparr>iVpsNumTicksPocDiffOne := v + 1\<rparr>)],
         into ue (\<lambda>v p. p\<lparr>iVpsNumHrdParameters := v\<rparr>)],
       fail_if (\<lambda>p. iVpsNumHrdParameters p > iVpsNumLayerSets p),
       reading (\<lambda>p. go (map vps_hrd [0..<nat (sint (iVpsNumHrdParameters p))]))]
     else eret None),
     go [skip bit1],
     ebind bits_left_m (\<lambda>l. eret (if l < 0 then Some (- 1) else None))]"

definition h265DecVideoParameterSet :: "bit_ctx \<Rightarrow> i32 res \<times> T_HEVCVPS" where
  "h265DecVideoParameterSet src =
     (let (r, s') = stages [vps_head, vps_layers, vps_layer_sets, vps_timing]
            \<lparr>ss_ctx = deEmulationPrevention src, ss_sps = zero_hevc_vps\<rparr>
      in (res_bind r (\<lambda>x. Inr (case x of None \<Rightarrow> 0 | Some ret \<Rightarrow> ret)), ss_sps s'))"

text \<open>
  The frame rate, a quotient of two numbers, as its operands; \<open>None\<close> is the rate 0. The arguments
  may be null.
\<close>

definition sps_framerate :: "T_HEVCSPS \<Rightarrow> (u32 \<times> u32) option" where
  "sps_framerate s = (if iVuiTimingInfoPresentFlag (tVui s) \<noteq> 0 \<and> iVuiPresent s \<noteq> 0
     then Some (u32VuiTimeScale (tVui s), u32VuiNumUnitsInTick (tVui s)) else None)"

definition h265GeFramerate :: "T_HEVCVPS option \<Rightarrow> T_HEVCSPS option \<Rightarrow> (u32 \<times> u32) option" where
  "h265GeFramerate vps sps =
     (case (vps, sps) of
        (Some v, _) \<Rightarrow> if u8VpsTimingInfoPresentFlag v \<noteq> 0 then Some (u32VpsTimeScale v, u32VpsNumUnitsInTick v)
          else (case sps of None \<Rightarrow> None | Some s \<Rightarrow> sps_framerate s)
      | (None, Some s) \<Rightarrow> sps_framerate s
      | (None, None) \<Rightarrow> None)"

end
