(* ===== verification/Hevc_Safety.thy ===== *)
theory Hevc_Safety
  imports Hevc_Parser
begin

text \<open>
  No input makes the parsers of the H.265 parameter sets use an index outside an array. The rules are
  those of a Hoare logic for the steps of the parser, over the structure that is filled; what the bits are
  does not matter.
\<close>

definition in_bounds :: "('t \<Rightarrow> bool) \<Rightarrow> ('t, 'a) parse_m \<Rightarrow> ('a \<Rightarrow> 't \<Rightarrow> bool) \<Rightarrow> bool" where
  "in_bounds P m Q \<longleftrightarrow> (\<forall>s. P (ss_sps s) \<longrightarrow> (case m s of
     (Inl e, _) \<Rightarrow> e \<noteq> Undefined ''index outside an array''
   | (Inr v, s') \<Rightarrow> Q v (ss_sps s')))"

named_theorems bounds_rules \<open>steps that stay inside the arrays\<close>

lemma in_bounds_weaken:
  assumes "in_bounds P m Q" "\<And>t. P' t \<Longrightarrow> P t" "\<And>v t. Q v t \<Longrightarrow> Q' v t"
  shows "in_bounds P' m Q'"
  unfolding in_bounds_def
proof (intro allI impI)
  fix s :: "'a parse_state"
  assume "P' (ss_sps s)"
  with assms(1,2) have "case m s of (Inl e, _) \<Rightarrow> e \<noteq> Undefined ''index outside an array'' | (Inr v, s') \<Rightarrow> Q v (ss_sps s')"
    by (simp add: in_bounds_def)
  with assms(3) show "case m s of (Inl e, _) \<Rightarrow> e \<noteq> Undefined ''index outside an array'' | (Inr v, s') \<Rightarrow> Q' v (ss_sps s')"
    by (auto split: prod.splits sum.splits)
qed

lemma in_bounds_bind:
  assumes "in_bounds P m R" "\<And>v. in_bounds (R v) (f v) Q"
  shows "in_bounds P (ebind m f) Q"
  unfolding in_bounds_def
proof (intro allI impI)
  fix s :: "'a parse_state"
  assume P: "P (ss_sps s)"
  obtain r s1 where m: "m s = (r, s1)" by (cases "m s")
  show "case ebind m f s of (Inl e, _) \<Rightarrow> e \<noteq> Undefined ''index outside an array'' | (Inr v, s') \<Rightarrow> Q v (ss_sps s')"
  proof (cases r)
    case (Inl e)
    then show ?thesis using assms(1) P m by (auto simp: in_bounds_def ebind_def)
  next
    case (Inr v)
    then have "R v (ss_sps s1)" using assms(1) P m by (auto simp: in_bounds_def)
    then show ?thesis using assms(2) [of v] Inr m by (simp add: in_bounds_def ebind_def)
  qed
qed

lemma in_bounds_eret: "(\<And>t. P t \<Longrightarrow> Q v t) \<Longrightarrow> in_bounds P (eret v) Q"
  by (simp add: in_bounds_def)

lemma ctx_steps_in_bounds:
  "in_bounds P bit1 (\<lambda>_. P)" "in_bounds P (bits n) (\<lambda>_. P)" "in_bounds P ue (\<lambda>_. P)" "in_bounds P se (\<lambda>_. P)"
  "in_bounds P bits_left_m (\<lambda>_. P)" "in_bounds P (show_long n) (\<lambda>_. P)"
  by (auto simp: in_bounds_def bit1_def bits_def ue_def se_def bits_left_m_def show_long_def parseUe_def parseSe_def
      parseCodenum_def res_bind_def Let_def split: prod.splits sum.splits if_splits)

lemma in_bounds_put: "(\<And>t. P t \<Longrightarrow> Q () (f t)) \<Longrightarrow> in_bounds P (put f) Q"
  by (simp add: in_bounds_def put_def)

lemma in_bounds_array: "i < n \<Longrightarrow> in_bounds P (in_array i n) (\<lambda>_. P)"
  by (simp add: in_bounds_def in_array_def)

lemma in_bounds_zoom:
  assumes "in_bounds R m (\<lambda>v u. S v u)" "\<And>t. P t \<Longrightarrow> R (g t)" "\<And>v u t. P t \<Longrightarrow> S v u \<Longrightarrow> Q v (f u t)"
  shows "in_bounds P (zoom g f m) Q"
  unfolding in_bounds_def zoom_def
proof (intro allI impI)
  fix s :: "'c parse_state"
  assume P: "P (ss_sps s)"
  let ?s = "\<lparr>ss_ctx = ss_ctx s, ss_sps = g (ss_sps s)\<rparr>"
  obtain r s1 where m: "m ?s = (r, s1)" by (cases "m ?s")
  have R: "R (ss_sps ?s)" using assms(2) P by simp
  show "case case m ?s of (r, s') \<Rightarrow> (r, \<lparr>ss_ctx = ss_ctx s', ss_sps = f (ss_sps s') (ss_sps s)\<rparr>) of
      (Inl e, _) \<Rightarrow> e \<noteq> Undefined ''index outside an array'' | (Inr v, s') \<Rightarrow> Q v (ss_sps s')"
    using assms(1) [unfolded in_bounds_def, rule_format, OF R] m assms(3) [OF P] by (auto split: sum.splits)
qed

text \<open>Most steps neither need nor change what the checks rest on: they keep any property their stores keep.\<close>

definition keeps_bounds :: "('t \<Rightarrow> bool) \<Rightarrow> ('t, 'a) parse_m \<Rightarrow> bool" where
  "keeps_bounds P m \<longleftrightarrow> in_bounds P m (\<lambda>_. P)"

lemma keeps_bounds_ctx [bounds_rules]:
  "keeps_bounds P bit1" "keeps_bounds P (bits n)" "keeps_bounds P ue" "keeps_bounds P se" "keeps_bounds P bits_left_m"
  "keeps_bounds P (show_long n)" "keeps_bounds P (eret v)"
  by (simp_all add: keeps_bounds_def ctx_steps_in_bounds in_bounds_eret)

lemma keeps_bounds_bind [bounds_rules]:
  "keeps_bounds P m \<Longrightarrow> (\<And>v. keeps_bounds P (f v)) \<Longrightarrow> keeps_bounds P (ebind m f)"
  unfolding keeps_bounds_def by (rule in_bounds_bind)

lemma keeps_bounds_reading [bounds_rules]: "(\<And>t. P t \<Longrightarrow> keeps_bounds P (f t)) \<Longrightarrow> keeps_bounds P (reading f)"
  by (simp add: keeps_bounds_def in_bounds_def reading_def)

lemma keeps_bounds_cases [bounds_rules]:
  "(c \<Longrightarrow> keeps_bounds P m) \<Longrightarrow> (\<not> c \<Longrightarrow> keeps_bounds P k) \<Longrightarrow> keeps_bounds P (if c then m else k)"
  "(\<And>a b. keeps_bounds P (g a b)) \<Longrightarrow> keeps_bounds P (case q of (a, b) \<Rightarrow> g a b)"
  "keeps_bounds P m' \<Longrightarrow> (\<And>a. keeps_bounds P (h a)) \<Longrightarrow> keeps_bounds P (case o' of None \<Rightarrow> m' | Some a \<Rightarrow> h a)"
  by (simp_all split: prod.splits option.splits)

lemma keeps_bounds_put [bounds_rules]: "(\<And>t. P t \<Longrightarrow> P (f t)) \<Longrightarrow> keeps_bounds P (put f)"
  by (simp add: keeps_bounds_def in_bounds_put)

lemma keeps_bounds_then [bounds_rules]: "keeps_bounds P m \<Longrightarrow> keeps_bounds P k \<Longrightarrow> keeps_bounds P (andthen m k)"
  unfolding andthen_def by (rule keeps_bounds_bind)

lemma keeps_bounds_steps [bounds_rules]: "list_all (keeps_bounds P) ms \<Longrightarrow> keeps_bounds P (steps ms)"
  by (induction ms) (auto intro!: bounds_rules)

lemma keeps_bounds_unless [bounds_rules]:
  "keeps_bounds P m \<Longrightarrow> keeps_bounds P k \<Longrightarrow> keeps_bounds P (unless_done m k)"
  unfolding unless_done_def by (rule keeps_bounds_bind) (auto intro: bounds_rules split: option.splits)

lemma keeps_bounds_stages [bounds_rules]: "list_all (keeps_bounds P) ms \<Longrightarrow> keeps_bounds P (stages ms)"
  by (induction ms) (auto intro!: bounds_rules)

lemma keeps_bounds_blocks [bounds_rules]:
  "list_all (keeps_bounds P) ms \<Longrightarrow> keeps_bounds P (go ms)"
  "keeps_bounds P (fail_if c)"
  "keeps_bounds P m \<Longrightarrow> (\<And>v t. P t \<Longrightarrow> P (f v t)) \<Longrightarrow> keeps_bounds P (into m f)"
  "keeps_bounds P m' \<Longrightarrow> keeps_bounds P (skip m')"
  "list_all (keeps_bounds P) ms' \<Longrightarrow> keeps_bounds P (if_set c ms')"
  "i < n \<Longrightarrow> keeps_bounds P (in_array i n)"
  "keeps_bounds P m'' \<Longrightarrow> keeps_bounds P (or_exit m'')"
  unfolding go_def fail_if_def into_def skip_def if_set_def or_exit_def
  by (auto intro!: bounds_rules simp: keeps_bounds_def [of _ "in_array i n"] in_bounds_array)

lemma keeps_bounds_zoom [bounds_rules]:
  "keeps_bounds (\<lambda>_. True) m \<Longrightarrow> (\<And>u t. P t \<Longrightarrow> P (f u t)) \<Longrightarrow> keeps_bounds P (zoom g f m)"
  unfolding keeps_bounds_def by (rule in_bounds_zoom) auto

lemma list_all_rules [bounds_rules]:
  "list_all Q []" "Q x \<Longrightarrow> list_all Q xs \<Longrightarrow> list_all Q (x # xs)"
  "list_all Q xs \<Longrightarrow> list_all Q ys \<Longrightarrow> list_all Q (xs @ ys)"
  "(c \<Longrightarrow> list_all Q xs) \<Longrightarrow> (\<not> c \<Longrightarrow> list_all Q ys) \<Longrightarrow> list_all Q (if c then xs else ys)"
  "(\<And>i. a \<le> i \<Longrightarrow> i < b \<Longrightarrow> Q (f i)) \<Longrightarrow> list_all Q (map f [a..<b])"
  by (auto simp: list_all_iff)

text \<open>A stage, whose end matters only when it does not jump out.\<close>

definition stage :: "('t \<Rightarrow> bool) \<Rightarrow> ('t, 'r option) parse_m \<Rightarrow> ('t \<Rightarrow> bool) \<Rightarrow> bool" where
  "stage P m Q \<longleftrightarrow> in_bounds P m (\<lambda>r t. r = None \<longrightarrow> Q t)"

lemma stage_keeps: "keeps_bounds P m \<Longrightarrow> (\<And>t. P t \<Longrightarrow> Q t) \<Longrightarrow> stage P m Q"
  unfolding stage_def keeps_bounds_def by (erule in_bounds_weaken) auto

lemma stage_fail_if: "(\<And>t. P t \<Longrightarrow> \<not> c t \<Longrightarrow> Q t) \<Longrightarrow> stage P (fail_if c) Q"
  by (simp add: stage_def in_bounds_def fail_if_def reading_def)

lemma stage_unless: "stage P m R \<Longrightarrow> stage R k Q \<Longrightarrow> stage P (unless_done m k) Q"
  unfolding stage_def unless_done_def
  by (rule in_bounds_bind) (auto simp: in_bounds_def split: option.splits)

lemma stage_last: "stage P (stages []) P"
  by (simp add: stage_def in_bounds_eret)

lemma stage_Cons: "stage P m R \<Longrightarrow> stage R (stages ms) Q \<Longrightarrow> stage P (stages (m # ms)) Q"
  by (simp add: stage_unless)

lemma stage_go_into:
  assumes "keeps_bounds P m" "\<And>v t. P t \<Longrightarrow> Q (f v t)"
  shows "stage P (go [into m f]) Q"
proof -
  have "in_bounds P (into m f) (\<lambda>_. Q)"
    unfolding into_def by (rule in_bounds_bind [OF assms(1) [unfolded keeps_bounds_def]]) (simp add: in_bounds_put assms(2))
  then have "in_bounds P (steps [into m f]) (\<lambda>_. Q)"
    by (simp add: andthen_def) (rule in_bounds_bind, assumption, simp add: in_bounds_eret)
  then show ?thesis
    unfolding stage_def go_def andthen_def by (rule in_bounds_bind) (simp add: in_bounds_eret)
qed

section \<open>The parts of a parameter set\<close>

lemma ptl_common_bounds: "keeps_bounds (\<lambda>_. True) decodeProfileTierLevel"
  by (auto simp: decodeProfileTierLevel_def compatibility_flag_def intro!: bounds_rules)

lemma ptl_bounds:
  assumes "sint n \<le> 7"
  shows "keeps_bounds (\<lambda>_. True) (parsePtl n)"
proof -
  have i: "i < nat (sint n - 1) \<Longrightarrow> i < 7" for i
    using assms by simp
  have "keeps_bounds (\<lambda>_. True) (sub_layer_flags i)" "keeps_bounds (\<lambda>_. True) (sub_layer i)" if "i < nat (sint n - 1)" for i
    using i [OF that]
    by (auto simp: sub_layer_flags_def sub_layer_def sub_layer_ptl_def HEVC_MAX_SUB_LAYERS_def
        intro!: bounds_rules ptl_common_bounds)
  then show ?thesis
    by (auto simp: parsePtl_def Let_def intro!: bounds_rules ptl_common_bounds)
qed

lemma read_coefs_bounds: "keeps_bounds (\<lambda>_. True) (read_coefs sz m c is)"
  by (induction "is" arbitrary: c) (auto simp: Let_def intro!: bounds_rules)

text \<open>The difference of the two indices is unsigned: without the check before it, it would wrap around.\<close>

lemma copied_from:
  assumes "m < 6" "\<not> word_of_nat m < (d :: u32)"
  shows "unat (word_of_nat m - d) < 6"
proof -
  have "unat (word_of_nat m - d) \<le> unat (word_of_nat m :: u32)"
    using assms(2) by (simp add: unat_sub not_less)
  also have "\<dots> = m"
    using assms(1) by (simp add: unat_of_nat take_bit_eq_mod)
  finally show ?thesis using assms(1) by simp
qed

lemma scaling_matrix_bounds: "m < 6 \<Longrightarrow> keeps_bounds (\<lambda>_. True) (scaling_matrix sz m)"
  unfolding scaling_matrix_def Let_def by (intro bounds_rules read_coefs_bounds) (simp_all add: copied_from)

lemma scaling_bounds: "keeps_bounds (\<lambda>_. True) (scalingListData idc)"
proof -
  have "list_all (\<lambda>(sz, m). m < 6) scaling_indices"
    by (auto simp: scaling_indices_def list_all_iff)
  then have "list_all (keeps_bounds (\<lambda>_. True)) (map (\<lambda>(sz, m). scaling_matrix sz m) scaling_indices)"
    by (auto simp: list_all_iff intro: scaling_matrix_bounds)
  then show ?thesis
    by (auto simp: scalingListData_def intro!: bounds_rules)
qed

lemma hrd_bounds: "keeps_bounds P (decodeHrd c n)"
proof -
  have skips: "list_all (keeps_bounds P) ms \<Longrightarrow> keeps_bounds P (skips ms)" for ms :: "('a, i32) parse_m list"
    by (auto simp: skips_def list_all_iff intro!: bounds_rules)
  have sub: "keeps_bounds P (decodeSublayerHrd k b)" for k b
    by (auto simp: decodeSublayerHrd_def intro!: bounds_rules skips)
  have "keeps_bounds P (hrd_sublayer x y z)" for x y z
    unfolding hrd_sublayer_def by (intro bounds_rules sub)
  moreover have "keeps_bounds P hrd_common"
    unfolding hrd_common_def by (intro bounds_rules skips)
  ultimately show ?thesis
    by (auto simp: decodeHrd_def intro!: bounds_rules)
qed

lemma vui_bounds:
  assumes "unat idc < 4"
  shows "keeps_bounds (\<lambda>_. True) (decodeVui idc n)"
proof -
  have head: "keeps_bounds (\<lambda>_. True) hevc_vui_head"
    unfolding hevc_vui_head_def Let_def by (intro bounds_rules) simp_all
  have window: "keeps_bounds (\<lambda>_. True) (hevc_vui_window idc)"
    using assms by (auto simp: hevc_vui_window_def read_window_def Let_def intro!: bounds_rules)
  have timing: "keeps_bounds (\<lambda>_. True) (hevc_vui_timing a r n)" if "keeps_bounds (\<lambda>_. True) r" for a r
    unfolding hevc_vui_timing_def by (intro bounds_rules hrd_bounds that) simp_all
  have restore: "keeps_bounds (\<lambda>_. True) (restore b)" for b :: "T_VUI parse_state"
    by (simp add: keeps_bounds_def in_bounds_def restore_def)
  have at: "keeps_bounds P (\<lambda>s. m s s)" if "\<And>b. keeps_bounds P (m b)" for P and m :: "T_VUI parse_state \<Rightarrow> (T_VUI, unit) parse_m"
    using that by (auto simp: keeps_bounds_def in_bounds_def)
  have "keeps_bounds (\<lambda>_. True) (andthen (hevc_vui_window idc)
      (hevc_vui_timing False (andthen (restore b) (hevc_vui_timing True (eret ()) n)) n))" for b
    by (intro keeps_bounds_then window timing restore keeps_bounds_ctx)
  from keeps_bounds_then [OF head at [OF this]] show ?thesis
    by (simp add: decodeVui_def)
qed

section \<open>Reference picture sets\<close>

definition rps_small :: "T_ShortTermRPS \<Rightarrow> bool" where
  "rps_small r \<longleftrightarrow> sint (iNumDeltaPocs r) < int rps_array"

lemma rps_small_set [simp]:
  "rps_small (set_poc k v r) = rps_small r" "rps_small (set_used k u r) = rps_small r"
  "rps_small (r\<lparr>uiNumNegativePics := n\<rparr>) = rps_small r" "rps_small (r\<lparr>iRpsIdxNumDeltaPocs := m\<rparr>) = rps_small r"
  by (simp_all add: rps_small_def set_poc_def set_used_def)

lemma rps_small_sort [simp]: "rps_small (insert_back k p u r) = rps_small r" "rps_small (sort_rps n r) = rps_small r"
  "rps_small (flip_negative n r) = rps_small r"
proof -
  have i: "rps_small (insert_back k p u r) = rps_small r" for k p u r
    by (induction k arbitrary: r) (simp_all add: Let_def)
  have "rps_small (fold (\<lambda>i r. insert_back i (au32DeltaPoc r ! i) (au8Used r ! i) r) is r) = rps_small r" for "is" r
    by (induction "is" arbitrary: r) (simp_all add: i)
  moreover have "rps_small (fold (\<lambda>i. swap_entries i (n - 1 - i)) is r) = rps_small r" for "is" r
    by (induction "is" arbitrary: r) (simp_all add: swap_entries_def)
  ultimately show "rps_small (insert_back k p u r) = rps_small r" "rps_small (sort_rps n r) = rps_small r"
    "rps_small (flip_negative n r) = rps_small r"
    by (simp_all add: i sort_rps_def flip_negative_def)
qed

text \<open>The position written to never overtakes the entry of the reference.\<close>

lemma predict_bounds:
  assumes "k \<le> i" "i \<le> j" "j \<le> rps_array"
  shows "keeps_bounds rps_small (predict_entries ref d [i..<j] k k0 u)"
  using assms
proof (induction "j - i" arbitrary: i k k0 u)
  case 0
  then show ?case by (simp add: keeps_bounds_def in_bounds_def)
next
  case (Suc n)
  have k: "k < rps_array" and i: "i < j" "i < rps_array" and l: "[i..<j] = i # [i + 1..<j]"
    using Suc by (simp_all add: upt_conv_Cons)
  have IH: "keeps_bounds rps_small (predict_entries ref d [i + 1..<j] k' k0' u')" if "k' \<le> i + 1" for k' k0' u'
    using Suc.hyps i assms(3) that by (intro Suc.hyps(1)) simp_all
  have IH': "keeps_bounds rps_small (predict_entries ref d [i + 1..<j] k k0' u')"
    "keeps_bounds rps_small (predict_entries ref d [i + 1..<j] (k + 1) k0' u')" for k0' u'
    by (rule IH, use Suc.prems(1) in simp)+
  show ?case
    unfolding l predict_entries.simps predict_entry_def Let_def
    by (intro bounds_rules IH' k i) simp_all
qed

lemma explicit_bounds: "\<forall>i \<in> set is. i < rps_array \<Longrightarrow> keeps_bounds rps_small (explicit_pics f is p)"
proof (induction "is" arbitrary: p)
  case Nil
  then show ?case by (simp add: keeps_bounds_def in_bounds_def)
next
  case (Cons i "is")
  then have IH: "keeps_bounds rps_small (explicit_pics f is q)" and i: "i < rps_array" for q
    by simp_all
  show ?case
    unfolding explicit_pics.simps Let_def by (intro bounds_rules IH i) simp_all
qed

lemma in_bounds_if:
  "(c \<Longrightarrow> in_bounds P m Q) \<Longrightarrow> (\<not> c \<Longrightarrow> in_bounds P k Q) \<Longrightarrow> in_bounds P (if c then m else k) Q"
  by simp

lemma sint_small: "n < 2 ^ 31 \<Longrightarrow> sint (word_of_nat n :: i32) = int n"
  by (rule word_small)

lemma rps_predicted_bounds:
  assumes "rps_small ref"
  shows "keeps_bounds rps_small (rps_predicted ref)"
proof -
  have n: "nat (sint (iNumDeltaPocs ref) + 1) \<le> rps_array"
    using assms by (simp add: rps_small_def)
  have small: "rps_small (r\<lparr>iNumDeltaPocs := word_of_nat k\<rparr>)" if "\<not> k \<ge> rps_array" for r k
    using that sint_small [of k] by (simp add: rps_small_def rps_array_def)
  show ?thesis
    unfolding rps_predicted_def Let_def
    by (intro bounds_rules predict_bounds n) (simp_all add: small)
qed

lemma rps_explicit_bounds: "keeps_bounds rps_small rps_explicit"
proof -
  have small: "rps_small (r\<lparr>iNumDeltaPocs := neg + pos\<rparr>)" and a: "\<forall>i \<in> set [0..<unat neg]. i < rps_array"
    and b: "\<forall>i \<in> set [unat neg..<unat neg + unat pos]. i < rps_array"
    if "\<not> (neg \<ge> HEVC_MAX_REFS \<or> pos \<ge> HEVC_MAX_REFS)" for r and neg pos :: u32
  proof -
    have "unat neg < 16" "unat pos < 16"
      using that by (simp_all add: HEVC_MAX_REFS_def word_le_nat_alt)
    moreover have "uint neg < 16" "uint pos < 16"
      using that by (simp_all add: HEVC_MAX_REFS_def word_le_def)
    moreover from this have "neg + pos = word_of_nat (unat neg + unat pos)" by simp
    ultimately show "rps_small (r\<lparr>iNumDeltaPocs := neg + pos\<rparr>)" "\<forall>i \<in> set [0..<unat neg]. i < rps_array"
      "\<forall>i \<in> set [unat neg..<unat neg + unat pos]. i < rps_array"
      using sint_small [of "unat neg + unat pos"] by (simp_all add: rps_small_def rps_array_def)
  qed
  have "\<forall>i \<in> set [0..<unat neg]. i < rps_array" if "\<not> (neg \<ge> HEVC_MAX_REFS \<or> pos \<ge> HEVC_MAX_REFS)" for neg pos
    using a [OF that] .
  then have "keeps_bounds rps_small (explicit_pics f [0..<unat neg] q)"
    "keeps_bounds rps_small (explicit_pics f [unat neg..<unat neg + unat pos] q)"
    if "\<not> (neg \<ge> HEVC_MAX_REFS \<or> pos \<ge> HEVC_MAX_REFS)" for f neg pos q
    using that b by (blast intro: explicit_bounds)+
  then have "keeps_bounds rps_small (if neg \<ge> HEVC_MAX_REFS \<or> pos \<ge> HEVC_MAX_REFS then eret (- 1)
     else andthen (put (\<lambda>r. r\<lparr>iNumDeltaPocs := neg + pos\<rparr>)) (
       ebind (stages [explicit_pics (\<lambda>p d. p - d) [0..<unat neg] 0,
           explicit_pics (\<lambda>p d. p + d) [unat neg..<unat neg + unat pos] 0]) (\<lambda>r.
       eret (case r of None \<Rightarrow> 0 | Some x \<Rightarrow> x))))" for neg pos
    by (intro keeps_bounds_cases(1) keeps_bounds_ctx keeps_bounds_then keeps_bounds_put keeps_bounds_bind keeps_bounds_stages
        list_all_rules small) assumption+
  then show ?thesis
    unfolding rps_explicit_def by (intro keeps_bounds_bind keeps_bounds_ctx keeps_bounds_then keeps_bounds_put) simp_all
qed

lemma rps_bounds:
  assumes "idx < length sets" "length sets = HEVC_MAX_SHORT_TERM_RPS_COUNT" "\<forall>r \<in> set sets. rps_small r"
  shows "keeps_bounds rps_small (hevcDecodeShortTermRps (Some idx) nb sets False)"
proof (cases idx)
  case 0
  have z: "\<not> (ucast (0 :: i32) :: u8) \<noteq> 0" by simp
  have "hevcDecodeShortTermRps (Some 0) nb sets False = rps_explicit"
    unfolding hevcDecodeShortTermRps_def by (auto simp: ebind_def fun_eq_iff)
  then show ?thesis
    using rps_explicit_bounds 0 by simp
next
  case (Suc i)
  have "rps_small (sets ! i)" "i < HEVC_MAX_SHORT_TERM_RPS_COUNT"
    using assms Suc by simp_all
  then have "keeps_bounds rps_small (ebind (rps_reference (Some (Suc i)) nb sets False) rps_predicted)"
    unfolding keeps_bounds_def rps_reference_def andthen_def
    by (intro in_bounds_bind [where R="\<lambda>ref r. rps_small ref \<and> rps_small r"])
      (auto simp: in_bounds_def in_array_def ebind_def rps_predicted_bounds [unfolded keeps_bounds_def in_bounds_def, rule_format])
  then have "keeps_bounds rps_small (if (ucast p :: u8) \<noteq> 0
      then ebind (rps_reference (Some (Suc i)) nb sets False) rps_predicted else rps_explicit)" for p :: i32
    by (simp add: rps_explicit_bounds)
  then show ?thesis
    unfolding hevcDecodeShortTermRps_def Suc by (rule keeps_bounds_bind [rotated]) (intro bounds_rules)
qed

section \<open>The parameter sets\<close>

lemma stage_reading: "(\<And>t. P t \<Longrightarrow> stage P (f t) Q) \<Longrightarrow> stage P (reading f) Q"
  by (simp add: stage_def in_bounds_def reading_def)

lemma stage_if: "(c \<Longrightarrow> stage P m Q) \<Longrightarrow> (\<not> c \<Longrightarrow> stage P k Q) \<Longrightarrow> stage P (if c then m else k) Q"
  by simp

lemma stage_none: "(\<And>t. P t \<Longrightarrow> Q t) \<Longrightarrow> stage P (eret None) Q"
  by (simp add: stage_def in_bounds_eret)

text \<open>What is known of a set before and after the number of layers has been checked.\<close>

definition sets_ok :: "T_HEVCSPS \<Rightarrow> bool" where
  "sets_ok t \<longleftrightarrow> length (atStRps t) = HEVC_MAX_SHORT_TERM_RPS_COUNT \<and> (\<forall>r \<in> set (atStRps t). rps_small r)"

definition layers_ok :: "T_HEVCSPS \<Rightarrow> bool" where
  "layers_ok t \<longleftrightarrow> sets_ok t \<and> sint (iMaxSubLayers t) \<le> int HEVC_MAX_SUB_LAYERS"

definition sps_ok :: "T_HEVCSPS \<Rightarrow> bool" where
  "sps_ok t \<longleftrightarrow> layers_ok t \<and> unat (iChromaFormatIdc t) < 4"

lemmas sps_inv = sps_ok_def layers_ok_def sets_ok_def HEVC_MAX_SUB_LAYERS_def

lemma head_bounds: "stage sets_ok hevc_head layers_ok"
proof -
  have p: "keeps_bounds layers_ok (reading (\<lambda>s. or_exit (zoom tPtl (\<lambda>p s. s\<lparr>tPtl := p\<rparr>) (parsePtl (iMaxSubLayers s)))))"
    by (intro bounds_rules ptl_bounds) (simp_all add: sps_inv)
  show ?thesis
    unfolding hevc_head_def
    by (rule stage_Cons [of _ _ sets_ok], rule stage_keeps, (intro bounds_rules; simp add: sps_inv), assumption,
        rule stage_Cons [of _ _ sets_ok], rule stage_keeps, (intro bounds_rules; simp add: sps_inv), assumption,
        rule stage_Cons [of _ _ sets_ok], rule stage_keeps, (intro bounds_rules; simp add: sps_inv), assumption,
        rule stage_Cons [of _ _ layers_ok], rule stage_fail_if, simp add: sps_inv,
        rule stage_keeps [of layers_ok], intro bounds_rules p, simp_all add: sps_inv)
qed

lemma picture_bounds: "stage layers_ok hevc_picture sps_ok"
proof -
  have w: "unat idc < 4 \<Longrightarrow> keeps_bounds (\<lambda>_. True) (read_window idc)" for idc
    unfolding read_window_def Let_def by (intro bounds_rules) simp_all
  have z: "keeps_bounds sps_ok (reading (\<lambda>s. zoom tPicConfWin (\<lambda>w s. s\<lparr>tPicConfWin := w\<rparr>) (read_window (iChromaFormatIdc s))))"
    by (intro bounds_rules w) (simp_all add: sps_inv)
  show ?thesis
    unfolding hevc_picture_def
    by (rule stage_Cons [of _ _ layers_ok], rule stage_keeps, (intro bounds_rules; simp add: sps_inv), assumption,
        rule stage_Cons [of _ _ sps_ok], rule stage_fail_if, simp add: sps_inv word_less_nat_alt,
        rule stage_keeps [of sps_ok], intro bounds_rules z, simp_all add: sps_inv)
qed

lemma layers_bounds: "keeps_bounds sps_ok hevc_layers"
proof -
  have r: "keeps_bounds sps_ok (read_layer i)" if "i < 7" for i
    unfolding read_layer_def using that by (intro bounds_rules) (simp_all add: sps_inv set_layer_def)
  show ?thesis
    unfolding hevc_layers_def Let_def
    by (intro bounds_rules r) (auto simp: sps_inv set_layer_def)
qed

lemma blocks_bounds: "keeps_bounds sps_ok hevc_blocks"
  unfolding hevc_blocks_def by (intro bounds_rules scaling_bounds) (simp_all add: sps_inv)

lemma pcm_bounds: "keeps_bounds sps_ok hevc_pcm"
  unfolding hevc_pcm_def by (intro bounds_rules) (simp_all add: sps_inv set_pcm_def)

lemma read_rps_bounds:
  assumes "i < HEVC_MAX_SHORT_TERM_RPS_COUNT"
  shows "keeps_bounds sps_ok (read_rps i)"
proof -
  have "keeps_bounds sps_ok (zoom (\<lambda>s. atStRps s ! i) (\<lambda>r s. s\<lparr>atStRps := (atStRps s)[i := r]\<rparr>)
      (hevcDecodeShortTermRps (Some i) (uiNbStRps t) (atStRps t) False))" if "sps_ok t" for t
    unfolding keeps_bounds_def
  proof (rule in_bounds_zoom [OF rps_bounds [unfolded keeps_bounds_def]])
    show "i < length (atStRps t)" "length (atStRps t) = HEVC_MAX_SHORT_TERM_RPS_COUNT" "\<forall>r \<in> set (atStRps t). rps_small r"
      using that assms by (simp_all add: sps_inv)
    show "rps_small (atStRps u ! i)" if "sps_ok u" for u
      using that assms by (simp add: sps_inv)
    show "sps_ok (s\<lparr>atStRps := (atStRps s)[i := u]\<rparr>)" if "sps_ok s" "rps_small u" for s u
      using that by (auto simp: sps_inv dest: set_update_subset_insert [THEN subsetD])
  qed
  then show ?thesis
    unfolding read_rps_def
    by (intro keeps_bounds_then keeps_bounds_reading keeps_bounds_blocks(6,7) assms)
qed

lemma long_term_bounds: "i < HEVC_MAX_LONG_TERM_REF_PICS \<Longrightarrow> keeps_bounds sps_ok (read_long_term i)"
  unfolding read_long_term_def by (intro bounds_rules) (simp_all add: sps_inv)

lemma references_bounds: "stage sps_ok hevc_references sps_ok"
proof -
  let ?P = "\<lambda>t. sps_ok t \<and> uiNbStRps t \<le> word_of_nat HEVC_MAX_SHORT_TERM_RPS_COUNT"
  let ?L = "\<lambda>t. sps_ok t \<and> unat (u8NumLongTermRefPicsSps t) \<le> HEVC_MAX_LONG_TERM_REF_PICS"
  have rps: "stage ?P (reading (\<lambda>s. stages (map read_rps [0..<unat (uiNbStRps s)]))) sps_ok"
  proof (rule stage_reading)
    fix t assume t: "?P t"
    have "keeps_bounds sps_ok (stages (map read_rps [0..<unat (uiNbStRps t)]))"
      by (intro bounds_rules read_rps_bounds) (use t in \<open>simp_all add: HEVC_MAX_SHORT_TERM_RPS_COUNT_def word_le_nat_alt\<close>)
    then show "stage ?P (stages (map read_rps [0..<unat (uiNbStRps t)])) sps_ok"
      unfolding stage_def keeps_bounds_def by (rule in_bounds_weaken) simp_all
  qed
  have lt: "stage ?L (reading (\<lambda>s. go (map read_long_term [0..<unat (u8NumLongTermRefPicsSps s)]))) sps_ok"
  proof (rule stage_reading)
    fix t assume t: "?L t"
    have "keeps_bounds sps_ok (go (map read_long_term [0..<unat (u8NumLongTermRefPicsSps t)]))"
      by (intro bounds_rules long_term_bounds) (use t in simp)
    then show "stage ?L (go (map read_long_term [0..<unat (u8NumLongTermRefPicsSps t)])) sps_ok"
      unfolding stage_def keeps_bounds_def by (rule in_bounds_weaken) simp_all
  qed
  have lt': "stage sps_ok (stages [go [into ue (\<lambda>v s. s\<lparr>u8NumLongTermRefPicsSps := ucast v\<rparr>)],
      fail_if (\<lambda>s. unat (u8NumLongTermRefPicsSps s) > HEVC_MAX_LONG_TERM_REF_PICS),
      reading (\<lambda>s. go (map read_long_term [0..<unat (u8NumLongTermRefPicsSps s)]))]) sps_ok"
    by (rule stage_Cons [of _ _ sps_ok], rule stage_keeps, (intro bounds_rules; simp add: sps_inv), assumption,
        rule stage_Cons [of _ _ ?L], rule stage_fail_if, simp, rule stage_Cons [OF lt stage_last])
  show ?thesis
    unfolding hevc_references_def
    by (rule stage_Cons [of _ _ sps_ok], rule stage_keeps, (intro bounds_rules; simp add: sps_inv), assumption,
        rule stage_Cons [of _ _ ?P], rule stage_fail_if, simp, rule stage_Cons [OF rps],
        rule stage_Cons [of _ _ sps_ok], rule stage_keeps, (intro bounds_rules; simp add: sps_inv), assumption,
        rule stage_Cons [OF stage_reading stage_last], intro stage_if lt' stage_none)
qed

lemma extensions_bounds: "keeps_bounds sps_ok hevc_extensions"
  unfolding hevc_extensions_def by (intro bounds_rules vui_bounds) (simp_all add: sps_inv)

lemma inferred_bounds: "keeps_bounds sps_ok hevc_inferred"
  unfolding hevc_inferred_def
  by (intro bounds_rules) (simp_all add: sps_inv check_window_def infer_sizes_def Let_def)

lemma sps_stages_bounds: "stage sets_ok hevc_sps_stages sps_ok"
  unfolding hevc_sps_stages_def
  by (rule stage_Cons [OF head_bounds], rule stage_Cons [OF picture_bounds],
      rule stage_Cons [OF stage_keeps [OF layers_bounds]], assumption,
      rule stage_Cons [OF stage_keeps [OF blocks_bounds]], assumption,
      rule stage_Cons [OF stage_keeps [OF pcm_bounds]], assumption,
      rule stage_Cons [OF references_bounds], rule stage_keeps [of sps_ok],
      intro bounds_rules extensions_bounds inferred_bounds)

definition vps_ok :: "T_HEVCVPS \<Rightarrow> bool" where
  "vps_ok t \<longleftrightarrow> sint (iVpsMaxSubLayers t) \<le> int HEVC_MAX_SUB_LAYERS"

lemma vps_head_bounds: "stage (\<lambda>_. True) vps_head vps_ok"
proof -
  have p: "keeps_bounds vps_ok (reading (\<lambda>p. ebind (zoom vps_tPtl (\<lambda>t p. p\<lparr>vps_tPtl := t\<rparr>) (parsePtl (iVpsMaxSubLayers p)))
      (\<lambda>r. eret (if sint r < 0 then Some (- 1) else None))))"
    by (intro bounds_rules ptl_bounds) (simp_all add: vps_ok_def HEVC_MAX_SUB_LAYERS_def)
  have k: "stage (\<lambda>_. True) m (\<lambda>_. True)" if "keeps_bounds (\<lambda>_. True) m" for m :: "(T_HEVCVPS, i32 option) parse_m"
    using that by (rule stage_keeps)
  show ?thesis
    unfolding vps_head_def
    by (rule stage_Cons, rule k, intro bounds_rules, rule stage_Cons, rule k, intro bounds_rules,
        rule stage_Cons, rule k, (intro bounds_rules; simp), rule stage_Cons, rule k, intro bounds_rules,
        rule stage_Cons [of _ _ vps_ok], rule stage_fail_if, simp add: vps_ok_def,
        rule stage_keeps [of vps_ok], intro bounds_rules p, simp_all add: vps_ok_def)
qed

lemma vps_layers_bounds: "keeps_bounds vps_ok vps_layers"
proof -
  have "keeps_bounds vps_ok (vps_layer i)" if "i < HEVC_MAX_SUB_LAYERS" for i
    unfolding vps_layer_def using that by (intro bounds_rules) (simp_all add: vps_ok_def)
  then show ?thesis
    unfolding vps_layers_def Let_def
    by (intro bounds_rules) (auto simp: vps_ok_def HEVC_MAX_SUB_LAYERS_def)
qed

lemma vps_sets_bounds: "keeps_bounds vps_ok vps_layer_sets"
  unfolding vps_layer_sets_def by (intro bounds_rules) (simp_all add: vps_ok_def)

lemma vps_timing_bounds: "keeps_bounds vps_ok vps_timing"
proof -
  have "keeps_bounds vps_ok (vps_hrd i)" for i
    unfolding vps_hrd_def by (intro bounds_rules hrd_bounds)
  then show ?thesis
    unfolding vps_timing_def by (intro bounds_rules) (simp_all add: vps_ok_def)
qed

lemma vps_stages_bounds: "stage (\<lambda>_. True) (stages [vps_head, vps_layers, vps_layer_sets, vps_timing]) vps_ok"
  by (rule stage_Cons [OF vps_head_bounds], rule stage_keeps,
      intro bounds_rules vps_layers_bounds vps_sets_bounds vps_timing_bounds)

lemma stage_no_index:
  "stage P m Q \<Longrightarrow> P (ss_sps s) \<Longrightarrow> fst (m s) \<noteq> Inl (Undefined ''index outside an array'')"
  by (cases "m s") (fastforce simp: stage_def in_bounds_def)

text \<open>C38: Whatever bytes the H.265 parsers are given, none of the indices they compute from them lies
  outside its array: neither the parser of sequence parameter sets (layers, matrices that are copied,
  chroma tables, predicted and explicit reference picture sets, long-term references) nor the one of video
  parameter sets.\<close>

theorem hevc_indices_in_bounds:
  "fst (h265DecSeqParameterSet src) \<noteq> Inl (Undefined ''index outside an array'')
   \<and> fst (h265DecVideoParameterSet src) \<noteq> Inl (Undefined ''index outside an array'')"
proof
  let ?s = "\<lparr>ss_ctx = deEmulationPrevention src, ss_sps = zero_hevc_sps\<rparr>"
  have "sets_ok zero_hevc_sps"
    by (simp add: sets_ok_def zero_hevc_sps_def rps_small_def zero_rps_def rps_array_def)
  then have "fst (hevc_sps_stages ?s) \<noteq> Inl (Undefined ''index outside an array'')"
    using stage_no_index [OF sps_stages_bounds] by simp
  then show "fst (h265DecSeqParameterSet src) \<noteq> Inl (Undefined ''index outside an array'')"
    by (auto simp: h265DecSeqParameterSet_def res_bind_def split: prod.splits sum.splits)
  let ?v = "\<lparr>ss_ctx = deEmulationPrevention src, ss_sps = zero_hevc_vps\<rparr>"
  have "fst (stages [vps_head, vps_layers, vps_layer_sets, vps_timing] ?v) \<noteq> Inl (Undefined ''index outside an array'')"
    using stage_no_index [OF vps_stages_bounds] by blast
  then show "fst (h265DecVideoParameterSet src) \<noteq> Inl (Undefined ''index outside an array'')"
    by (auto simp: h265DecVideoParameterSet_def res_bind_def simp del: stages.simps split: prod.splits sum.splits)
qed

end
