(* ===== verification/Hevc_Rps.thy ===== *)
theory Hevc_Rps
  imports Hevc_Sets "HOL-Library.Multiset"
begin

text \<open>
  The short-term reference picture set that is predicted from another: the entries that are read, and the
  order the two loops of \<open>hevcDecodeShortTermRps\<close> bring them into.
\<close>

section \<open>The arrays as a list of pairs\<close>

type_synonym rps_entry = "i32 \<times> u8"

definition entries :: "T_ShortTermRPS \<Rightarrow> rps_entry list" where
  "entries r = zip (au32DeltaPoc r) (au8Used r)"

definition rps_ok :: "T_ShortTermRPS \<Rightarrow> bool" where
  "rps_ok r \<longleftrightarrow> length (au32DeltaPoc r) = rps_array \<and> length (au8Used r) = rps_array"

lemma length_entries [simp]: "rps_ok r \<Longrightarrow> length (entries r) = rps_array"
  by (simp add: rps_ok_def entries_def)

lemma rps_ok_set [simp]:
  "rps_ok (set_poc k v r) = rps_ok r" "rps_ok (set_used k u r) = rps_ok r"
  "rps_ok (r\<lparr>uiNumNegativePics := n\<rparr>) = rps_ok r" "rps_ok (r\<lparr>iNumDeltaPocs := i\<rparr>) = rps_ok r"
  by (simp_all add: rps_ok_def set_poc_def set_used_def)

lemma entries_counts [simp]:
  "entries (r\<lparr>uiNumNegativePics := n\<rparr>) = entries r" "entries (r\<lparr>iNumDeltaPocs := i\<rparr>) = entries r"
  by (simp_all add: entries_def)

lemma entries_set: "entries (set_used k u (set_poc k v r)) = (entries r)[k := (v, u)]"
  by (simp add: entries_def set_poc_def set_used_def update_zip)

lemma entries_nth:
  "rps_ok r \<Longrightarrow> i < rps_array \<Longrightarrow> au32DeltaPoc r ! i = fst (entries r ! i)"
  "rps_ok r \<Longrightarrow> i < rps_array \<Longrightarrow> au8Used r ! i = snd (entries r ! i)"
  by (simp_all add: entries_def rps_ok_def)

section \<open>Sorting\<close>

definition poc_le :: "rps_entry \<Rightarrow> rps_entry \<Rightarrow> bool" where
  "poc_le a b \<longleftrightarrow> sint (fst a) \<le> sint (fst b)"

fun insert_entry :: "nat \<Rightarrow> rps_entry \<Rightarrow> rps_entry list \<Rightarrow> rps_entry list" where
  "insert_entry 0 e es = es"
| "insert_entry (Suc k) e es = insert_entry k e (if poc_le (es ! k) e then es else es[k + 1 := es ! k, k := e])"

lemma insert_back_entries:
  "rps_ok r \<Longrightarrow> k < rps_array \<Longrightarrow> entries (insert_back k p u r) = insert_entry k (p, u) (entries r) \<and> rps_ok (insert_back k p u r)"
  by (induction k arbitrary: r) (auto simp: Let_def entries_set entries_nth poc_le_def)

lemma insert_entry_id: "(\<forall>j < k. poc_le (es ! j) e) \<Longrightarrow> insert_entry k e es = es"
  by (induction k) auto

lemma mset_swap_entries: "i < length es \<Longrightarrow> j < length es \<Longrightarrow> mset (es[j := es ! i, i := es ! j]) = mset es"
  using mset_swap [of i es j] by (simp add: list_update_swap)

lemma mset_take_eq:
  "mset xs = mset ys \<Longrightarrow> drop n xs = drop n ys \<Longrightarrow> mset (take n xs) = mset (take n ys)"
  by (metis add_right_cancel append_take_drop_id mset_append)

lemma insert_entry_sorts:
  assumes "k < length es" "es ! k = e" "sorted_wrt poc_le (take k es)"
  shows "mset (insert_entry k e es) = mset es \<and> sorted_wrt poc_le (take (k + 1) (insert_entry k e es))
    \<and> drop (k + 1) (insert_entry k e es) = drop (k + 1) es"
  using assms
proof (induction k arbitrary: es)
  case 0
  then show ?case by (cases es) auto
next
  case (Suc k)
  note s = take_Suc_conv_app_nth [of k es]
  have below: "poc_le x (es ! k)" if "x \<in> set (take k es)" for x
    using Suc.prems s that by (simp add: sorted_wrt_append)
  show ?case
  proof (cases "poc_le (es ! k) e")
    case True
    have le: "poc_le x e" if "x \<in> set (take (Suc k) es)" for x
    proof (cases "x \<in> set (take k es)")
      case True
      with below [OF this] \<open>poc_le (es ! k) e\<close> show ?thesis by (simp add: poc_le_def)
    next
      case False
      with that s Suc.prems(1) \<open>poc_le (es ! k) e\<close> show ?thesis by simp
    qed
    have "\<forall>j < k. poc_le (es ! j) e"
    proof (intro allI impI)
      fix j assume "j < k"
      then show "poc_le (es ! j) e"
        using le [of "take (Suc k) es ! j"] nth_mem [of j "take (Suc k) es"] Suc.prems(1) by simp
    qed
    then have "insert_entry (Suc k) e es = es"
      using True by (simp add: insert_entry_id)
    moreover have "sorted_wrt poc_le (take (Suc k + 1) es)"
      using take_Suc_conv_app_nth [OF Suc.prems(1)] Suc.prems(2,3) le by (simp add: sorted_wrt_append)
    ultimately show ?thesis by simp
  next
    case False
    let ?es = "es[k + 1 := es ! k, k := e]"
    have i: "insert_entry (Suc k) e es = insert_entry k e ?es"
      using False by simp
    have IH: "mset (insert_entry k e ?es) = mset ?es" "sorted_wrt poc_le (take (k + 1) (insert_entry k e ?es))"
      "drop (k + 1) (insert_entry k e ?es) = drop (k + 1) ?es"
      using Suc.IH [of ?es] Suc.prems s by (simp_all add: sorted_wrt_append)
    have m: "mset ?es = mset es"
      using mset_swap_entries [of k es "k + 1"] Suc.prems by simp
    have d: "drop (k + 1) ?es = es ! k # drop (k + 2) es"
    proof -
      have "k + 1 < length ?es" "?es ! (k + 1) = es ! k" "drop (k + 2) ?es = drop (k + 2) es"
        using Suc.prems(1) by simp_all
      then show ?thesis
        using Cons_nth_drop_Suc [of "k + 1" ?es] by simp
    qed
    let ?r = "insert_entry k e ?es"
    have t: "take (k + 2) ?r = take (k + 1) ?r @ [es ! k]"
    proof -
      have "take (k + 2) ?r = take (k + 1) ?r @ take 1 (drop (k + 1) ?r)"
        using take_add [of "k + 1" 1 ?r] by (simp only: add.assoc one_add_one)
      then show ?thesis using IH(3) d by simp
    qed
    have "mset (take (k + 1) ?r) = mset (take (k + 1) ?es)"
      by (rule mset_take_eq [OF IH(1,3)])
    moreover have "take (k + 1) ?es = take k es @ [e]"
      using Suc.prems(1) take_Suc_conv_app_nth [of k ?es] by simp
    ultimately have "set (take (k + 1) ?r) = set (take k es @ [e])"
      by (metis mset_eq_setD)
    then have "\<forall>x \<in> set (take (k + 1) ?r). poc_le x (es ! k)"
      using below False by (auto simp: poc_le_def)
    then have "sorted_wrt poc_le (take (k + 2) ?r)"
      using IH(2) unfolding t by (simp add: sorted_wrt_append)
    moreover have "drop (k + 2) ?r = drop (k + 2) es"
      using arg_cong [OF IH(3), of "drop 1"] d by simp
    ultimately show ?thesis
      using i IH(1) m by simp
  qed
qed

lemma sort_rps_sorts:
  assumes "rps_ok r" "n \<le> rps_array"
  shows "rps_ok (sort_rps n r) \<and> mset (entries (sort_rps n r)) = mset (entries r)
    \<and> sorted_wrt poc_le (take n (entries (sort_rps n r))) \<and> drop n (entries (sort_rps n r)) = drop n (entries r)"
proof -
  let ?f = "\<lambda>i r. insert_back i (au32DeltaPoc r ! i) (au8Used r ! i) r"
  have "rps_ok (fold ?f [1..<m] r) \<and> mset (entries (fold ?f [1..<m] r)) = mset (entries r)
    \<and> sorted_wrt poc_le (take m (entries (fold ?f [1..<m] r))) \<and> drop m (entries (fold ?f [1..<m] r)) = drop m (entries r)"
    if "m \<le> rps_array" for m
    using that
  proof (induction m)
    case 0
    then show ?case using assms(1) by simp
  next
    case (Suc m)
    show ?case
    proof (cases m)
      case 0
      then show ?thesis
        using assms(1) Suc.prems by (cases "entries r") auto
    next
      case (Suc m')
      define R where "R = fold ?f [1..<m] r"
      have r: "rps_ok R" "mset (entries R) = mset (entries r)" "sorted_wrt poc_le (take m (entries R))"
        "drop m (entries R) = drop m (entries r)" and m: "m < rps_array"
        using Suc.IH Suc.prems by (simp_all add: R_def)
      let ?e = "entries R ! m"
      have b: "entries (?f m R) = insert_entry m ?e (entries R)" "rps_ok (?f m R)"
        using insert_back_entries [OF r(1) m] entries_nth [OF r(1) m] by simp_all
      have s: "fold ?f [1..<Suc m] r = ?f m R"
        using Suc unfolding R_def by (simp only: upt_Suc_append) (simp add: upt_Suc_append)
      have "drop (Suc m) (entries R) = drop (Suc m) (entries r)"
        using arg_cong [OF r(4), of "drop 1"] by simp
      then show ?thesis
        using insert_entry_sorts [of m "entries R" ?e] r(1,2,3) m unfolding s by (simp add: b)
    qed
  qed
  from this [OF assms(2)] show ?thesis by (simp add: sort_rps_def)
qed

section \<open>Turning the negative part round\<close>

lemma flip_entries:
  assumes "rps_ok r" "n \<le> rps_array"
  shows "rps_ok (flip_negative n r) \<and> entries (flip_negative n r) = rev (take n (entries r)) @ drop n (entries r)"
proof -
  let ?f = "\<lambda>i. swap_entries i (n - 1 - i)"
  let ?g = "\<lambda>j p. if p < j \<or> n - 1 - p < j \<and> p < n then n - 1 - p else p"
  have step: "rps_ok (fold ?f [0..<j] r) \<and> (\<forall>p < rps_array. entries (fold ?f [0..<j] r) ! p = entries r ! ?g j p)"
    if "j \<le> n div 2" for j
    using that
  proof (induction j)
    case 0
    then show ?case using assms(1) by simp
  next
    case (Suc j)
    define R where "R = fold ?f [0..<j] r"
    have r: "rps_ok R" "\<And>p. p < rps_array \<Longrightarrow> entries R ! p = entries r ! ?g j p" and j: "j < n - 1 - j" "n - 1 - j < rps_array"
      using Suc assms(2) unfolding R_def by (auto simp: less_Suc_eq)
    have e: "entries (?f j R) = (entries R)[j := entries R ! (n - 1 - j), n - 1 - j := entries R ! j]"
      using j r(1) by (simp add: swap_entries_def entries_set entries_nth)
    have "rps_ok (?f j R)"
      using r(1) by (simp add: swap_entries_def)
    moreover have "entries (?f j R) ! p = entries r ! ?g (Suc j) p" if "p < rps_array" for p
    proof -
      consider "p = j" | "p = n - 1 - j" | "p \<noteq> j" "p \<noteq> n - 1 - j" by blast
      then show ?thesis
      proof cases
        case 3
        then have "?g (Suc j) p = ?g j p"
          using j by (auto simp: less_Suc_eq)
        moreover have "entries (?f j R) ! p = entries R ! p"
          using 3 unfolding e by simp
        ultimately show ?thesis
          using r(2) [OF that] by simp
      next
        case 1
        then show ?thesis
          unfolding e using r(1) r(2) [of "n - 1 - j"] j by simp
      next
        case 2
        then show ?thesis
          unfolding e using r(1) r(2) [of j] j by simp
      qed
    qed
    moreover have "fold ?f [0..<Suc j] r = ?f j R"
      by (simp add: R_def)
    ultimately show ?case by metis
  qed
  let ?r = "flip_negative n r"
  have ok: "rps_ok ?r" and nth: "\<And>p. p < rps_array \<Longrightarrow> entries ?r ! p = entries r ! ?g (n div 2) p"
    using step [of "n div 2"] by (simp_all add: flip_negative_def)
  have "entries ?r = rev (take n (entries r)) @ drop n (entries r)"
  proof (rule nth_equalityI)
    show "length (entries ?r) = length (rev (take n (entries r)) @ drop n (entries r))"
      using ok assms by simp
    fix p assume "p < length (entries ?r)"
    then have p: "p < rps_array" using ok by simp
    show "entries ?r ! p = (rev (take n (entries r)) @ drop n (entries r)) ! p"
    proof (cases "p < n")
      case True
      have "?g (n div 2) p = n - 1 - p"
        using True by (auto) 
      then show ?thesis
        using True p nth assms by (simp add: nth_append rev_nth)
    next
      case False
      then have g: "?g (n div 2) p = p" by auto
      have "entries ?r ! p = entries r ! p"
        using nth [OF p] unfolding g .
      then show ?thesis
        using False assms by (simp add: nth_append)
    qed
  qed
  with ok show ?thesis by simp
qed

section \<open>Reading the entries\<close>

text \<open>
  The bits of an entry: whether it is used by the current picture and, if not, whether it is kept at
  all. The entry behind the last of the reference stands for the reference picture itself.
\<close>

fun flag_bits :: "bool \<times> bool \<Rightarrow> bool list" where
  "flag_bits (used, use_delta) = (if used then [True] else [False, use_delta])"

definition predicted_poc :: "T_ShortTermRPS \<Rightarrow> i32 \<Rightarrow> nat \<Rightarrow> i32" where
  "predicted_poc ref d i = (if int i < sint (iNumDeltaPocs ref) then d + au32DeltaPoc ref ! i else d)"

fun kept_entries :: "T_ShortTermRPS \<Rightarrow> i32 \<Rightarrow> nat list \<Rightarrow> (bool \<times> bool) list \<Rightarrow> rps_entry list" where
  "kept_entries ref d (i # is) ((used, use_delta) # fs) =
     (if used \<or> use_delta then [(predicted_poc ref d i, of_bool used)] else []) @ kept_entries ref d is fs"
| "kept_entries ref d _ _ = []"

fun write_kept :: "T_ShortTermRPS \<Rightarrow> i32 \<Rightarrow> nat list \<Rightarrow> (bool \<times> bool) list \<Rightarrow> nat \<Rightarrow> T_ShortTermRPS \<Rightarrow> T_ShortTermRPS" where
  "write_kept ref d (i # is) ((used, use_delta) # fs) k r =
     (if used \<or> use_delta then write_kept ref d is fs (k + 1) (set_poc k (predicted_poc ref d i) (set_used k (of_bool used) r))
      else write_kept ref d is fs k (set_used k (of_bool used) r))"
| "write_kept ref d _ _ k r = r"

definition is_negative :: "rps_entry \<Rightarrow> bool" where
  "is_negative e \<longleftrightarrow> sint (fst e) < 0"

lemma yields_store:
  assumes "at s q r" "k < n" "\<And>s'. at s' q (g r) \<Longrightarrow> yields m s' v q' r'"
  shows "yields (andthen (steps [in_array k n, put g]) m) s v q' r'"
proof -
  have "at (s\<lparr>ss_sps := g (ss_sps s)\<rparr>) q (g r)"
    using assms(1) by (simp add: at_def)
  from assms(3) [OF this] show ?thesis
    using assms(2) by (simp add: yields_def andthen_def ebind_def in_array_def put_def)
qed

lemma ucast_flag: "(ucast (of_bool b :: i32) :: u8) = of_bool b"
  by (cases b) simp_all

lemma predict_entry_yields:
  assumes "at s (flag_bits (b, c) @ q) r" "k < rps_array" "i < rps_array"
  shows "yields (predict_entry ref d i k u) s
    (if b \<or> c then Some (predicted_poc ref d i) else None, if b then u else of_bool c) q
    (let r = set_used k (of_bool b) r in if b \<or> c then set_poc k (predicted_poc ref d i) r else r)"
proof -
  let ?p = "predicted_poc ref d i" and ?r = "set_used k (of_bool b) r"
  have poc: "(if int i < sint (iNumDeltaPocs ref) then andthen (in_array i rps_array) (eret (d + au32DeltaPoc ref ! i))
      else eret d) = (eret ?p :: (T_ShortTermRPS, i32) parse_m)"
    using assms(3) by (simp add: predicted_poc_def andthen_def in_array_def ebind_def fun_eq_iff)
  have keep: "yields (andthen (steps [in_array k rps_array, put (set_poc k ?p)]) (eret (Some ?p, w))) s' (Some ?p, w) q (set_poc k ?p ?r)"
    if "at s' q ?r" for s' w
    by (rule yields_store [OF that assms(2)], rule yields_ret)
  show ?thesis
  proof (cases b)
    case True
    then have at: "at s (True # q) r" using assms(1) by simp
    show ?thesis
      unfolding predict_entry_def Let_def poc
      by (rule yields_bit1 [OF at], unfold ucast_flag, rule yields_store [OF _ assms(2)], assumption)
        (use keep True in \<open>auto intro!: yields_eret_bind\<close>)
  next
    case False
    then have at: "at s (False # c # q) r" using assms(1) by simp
    have read: "yields (if (of_bool False :: u8) = 0 then ebind bit1 (\<lambda>u. eret (ucast u)) else eret u) s' (of_bool c :: u8) q ?r"
      if "at s' (c # q) ?r" for s'
    proof -
      have "yields (ebind bit1 (\<lambda>u. eret (ucast u))) s' (of_bool c :: u8) q ?r"
        by (rule yields_bit1 [OF that], unfold ucast_flag, rule yields_ret)
      then show ?thesis by (simp only: of_bool_eq(1) refl if_True)
    qed
    show ?thesis
      unfolding predict_entry_def Let_def poc
      by (rule yields_bit1 [OF at], unfold ucast_flag, rule yields_store [OF _ assms(2)], assumption,
          rule yields_bind [OF read]) (use keep False in \<open>auto intro!: yields_eret_bind yields_ret\<close>)
  qed
qed

lemma predict_yields:
  assumes "at s (concat (map flag_bits fs) @ q) r" "length fs = length is" "\<forall>i \<in> set is. i < rps_array"
    "k + length is \<le> rps_array"
  shows "yields (predict_entries ref d is k k0 u) s
    (k + length (kept_entries ref d is fs), k0 + length (filter is_negative (kept_entries ref d is fs))) q
    (write_kept ref d is fs k r)"
  using assms
proof (induction "is" arbitrary: fs s r k k0 u)
  case Nil
  then show ?case by (simp add: yields_def)
next
  case (Cons i "is")
  then obtain b c fs' where fs: "fs = (b, c) # fs'" by (cases fs) auto
  have at: "at s (flag_bits (b, c) @ concat (map flag_bits fs') @ q) r" and k: "k < rps_array" "i < rps_array"
    using Cons.prems fs by (simp_all del: flag_bits.simps)
  have IH: "yields (predict_entries ref d is k' k0' u') s'
      (k' + length (kept_entries ref d is fs'), k0' + length (filter is_negative (kept_entries ref d is fs'))) q
      (write_kept ref d is fs' k' r')"
    if "at s' (concat (map flag_bits fs') @ q) r'" "k' \<le> k + 1" for s' k' k0' u' r'
    by (rule Cons.IH [OF that(1)]) (use Cons.prems fs that(2) in simp_all)
  have neg: "is_negative (v, x) \<longleftrightarrow> sint v < 0" for v x
    by (simp add: is_negative_def)
  note I = IH [of _ _ "k + 1" "k0 + 1"] IH [of _ _ "k + 1" k0] IH [of _ _ k k0]
  show ?case
    unfolding predict_entries.simps
    by (rule yields_bind [OF predict_entry_yields [OF at k]]) (use I in \<open>auto simp: fs neg Let_def\<close>)
qed

lemma entries_write_kept:
  assumes "rps_ok r" "length fs = length is" "k + length is \<le> rps_array"
  shows "rps_ok (write_kept ref d is fs k r)
    \<and> take (k + length (kept_entries ref d is fs)) (entries (write_kept ref d is fs k r)) = take k (entries r) @ kept_entries ref d is fs"
  using assms
proof (induction "is" arbitrary: fs k r)
  case Nil
  then show ?case by simp
next
  case (Cons i "is")
  then obtain b c fs' where fs: "fs = (b, c) # fs'" by (cases fs) auto
  let ?r = "set_used k (of_bool b) r" and ?p = "predicted_poc ref d i"
  have k: "k < rps_array" "length fs' = length is" "k + 1 + length is \<le> rps_array" using Cons.prems fs by simp_all
  have ok: "rps_ok ?r" "rps_ok (set_poc k ?p ?r)" using Cons.prems by simp_all
  have e: "entries (set_poc k ?p ?r) = (entries r)[k := (?p, of_bool b)]"
    by (simp add: entries_def set_poc_def set_used_def update_zip)
  have u: "take k (entries ?r) = take k (entries r)"
    by (simp add: entries_def set_used_def take_zip)
  have t: "take (k + 1) ((entries r)[k := v]) = take k (entries r) @ [v]" for v
    using Cons.prems(1) k(1) by (simp add: take_Suc_conv_app_nth)
  have "k + length is \<le> rps_array" using k(3) by simp
  then show ?case
    using Cons.IH [OF ok(1) k(2), of k] Cons.IH [OF ok(2) k(2,3)] t [of "(?p, of_bool b)"]
    by (cases "b \<or> c") (simp_all add: fs e u)
qed

text \<open>A sorted list is its negative part followed by the rest.\<close>

lemma sorted_split: "sorted_wrt poc_le es \<Longrightarrow> es = filter is_negative es @ filter (\<lambda>e. \<not> is_negative e) es"
proof (induction es)
  case (Cons e es)
  then have "filter is_negative es = []" if "\<not> is_negative e"
    using that by (auto simp: filter_empty_conv is_negative_def poc_le_def)
  then show ?case
    using Cons by (cases "is_negative e") auto
qed simp

definition rps_entries :: "T_ShortTermRPS \<Rightarrow> rps_entry list" where
  "rps_entries r = take (unat (iNumDeltaPocs r)) (entries r)"

lemma arranged:
  assumes "rps_ok r" "n \<le> rps_array" "k0 = length (filter is_negative (take n (entries r)))"
  defines "r' \<equiv> flip_negative k0 (sort_rps n r)"
  obtains neg pos where "take n (entries r') = rev neg @ pos" "mset (neg @ pos) = mset (take n (entries r))"
    "sorted_wrt poc_le neg" "sorted_wrt poc_le pos" "length neg = k0"
    "\<forall>e \<in> set neg. is_negative e" "\<forall>e \<in> set pos. \<not> is_negative e"
proof -
  let ?s = "sort_rps n r"
  let ?L = "take n (entries ?s)"
  have s: "rps_ok ?s" "mset (entries ?s) = mset (entries r)" "sorted_wrt poc_le ?L" "drop n (entries ?s) = drop n (entries r)"
    using sort_rps_sorts [OF assms(1,2)] by simp_all
  have m: "mset ?L = mset (take n (entries r))"
    by (rule mset_take_eq [OF s(2,4)])
  let ?neg = "filter is_negative ?L" and ?pos = "filter (\<lambda>e. \<not> is_negative e) ?L"
  have L: "?L = ?neg @ ?pos"
    by (rule sorted_split [OF s(3)])
  have l: "length ?neg = k0"
    using arg_cong [OF m, of "\<lambda>M. size (filter_mset is_negative M)"] assms(3) by (simp flip: mset_filter)
  have k: "k0 \<le> n" "k0 \<le> rps_array"
    using assms(2) l length_filter_le [of is_negative ?L] s(1) by simp_all
  have f: "entries r' = rev (take k0 (entries ?s)) @ drop k0 (entries ?s)"
    using flip_entries [OF s(1) k(2)] by (simp add: r'_def)
  have "take k0 (entries ?s) = take k0 ?L" "take (n - k0) (drop k0 (entries ?s)) = drop k0 ?L"
    using k(1) by (simp_all add: min_def drop_take)
  then have "take k0 (entries ?s) = ?neg" "take (n - k0) (drop k0 (entries ?s)) = ?pos"
    using L l by (metis append_eq_conv_conj)+
  then have "take n (entries r') = rev ?neg @ ?pos"
    using l k(1) by (simp add: f)
  moreover have "mset (?neg @ ?pos) = mset (take n (entries r))"
    using L m by simp
  ultimately show thesis
    by (rule that) (use s(3) l in \<open>simp_all add: sorted_wrt_filter\<close>)
qed

section \<open>The predicted set\<close>

text \<open>Sorting leaves the counts alone.\<close>

lemma counts_set:
  "iNumDeltaPocs (set_poc k v r) = iNumDeltaPocs r" "iNumDeltaPocs (set_used k u r) = iNumDeltaPocs r"
  "uiNumNegativePics (set_poc k v r) = uiNumNegativePics r" "uiNumNegativePics (set_used k u r) = uiNumNegativePics r"
  by (simp_all add: set_poc_def set_used_def)

lemma counts_kept:
  "iNumDeltaPocs (flip_negative n r) = iNumDeltaPocs r" "iNumDeltaPocs (sort_rps m r) = iNumDeltaPocs r"
  "uiNumNegativePics (flip_negative n r) = uiNumNegativePics r" "uiNumNegativePics (sort_rps m r) = uiNumNegativePics r"
proof -
  have i: "iNumDeltaPocs (insert_back k p u r) = iNumDeltaPocs r \<and> uiNumNegativePics (insert_back k p u r) = uiNumNegativePics r" for k p u r
    by (induction k arbitrary: r) (simp_all add: Let_def counts_set)
  have s: "iNumDeltaPocs (fold (\<lambda>i r. insert_back i (au32DeltaPoc r ! i) (au8Used r ! i) r) is r) = iNumDeltaPocs r
      \<and> uiNumNegativePics (fold (\<lambda>i r. insert_back i (au32DeltaPoc r ! i) (au8Used r ! i) r) is r) = uiNumNegativePics r" for "is" r
    by (induction "is" arbitrary: r) (simp_all add: i)
  have f: "iNumDeltaPocs (fold (\<lambda>i. swap_entries i (n - 1 - i)) is r) = iNumDeltaPocs r
      \<and> uiNumNegativePics (fold (\<lambda>i. swap_entries i (n - 1 - i)) is r) = uiNumNegativePics r" for "is" r
    by (induction "is" arbitrary: r) (simp_all add: swap_entries_def counts_set)
  show "iNumDeltaPocs (flip_negative n r) = iNumDeltaPocs r" "iNumDeltaPocs (sort_rps m r) = iNumDeltaPocs r"
    "uiNumNegativePics (flip_negative n r) = uiNumNegativePics r" "uiNumNegativePics (sort_rps m r) = uiNumNegativePics r"
    unfolding flip_negative_def sort_rps_def using s f by simp_all
qed

lemma abs_delta:
  assumes "1 \<le> a" "a \<le> 32768"
  shows "word_of_nat (a - 1) + 1 = (word_of_nat a :: u32)" "\<not> ((word_of_nat a :: u32) < 1 \<or> (word_of_nat a :: u32) > 32768)"
  using assms word_compare(2) [of a 1] word_compare(2) [of 32768 a] by (simp_all add: of_nat_diff)

lemma signed_delta:
  "(1 - push_bit 1 (ucast (of_bool sg :: u8))) * word_of_nat a = (if sg then - word_of_nat a else word_of_nat a :: i32)"
  by (cases sg) simp_all

lemma rps_predicted_exec:
  assumes "at s (sg # ue_bits (a - 1) @ concat (map flag_bits fs) @ q) r" "1 \<le> a" "a \<le> 32768"
    and fs: "length fs = nat (sint (iNumDeltaPocs ref) + 1)" "length fs \<le> rps_array"
  defines "d \<equiv> (if sg then - word_of_nat a else word_of_nat a)"
  defines "K \<equiv> kept_entries ref d [0..<length fs] fs" and "r1 \<equiv> write_kept ref d [0..<length fs] fs 0 r"
  assumes K: "length K < rps_array"
  shows "yields (rps_predicted ref) s 0 q (flip_negative (length (filter is_negative K)) (sort_rps (length K)
    (r1\<lparr>iNumDeltaPocs := word_of_nat (length K), uiNumNegativePics := word_of_nat (length (filter is_negative K))\<rparr>)))"
proof -
  have n: "a - 1 + 1 < 2 ^ 26" using assms(2,3) by simp
  have k: "\<not> length K \<ge> rps_array" using K by simp
  show ?thesis
    unfolding rps_predicted_def Let_def andthen_def fs(1) [symmetric]
    by (rule yields_bit1 [OF assms(1)], rule yields_ue [OF _ n], assumption,
        unfold abs_delta(1) [OF assms(2,3)] if_not_P [OF abs_delta(2) [OF assms(2,3)]] ucast_flag signed_delta,
        fold d_def, rule yields_bind [OF predict_yields], assumption, simp, use fs(2) in simp, use fs(2) in simp,
        fold K_def r1_def, unfold add_0 prod.case if_not_P [OF k], rule yields_put, assumption, rule yields_ret)
qed

text \<open>C39: A short-term reference picture set that is predicted from the one before it: the entries of
  the reference that are kept, moved by the difference that was read, and the reference picture itself if it
  is kept. After the two loops that sort, the negative values come first, nearest picture first, and the others
  follow in increasing order; no entry is lost and each keeps its flag.\<close>

theorem predicted_reference_set:
  assumes "at s (True # sg # ue_bits (a - 1) @ concat (map flag_bits fs) @ q) r" "rps_ok r" "1 \<le> a" "a \<le> 32768"
    and "nb \<noteq> 0" "i < HEVC_MAX_SHORT_TERM_RPS_COUNT" "length fs = nat (sint (iNumDeltaPocs (sets ! i)) + 1)"
    and "length fs \<le> rps_array"
    and "K = kept_entries (sets ! i) (if sg then - word_of_nat a else word_of_nat a) [0..<length fs] fs" "length K < rps_array"
  shows "\<exists>s' neg pos. hevcDecodeShortTermRps (Some (i + 1)) nb sets False s = (Inr 0, s') \<and> bits_left (ss_ctx s') = q
    \<and> rps_entries (ss_sps s') = rev neg @ pos \<and> mset (neg @ pos) = mset K
    \<and> sorted_wrt poc_le neg \<and> sorted_wrt poc_le pos \<and> uiNumNegativePics (ss_sps s') = word_of_nat (length neg)
    \<and> (\<forall>e \<in> set neg. is_negative e) \<and> (\<forall>e \<in> set pos. \<not> is_negative e)"
proof -
  let ?ref = "sets ! i" and ?d = "if sg then - word_of_nat a else word_of_nat a :: i32"
  let ?n = "length K" and ?k = "length (filter is_negative K)" and ?r1 = "write_kept (sets ! i) ?d [0..<length fs] fs 0 r"
  let ?r2 = "?r1\<lparr>iNumDeltaPocs := word_of_nat ?n, uiNumNegativePics := word_of_nat ?k\<rparr>"
  let ?r' = "flip_negative ?k (sort_rps ?n ?r2)"
  have ok: "rps_ok ?r2" and take: "take ?n (entries ?r2) = K"
    using entries_write_kept [OF assms(2), of fs "[0..<length fs]" 0 ?ref ?d] assms(8,9) by simp_all
  have "yields (hevcDecodeShortTermRps (Some (i + 1)) nb sets False) s 0 q ?r'"
  proof -
    have p: "yields (rps_predicted ?ref) s' 0 q ?r'"
      if "at s' (sg # ue_bits (a - 1) @ concat (map flag_bits fs) @ q) r" for s'
      using rps_predicted_exec [OF that assms(3,4,7,8)] assms(9,10) by simp
    have ref: "rps_reference (Some (i + 1)) nb sets False = eret ?ref"
      using assms(6) by (simp add: rps_reference_def andthen_def in_array_def ebind_def fun_eq_iff)
    have c: "(Some (i + 1) \<noteq> Some 0 \<and> nb \<noteq> 0) = True"
      using assms(5) by simp
    have h: "hevcDecodeShortTermRps (Some (i + 1)) nb sets False
        = ebind bit1 (\<lambda>p. if (ucast p :: u8) \<noteq> 0 then ebind (eret ?ref) rps_predicted else rps_explicit)"
      unfolding hevcDecodeShortTermRps_def ref c by (simp only: if_True)
    show ?thesis
      unfolding h
      by (rule yields_bit1 [OF assms(1)], unfold ucast_flag, rule yields_then, simp, rule yields_eret_bind, rule p, assumption)
  qed
  then obtain s' where s': "hevcDecodeShortTermRps (Some (i + 1)) nb sets False s = (Inr 0, s')" "at s' q ?r'"
    by (auto simp: yields_def)
  obtain neg pos where np: "take ?n (entries ?r') = rev neg @ pos" "mset (neg @ pos) = mset (take ?n (entries ?r2))"
    "sorted_wrt poc_le neg" "sorted_wrt poc_le pos" "length neg = ?k" "\<forall>e \<in> set neg. is_negative e" "\<forall>e \<in> set pos. \<not> is_negative e"
    by (rule arranged [OF ok _, of ?n ?k]) (use assms(10) take in simp_all)
  have counts: "iNumDeltaPocs ?r' = word_of_nat ?n" "uiNumNegativePics ?r' = word_of_nat ?k"
    by (simp_all add: counts_kept)
  have "unat (word_of_nat ?n :: i32) = ?n"
    using assms(10) word_small(1) [of ?n] by (simp add: rps_array_def)
  then have "rps_entries (ss_sps s') = rev neg @ pos \<and> bits_left (ss_ctx s') = q \<and> uiNumNegativePics (ss_sps s') = word_of_nat (length neg)"
    using s'(2) np(1,5) counts by (simp add: at_def rps_entries_def)
  moreover have "mset (neg @ pos) = mset K"
    using np(2) take by simp
  ultimately show ?thesis
    using s'(1) np(3,4,6,7) by blast
qed

text \<open>
  A reference of two entries, -1 and 1, moved by -1, with all three entries used: -2, 0 and -1 are read,
  and come out as -1, -2, 0.
\<close>

definition example_reference :: T_ShortTermRPS where
  "example_reference = zero_rps\<lparr>iNumDeltaPocs := 2, uiNumNegativePics := 1, au32DeltaPoc := [- 1, 1] @ replicate 30 0,
     au8Used := [1, 1] @ replicate 30 0\<rparr>"

definition example_state :: "T_ShortTermRPS parse_state" where
  "example_state = \<lparr>ss_ctx = \<lparr>pu8Buf = [0xFC], iBufSize = 1, iTotalBit = 8, iBitPos = 0, iCurBitPos = 0\<rparr>, ss_sps = zero_rps\<rparr>"

theorem predicted_reference_set_witness:
  "\<exists>s' neg pos. hevcDecodeShortTermRps (Some 1) 2 [example_reference] False example_state = (Inr 0, s')
    \<and> bits_left (ss_ctx s') = [False, False] \<and> rps_entries (ss_sps s') = rev neg @ pos
    \<and> mset (neg @ pos) = {#(- 2, 1), (0, 1), (- 1, 1)#} \<and> sorted_wrt poc_le neg \<and> length neg = 2"
proof -
  let ?fs = "[(True, False), (True, False), (True, False)]"
  let ?K = "[(- 2, 1), (0, 1), (- 1, 1)] :: rps_entry list"
  have at: "at example_state (True # True # ue_bits (1 - 1) @ concat (map flag_bits ?fs) @ [False, False]) zero_rps"
    unfolding at_def ctx_ok_def by code_simp
  have n: "nat (sint (iNumDeltaPocs ([example_reference] ! 0)) + 1) = 3"
    by code_simp
  have K: "?K = kept_entries ([example_reference] ! 0) (if True then - word_of_nat 1 else word_of_nat 1) [0..<length ?fs] ?fs"
    by code_simp
  obtain s' neg pos where s': "hevcDecodeShortTermRps (Some (0 + 1)) 2 [example_reference] False example_state = (Inr 0, s')"
    "bits_left (ss_ctx s') = [False, False]" "rps_entries (ss_sps s') = rev neg @ pos" "mset (neg @ pos) = mset ?K"
    "sorted_wrt poc_le neg" "\<forall>e \<in> set neg. is_negative e" "\<forall>e \<in> set pos. \<not> is_negative e"
  proof -
    have "rps_ok zero_rps"
      by (simp add: rps_ok_def zero_rps_def rps_array_def)
    then show thesis
      using predicted_reference_set [OF at _ _ _ _ _ _ _ K, of 2] n that
      by (auto simp del: kept_entries.simps simp add: rps_array_def HEVC_MAX_SHORT_TERM_RPS_COUNT_def)
  qed
  have "filter is_negative (neg @ pos) = neg"
    using s'(6,7) by (auto simp: filter_empty_conv)
  then have "length neg = size (filter_mset is_negative (mset (neg @ pos)))"
    by (metis mset_filter size_mset)
  then have "length neg = 2"
    unfolding s'(4) by (simp add: is_negative_def)
  then show ?thesis
    using s' by auto
qed

end
