(* ===== verification/Spec2Isabelle.thy ===== *)
theory Spec2Isabelle
  imports Sessions Pooled_Header Resource_Pool Hevc_Safety Hevc_Rps
begin

text \<open>
  A verification development for the streaming server: publishers push a stream over RTMP, viewers pull it
  over HTTP as FLV.

  \<^bold>\<open>The program and its theories.\<close> The parts under \<open>src/\<close> and the theories that
  model them, from the bytes upwards:

  \<^item> \<^bold>\<open>Bytes.\<close> \<open>Prelude\<close> has the machine types, exceptions as values (\<open>'a res\<close>,
    and \<open>('s, 'a) eff\<close> where the state survives the exception) and the bytes of strings;
    \<open>Byte_Order\<close> the loads and stores of \<open>util/util.cpp\<close>; \<open>Std_String\<close> the searches of
    \<open>std::string\<close>. \<open>Flat_Buffer\<close> is \<open>network/flat_buffer.h\<close>, the queue of bytes under
    every parser, with its memory explicit. \<open>Raw_Buffer\<close>, \<open>Resource_Pool\<close> and
    \<open>Pooled_Header\<close> are \<open>network/buffer.h\<close>, \<open>util/resource_pool.h\<close> and the headers
    that are built in pooled buffers.
  \<^item> \<^bold>\<open>Codecs.\<close> \<open>Frame\<close>, \<open>Aac_Track\<close>, \<open>H264_Track\<close> and \<open>Rtmp_Codec\<close>
    turn messages into frames (\<open>codec/\<close>, \<open>protocol/rtmp/*_rtmp.cpp\<close>,
    \<open>rtmp_demuxer.cpp\<close>). \<open>Bit_Reader\<close>, \<open>Bit_Parser\<close>,
    \<open>Sps_Parser\<close>, \<open>Hevc_Sets\<close> and \<open>Hevc_Parser\<close> are \<open>codec/h264/SPSParser.c\<close>;
    \<open>Hevc_Safety\<close> shows its indices to be inside their arrays, \<open>Hevc_Rps\<close> what a predicted
    reference picture set is.
  \<^item> \<^bold>\<open>RTMP.\<close> \<open>Amf\<close> is \<open>amf.cpp\<close>, \<open>Rtmp_Packet\<close> a message.
    \<open>Rtmp_Chunk\<close> and \<open>Rtmp_Message\<close> cut messages into chunks and put them together again;
    \<open>Rtmp_Protocol\<close> is the rest of \<open>rtmp_protocol.cpp\<close>: handshake, commands, metadata, audio
    and video. \<open>Rtmp_Publish\<close> and \<open>Rtmp_Stream\<close> prove what a publisher's connection does.
  \<^item> \<^bold>\<open>Streams.\<close> \<open>Media_Info\<close> names a stream, \<open>Media_Source\<close> is the registry of
    sources and their ownership, \<open>Packet_Dispatcher\<close> caches the packets since the last key frame and
    hands them out, \<open>Timer\<close> measures, \<open>Rtmp_Media_Source\<close> is the source a publisher feeds.
  \<^item> \<^bold>\<open>HTTP.\<close> \<open>Flv_Muxer\<close> makes the calls of \<open>socket_sender::send\<close> that write FLV, \<open>Http_Flv_Header\<close> reads the request line,
    \<open>Http_Protocol\<close> answers and attaches a muxer to a source; \<open>Http_Stream\<close> proves what a viewer
    gets.
  \<^item> \<^bold>\<open>The server.\<close> \<open>Tcp_Session\<close> is \<open>network/session.cpp\<close>, the session map and
    \<open>tcp_server.cpp\<close> with the event loop of \<open>main.cpp\<close>; \<open>Sessions\<close> puts the two protocols
    into it.

  \<^bold>\<open>How the parts meet.\<close> The event loop reports reads, writes, connections and signals
  (\<open>'p net_event\<close>); \<open>handle_event\<close> runs one handler, and \<open>net_run\<close> is a run of the
  server. A read session passes its buffer to \<open>on_parse_rtmp\<close> or \<open>on_parse_http\<close>. On the RTMP
  side \<open>run_step\<close> walks through the handshake to \<open>split_rtmp\<close>, which calls
  \<open>handle_chunk\<close> for every message; audio and video go to \<open>process_av_packet\<close> of the source and
  from there, through its dispatcher, to the callbacks of the readers. On the HTTP side a request finds a
  source in the registry, and its muxer becomes a reader: the callback \<open>flv_on_packet\<close> sends tags on the
  viewer's connection.

  \<^bold>\<open>Sending.\<close> What a component does to a socket is the list of its calls of \<open>send\<close>: a
  \<open>send_call\<close> has the bytes its buffer holds at the call, whether the end of the connection is asked for behind
  it, and whose buffer it is (a literal, the payload of a packet, a pooled header, a local variable). The
  sessions turn each call into one write that is pending until the event loop reports its end; writes may overlap, end in
  any order and be cut short by the end of the session. The theorems on streams are about the calls and the
  bytes passed with them. Nothing is claimed of what arrives at a peer: \<open>gone_on_return\<close> marks the calls whose
  buffer does not outlive them, and two of three calls of each FLV tag and all response headers are
  of that kind.

  \<^bold>\<open>State.\<close> A class is a record with the members of the source under their names; what is shared
  through \<open>shared_ptr\<close> or a raw pointer is named by an address into a store (sources, media information,
  readers, connections, sessions). Addresses are not used again. Members the constructor leaves
  uninitialised are options. Undefined behaviour is the exception value \<open>Undefined\<close>, which no handler
  catches. Integers keep their width where they can wrap; sizes of memory blocks are natural numbers.

  \<^bold>\<open>Interfaces.\<close> \<open>int_codec\<close> (fixed-width integers), \<open>byte_queue\<close> (what parsers rely on
  in a buffer), \<open>amf_field\<close> and \<open>amf_field_exact\<close> (an encoded value), \<open>stream_registry\<close>
  (what is found after registering and erasing), \<open>emitting_readers\<close> (readers of a dispatcher that append
  to an output) and \<open>session_protocol\<close> (what a session needs of the protocol it runs) are locales. Each
  is interpreted on the model of the code that provides it: the byte orders, \<open>flat_buffer\<close>, the AMF values, the
  nested registry, the FLV readers and the readers behind HTTP connections, and the RTMP and the HTTP session.

  \<^bold>\<open>What is shown.\<close>
  \<^item> \<^bold>\<open>Transport:\<close> a buffer is a queue of bytes whatever its capacity does, reads stay within the
    room made for them where the place of a read is computed after its room; a stream of bytes may be cut anywhere; what \<open>send_rtmp\<close> writes is received as it
    was sent; AMF values, stream names, request lines and FLV files are read back as they were written, with the
    exceptions their properties name.
  \<^item> \<^bold>\<open>Publishing:\<close> handshake, ownership of a stream, registration on the first message that is no
    configuration, and the way of an audio or video message to every viewer. The registry and the sources stay
    in agreement under every message, command and end of a connection but a second \<open>publish\<close>, and of two sources of one
    name the second is refused until the first is gone.
  \<^item> \<^bold>\<open>Viewing:\<close> a request is refused with one answer, or leads to calls of \<open>send\<close> whose bytes are an FLV
    file of metadata, configuration, the packets since the last key frame and all later ones, in order and once; a
    stale registry entry gets two answers, and requests that are incomplete or cannot be parsed read behind the
    received bytes.
  \<^item> \<^bold>\<open>Codecs:\<close> frames and their times from RTMP messages, ADTS headers, decoder configuration,
    dimensions from a parameter set (those of the standard for frames, wrong ones for fields), for which payloads
    the removal of emulation prevention is right (no byte 3 behind an odd run of three or more zeros), the
    reference picture sets of HEVC.
  \<^item> \<^bold>\<open>Server:\<close> the invariant of sessions, buffers and the session map over every run; the handler
    of a signal ends every session of its server; the pool under every interleaving of its threads.
  \<^item> \<^bold>\<open>Errors:\<close> the theorems on failures state what the code does where it does not do what it
    means to: for example a second \<open>publish\<close> that leaves a dead registry entry, a rejected session that stays
    in the map, the null header in the destructor of an HTTP connection.

  \<^bold>\<open>Recursion and fuel.\<close> Loops are structural recursion or functions with a measure, so they are
  total; \<open>split_rtmp\<close> ends because every chunk takes at least its header. The loop of
  \<open>send_rtmp\<close> does not end for a chunk size of 0: there \<open>chunk_bytes\<close> is \<open>None\<close>, and the
  call \<open>Undefined\<close>. \<open>send_rtmp\<close>
  calls itself through \<open>send_acknowledgement\<close>; \<open>stack_depth\<close> bounds that recursion, and
  \<open>acknowledgement_recursion\<close> shows that every bound is used up once the window is reached, while with
  the window the code has (never set) a depth of one is enough.

  \<^bold>\<open>Two servers.\<close> The RTMP and the HTTP server share the registry, the counter of the session identifiers and the
  \<open>io_context\<close>. \<open>net_run\<close> is the run of one of them; what the other does is the event \<open>Elsewhere\<close>, with any
  effect on the shared part, and a signal whose handler ran there first is \<open>Other_Signal\<close>: it stops the loop, and this
  server's handler, which would close its sessions, does not run.

  \<^bold>\<open>Parameters.\<close> The clock (\<open>clock_at\<close>, readings as arguments), the dates of responses,
  \<open>rand\<close> of the handshake, the iteration order of hash maps, the order in which the arguments of a read are evaluated (\<open>room_first\<close>), the memory
  behind the received bytes, what the loop reports, and the callbacks of
  readers, which the HTTP side instantiates.

  \<^bold>\<open>Not modelled.\<close>
  \<^item> Sockets, name resolution, threads and the event loop itself are the environment. A handler is one step,
    as its strand makes it. Data races between handlers (the session map without its lock) are reported as a
    finding, not modelled.
  \<^item> What asynchronous writes deliver: some are given buffers that are gone by then, which is a finding.
  \<^item> \<open>util/singleton.h\<close> (a function-local static), \<open>magic_enum.hpp\<close> and
    \<open>BS_thread_pool.hpp\<close> (vendored), the empty \<open>media/muxer\<close>, the clock functions of
    \<open>util.cpp\<close>, test helpers, and the output of logs and dumps. (What a log line does
    besides is modelled: the text it leaves in \<open>media_info\<close>, the C string it reads of a request.)
  \<^item> Floating point: a \<open>double\<close> of AMF is its bits; the quotients of the frame rates are kept as their
    operands.
\<close>

end
